(* ===== verification/Prelude.thy ===== *)
theory Prelude
  imports Main "HOL-Library.Word" "HOL-Library.Char_ord" "HOL-Library.List_Lexorder"
    "HOL-Library.Sublist"
begin

text \<open>
  What every component theory shares: the exception values of the C++ standard library, the
  result type of a function that may throw, the operations of \<open>std::string\<close> the sources
  use, the character classes of the C locale, \<open>std::map\<close> as an ordered association list, and
  the locale that states the contract of such a map.

  A C++ \<open>std::string\<close> is a list of characters (bytes).  A position that may be
  \<open>npos\<close> is a \<open>nat option\<close>.  A \<open>size_t\<close> that the sources compute with is
  a 64-bit word; the length of a string is a \<open>nat\<close>.
\<close>

section \<open>Collections of facts\<close>

named_theorems str_defs \<open>definitions of the string operations\<close>
named_theorems res_simps \<open>how results that may be exceptions compose\<close>

section \<open>Machine integers and exceptions\<close>

type_synonym size_t = "64 word"

abbreviation size_max :: nat where
  "size_max \<equiv> 18446744073709551615"

lemma unat_size_t_le: "unat (w :: size_t) \<le> size_max"
proof -
  have "unat w < 2 ^ 64" using unsigned_less [of w] by simp
  then show ?thesis by simp
qed

text \<open>The standard exceptions the sources throw or let through; their messages are dropped.\<close>

datatype exn = Invalid_argument | Runtime_error | Out_of_range | Length_error

type_synonym 'a res = "exn + 'a"

definition rbind :: "'a res \<Rightarrow> ('a \<Rightarrow> 'b res) \<Rightarrow> 'b res" where
  "rbind m f = (case m of Inl e \<Rightarrow> Inl e | Inr a \<Rightarrow> f a)"

lemma rbind_simps [simp, res_simps]:
  "rbind (Inl e) f = Inl e"
  "rbind (Inr a) f = f a"
  by (simp_all add: rbind_def)

lemma rbind_eq_Inr [res_simps]:
  "(rbind m f = Inr b) \<longleftrightarrow> (\<exists>a. m = Inr a \<and> f a = Inr b)"
  by (cases m) simp_all

lemma rbind_eq_Inl [res_simps]:
  "(rbind m f = Inl e) \<longleftrightarrow> m = Inl e \<or> (\<exists>a. m = Inr a \<and> f a = Inl e)"
  by (cases m) simp_all

lemma rbind_cong [fundef_cong]:
  "m = m' \<Longrightarrow> (\<And>a. m' = Inr a \<Longrightarrow> f a = g a) \<Longrightarrow> rbind m f = rbind m' g"
  by (cases m') simp_all

section \<open>Characters of the C locale\<close>

definition code :: "char \<Rightarrow> nat" where
  "code c = of_char c"

lemma code_lt_256 [simp]: "code c < 256"
  by (simp add: code_def)

lemma char_of_code [simp]: "char_of (code c) = c"
  by (simp add: code_def)

lemma code_char_of [simp]: "code (char_of n) = n mod 256"
  by (simp add: code_def)

lemma code_eq_iff [simp]: "code c = code d \<longleftrightarrow> c = d"
  by (simp add: code_def)

definition isdigit :: "char \<Rightarrow> bool" where
  "isdigit c \<longleftrightarrow> 48 \<le> code c \<and> code c \<le> 57"

definition isupper :: "char \<Rightarrow> bool" where
  "isupper c \<longleftrightarrow> 65 \<le> code c \<and> code c \<le> 90"

definition islower :: "char \<Rightarrow> bool" where
  "islower c \<longleftrightarrow> 97 \<le> code c \<and> code c \<le> 122"

definition isxdigit :: "char \<Rightarrow> bool" where
  "isxdigit c \<longleftrightarrow> isdigit c \<or> (65 \<le> code c \<and> code c \<le> 70) \<or> (97 \<le> code c \<and> code c \<le> 102)"

definition isspace :: "char \<Rightarrow> bool" where
  "isspace c \<longleftrightarrow> code c = 32 \<or> (9 \<le> code c \<and> code c \<le> 13)"

definition tolower :: "char \<Rightarrow> char" where
  "tolower c = (if isupper c then char_of (code c + 32) else c)"

definition toupper :: "char \<Rightarrow> char" where
  "toupper c = (if islower c then char_of (code c - 32) else c)"

lemmas char_class_defs = isdigit_def isupper_def islower_def isxdigit_def isspace_def

lemma tolower_idem [simp]: "tolower (tolower c) = tolower c"
  by (auto simp: tolower_def isupper_def)

lemma toupper_idem [simp]: "toupper (toupper c) = toupper c"
  by (auto simp: toupper_def islower_def)

text \<open>A character as an unsigned byte, and back.\<close>

definition byte_of :: "char \<Rightarrow> 8 word" where
  "byte_of c = of_nat (code c)"

definition char_of_byte :: "8 word \<Rightarrow> char" where
  "char_of_byte w = char_of (unat w)"

lemma char_of_byte_of [simp]: "char_of_byte (byte_of c) = c"
  by (simp add: char_of_byte_def byte_of_def unat_of_nat)

lemma byte_of_char_of [simp]: "byte_of (char_of_byte w) = w"
proof -
  have "unat w < 256" using unsigned_less [of w] by simp
  then show ?thesis by (simp add: char_of_byte_def byte_of_def)
qed

lemma unat_byte_of [simp]: "unat (byte_of c) = code c"
  by (simp add: byte_of_def unat_of_nat)

abbreviation CR :: char where "CR \<equiv> CHR 0x0D"
abbreviation LF :: char where "LF \<equiv> CHR 0x0A"
abbreviation TAB :: char where "TAB \<equiv> CHR 0x09"
abbreviation BSL :: char where "BSL \<equiv> CHR 0x5C"
abbreviation DQ :: char where "DQ \<equiv> CHR 0x22"
abbreviation crlf :: string where "crlf \<equiv> [CHR 0x0D, CHR 0x0A]"


section \<open>Positions in strings\<close>

text \<open>The index of the first element that satisfies a predicate; \<open>None\<close> is \<open>npos\<close>.\<close>

fun idx_of :: "('a \<Rightarrow> bool) \<Rightarrow> 'a list \<Rightarrow> nat option" where
  "idx_of P [] = None"
| "idx_of P (x # xs) = (if P x then Some 0 else map_option Suc (idx_of P xs))"

lemma idx_of_None [simp]: "idx_of P xs = None \<longleftrightarrow> (\<forall>x \<in> set xs. \<not> P x)"
  by (induction xs) auto

lemma idx_of_Some: "idx_of P xs = Some i \<Longrightarrow> i < length xs \<and> P (xs ! i) \<and> (\<forall>x \<in> set (take i xs). \<not> P x)"
  by (induction xs arbitrary: i) (fastforce split: if_splits)+

lemma map_option_plus_0 [simp]: "map_option ((+) (0 :: nat)) x = x"
  by (cases x) simp_all

lemma idx_of_append:
  "\<forall>x \<in> set xs. \<not> P x \<Longrightarrow> idx_of P (xs @ ys) = map_option ((+) (length xs)) (idx_of P ys)"
  by (induction xs) (auto simp: option.map_comp comp_def intro: option.map_cong)

lemma idx_of_append_Some: "idx_of P xs = Some i \<Longrightarrow> idx_of P (xs @ ys) = Some i"
  by (induction xs arbitrary: i) (auto split: if_splits)

lemma idx_of_first: "\<forall>x \<in> set xs. \<not> P x \<Longrightarrow> P y \<Longrightarrow> idx_of P (xs @ y # ys) = Some (length xs)"
  by (simp add: idx_of_append)

text \<open>\<open>s.find(c, pos)\<close>, \<open>s.rfind(c)\<close> and \<open>s.substr(pos, n)\<close>.\<close>

definition find_char :: "string \<Rightarrow> char \<Rightarrow> nat \<Rightarrow> nat option" where
  "find_char s c pos = map_option (\<lambda>i. pos + i) (idx_of (\<lambda>x. x = c) (drop pos s))"

definition rfind_char :: "string \<Rightarrow> char \<Rightarrow> nat option" where
  "rfind_char s c = map_option (\<lambda>i. length s - 1 - i) (idx_of (\<lambda>x. x = c) (rev s))"

definition substr :: "string \<Rightarrow> nat \<Rightarrow> nat \<Rightarrow> string" where
  "substr s pos n = take n (drop pos s)"

lemma find_char_Some:
  assumes "find_char s c pos = Some i"
  shows "pos \<le> i" "i < length s" "s ! i = c" "c \<notin> set (substr s pos (i - pos))"
proof -
  from assms obtain k where k: "idx_of (\<lambda>x. x = c) (drop pos s) = Some k" and i: "i = pos + k"
    by (auto simp: find_char_def)
  from idx_of_Some [OF k] i
  show "pos \<le> i" "i < length s" "s ! i = c" "c \<notin> set (substr s pos (i - pos))"
    by (auto simp: substr_def)
qed

lemma find_char_None: "find_char s c pos = None \<longleftrightarrow> c \<notin> set (drop pos s)"
  by (auto simp: find_char_def)

lemma find_char_at:
  "length xs = pos \<Longrightarrow> c \<notin> set ys \<Longrightarrow> find_char (xs @ ys @ c # zs) c pos = Some (pos + length ys)"
  by (auto simp: find_char_def intro!: idx_of_first)

text \<open>\<open>s.find(pat, pos)\<close> for a string pattern.\<close>

fun find_sub :: "string \<Rightarrow> string \<Rightarrow> nat option" where
  "find_sub pat [] = (if pat = [] then Some 0 else None)"
| "find_sub pat (c # cs) =
     (if prefix pat (c # cs) then Some 0 else map_option Suc (find_sub pat cs))"

definition str_find :: "string \<Rightarrow> string \<Rightarrow> nat \<Rightarrow> nat option" where
  "str_find s pat pos =
     (if length s < pos then None else map_option (\<lambda>i. pos + i) (find_sub pat (drop pos s)))"

lemma find_sub_Some:
  "find_sub pat s = Some i \<Longrightarrow> prefix pat (drop i s) \<and> i + length pat \<le> length s"
proof (induction s arbitrary: i)
  case Nil
  then show ?case by (auto split: if_splits)
next
  case (Cons c cs)
  show ?case
  proof (cases "prefix pat (c # cs)")
    case True
    with Cons.prems show ?thesis using prefix_length_le by fastforce
  next
    case False
    with Cons.prems obtain j where "find_sub pat cs = Some j" and "i = Suc j" by auto
    with Cons.IH show ?thesis by auto
  qed
qed

lemma find_sub_append_Some: "find_sub pat s = Some i \<Longrightarrow> find_sub pat (s @ t) = Some i"
proof (induction s arbitrary: i)
  case Nil
  then show ?case by (cases t) (auto split: if_splits)
next
  case (Cons c cs)
  show ?case
  proof (cases "prefix pat (c # cs)")
    case True
    with Cons.prems show ?thesis by (metis append_Cons find_sub.simps(2) prefix_prefix)
  next
    case False
    with Cons.prems obtain j where j: "find_sub pat cs = Some j" and i: "i = Suc j" by auto
    have "length pat \<le> length (c # cs)" using find_sub_Some [OF j] by simp
    then have "\<not> prefix pat (c # (cs @ t))"
      using False prefix_length_prefix [of pat "c # cs @ t" "c # cs"] by auto
    with Cons.IH [OF j] i show ?thesis by simp
  qed
qed

lemma find_sub_first: "c \<notin> set xs \<Longrightarrow> find_sub (c # p) (xs @ c # p @ ys) = Some (length xs)"
  by (induction xs) auto

text \<open>A match of the longer string that the shorter one does not have ends beyond it.\<close>

lemma find_sub_append_None:
  "find_sub pat s = None \<Longrightarrow> find_sub pat (s @ t) = Some i \<Longrightarrow> length s < i + length pat"
proof (induction s arbitrary: i)
  case Nil
  then show ?case by (cases pat) auto
next
  case (Cons c cs)
  from Cons.prems(1) have np: "\<not> prefix pat (c # cs)" and n: "find_sub pat cs = None"
    by (auto split: if_splits)
  show ?case
  proof (cases "prefix pat (c # cs @ t)")
    case True
    with np have "\<not> length pat \<le> length (c # cs)"
      using prefix_length_prefix [of pat "c # cs @ t" "c # cs"] by auto
    then show ?thesis by simp
  next
    case False
    with Cons.prems(2) obtain j where "find_sub pat (cs @ t) = Some j" and "i = Suc j" by auto
    with Cons.IH [OF n] show ?thesis by simp
  qed
qed

lemma str_find_Some:
  assumes "str_find s pat pos = Some i"
  shows "pos \<le> i" "i + length pat \<le> length s" "take (length pat) (drop i s) = pat"
proof -
  from assms obtain k where k: "find_sub pat (drop pos s) = Some k"
    and i: "i = pos + k" and len: "pos \<le> length s"
    by (auto simp: str_find_def split: if_splits)
  from find_sub_Some [OF k] have pre: "prefix pat (drop i s)"
    and le: "k + length pat \<le> length s - pos"
    using i by (simp_all add: add.commute)
  show "pos \<le> i" using i by simp
  show "i + length pat \<le> length s" using le i len by simp
  show "take (length pat) (drop i s) = pat" using pre by (metis append_eq_conv_conj prefixE)
qed

text \<open>The lines that repeated \<open>std::getline(s, line, d)\<close> reads: a last empty one is not read.\<close>

fun getlines :: "char \<Rightarrow> string \<Rightarrow> string list" where
  "getlines d [] = []"
| "getlines d (c # cs) =
     (if c = d then [] # getlines d cs
      else (case getlines d cs of [] \<Rightarrow> [[c]] | l # ls \<Rightarrow> (c # l) # ls))"

lemma getlines_append: "d \<notin> set t \<Longrightarrow> getlines d (t @ d # s) = t # getlines d s"
  by (induction t) auto

lemma getlines_last: "d \<notin> set t \<Longrightarrow> t \<noteq> [] \<Longrightarrow> getlines d t = [t]"
proof (induction t)
  case (Cons c t)
  then show ?case by (cases t) auto
qed simp

lemma getlines_pieces: "t \<in> set (getlines d s) \<Longrightarrow> d \<notin> set t"
  by (induction s arbitrary: t) (auto split: if_splits list.splits)

section \<open>Decimal output\<close>

text \<open>\<open>std::ostringstream << n\<close> for an unsigned and for a signed integer.\<close>

fun show_nat :: "nat \<Rightarrow> string" where
  "show_nat n =
     (if n < 10 then [char_of (48 + n)] else show_nat (n div 10) @ [char_of (48 + n mod 10)])"

declare show_nat.simps [simp del]

definition show_int :: "int \<Rightarrow> string" where
  "show_int i = (if i < 0 then CHR ''-'' # show_nat (nat (- i)) else show_nat (nat i))"

lemma show_nat_digits: "c \<in> set (show_nat n) \<Longrightarrow> isdigit c"
  by (induction n rule: show_nat.induct)
    (subst (asm) (2) show_nat.simps, auto simp: isdigit_def split: if_splits)

lemma show_nat_nonempty [simp]: "show_nat n \<noteq> []"
  by (subst show_nat.simps) simp

section \<open>\<open>std::map\<close>\<close>

text \<open>
  A map is the list of its entries in the order an iterator visits them, which is the order of
  the keys.  Looking a key up is the library's \<open>map_of\<close>.
\<close>

type_synonym ('k, 'v) omap = "('k \<times> 'v) list"

fun om_set :: "'k::linorder \<Rightarrow> 'v \<Rightarrow> ('k, 'v) omap \<Rightarrow> ('k, 'v) omap" where
  "om_set k v [] = [(k, v)]"
| "om_set k v (p # m) =
     (if k < fst p then (k, v) # p # m else if k = fst p then (k, v) # m else p # om_set k v m)"

definition om_erase :: "'k \<Rightarrow> ('k, 'v) omap \<Rightarrow> ('k, 'v) omap" where
  "om_erase k m = filter (\<lambda>p. fst p \<noteq> k) m"

definition om_ok :: "('k::linorder, 'v) omap \<Rightarrow> bool" where
  "om_ok m \<longleftrightarrow> sorted_wrt (<) (map fst m)"

lemma map_of_om_set [simp]: "map_of (om_set k v m) = (map_of m)(k \<mapsto> v)"
  by (induction m) auto

lemma map_of_om_erase [simp]: "map_of (om_erase k m) = (map_of m)(k := None)"
  by (induction m) (auto simp: om_erase_def)

lemma set_om_set_keys [simp]: "fst ` set (om_set k v m) = insert k (fst ` set m)"
  by (induction m) auto

lemma om_set_ok [simp]: "om_ok m \<Longrightarrow> om_ok (om_set k v m)"
proof (induction m)
  case Nil
  then show ?case by (simp add: om_ok_def)
next
  case (Cons p m)
  then have IH: "om_ok (om_set k v m)" by (simp add: om_ok_def)
  from Cons.prems have all: "\<forall>q \<in> fst ` set m. fst p < q" by (simp add: om_ok_def)
  then have "\<forall>q \<in> fst ` set (om_set k v m). fst p < q" if "fst p < k"
    using that by simp
  with IH all Cons.prems show ?case by (auto simp: om_ok_def)
qed

lemma om_erase_ok [simp]: "om_ok m \<Longrightarrow> om_ok (om_erase k m)"
  by (auto simp: om_ok_def om_erase_def sorted_wrt_map sorted_wrt_filter)

lemma om_ok_Nil [simp]: "om_ok []"
  by (simp add: om_ok_def)

lemma om_ok_distinct: "om_ok m \<Longrightarrow> distinct (map fst m)"
  by (simp add: om_ok_def strict_sorted_iff)

lemma om_ok_map_of: "om_ok m \<Longrightarrow> (k, v) \<in> set m \<longleftrightarrow> map_of m k = Some v"
  by (simp add: om_ok_distinct map_of_eq_Some_iff)

text \<open>
  The contract of a keyed container, and what a client derives from it.  The map of a component
  (headers, sessions, locations) is used through these laws.
\<close>

locale keyed_store =
  fixes get :: "'m \<Rightarrow> 'k \<Rightarrow> 'v option"
    and put :: "'k \<Rightarrow> 'v \<Rightarrow> 'm \<Rightarrow> 'm"
    and del :: "'k \<Rightarrow> 'm \<Rightarrow> 'm"
    and inv :: "'m \<Rightarrow> bool"
  assumes get_put: "inv m \<Longrightarrow> get (put k v m) = (get m)(k \<mapsto> v)"
    and get_del: "inv m \<Longrightarrow> get (del k m) = (get m)(k := None)"
    and inv_put: "inv m \<Longrightarrow> inv (put k v m)"
    and inv_del: "inv m \<Longrightarrow> inv (del k m)"
begin

lemma put_twice: "inv m \<Longrightarrow> get (put k v (put k w m)) = get (put k v m)"
  by (simp add: get_put inv_put)

lemma put_swap: "inv m \<Longrightarrow> k \<noteq> l \<Longrightarrow> get (put k v (put l w m)) = get (put l w (put k v m))"
  by (auto simp: get_put inv_put)

lemma put_all_inv: "inv m \<Longrightarrow> inv (fold (\<lambda>(k, v). put k v) ps m)"
  by (induction ps arbitrary: m) (auto simp: inv_put)

lemma put_all_get:
  "inv m \<Longrightarrow> get (fold (\<lambda>(k, v). put k v) ps m) = get m ++ map_of (rev ps)"
proof (induction ps arbitrary: m)
  case Nil
  then show ?case by simp
next
  case (Cons p ps)
  obtain k v where p: "p = (k, v)" by (cases p)
  from Cons.IH [OF inv_put [OF Cons.prems, of k v]] p Cons.prems show ?case
    by (simp add: get_put map_add_def fun_eq_iff split: option.splits)
qed

end

interpretation omap: keyed_store map_of om_set om_erase "om_ok :: ('k::linorder, 'v) omap \<Rightarrow> bool"
  by unfold_locales simp_all

end
