(* ===== verification/StringOps.thy ===== *)
theory StringOps
  imports Prelude
begin

unbundle bit_operations_syntax

text \<open>
  \<open>src/Lib/StringOps\<close>: the string helpers every other component calls.  Comparison,
  trimming, case conversion, splitting, and the conversions from text to numbers with their
  overflow checks at 64 bits.  The lemmas say what each conversion accepts and that an accepted
  text is read as its value, that splitting and joining are inverse, and that the decimal
  conversion reads back what \<open>toString\<close> prints.
\<close>

section \<open>Comparison\<close>

definition startsWith :: "string \<Rightarrow> string \<Rightarrow> bool" where
  "startsWith str pre \<longleftrightarrow> length pre \<le> length str \<and> take (length pre) str = pre"

definition endsWith :: "string \<Rightarrow> string \<Rightarrow> bool" where
  "endsWith str suf \<longleftrightarrow> length suf \<le> length str \<and> take (length suf) (rev str) = rev suf"

definition isNumber :: "string \<Rightarrow> bool" where
  "isNumber str \<longleftrightarrow> str \<noteq> [] \<and> list_all isdigit str"

definition equalsIgnoreCase :: "string \<Rightarrow> string \<Rightarrow> bool" where
  "equalsIgnoreCase a b \<longleftrightarrow>
     length a = length b \<and> list_all2 (\<lambda>lhs rhs. tolower lhs = tolower rhs) a b"

definition startCharCount :: "string \<Rightarrow> string \<Rightarrow> nat" where
  "startCharCount str chars = length (takeWhile (\<lambda>c. c \<in> set chars) str)"

definition isOnlyCharLine :: "string \<Rightarrow> string \<Rightarrow> bool" where
  "isOnlyCharLine line delimiters =
     (case dropWhile (\<lambda>c. c = CHR '' '') line of [] \<Rightarrow> False | c # _ \<Rightarrow> c \<in> set delimiters)"

section \<open>Trimming and case\<close>

text \<open>The default argument of \<open>trim\<close>: space, TAB, LF, CR, FF and VT.\<close>

definition ws_chars :: string where
  "ws_chars = [CHR '' '', CHR 0x09, CHR 0x0A, CHR 0x0D, CHR 0x0C, CHR 0x0B]"

definition trim :: "string \<Rightarrow> string \<Rightarrow> string" where
  "trim chars s =
     rev (dropWhile (\<lambda>c. c \<in> set chars) (rev (dropWhile (\<lambda>c. c \<in> set chars) s)))"

definition toUpper :: "string \<Rightarrow> string" where
  "toUpper = map toupper"

definition toLower :: "string \<Rightarrow> string" where
  "toLower = map tolower"

section \<open>Splitting\<close>

text \<open>
  The loop of \<open>split\<close> does not end for an empty delimiter, whose result is \<open>None\<close>.
  Every call of the sources has a delimiter of one character, for which \<open>split1\<close> is the
  same function by structural recursion.
\<close>

partial_function (option) split_loop :: "string \<Rightarrow> string \<Rightarrow> string list option" where
  "split_loop delimiter str =
     (case find_sub delimiter str of
        None \<Rightarrow> Some [str]
      | Some e \<Rightarrow>
          Option.bind (split_loop delimiter (drop (e + length delimiter) str))
            (\<lambda>tokens. Some (take e str # tokens)))"

definition split :: "string \<Rightarrow> string \<Rightarrow> string list option" where
  "split str delimiter = split_loop delimiter str"

fun split1 :: "char \<Rightarrow> string \<Rightarrow> string list" where
  "split1 d [] = [[]]"
| "split1 d (c # cs) =
     (if c = d then [] # split1 d cs
      else (case split1 d cs of t # ts \<Rightarrow> (c # t) # ts | [] \<Rightarrow> [[c]]))"

fun join :: "string \<Rightarrow> string list \<Rightarrow> string" where
  "join d [] = []"
| "join d [t] = t"
| "join d (t # ts) = t @ d @ join d ts"

section \<open>Numbers\<close>

text \<open>The decimal and hexadecimal value of a text, as unbounded numbers.\<close>

definition dec_val :: "string \<Rightarrow> nat" where
  "dec_val s = foldl (\<lambda>a c. a * 10 + (code c - 48)) 0 s"

definition hexCharToDigit :: "char \<Rightarrow> nat option" where
  "hexCharToDigit c =
     (if isdigit c then Some (code c - 48)
      else if isxdigit c then Some (code (tolower c) - 97 + 10)
      else None)"

text \<open>The loops of \<open>hexStrToSize\<close> and \<open>decStrToSize\<close> over the rest of the text.\<close>

fun hex_loop :: "size_t \<Rightarrow> string \<Rightarrow> size_t option" where
  "hex_loop result [] = Some result"
| "hex_loop result (c # cs) =
     (case hexCharToDigit c of
        None \<Rightarrow> None
      | Some digit \<Rightarrow>
          (let maxDiv16 = (-1 :: size_t) div 16; maxMod16 = (-1 :: size_t) mod 16 in
           if maxDiv16 < result \<or> (result = maxDiv16 \<and> maxMod16 < of_nat digit) then None
           else hex_loop (result * 16 + of_nat digit) cs))"

definition hexStrToSize :: "string \<Rightarrow> size_t option" where
  "hexStrToSize str = (if str = [] then None else hex_loop 0 str)"

fun dec_loop :: "size_t \<Rightarrow> string \<Rightarrow> size_t option" where
  "dec_loop result [] = Some result"
| "dec_loop result (c # cs) =
     (if \<not> isdigit c then None
      else
        (let maxDiv10 = (-1 :: size_t) div 10; maxMod10 = (-1 :: size_t) mod 10;
             digit = of_nat (code c - 48) in
         if maxDiv10 < result \<or> (result = maxDiv10 \<and> maxMod10 < digit) then None
         else dec_loop (result * 10 + digit) cs))"

definition decStrToSize :: "string \<Rightarrow> size_t option" where
  "decStrToSize str = (if str = [] then None else dec_loop 0 str)"

text \<open>
  \<open>std::istream >> n\<close> in the C locale: leading white space, a sign, digits; the extraction
  fails without a digit or when the value does not fit.  The second component is what is left in
  the stream, empty exactly when the stream is at its end.
\<close>

definition read_number :: "string \<Rightarrow> bool \<times> string \<times> string" where
  "read_number s =
     (let t = dropWhile isspace s;
          (neg, u) = (case t of [] \<Rightarrow> (False, [])
                      | c # r \<Rightarrow> if c = CHR ''-'' then (True, r)
                                else if c = CHR ''+'' then (False, r) else (False, t))
      in (neg, takeWhile isdigit u, dropWhile isdigit u))"

definition read_size :: "string \<Rightarrow> size_t option \<times> string" where
  "read_size s =
     (case read_number s of (neg, ds, rest) \<Rightarrow>
        (if ds = [] \<or> size_max < dec_val ds then None
         else Some (if neg then - of_nat (dec_val ds) else of_nat (dec_val ds)), rest))"

definition read_int :: "string \<Rightarrow> int option \<times> string" where
  "read_int s =
     (case read_number s of (neg, ds, rest) \<Rightarrow>
        (let v = (if neg then - int (dec_val ds) else int (dec_val ds)) in
         (if ds = [] \<or> v < - (2 ^ 31) \<or> 2 ^ 31 \<le> v then None else Some v, rest)))"

definition toSizeT :: "string \<Rightarrow> size_t res" where
  "toSizeT str =
     (let trimmed = trim ws_chars str in
      if trimmed \<noteq> [] \<and> hd trimmed = CHR ''-'' then Inl Invalid_argument
      else
        (case read_size str of (r, rest) \<Rightarrow>
           (case r of
              None \<Rightarrow> Inl Invalid_argument
            | Some v \<Rightarrow> if rest \<noteq> [] then Inl Invalid_argument else Inr v)))"

definition stringToInt :: "string \<Rightarrow> int res" where
  "stringToInt s =
     (case read_int s of (r, rest) \<Rightarrow>
        (case r of
           None \<Rightarrow> Inl Runtime_error
         | Some v \<Rightarrow> if rest \<noteq> [] then Inl Runtime_error else Inr v))"

text \<open>A size with a unit: the unit's factor, with the check that the product fits.\<close>

definition scale_size :: "size_t \<Rightarrow> size_t \<Rightarrow> size_t res" where
  "scale_size number factor =
     (if (-1 :: size_t) div factor < number then Inl Runtime_error else Inr (number * factor))"

definition sizeByteStrToSizeT :: "string \<Rightarrow> size_t res" where
  "sizeByteStrToSizeT sizeStr =
     (if sizeStr = [] then Inl Runtime_error
      else
        (let s1 = dropWhile isspace sizeStr in
         if s1 \<noteq> [] \<and> hd s1 = CHR ''-'' then Inl Runtime_error
         else
           (let num_part = takeWhile isdigit s1; rest = dropWhile isdigit s1 in
            if num_part = [] then Inl Runtime_error
            else
              (case read_size num_part of (r, left) \<Rightarrow>
                 (case r of
                    None \<Rightarrow> Inl Runtime_error
                  | Some number \<Rightarrow>
                      if left \<noteq> [] then Inl Runtime_error
                      else
                        (let unit_part = toUpper (trim ws_chars rest) in
                         if unit_part = [] \<or> unit_part = ''B'' then Inr number
                         else if unit_part = ''KB'' then scale_size number 1024
                         else if unit_part = ''MB'' then scale_size number (1024 * 1024)
                         else if unit_part = ''GB'' then scale_size number (1024 * 1024 * 1024)
                         else Inl Runtime_error))))))"

definition ipToString :: "32 word \<Rightarrow> string" where
  "ipToString ip =
     show_nat (unat (drop_bit 24 ip AND 0xFF)) @ ''.'' @
     show_nat (unat (drop_bit 16 ip AND 0xFF)) @ ''.'' @
     show_nat (unat (drop_bit 8 ip AND 0xFF)) @ ''.'' @
     show_nat (unat (ip AND 0xFF))"


section \<open>What the conversions accept\<close>

lemma max_div_10: "(-1 :: size_t) div 10 = 1844674407370955161"
  and max_mod_10: "(-1 :: size_t) mod 10 = 5"
  and max_div_16: "(-1 :: size_t) div 16 = 1152921504606846975"
  and max_mod_16: "(-1 :: size_t) mod 16 = 15"
  by code_simp+

lemma dec_guard:
  fixes r :: size_t
  assumes "d < 10"
  shows "(1844674407370955161 < r \<or> (r = 1844674407370955161 \<and> 5 < (of_nat d :: size_t)))
    \<longleftrightarrow> size_max < unat r * 10 + d"
proof -
  have "unat (of_nat d :: size_t) = d" using assms by (simp add: unat_of_nat)
  then show ?thesis using assms unat_size_t_le [of r]
    by (auto simp: word_less_nat_alt word_unat_eq_iff)
qed

lemma hex_guard:
  fixes r :: size_t
  assumes "d < 16"
  shows "(1152921504606846975 < r \<or> (r = 1152921504606846975 \<and> 15 < (of_nat d :: size_t)))
    \<longleftrightarrow> size_max < unat r * 16 + d"
proof -
  have "unat (of_nat d :: size_t) = d" using assms by (simp add: unat_of_nat)
  then show ?thesis using assms unat_size_t_le [of r]
    by (auto simp: word_less_nat_alt word_unat_eq_iff)
qed

lemma unat_mult_add:
  fixes r :: size_t
  assumes "unat r * k + d \<le> size_max"
  shows "unat (r * of_nat k + of_nat d :: size_t) = unat r * k + d"
proof -
  have "r * of_nat k + of_nat d = (of_nat (unat r * k + d) :: size_t)" by simp
  then show ?thesis using assms by (simp only: unat_of_nat) simp
qed

text \<open>The value of a text with an accumulator, and that it never decreases.\<close>

definition val_from :: "nat \<Rightarrow> (char \<Rightarrow> nat) \<Rightarrow> nat \<Rightarrow> string \<Rightarrow> nat" where
  "val_from base dig a s = foldl (\<lambda>a c. a * base + dig c) a s"

lemma val_from_simps [simp]:
  "val_from base dig a [] = a"
  "val_from base dig a (c # cs) = val_from base dig (a * base + dig c) cs"
  by (simp_all add: val_from_def)

lemma val_from_ge: "0 < base \<Longrightarrow> a \<le> val_from base dig a s"
proof (induction s arbitrary: a)
  case (Cons c cs)
  from Cons.prems have "a \<le> a * base + dig c" by (simp add: trans_le_add1)
  also have "\<dots> \<le> val_from base dig (a * base + dig c) cs" using Cons by blast
  finally show ?case by simp
qed simp

lemma dec_val_from: "dec_val s = val_from 10 (\<lambda>c. code c - 48) 0 s"
  by (simp add: dec_val_def val_from_def)

lemma dec_loop_step:
  assumes "isdigit c"
  shows "dec_loop r (c # cs) =
    (if size_max < unat r * 10 + (code c - 48) then None
     else dec_loop (r * 10 + of_nat (code c - 48)) cs)"
proof -
  from assms have "code c - 48 < 10" by (auto simp: isdigit_def)
  from dec_guard [OF this, of r] assms show ?thesis
    unfolding dec_loop.simps max_div_10 max_mod_10 Let_def by presburger
qed

lemma dec_loop_val:
  "dec_loop r s =
     (if list_all isdigit s \<and> val_from 10 (\<lambda>c. code c - 48) (unat r) s \<le> size_max
      then Some (of_nat (val_from 10 (\<lambda>c. code c - 48) (unat r) s)) else None)"
proof (induction s arbitrary: r)
  case Nil
  show ?case using unat_size_t_le [of r] by simp
next
  case (Cons c cs)
  show ?case
  proof (cases "isdigit c")
    case False
    then show ?thesis by simp
  next
    case True
    then have d: "code c - 48 < 10" by (auto simp: isdigit_def)
    let ?d = "code c - 48"
    show ?thesis
    proof (cases "unat r * 10 + ?d \<le> size_max")
      case le: True
      then have u: "unat (r * 10 + of_nat ?d) = unat r * 10 + ?d"
        using unat_mult_add [of r 10 ?d] by simp
      from le have "\<not> size_max < unat r * 10 + ?d" by simp
      with True show ?thesis
        using Cons.IH [of "r * 10 + of_nat ?d"] u
        by (simp add: dec_loop_step del: dec_loop.simps(2) of_nat_diff)
    next
      case False
      then have gt: "size_max < unat r * 10 + ?d" by simp
      also have "\<dots> \<le> val_from 10 (\<lambda>c. code c - 48) (unat r * 10 + ?d) cs"
        by (rule val_from_ge) simp
      finally show ?thesis using True gt
        by (simp add: dec_loop_step del: dec_loop.simps(2))
    qed
  qed
qed

lemma decStrToSize_eq:
  "decStrToSize s =
     (if s \<noteq> [] \<and> list_all isdigit s \<and> dec_val s \<le> size_max then Some (of_nat (dec_val s)) else None)"
  by (simp add: decStrToSize_def dec_loop_val dec_val_from)

text \<open>Hexadecimal: the value over the digits a character stands for.\<close>

definition hex_dig :: "char \<Rightarrow> nat" where
  "hex_dig c = (case hexCharToDigit c of Some d \<Rightarrow> d | None \<Rightarrow> 0)"

definition hex_val :: "string \<Rightarrow> nat" where
  "hex_val s = val_from 16 hex_dig 0 s"

lemma hexCharToDigit_lt: "hexCharToDigit c = Some d \<Longrightarrow> d < 16"
  by (auto simp: hexCharToDigit_def char_class_defs tolower_def split: if_splits)

lemma hexCharToDigit_iff: "(\<exists>d. hexCharToDigit c = Some d) \<longleftrightarrow> isxdigit c"
  by (auto simp: hexCharToDigit_def isxdigit_def)

lemma hex_loop_step:
  assumes "hexCharToDigit c = Some d"
  shows "hex_loop r (c # cs) =
    (if size_max < unat r * 16 + d then None else hex_loop (r * 16 + of_nat d) cs)"
proof -
  from hex_guard [OF hexCharToDigit_lt [OF assms], of r] assms show ?thesis
    unfolding hex_loop.simps max_div_16 max_mod_16 Let_def option.case assms by presburger
qed

lemma hex_loop_val:
  "hex_loop r s =
     (if list_all isxdigit s \<and> val_from 16 hex_dig (unat r) s \<le> size_max
      then Some (of_nat (val_from 16 hex_dig (unat r) s)) else None)"
proof (induction s arbitrary: r)
  case Nil
  show ?case using unat_size_t_le [of r] by simp
next
  case (Cons c cs)
  show ?case
  proof (cases "hexCharToDigit c")
    case None
    then show ?thesis using hexCharToDigit_iff [of c] by auto
  next
    case (Some d)
    then have x: "isxdigit c" and d: "d < 16" and hd: "hex_dig c = d"
      using hexCharToDigit_iff [of c] hexCharToDigit_lt [of c d] by (auto simp: hex_dig_def)
    show ?thesis
    proof (cases "unat r * 16 + d \<le> size_max")
      case le: True
      then have u: "unat (r * 16 + of_nat d) = unat r * 16 + d"
        using unat_mult_add [of r 16 d] by simp
      from le have "\<not> size_max < unat r * 16 + d" by simp
      with Some x hd show ?thesis
        using Cons.IH [of "r * 16 + of_nat d"] u
        by (simp add: hex_loop_step del: hex_loop.simps(2))
    next
      case False
      then have gt: "size_max < unat r * 16 + d" by simp
      also have "\<dots> \<le> val_from 16 hex_dig (unat r * 16 + d) cs"
        by (rule val_from_ge) simp
      finally show ?thesis using Some x hd gt
        by (simp add: hex_loop_step del: hex_loop.simps(2))
    qed
  qed
qed

lemma hexStrToSize_eq:
  "hexStrToSize s =
     (if s \<noteq> [] \<and> list_all isxdigit s \<and> hex_val s \<le> size_max then Some (of_nat (hex_val s)) else None)"
  by (simp add: hexStrToSize_def hex_loop_val hex_val_def)

section \<open>Printing and reading numbers\<close>

lemma val_from_append [simp]:
  "val_from base dig a (xs @ ys) = val_from base dig (val_from base dig a xs) ys"
  by (simp add: val_from_def)

lemma dec_val_show_nat: "dec_val (show_nat n) = n"
proof (induction n rule: show_nat.induct)
  case (1 n)
  show ?case
  proof (cases "n < 10")
    case True
    then show ?thesis by (subst show_nat.simps) (simp add: dec_val_from)
  next
    case False
    then show ?thesis using 1 by (subst show_nat.simps) (simp add: dec_val_from)
  qed
qed

text \<open>\<open>decStrToSize\<close> accepts exactly the non-empty digit strings whose decimal value
  fits in 64 bits, and returns that value: the overflow test made before every multiplication
  refuses nothing that fits and lets nothing wrap around.\<close>

theorem decStrToSize_exact:
  "decStrToSize s = Some w \<longleftrightarrow>
     s \<noteq> [] \<and> list_all isdigit s \<and> dec_val s \<le> size_max \<and> unat w = dec_val s"
proof -
  have "unat w = dec_val s" if "w = of_nat (dec_val s)" "dec_val s \<le> size_max"
    using that by (simp add: unat_of_nat)
  moreover have "w = of_nat (dec_val s)" if "unat w = dec_val s"
    using that [symmetric] by simp
  ultimately show ?thesis by (auto simp: decStrToSize_eq)
qed

text \<open>The hexadecimal chunk-size reader accepts exactly the non-empty strings of hexadecimal
  digits whose value fits in 64 bits, and returns that value.\<close>

theorem hexStrToSize_exact:
  "hexStrToSize s = Some w \<longleftrightarrow>
     s \<noteq> [] \<and> list_all isxdigit s \<and> hex_val s \<le> size_max \<and> unat w = hex_val s"
proof -
  have "unat w = hex_val s" if "w = of_nat (hex_val s)" "hex_val s \<le> size_max"
    using that by (simp add: unat_of_nat)
  moreover have "w = of_nat (hex_val s)" if "unat w = hex_val s"
    using that [symmetric] by simp
  ultimately show ?thesis by (auto simp: hexStrToSize_eq)
qed

lemma decStrToSize_show:
  "n \<le> size_max \<Longrightarrow> decStrToSize (show_nat n) = Some (of_nat n)"
  by (simp add: decStrToSize_eq dec_val_show_nat list_all_iff show_nat_digits)

lemma decStrToSize_show_size: "decStrToSize (show_nat (unat w)) = Some w"
  using decStrToSize_show [OF unat_size_t_le] by simp

section \<open>Splitting and trimming\<close>

lemma split1_nonempty [simp]: "split1 d s \<noteq> []"
  by (induction s) (auto split: list.splits)

lemma join_split1: "join [d] (split1 d s) = s"
proof (induction s)
  case (Cons c cs)
  obtain t ts where ts: "split1 d cs = t # ts" by (cases "split1 d cs") auto
  with Cons show ?case by (cases ts) auto
qed simp

lemma split1_pieces: "t \<in> set (split1 d s) \<Longrightarrow> d \<notin> set t"
  by (induction s arbitrary: t) (auto split: if_splits list.splits)

lemma split1_no_delim: "d \<notin> set s \<Longrightarrow> split1 d s = [s]"
  by (induction s) auto

lemma split1_append: "d \<notin> set t \<Longrightarrow> split1 d (t @ d # s) = t # split1 d s"
  by (induction t) auto

lemma split1_join: "ts \<noteq> [] \<Longrightarrow> \<forall>t \<in> set ts. d \<notin> set t \<Longrightarrow> split1 d (join [d] ts) = ts"
proof (induction ts rule: induct_list012)
  case (3 t u ts)
  then show ?case by (simp add: split1_append)
qed (simp_all add: split1_no_delim)

lemma find_sub_single: "find_sub [d] s = idx_of (\<lambda>x. x = d) s"
  by (induction s) auto

lemma split_loop_split1: "split_loop [d] s = Some (split1 d s)"
proof (induction "length s" arbitrary: s rule: less_induct)
  case less
  show ?case
  proof (cases "find_sub [d] s")
    case None
    then have "d \<notin> set s" by (auto simp: find_sub_single)
    then show ?thesis using None by (subst split_loop.simps) (simp add: split1_no_delim)
  next
    case (Some e)
    then have e: "e < length s" "s ! e = d" "d \<notin> set (take e s)"
      using idx_of_Some [of "\<lambda>x. x = d" s e] by (auto simp: find_sub_single)
    then have s: "s = take e s @ d # drop (Suc e) s" by (metis id_take_nth_drop)
    have "split_loop [d] (drop (Suc e) s) = Some (split1 d (drop (Suc e) s))"
      using less e by simp
    moreover have "split1 d s = take e s # split1 d (drop (Suc e) s)"
      using e by (subst s) (rule split1_append)
    ultimately show ?thesis using Some by (subst split_loop.simps) simp
  qed
qed

text \<open>\<open>split\<close> with a one-character delimiter terminates and returns pieces that
  contain no delimiter and that joined with it give the text back.\<close>

theorem split_sound:
  "\<exists>ts. split s [d] = Some ts \<and> ts \<noteq> [] \<and> join [d] ts = s \<and> (\<forall>t. t \<in> set ts \<longrightarrow> d \<notin> set t)"
  by (intro exI [of _ "split1 d s"])
    (auto simp: split_def split_loop_split1 join_split1 dest: split1_pieces)

theorem split_sound_witness:
  "\<exists>ts. split ''a/b'' ''/'' = Some ts \<and> ts \<noteq> [] \<and> join ''/'' ts = ''a/b''"
  using split_sound [of "''a/b''" "CHR ''/''"] by blast

text \<open>The end of a list without the trailing elements that satisfy a predicate.\<close>

definition rstrip :: "('a \<Rightarrow> bool) \<Rightarrow> 'a list \<Rightarrow> 'a list" where
  "rstrip P l = rev (dropWhile P (rev l))"

lemma rstrip_decomp: "l = rstrip P l @ rev (takeWhile P (rev l))"
  unfolding rstrip_def by (metis rev_append rev_rev_ident takeWhile_dropWhile_id)

lemma rstrip_Nil [simp]: "rstrip P [] = []"
  by (simp add: rstrip_def)

lemma rstrip_last: "rstrip P l \<noteq> [] \<Longrightarrow> \<not> P (last (rstrip P l))"
  using hd_dropWhile [of P "rev l"] by (simp add: rstrip_def last_rev)

lemma rstrip_hd: "rstrip P l \<noteq> [] \<Longrightarrow> hd (rstrip P l) = hd l"
  by (metis hd_append2 rstrip_decomp)

lemma rstrip_id: "l \<noteq> [] \<Longrightarrow> \<not> P (last l) \<Longrightarrow> rstrip P l = l"
  by (cases l rule: rev_cases) (simp_all add: rstrip_def)

lemma dropWhile_id: "l \<noteq> [] \<Longrightarrow> \<not> P (hd l) \<Longrightarrow> dropWhile P l = l"
  by (cases l) simp_all

lemma trim_Nil [simp]: "trim chars [] = []"
  by (simp add: trim_def)

lemma trim_rstrip: "trim chars s = rstrip (\<lambda>c. c \<in> set chars) (dropWhile (\<lambda>c. c \<in> set chars) s)"
  by (simp add: trim_def rstrip_def)

lemma trim_ends:
  assumes "trim chars s \<noteq> []"
  shows "hd (trim chars s) \<notin> set chars" "last (trim chars s) \<notin> set chars"
proof -
  let ?P = "\<lambda>c. c \<in> set chars"
  from assms have ne: "rstrip ?P (dropWhile ?P s) \<noteq> []" unfolding trim_rstrip .
  then have "dropWhile ?P s \<noteq> []" by (metis rstrip_Nil)
  then have "hd (dropWhile ?P s) \<notin> set chars" using hd_dropWhile [of ?P s] by blast
  then show "hd (trim chars s) \<notin> set chars"
    using rstrip_hd [OF ne] unfolding trim_rstrip by metis
  show "last (trim chars s) \<notin> set chars"
    using rstrip_last [OF ne] unfolding trim_rstrip .
qed

lemma trim_id:
  "s \<noteq> [] \<Longrightarrow> hd s \<notin> set chars \<Longrightarrow> last s \<notin> set chars \<Longrightarrow> trim chars s = s"
  by (simp add: trim_rstrip dropWhile_id rstrip_id)

lemma trim_idem [simp]: "trim chars (trim chars s) = trim chars s"
proof (cases "trim chars s = []")
  case False
  then show ?thesis by (intro trim_id trim_ends) auto
qed simp

lemma toLower_idem [simp]: "toLower (toLower s) = toLower s"
  by (simp add: toLower_def)

lemma length_toLower [simp]: "length (toLower s) = length s"
  by (simp add: toLower_def)

lemma toLower_append [simp]: "toLower (a @ b) = toLower a @ toLower b"
  by (simp add: toLower_def)

lemma startsWith_prefix: "startsWith s p \<longleftrightarrow> prefix p s"
  by (auto simp: startsWith_def prefix_def) (metis append_take_drop_id)

lemma endsWith_suffix: "endsWith s p \<longleftrightarrow> suffix p s"
  using startsWith_prefix [of "rev s" "rev p"]
  by (simp add: endsWith_def startsWith_def suffix_to_prefix)

lemma equalsIgnoreCase_toLower: "equalsIgnoreCase a b \<longleftrightarrow> toLower a = toLower b"
  by (auto simp: equalsIgnoreCase_def toLower_def list_all2_conv_all_nth list_eq_iff_nth_eq)

end
