(* ===== verification/Base64.thy ===== *)
theory Base64
  imports Prelude
begin

unbundle bit_operations_syntax

text \<open>
  \<open>src/Lib/Base64\<close>: the encoder and the decoder.  The buffers are words: bytes for
  the encoder, \<open>unsigned int\<close> for the decoder, as in the source.  The theorem is the round
  trip for every byte string.
\<close>

section \<open>The code\<close>

definition table :: string where
  "table = ''ABCDEFGHIJKLMNOPQRSTUVWXYZabcdefghijklmnopqrstuvwxyz0123456789+/''"

definition decodeChar :: "char \<Rightarrow> int" where
  "decodeChar c =
     (if 65 \<le> code c \<and> code c \<le> 90 then int (code c) - 65
      else if 97 \<le> code c \<and> code c \<le> 122 then int (code c) - 97 + 26
      else if 48 \<le> code c \<and> code c \<le> 57 then int (code c) - 48 + 52
      else if c = CHR ''+'' then 62
      else if c = CHR ''/'' then 63
      else -1)"

text \<open>
  One pass of the outer loop, for the one to three bytes it reads.  When it reads one byte the
  source leaves \<open>buf3[2]\<close> unset; the two characters it would influence are then replaced
  by the padding, so any value gives the same output and the model takes 0.
\<close>

definition buf3_of :: "string \<Rightarrow> nat \<Rightarrow> 8 word" where
  "buf3_of g i = (if i < length g then byte_of (g ! i) else 0)"

definition sext0 :: "8 word \<Rightarrow> 8 word" where
  "sext0 b0 = drop_bit 2 (b0 AND 0xfc)"

definition sext1 :: "8 word \<Rightarrow> 8 word \<Rightarrow> 8 word" where
  "sext1 b0 b1 = push_bit 4 (b0 AND 0x03) OR drop_bit 4 (b1 AND 0xf0)"

definition sext2 :: "8 word \<Rightarrow> 8 word \<Rightarrow> 8 word" where
  "sext2 b1 b2 = push_bit 2 (b1 AND 0x0f) OR drop_bit 6 (b2 AND 0xc0)"

definition sext3 :: "8 word \<Rightarrow> 8 word" where
  "sext3 b2 = b2 AND 0x3f"

definition encode_group :: "string \<Rightarrow> string" where
  "encode_group g =
     (let b0 = buf3_of g 0; b1 = buf3_of g 1; b2 = buf3_of g 2;
          buf4 = [sext0 b0, sext1 b0 b1, sext2 b1 b2, sext3 b2];
          readBytes = length g
      in map (\<lambda>j. if j < readBytes + 1 then table ! unat (buf4 ! j) else CHR ''='') [0, 1, 2, 3])"

function encode :: "string \<Rightarrow> string" where
  "encode input =
     (if input = [] then [] else encode_group (take 3 input) @ encode (drop 3 input))"
  by pat_completeness auto
termination by (relation "measure length") auto

declare encode.simps [simp del]

text \<open>The three bytes of a full quartet, and what is pushed for an unfinished one at the end.\<close>

definition low_char :: "32 word \<Rightarrow> char" where
  "low_char w = char_of_byte (ucast w)"

definition out0 :: "32 word \<Rightarrow> 32 word \<Rightarrow> char" where
  "out0 q0 q1 = low_char (push_bit 2 q0 OR drop_bit 4 (q1 AND 0x30))"

definition out1 :: "32 word \<Rightarrow> 32 word \<Rightarrow> char" where
  "out1 q1 q2 = low_char (push_bit 4 (q1 AND 0x0f) OR drop_bit 2 (q2 AND 0x3c))"

definition out2 :: "32 word \<Rightarrow> 32 word \<Rightarrow> char" where
  "out2 q2 q3 = low_char (push_bit 6 (q2 AND 0x03) OR q3)"

definition decode_flush :: "32 word list \<Rightarrow> string" where
  "decode_flush buf4 =
     (if 1 < length buf4 then [out0 (buf4 ! 0) (buf4 ! 1)] else []) @
     (if 2 < length buf4 then [out1 (buf4 ! 1) (buf4 ! 2)] else [])"

fun decode_loop :: "32 word list \<Rightarrow> string \<Rightarrow> string" where
  "decode_loop buf4 [] = decode_flush buf4"
| "decode_loop buf4 (c # cs) =
     (if c = CHR ''='' then decode_flush buf4
      else
        (let val = decodeChar c in
         if val < 0 then decode_loop buf4 cs
         else
           (let b = buf4 @ [of_int val] in
            if length b = 4
            then [out0 (b ! 0) (b ! 1), out1 (b ! 1) (b ! 2), out2 (b ! 2) (b ! 3)] @ decode_loop [] cs
            else decode_loop b cs)))"

definition decode :: "string \<Rightarrow> string" where
  "decode input = decode_loop [] input"

section \<open>The round trip\<close>

lemma table_decode: "k < 64 \<Longrightarrow> decodeChar (table ! k) = int k \<and> table ! k \<noteq> CHR ''=''"
proof -
  have "\<forall>k \<in> set [0..<64]. decodeChar (table ! k) = int k \<and> table ! k \<noteq> CHR ''=''"
    by code_simp
  then show "k < 64 \<Longrightarrow> decodeChar (table ! k) = int k \<and> table ! k \<noteq> CHR ''=''" by simp
qed

text \<open>A six-bit byte, written and read back, is itself as a decoder word.\<close>

lemma sextet_step:
  assumes "unat (w :: 8 word) < 64"
  shows "decode_loop b (table ! unat w # cs) =
    (let b' = b @ [ucast w] in
     if length b' = 4
     then [out0 (b' ! 0) (b' ! 1), out1 (b' ! 1) (b' ! 2), out2 (b' ! 2) (b' ! 3)] @ decode_loop [] cs
     else decode_loop b' cs)"
proof -
  have "(of_int (int (unat w)) :: 32 word) = ucast w" by simp
  then show ?thesis using table_decode [OF assms] by (simp add: Let_def)
qed

text \<open>Two bytes are equal when their eight bits are.\<close>

lemma byte_eqI:
  fixes a b :: "8 word"
  assumes "bit a 0 = bit b 0" "bit a 1 = bit b 1" "bit a 2 = bit b 2" "bit a 3 = bit b 3"
    "bit a 4 = bit b 4" "bit a 5 = bit b 5" "bit a 6 = bit b 6" "bit a 7 = bit b 7"
  shows "a = b"
proof (rule bit_word_eqI)
  fix n :: nat
  assume "n < LENGTH(8)"
  then have "n \<in> {0, 1, 2, 3, 4, 5, 6, 7}" by auto
  then show "bit a n = bit b n" using assms by blast
qed

lemma out_bytes:
  "out0 (ucast (sext0 a)) (ucast (sext1 a b)) = char_of_byte a"
  "out1 (ucast (sext1 a b)) (ucast (sext2 b c)) = char_of_byte b"
  "out2 (ucast (sext2 b c)) (ucast (sext3 c)) = char_of_byte c"
  unfolding out0_def out1_def out2_def sext0_def sext1_def sext2_def sext3_def low_char_def
  by (rule arg_cong [of _ _ char_of_byte], rule byte_eqI; simp add: bit_simps)+

lemma sextet_bound:
  fixes w :: "8 word"
  assumes "\<not> bit w 6" "\<not> bit w 7"
  shows "unat w < 64"
proof -
  have "take_bit 6 w = w"
    by (rule byte_eqI) (use assms in \<open>simp_all add: bit_simps\<close>)
  then have "unat w = take_bit 6 (unat w)" by (metis unsigned_take_bit_eq)
  also have "\<dots> < 2 ^ 6" by (rule take_bit_nat_less_exp)
  finally show ?thesis by simp
qed

lemma sextets [simp]:
  "unat (sext0 a) < 64" "unat (sext1 a b) < 64" "unat (sext2 b c) < 64" "unat (sext3 c) < 64"
  unfolding sext0_def sext1_def sext2_def sext3_def
  by (rule sextet_bound; simp add: bit_simps)+

text \<open>Decoding one encoded group gives its bytes and goes on after it; a short group ends.\<close>

lemma decode_group3:
  "decode_loop [] (encode_group [x, y, z] @ t) = [x, y, z] @ decode_loop [] t"
  by (simp add: encode_group_def buf3_of_def Let_def sextet_step out_bytes
      del: decode_loop.simps)

lemma decode_padding: "decode_loop b (CHR ''='' # cs) = decode_flush b"
  by simp

lemma decode_group_short:
  "decode_loop [] (encode_group [x]) = [x]"
  "decode_loop [] (encode_group [x, y]) = [x, y]"
  by (simp_all add: encode_group_def buf3_of_def Let_def sextet_step out_bytes
      decode_padding decode_flush_def del: decode_loop.simps(2))

text \<open>Decoding what the encoder wrote gives back every byte string, of any length and with
  every padding.\<close>

theorem decode_encode: "decode (encode s) = s"
proof (induction s rule: encode.induct)
  case (1 s)
  show ?case
  proof (cases "length s \<le> 2")
    case True
    then consider "s = []" | x where "s = [x]" | x y where "s = [x, y]"
      by (cases s; cases "tl s"; cases "tl (tl s)") auto
    then show ?thesis
      by cases (simp_all add: decode_def encode.simps decode_group_short decode_flush_def)
  next
    case False
    then obtain x y z u where s: "s = x # y # z # u"
      by (cases s; cases "tl s"; cases "tl (tl s)") auto
    with 1 have "decode (encode u) = u" by simp
    with s show ?thesis
      by (subst encode.simps) (simp add: decode_def decode_group3 del: decode_loop.simps)
  qed
qed

end
