(* ===== verification/PathLib.thy ===== *)
theory PathLib
  imports StringOps
begin

text \<open>
  \<open>src/Lib/Path\<close>: the textual normalisation of paths that the request resolver applies to
  every URL path, and the directory name.  \<open>realpath\<close> is the operating system's and is a
  parameter where it is used.  The theorems say that a normalised path is normal (no empty, dot
  or double-dot component where none can remain) and that normalising twice changes nothing.
\<close>

section \<open>The code\<close>

text \<open>One component read from the path; \<open>components\<close> is the vector built so far.\<close>

definition norm_step :: "bool \<Rightarrow> string \<Rightarrow> string list \<Rightarrow> string list" where
  "norm_step isAbsolute component components =
     (if component = [] \<or> component = ''.'' then components
      else if component = ''..'' then
        (if components \<noteq> [] \<and> last components \<noteq> ''..'' then butlast components
         else if \<not> isAbsolute then components @ [''..'']
         else components)
      else components @ [component])"

definition norm_components :: "bool \<Rightarrow> string \<Rightarrow> string list" where
  "norm_components isAbsolute path = fold (norm_step isAbsolute) (getlines (CHR ''/'') path) []"

definition normalize :: "string \<Rightarrow> string" where
  "normalize path =
     (if path = [] then ''.''
      else
        (let isAbsolute = (hd path = CHR ''/'');
             components = norm_components isAbsolute path
         in if components = [] then (if isAbsolute then ''/'' else ''.'')
            else (if isAbsolute then ''/'' else []) @ join ''/'' components))"

definition getDirName :: "string \<Rightarrow> string" where
  "getDirName path =
     (if path = [] then []
      else
        (case rfind_char path (CHR ''/'') of
           None \<Rightarrow> ''.''
         | Some pos \<Rightarrow> if pos = 0 then ''/'' else substr path 0 pos))"

section \<open>Normal forms\<close>

text \<open>
  What the vector of components is at every moment: a run of double dots, only in a relative
  path, and then proper components.
\<close>

definition proper :: "string \<Rightarrow> bool" where
  "proper c \<longleftrightarrow> c \<noteq> [] \<and> c \<noteq> ''.'' \<and> c \<noteq> ''..'' \<and> CHR ''/'' \<notin> set c"

definition normal_components :: "bool \<Rightarrow> string list \<Rightarrow> bool" where
  "normal_components isAbsolute cs \<longleftrightarrow>
     list_all proper (dropWhile (\<lambda>c. c = ''..'') cs) \<and> (isAbsolute \<longrightarrow> list_all proper cs)"

lemma proper_not_dots: "proper c \<Longrightarrow> c \<noteq> ''..''"
  by (simp add: proper_def)

lemma dropWhile_snoc_stop:
  "dropWhile P (xs @ [x]) = (if dropWhile P xs = [] then (if P x then [] else [x]) else dropWhile P xs @ [x])"
  by (induction xs) auto

lemma dropWhile_butlast:
  "xs \<noteq> [] \<Longrightarrow> \<not> P (last xs) \<Longrightarrow> dropWhile P (butlast xs) = butlast (dropWhile P xs)"
  by (induction xs) auto

lemma norm_step_normal:
  assumes "normal_components ab cs" "CHR ''/'' \<notin> set c"
  shows "normal_components ab (norm_step ab c cs)"
proof -
  let ?D = "dropWhile (\<lambda>c. c = ''..'')"
  have n: "list_all proper (?D cs)" "ab \<Longrightarrow> list_all proper cs"
    using assms(1) by (simp_all add: normal_components_def)
  consider (skip) "c = [] \<or> c = ''.''" | (up) "c = ''..''" | (name) "proper c"
    using assms(2) by (auto simp: proper_def)
  then show ?thesis
  proof cases
    case skip
    then show ?thesis using assms(1) by (auto simp: norm_step_def)
  next
    case up
    show ?thesis
    proof (cases "cs \<noteq> [] \<and> last cs \<noteq> ''..''")
      case True
      then have "?D (butlast cs) = butlast (?D cs)" by (auto intro: dropWhile_butlast)
      then show ?thesis using True n up
        by (auto simp: norm_step_def normal_components_def list_all_iff dest: in_set_butlastD)
    next
      case False
      then have "cs = [] \<or> last cs = ''..''" by simp
      then have "?D cs = []"
      proof
        assume l: "last cs = ''..''"
        show ?thesis
        proof (rule ccontr)
          assume ne: "?D cs \<noteq> []"
          then have "last (?D cs) = last cs" by (metis dropWhile_eq_drop last_drop length_drop length_greater_0_conv zero_less_diff)
          moreover have "proper (last (?D cs))" using n(1) ne by (simp add: list_all_iff)
          ultimately show False using l proper_not_dots by metis
        qed
      qed simp
      then show ?thesis using False n up
        by (auto simp: norm_step_def normal_components_def dropWhile_snoc_stop)
    qed
  next
    case name
    then show ?thesis using n
      by (cases cs) (auto simp: norm_step_def normal_components_def dropWhile_snoc_stop proper_def)
  qed
qed

lemma fold_norm_normal:
  "normal_components ab cs \<Longrightarrow> \<forall>c \<in> set ts. CHR ''/'' \<notin> set c \<Longrightarrow>
    normal_components ab (fold (norm_step ab) ts cs)"
  by (induction ts arbitrary: cs) (auto intro: norm_step_normal)

lemma norm_components_normal: "normal_components ab (norm_components ab path)"
  unfolding norm_components_def
  by (rule fold_norm_normal) (auto simp: normal_components_def dest: getlines_pieces)

lemma normal_member:
  assumes "normal_components ab cs" "c \<in> set cs"
  shows "c \<noteq> []" "c \<noteq> ''.''" "CHR ''/'' \<notin> set c"
proof -
  have "c \<in> set (takeWhile (\<lambda>c. c = ''..'') cs) \<or> c \<in> set (dropWhile (\<lambda>c. c = ''..'') cs)"
    using assms(2) by (metis Un_iff set_append takeWhile_dropWhile_id)
  then have "c = ''..'' \<or> proper c"
    using assms(1) by (auto simp: normal_components_def list_all_iff dest: set_takeWhileD)
  then show "c \<noteq> []" "c \<noteq> ''.''" "CHR ''/'' \<notin> set c" by (auto simp: proper_def)
qed

lemma normal_absolute: "normal_components True cs \<Longrightarrow> list_all proper cs"
  by (simp add: normal_components_def)

lemma dropWhile_append_stop: "dropWhile P xs \<noteq> [] \<Longrightarrow> dropWhile P (xs @ ys) = dropWhile P xs @ ys"
  by (induction xs) auto

lemma dropWhile_all: "dropWhile P xs = [] \<Longrightarrow> xs \<noteq> [] \<Longrightarrow> P (last xs)"
  by (simp add: dropWhile_eq_Nil_conv)

text \<open>Reading normal components again rebuilds them.\<close>

lemma fold_norm_id:
  "normal_components ab (acc @ cs) \<Longrightarrow> fold (norm_step ab) cs acc = acc @ cs"
proof (induction cs arbitrary: acc)
  case Nil
  then show ?case by simp
next
  case (Cons c cs)
  let ?D = "dropWhile (\<lambda>c. c = ''..'')"
  have c: "c \<noteq> []" "c \<noteq> ''.''" using normal_member [OF Cons.prems, of c] by auto
  have n: "list_all proper (?D (acc @ c # cs))" "ab \<Longrightarrow> list_all proper (acc @ c # cs)"
    using Cons.prems by (simp_all add: normal_components_def)
  have "norm_step ab c acc = acc @ [c]"
  proof (cases "c = ''..''")
    case True
    have "?D acc = []"
    proof (rule ccontr)
      assume "?D acc \<noteq> []"
      then have "c \<in> set (?D (acc @ c # cs))" by (simp add: dropWhile_append_stop)
      then have "proper c" using n(1) by (simp add: list_all_iff)
      then show False using True proper_not_dots by blast
    qed
    then have "acc = [] \<or> last acc = ''..''" using dropWhile_all by blast
    moreover have "\<not> ab"
      using n(2) True by (auto simp: proper_def)
    ultimately show ?thesis using c True by (auto simp: norm_step_def)
  next
    case False
    then show ?thesis using c by (simp add: norm_step_def)
  qed
  then show ?case using Cons by simp
qed

lemma getlines_join:
  "\<forall>t \<in> set ts. t \<noteq> [] \<and> d \<notin> set t \<Longrightarrow> getlines d (join [d] ts) = ts"
proof (induction ts rule: induct_list012)
  case (3 t u ts)
  then show ?case by (simp add: getlines_append)
qed (simp_all add: getlines_last)

lemma join_nonempty: "ts \<noteq> [] \<Longrightarrow> \<forall>t \<in> set ts. t \<noteq> [] \<Longrightarrow> join d ts \<noteq> [] \<and> hd (join d ts) = hd (hd ts)"
  by (induction ts rule: induct_list012) auto

lemma norm_components_join:
  assumes "normal_components ab cs"
  shows "norm_components ab (join ''/'' cs) = cs"
    "norm_components ab (CHR ''/'' # join ''/'' cs) = cs"
proof -
  have "getlines (CHR ''/'') (join ''/'' cs) = cs"
    using normal_member [OF assms] by (intro getlines_join) blast
  then show "norm_components ab (join ''/'' cs) = cs"
      "norm_components ab (CHR ''/'' # join ''/'' cs) = cs"
    using fold_norm_id [of ab "[]" cs] assms by (simp_all add: norm_components_def norm_step_def)
qed

text \<open>The shape of every result.\<close>

lemma normalize_cases:
  obtains (dot) "normalize path = ''.''"
  | (root) "normalize path = ''/''"
  | (rel) cs where "cs \<noteq> []" "normal_components False cs" "normalize path = join ''/'' cs"
  | (abs) cs where "cs \<noteq> []" "normal_components True cs" "normalize path = CHR ''/'' # join ''/'' cs"
    "hd path = CHR ''/''"
proof -
  let ?cs = "\<lambda>ab. norm_components ab path"
  show ?thesis
    using that norm_components_normal [of True path] norm_components_normal [of False path]
    by (cases "path = []"; cases "hd path = CHR ''/''"; cases "?cs True = []"; cases "?cs False = []")
      (auto simp: normalize_def Let_def)
qed

text \<open>\<open>Path::normalize\<close> is idempotent: a path the resolver or the location lookup has
  normalised once is left alone by a second pass.\<close>

theorem normalize_idem: "normalize (normalize path) = normalize path"
proof (cases path rule: normalize_cases)
  case dot
  then show ?thesis by (simp add: normalize_def norm_components_def norm_step_def)
next
  case root
  then show ?thesis by (simp add: normalize_def norm_components_def norm_step_def)
next
  case (rel cs)
  have "hd cs \<noteq> []" "CHR ''/'' \<notin> set (hd cs)"
    using rel normal_member [OF rel(2), of "hd cs"] by auto
  then have "hd (hd cs) \<noteq> CHR ''/''" by (metis list.set_sel(1))
  then have "hd (join ''/'' cs) \<noteq> CHR ''/''" "join ''/'' cs \<noteq> []"
    using join_nonempty [OF rel(1), of "''/''"] normal_member [OF rel(2)] by auto
  then show ?thesis using rel norm_components_join [OF rel(2)]
    by (simp add: normalize_def)
next
  case (abs cs)
  then show ?thesis using norm_components_join [OF abs(2)]
    by (simp add: normalize_def)
qed

text \<open>An absolute path normalises to the root followed by proper components joined by single
  slashes: no empty, \<open>.\<close> or \<open>..\<close> component survives, so the text cannot climb above the
  root it is appended to.\<close>

theorem normalize_absolute:
  "\<exists>cs. list_all proper cs \<and> normalize (CHR ''/'' # path) = CHR ''/'' # join ''/'' cs"
proof (cases "CHR ''/'' # path" rule: normalize_cases)
  case dot
  then have False by (auto simp: normalize_def Let_def split: if_splits)
  then show ?thesis ..
next
  case root
  then show ?thesis by (intro exI [of _ "[]"]) simp
next
  case (rel cs)
  have "hd (normalize (CHR ''/'' # path)) = CHR ''/''" by (simp add: normalize_def Let_def)
  moreover have "hd cs \<noteq> []" "CHR ''/'' \<notin> set (hd cs)"
    using rel normal_member [OF rel(2), of "hd cs"] by auto
  then have "hd (hd cs) \<noteq> CHR ''/''" by (metis list.set_sel(1))
  then have "hd (join ''/'' cs) \<noteq> CHR ''/''"
    using join_nonempty [OF rel(1), of "''/''"] normal_member [OF rel(2)] by auto
  ultimately show ?thesis using rel(3) by simp
next
  case (abs cs)
  then show ?thesis using normal_absolute by blast
qed

lemma normalize_hd: "normalize (CHR ''/'' # path) \<noteq> [] \<and> hd (normalize (CHR ''/'' # path)) = CHR ''/''"
  by (simp add: normalize_def Let_def)

end
