(* ===== verification/URI.thy ===== *)
theory URI
  imports StringOps
begin

unbundle bit_operations_syntax

text \<open>
  \<open>src/Http/URI\<close>: percent encoding and decoding.  A malformed sequence is the exception
  \<open>std::invalid_argument\<close>, the left value of the result.  The theorem is the round trip for
  every text whose bytes the decoder's own UTF-8 rules accept.
\<close>

section \<open>Decoding\<close>

definition parseHexByte :: "string \<Rightarrow> nat \<Rightarrow> 8 word res" where
  "parseHexByte str pos =
     (if length str \<le> pos \<or> length str \<le> pos + 2 then Inl Invalid_argument
      else
        (let hexVal = substr str (pos + 1) 2 in
         if \<not> list_all isxdigit hexVal then Inl Invalid_argument
         else
           (case hexStrToSize hexVal of
              None \<Rightarrow> Inl Invalid_argument
            | Some v \<Rightarrow> Inr (ucast v))))"

text \<open>The number of continuation bytes that the first byte of a sequence announces.\<close>

definition expectedCont :: "8 word \<Rightarrow> nat option" where
  "expectedCont first =
     (if first AND 0x80 = 0x00 then Some 0
      else if first AND 0xE0 = 0xC0 then Some 1
      else if first AND 0xF0 = 0xE0 then Some 2
      else if first AND 0xF8 = 0xF0 then Some 3
      else None)"

text \<open>The loop over the continuation bytes, on the text from the position it starts at.\<close>

fun cont_bytes :: "nat \<Rightarrow> string \<Rightarrow> string res" where
  "cont_bytes 0 str = Inr []"
| "cont_bytes (Suc k) str =
     (if str = [] \<or> hd str \<noteq> CHR ''%'' then Inl Invalid_argument
      else rbind (parseHexByte str 0) (\<lambda>cont.
        if cont AND 0xC0 \<noteq> 0x80 then Inl Invalid_argument
        else rbind (cont_bytes k (drop 3 str)) (\<lambda>bytes. Inr (char_of_byte cont # bytes))))"

definition reserved :: string where
  "reserved = '';,/?:@&=+$#''"

function decodeURI :: "string \<Rightarrow> string res" where
  "decodeURI [] = Inr []"
| "decodeURI (c # cs) =
     (if c = CHR ''%'' then
        rbind (parseHexByte (c # cs) 0) (\<lambda>first.
          if first < 0x80 \<and> char_of_byte first \<in> set reserved then
            rbind (decodeURI (drop 2 cs)) (\<lambda>r. Inr (take 3 (c # cs) @ r))
          else
            (case expectedCont first of
               None \<Rightarrow> Inl Invalid_argument
             | Some n \<Rightarrow>
                 rbind (cont_bytes n (drop 2 cs)) (\<lambda>bytes.
                   rbind (decodeURI (drop (2 + n * 3) cs)) (\<lambda>r.
                     Inr (char_of_byte first # bytes @ r)))))
      else rbind (decodeURI cs) (\<lambda>r. Inr (c # r)))"
  by pat_completeness auto
termination by (relation "measure length") auto

declare decodeURI.simps(2) [simp del]

definition decodeURIComponent :: "string \<Rightarrow> string res" where
  "decodeURIComponent str = decodeURI str"

section \<open>Encoding\<close>

definition hexdigit :: "nat \<Rightarrow> char" where
  "hexdigit d = (if d < 10 then char_of (48 + d) else char_of (55 + d))"

definition internalEncodeURILogic :: "string \<Rightarrow> string \<Rightarrow> string" where
  "internalEncodeURILogic str unescaped =
     concat (map (\<lambda>c. if c \<in> set unescaped then [c]
                      else [CHR ''%'', hexdigit (code c div 16), hexdigit (code c mod 16)]) str)"

definition alnum :: string where
  "alnum = ''ABCDEFGHIJKLMNOPQRSTUVWXYZabcdefghijklmnopqrstuvwxyz0123456789''"

definition uri_unescaped :: string where
  "uri_unescaped = alnum @ ''-._~'' @ '':/?#@'' @ ''!$&'' @ [CHR 0x27] @ ''()*+,;=''"

definition encodeURI :: "string \<Rightarrow> string" where
  "encodeURI str = internalEncodeURILogic str uri_unescaped"

definition encodeURIComponent :: "string \<Rightarrow> string" where
  "encodeURIComponent str = internalEncodeURILogic str (alnum @ ''-_.!~*'' @ [CHR 0x27] @ ''()'')"

section \<open>The round trip\<close>

text \<open>
  The texts the decoder can produce: every byte outside ASCII opens or continues a sequence of
  the length its first byte announces.
\<close>

definition is_cont :: "char \<Rightarrow> bool" where
  "is_cont c \<longleftrightarrow> byte_of c AND 0xC0 = 0x80"

function utf8_shape :: "string \<Rightarrow> bool" where
  "utf8_shape [] = True"
| "utf8_shape (c # cs) =
     (case expectedCont (byte_of c) of
        None \<Rightarrow> False
      | Some n \<Rightarrow> n \<le> length cs \<and> list_all is_cont (take n cs) \<and> utf8_shape (drop n cs))"
  by pat_completeness auto
termination by (relation "measure length") auto

lemma hexdigit_digit:
  assumes "d < 16"
  shows "hexCharToDigit (hexdigit d) = Some d"
proof (cases "d < 10")
  case True
  then show ?thesis by (simp add: hexCharToDigit_def hexdigit_def isdigit_def)
next
  case False
  with assms show ?thesis
    by (simp add: hexCharToDigit_def hexdigit_def char_class_defs tolower_def)
qed

lemma parseHexByte_encoded:
  "parseHexByte (CHR ''%'' # hexdigit (code c div 16) # hexdigit (code c mod 16) # t) 0 = Inr (byte_of c)"
proof -
  have lt: "code c div 16 < 16" "code c mod 16 < 16" using code_lt_256 [of c] by (auto intro: less_mult_imp_div_less)
  let ?h = "[hexdigit (code c div 16), hexdigit (code c mod 16)]"
  have x: "list_all isxdigit ?h"
    using hexdigit_digit [OF lt(1)] hexdigit_digit [OF lt(2)] hexCharToDigit_iff by auto
  have v: "hex_val ?h = code c"
    using lt by (simp add: hex_val_def hex_dig_def hexdigit_digit)
  have "code c \<le> size_max" using code_lt_256 [of c] by linarith
  with x v have "hexStrToSize ?h = Some (of_nat (code c))"
    by (simp add: hexStrToSize_eq)
  moreover have "(ucast (of_nat (code c) :: size_t) :: 8 word) = byte_of c"
    using \<open>code c \<le> size_max\<close>
    by (simp add: byte_of_def unsigned_of_nat take_bit_nat_eq_self)
  ultimately show ?thesis
    using x by (simp add: parseHexByte_def substr_def numeral_2_eq_2 Let_def)
qed

lemma parseHexByte_append:
  "parseHexByte (a # b # c # t) 0 = parseHexByte [a, b, c] 0"
  by (simp add: parseHexByte_def substr_def numeral_2_eq_2)

text \<open>What the encoder writes for one character, and the classes of bytes.\<close>

abbreviation enc :: "char \<Rightarrow> string" where
  "enc c \<equiv> [CHR ''%'', hexdigit (code c div 16), hexdigit (code c mod 16)]"

lemma reserved_unescaped: "c \<in> set reserved \<Longrightarrow> c \<in> set uri_unescaped"
  by (auto simp: reserved_def uri_unescaped_def alnum_def)

lemma percent_escaped: "CHR ''%'' \<notin> set uri_unescaped"
  by (auto simp: uri_unescaped_def alnum_def)

lemma unescaped_ascii: "c \<in> set uri_unescaped \<Longrightarrow> expectedCont (byte_of c) = Some 0"
proof -
  have "list_all (\<lambda>c. expectedCont (byte_of c) = Some 0) uri_unescaped"
    unfolding uri_unescaped_def alnum_def
    by (simp add: expectedCont_def byte_of_def code_def)
  then show "c \<in> set uri_unescaped \<Longrightarrow> expectedCont (byte_of c) = Some 0"
    by (simp add: list_all_iff)
qed

lemma is_cont_escaped: "is_cont c \<Longrightarrow> c \<notin> set uri_unescaped"
proof -
  have "list_all (\<lambda>c. \<not> is_cont c) uri_unescaped"
    unfolding uri_unescaped_def alnum_def
    by (simp add: is_cont_def byte_of_def code_def)
  then show "is_cont c \<Longrightarrow> c \<notin> set uri_unescaped"
    by (auto simp: list_all_iff)
qed

lemma encode_Cons:
  "encodeURI (c # cs) = (if c \<in> set uri_unescaped then [c] else enc c) @ encodeURI cs"
  by (simp add: encodeURI_def internalEncodeURILogic_def)

lemma encode_Nil [simp]: "encodeURI [] = []"
  by (simp add: encodeURI_def internalEncodeURILogic_def)

lemma encode_append: "encodeURI (a @ b) = encodeURI a @ encodeURI b"
  by (simp add: encodeURI_def internalEncodeURILogic_def)

lemma encode_conts:
  "list_all is_cont bs \<Longrightarrow>
    cont_bytes (length bs) (encodeURI bs @ t) = Inr bs \<and> length (encodeURI bs) = 3 * length bs"
proof (induction bs)
  case (Cons b bs)
  then have b: "is_cont b" "b \<notin> set uri_unescaped" using is_cont_escaped by auto
  with Cons show ?case
    using parseHexByte_encoded [of b "encodeURI bs @ t"]
    by (simp add: encode_Cons is_cont_def numeral_3_eq_3)
qed simp

lemma decode_step:
  assumes "expectedCont (byte_of c) = Some (length bs)" "list_all is_cont bs"
    "c \<notin> set uri_unescaped"
  shows "decodeURI (encodeURI (c # bs) @ t) = rbind (decodeURI t) (\<lambda>r. Inr (c # bs @ r))"
proof -
  have r: "char_of_byte (byte_of c) \<notin> set reserved"
    using assms(3) reserved_unescaped by auto
  have e: "encodeURI (c # bs) @ t = enc c @ encodeURI bs @ t"
    using assms(3) by (simp add: encode_Cons)
  show ?thesis
    unfolding e
    using encode_conts [OF assms(2), of t] r assms(1)
      parseHexByte_encoded [of c "encodeURI bs @ t"]
    by (simp add: decodeURI.simps(2) mult.commute [of 3])
qed

text \<open>C40: decoding the result of \<open>encodeURI\<close> gives back the text, for every text whose bytes
  have the UTF-8 shape (ASCII, or a leading byte followed by as many continuation bytes as it
  announces): reserved characters are neither escaped by the encoder nor unescaped by the
  decoder.\<close>

theorem decodeURI_encodeURI:
  assumes "utf8_shape s"
  shows "decodeURI (encodeURI s) = Inr s"
  using assms
proof (induction s rule: utf8_shape.induct)
  case 1
  show ?case by simp
next
  case (2 c cs)
  from 2(2) obtain n where n: "expectedCont (byte_of c) = Some n" "n \<le> length cs"
    "list_all is_cont (take n cs)" "utf8_shape (drop n cs)"
    by (auto split: option.splits)
  with 2(1) have IH: "decodeURI (encodeURI (drop n cs)) = Inr (drop n cs)" by blast
  have cs: "take n cs @ drop n cs = cs" by simp
  show ?case
  proof (cases "c \<in> set uri_unescaped")
    case True
    with n(1) have "n = 0" using unescaped_ascii by auto
    moreover have "c \<noteq> CHR ''%''" using True percent_escaped by auto
    ultimately show ?thesis using True IH by (simp add: encode_Cons decodeURI.simps(2))
  next
    case False
    have "decodeURI (encodeURI (c # take n cs) @ encodeURI (drop n cs)) = Inr (c # take n cs @ drop n cs)"
      using decode_step [of c "take n cs" "encodeURI (drop n cs)"] n IH False by simp
    then show ?thesis
      using encode_append [of "c # take n cs" "drop n cs"] by simp
  qed
qed

theorem decodeURI_encodeURI_witness:
  "decodeURI (encodeURI ''a %b?'') = Inr ''a %b?''"
  by (rule decodeURI_encodeURI) (simp add: expectedCont_def byte_of_def code_def)

text \<open>A sequence cut short by the end of the text is an exception.\<close>

lemma decodeURI_truncated: "length t < 2 \<Longrightarrow> decodeURI (CHR ''%'' # t) = Inl Invalid_argument"
  by (simp add: decodeURI.simps(2) parseHexByte_def)

lemma decodeURI_plain: "CHR ''%'' \<notin> set s \<Longrightarrow> decodeURI s = Inr s"
  by (induction s) (auto simp: decodeURI.simps(2))

end
