(* ===== verification/Config.thy ===== *)
theory Config
  imports StringOps
begin

text \<open>
  \<open>src/Config/Config.hpp\<close> and \<open>Config.cpp\<close>: the configuration of one virtual server, a
  value that every other component reads.  Sizes and time-outs are \<open>size_t\<close>, a port and a
  redirect code are \<open>int\<close>, a \<open>std::set\<close> of methods is its sorted list.  The theorem
  describes the location lookup, by the longest configured prefix.
\<close>

section \<open>Data\<close>

datatype LogSinkType = File | Console
datatype LogFormat = JSON | ELF
datatype LogFilterMode = GREATER_OR_EQUAL | EXACT
datatype LogLevel = DEBUG | INFO | WARNING | ERROR | FATAL

record AppInfo =
  softwareName :: string
  softwareVersion :: string
  httpServerName :: string
  httpProtocolVersion :: string
  cgiVersion :: string

definition appInfo :: AppInfo where
  "appInfo =
     \<lparr>softwareName = ''Webserv/42'', softwareVersion = ''0.9'', httpServerName = ''webserv/42'',
      httpProtocolVersion = ''HTTP/1.1'', cgiVersion = ''CGI/1.1''\<rparr>"

record Listen =
  lst_host :: string
  lst_interface :: string
  lst_port :: int

record Location =
  loc_path :: string
  loc_root :: string
  loc_allowedMethods :: "string list"
  loc_autoindex :: bool
  loc_hasMaxRequestBodySize :: bool
  loc_maxRequestBodySize :: size_t
  loc_hasChunkedTimeoutSec :: bool
  loc_chunkedTimeoutSec :: size_t
  loc_index :: string
  loc_noIndex :: bool
  loc_directoryError :: string
  loc_uploadStore :: string
  loc_cgiConf :: "(string, string) omap"
  loc_session :: bool
  loc_hasRedirect :: bool
  loc_redirectCode :: int
  loc_redirectUrl :: string

definition new_Location :: Location where
  "new_Location =
     \<lparr>loc_path = [], loc_root = [], loc_allowedMethods = [], loc_autoindex = False,
      loc_hasMaxRequestBodySize = False, loc_maxRequestBodySize = 0,
      loc_hasChunkedTimeoutSec = False, loc_chunkedTimeoutSec = 0, loc_index = [],
      loc_noIndex = False, loc_directoryError = [], loc_uploadStore = [], loc_cgiConf = [],
      loc_session = False, loc_hasRedirect = False, loc_redirectCode = 0, loc_redirectUrl = []\<rparr>"

text \<open>An error log has the fields of an access log and two more.\<close>

record AccessLog =
  lg_isDisable :: bool
  lg_sink :: LogSinkType
  lg_filename :: string
  lg_logDir :: string
  lg_format :: LogFormat
  lg_maxFileSize :: size_t
  lg_maxBackupFiles :: size_t

record ErrorLog = AccessLog +
  el_level :: LogLevel
  el_filterMode :: LogFilterMode

definition new_AccessLog :: AccessLog where
  "new_AccessLog =
     \<lparr>lg_isDisable = False, lg_sink = File, lg_filename = ''access.log'', lg_logDir = ''./logs'',
      lg_format = ELF, lg_maxFileSize = 10 * 1024 * 1024, lg_maxBackupFiles = 5\<rparr>"

definition new_ErrorLog :: ErrorLog where
  "new_ErrorLog =
     \<lparr>lg_isDisable = False, lg_sink = File, lg_filename = ''error.log'', lg_logDir = ''./logs'',
      lg_format = ELF, lg_maxFileSize = 10 * 1024 * 1024, lg_maxBackupFiles = 5,
      el_level = WARNING, el_filterMode = GREATER_OR_EQUAL\<rparr>"

record Config =
  cfg_listens :: "Listen list"
  cfg_locations :: "(string, Location) omap"
  cfg_accessLogs :: "AccessLog list"
  cfg_errorLogs :: "ErrorLog list"
  cfg_errorPages :: "(int, string) omap"
  cfg_maxRequestBodySize :: size_t
  cfg_hasBiggestMaxRequestBodySize :: bool
  cfg_biggestMaxRequestBodySize :: size_t
  cfg_timeoutSec :: size_t
  cfg_maxEvents :: size_t
  cfg_requestHeaderTimeoutSec :: size_t
  cfg_requestBodyTimeoutSec :: size_t
  cfg_sessionTimeoutSec :: size_t
  cfg_maxRequestHeaderSize :: size_t

text \<open>The methods a configuration may allow.\<close>

definition VALID_ALLOWED_METHODS :: "string list" where
  "VALID_ALLOWED_METHODS = [''DELETE'', ''GET'', ''HEAD'', ''POST'', ''PUT'']"

section \<open>Lookups\<close>

definition getErrorPage :: "Config \<Rightarrow> int \<Rightarrow> string" where
  "getErrorPage c errcode = (case map_of (cfg_errorPages c) errcode of Some p \<Rightarrow> p | None \<Rightarrow> [])"

text \<open>
  One pass of the loop of \<open>getLocation\<close>; \<open>path.rfind(locPath, 0) == 0\<close> says that
  \<open>locPath\<close> is a prefix of the path.
\<close>

definition match_step :: "string \<Rightarrow> string \<Rightarrow> string \<Rightarrow> string" where
  "match_step path locPath bestMatchKey =
     (if prefix locPath path \<and> length bestMatchKey < length locPath then locPath
      else bestMatchKey)"

definition bestMatchKey :: "(string, Location) omap \<Rightarrow> string \<Rightarrow> string" where
  "bestMatchKey locations path = fold (\<lambda>it. match_step path (fst it)) locations []"

definition getLocation :: "Config \<Rightarrow> string \<Rightarrow> Location res" where
  "getLocation c path =
     (let best = bestMatchKey (cfg_locations c) path in
      if best \<noteq> [] then Inr (the (map_of (cfg_locations c) best))
      else
        (case map_of (cfg_locations c) ''/'' of
           Some l \<Rightarrow> Inr l
         | None \<Rightarrow> Inl Runtime_error))"

section \<open>Printing\<close>

definition print_bool :: "bool \<Rightarrow> string" where
  "print_bool b = (if b then ''true'' else ''false'')"

definition print_level :: "LogLevel \<Rightarrow> string" where
  "print_level l =
     (case l of DEBUG \<Rightarrow> ''DEBUG'' | INFO \<Rightarrow> ''INFO'' | WARNING \<Rightarrow> ''WARNING''
      | ERROR \<Rightarrow> ''ERROR'' | FATAL \<Rightarrow> ''FATAL'')"

definition print_location :: "Location \<Rightarrow> string" where
  "print_location l =
     ''  - path: '' @ loc_path l @ [LF] @
     ''      root: '' @ loc_root l @ [LF] @
     ''      allowedMethods: '' @ concat (map (\<lambda>m. m @ '' '') (loc_allowedMethods l)) @ [LF] @
     ''      autoindex: '' @ (if loc_autoindex l then ''on'' else ''off'') @ [LF] @
     (if loc_noIndex l then [] else ''      index: '' @ loc_index l @ [LF]) @
     ''      noIndex: '' @ print_bool (loc_noIndex l) @ [LF] @
     ''      directoryError: '' @ loc_directoryError l @ [LF] @
     ''      uploadStore: '' @ loc_uploadStore l @ [LF] @
     ''      maxRequestBodySize: '' @
       (if loc_hasMaxRequestBodySize l then show_nat (unat (loc_maxRequestBodySize l))
        else ''default'') @ [LF] @
     ''      chunkedTimeoutSec: '' @ (if loc_hasChunkedTimeoutSec l then ''1'' else ''0'') @ [LF] @
     ''      cgiConf:'' @ [LF] @
     concat (map (\<lambda>(k, v). ''        '' @ k @ '': '' @ v @ [LF]) (loc_cgiConf l))"

definition print_access_log :: "'a AccessLog_scheme \<Rightarrow> string" where
  "print_access_log g =
     ''    - isDisable: '' @ print_bool (lg_isDisable g) @ [LF] @
     ''      sink: '' @ (if lg_sink g = File then ''file'' else ''console'') @ [LF] @
     ''      filename: '' @ lg_filename g @ [LF] @
     ''      logDir: '' @ lg_logDir g @ [LF] @
     ''      format: '' @ (if lg_format g = JSON then ''json'' else ''elf'') @ [LF] @
     ''      maxFileSize: '' @ show_nat (unat (lg_maxFileSize g)) @ [LF] @
     ''      maxBackupFiles: '' @ show_nat (unat (lg_maxBackupFiles g)) @ [LF]"

definition print_error_log :: "ErrorLog \<Rightarrow> string" where
  "print_error_log g =
     ''    - isDisable: '' @ print_bool (lg_isDisable g) @ [LF] @
     ''      sink: '' @ (if lg_sink g = File then ''FILE'' else ''CONSOLE'') @ [LF] @
     ''      filename: '' @ lg_filename g @ [LF] @
     ''      logDir: '' @ lg_logDir g @ [LF] @
     ''      format: '' @ (if lg_format g = JSON then ''JSON'' else ''ELF'') @ [LF] @
     ''      level: '' @ print_level (el_level g) @ [LF] @
     ''      filterMode: '' @
       (if el_filterMode g = GREATER_OR_EQUAL then ''GREATER_OR_EQUAL'' else ''EXACT'') @ [LF] @
     ''      maxFileSize: '' @ show_nat (unat (lg_maxFileSize g)) @ [LF] @
     ''      maxBackupFiles: '' @ show_nat (unat (lg_maxBackupFiles g)) @ [LF]"

definition print_config :: "Config \<Rightarrow> string" where
  "print_config c =
     ''Config:'' @ [LF] @
     ''  maxRequestBodySize: '' @ show_nat (unat (cfg_maxRequestBodySize c)) @ [LF] @
     ''  timeoutSec: '' @ show_nat (unat (cfg_timeoutSec c)) @ [LF] @
     ''  requestHeaderTimeoutSec: '' @ show_nat (unat (cfg_requestHeaderTimeoutSec c)) @ [LF] @
     ''  requestBodyTimeoutSec: '' @ show_nat (unat (cfg_requestBodyTimeoutSec c)) @ [LF] @
     ''  maxEvents: '' @ show_nat (unat (cfg_maxEvents c)) @ [LF] @
     ''  sessionTimeoutSec: '' @ show_nat (unat (cfg_sessionTimeoutSec c)) @ [LF] @
     ''  maxRequestHeaderSize: '' @ show_nat (unat (cfg_maxRequestHeaderSize c)) @ [LF] @
     ''  listens:'' @ [LF] @
     concat (map (\<lambda>it. ''    - '' @ lst_interface it @ '':'' @ show_int (lst_port it) @ [LF])
       (cfg_listens c)) @
     ''  error_pages:'' @ [LF] @
     concat (map (\<lambda>(k, v). ''    '' @ show_int k @ '': '' @ v @ [LF]) (cfg_errorPages c)) @
     ''  locations:'' @ [LF] @
     concat (map (\<lambda>it. print_location (snd it)) (cfg_locations c)) @
     ''  accessLogs:'' @ [LF] @ concat (map print_access_log (cfg_accessLogs c)) @
     ''  errorLogs:'' @ [LF] @ concat (map print_error_log (cfg_errorLogs c))"

section \<open>The longest prefix\<close>

lemma fold_match_inv:
  assumes "b = [] \<or> prefix b path"
  shows "let r = fold (\<lambda>it. match_step path (fst it)) ls b in
    (r = b \<or> r \<in> fst ` set ls) \<and> (r = [] \<or> prefix r path) \<and> length b \<le> length r \<and>
    (\<forall>k \<in> fst ` set ls. prefix k path \<longrightarrow> length k \<le> length r)"
  using assms
proof (induction ls arbitrary: b)
  case Nil
  then show ?case by simp
next
  case (Cons it ls)
  let ?b = "match_step path (fst it) b"
  have "?b = [] \<or> prefix ?b path" using Cons.prems by (auto simp: match_step_def)
  from Cons.IH [OF this] show ?case
    by (auto simp: Let_def match_step_def split: if_splits)
qed

lemma bestMatchKey_sound:
  "bestMatchKey locs path \<noteq> [] \<Longrightarrow>
     bestMatchKey locs path \<in> fst ` set locs \<and> prefix (bestMatchKey locs path) path"
  using fold_match_inv [of "[]" path locs] by (auto simp: bestMatchKey_def Let_def)

lemma bestMatchKey_longest:
  "k \<in> fst ` set locs \<Longrightarrow> prefix k path \<Longrightarrow> length k \<le> length (bestMatchKey locs path)"
  using fold_match_inv [of "[]" path locs] by (auto simp: bestMatchKey_def Let_def)

text \<open>The lookup as a relation: the key it settles on.\<close>

definition chosen_key :: "(string, Location) omap \<Rightarrow> string \<Rightarrow> string" where
  "chosen_key locs path = (if bestMatchKey locs path \<noteq> [] then bestMatchKey locs path else ''/'')"

lemma getLocation_chosen:
  "getLocation c path =
     (case map_of (cfg_locations c) (chosen_key (cfg_locations c) path) of
        Some l \<Rightarrow> Inr l | None \<Rightarrow> Inl Runtime_error)"
proof -
  have "bestMatchKey (cfg_locations c) path \<noteq> [] \<Longrightarrow>
      \<exists>l. map_of (cfg_locations c) (bestMatchKey (cfg_locations c) path) = Some l"
    using bestMatchKey_sound [of "cfg_locations c" path] by (metis map_of_eq_None_iff not_None_eq)
  then show ?thesis by (auto simp: getLocation_def chosen_key_def Let_def)
qed

text \<open>When the lookup of a path returns a location, it is the one configured under a key
  that is a prefix of the path (or the default key), and no configured key that is a prefix of
  the path is longer.\<close>

theorem getLocation_longest:
  assumes "getLocation c path = Inr l"
  shows "\<exists>k. map_of (cfg_locations c) k = Some l \<and> (prefix k path \<or> k = ''/'') \<and>
    (\<forall>k'. k' \<in> fst ` set (cfg_locations c) \<longrightarrow> prefix k' path \<longrightarrow> length k' \<le> length k)"
proof -
  let ?L = "cfg_locations c"
  have "map_of ?L (chosen_key ?L path) = Some l"
    using assms by (auto simp: getLocation_chosen split: option.splits)
  moreover have "prefix (chosen_key ?L path) path \<or> chosen_key ?L path = ''/''"
    using bestMatchKey_sound [of ?L path] by (auto simp: chosen_key_def)
  moreover have "length k' \<le> length (chosen_key ?L path)"
    if "k' \<in> fst ` set ?L" "prefix k' path" for k'
    using bestMatchKey_longest [OF that]
    by (cases "bestMatchKey ?L path = []") (auto simp: chosen_key_def)
  ultimately show ?thesis by (intro exI [of _ "chosen_key ?L path"]) blast
qed

definition two_locations :: Config where
  "two_locations =
     \<lparr>cfg_listens = [],
      cfg_locations = [(''/'', new_Location\<lparr>loc_path := ''/''\<rparr>),
                       (''/img'', new_Location\<lparr>loc_path := ''/img'', loc_root := ''./pics''\<rparr>)],
      cfg_accessLogs = [], cfg_errorLogs = [], cfg_errorPages = [],
      cfg_maxRequestBodySize = 0, cfg_hasBiggestMaxRequestBodySize = False,
      cfg_biggestMaxRequestBodySize = 0, cfg_timeoutSec = 0, cfg_maxEvents = 0,
      cfg_requestHeaderTimeoutSec = 0, cfg_requestBodyTimeoutSec = 0,
      cfg_sessionTimeoutSec = 0, cfg_maxRequestHeaderSize = 0\<rparr>"

theorem getLocation_longest_witness:
  "\<exists>k. map_of (cfg_locations two_locations) k =
         Some (new_Location\<lparr>loc_path := ''/img'', loc_root := ''./pics''\<rparr>) \<and>
       (prefix k ''/img/a.png'' \<or> k = ''/'')"
proof -
  have "getLocation two_locations ''/img/a.png'' =
      Inr (new_Location\<lparr>loc_path := ''/img'', loc_root := ''./pics''\<rparr>)"
    by (simp add: getLocation_def bestMatchKey_def match_step_def two_locations_def)
  from getLocation_longest [OF this] show ?thesis by blast
qed

lemma getLocation_total: "''/'' \<in> fst ` set (cfg_locations c) \<Longrightarrow> \<exists>l. getLocation c path = Inr l"
proof -
  assume d: "''/'' \<in> fst ` set (cfg_locations c)"
  have "chosen_key (cfg_locations c) path \<in> fst ` set (cfg_locations c)"
    using bestMatchKey_sound [of "cfg_locations c" path] d by (auto simp: chosen_key_def)
  then show ?thesis
    by (auto simp: getLocation_chosen map_of_eq_None_iff split: option.splits)
qed

end
