(* ===== verification/HttpCore.thy ===== *)
theory HttpCore
  imports Config
begin

text \<open>
  \<open>src/Http/Core\<close>, \<open>Builder\<close> and \<open>Mime\<close>: the request and the response objects, the
  status table, the MIME table, the default page and the serialisation of a response.  The keys
  of request headers are folded to lower case by every accessor; those of a response are kept.
  Both containers satisfy the same contract, a locale that adds the multi-valued append to the
  contract of a keyed store.
\<close>

section \<open>Status codes\<close>

definition statusEntries :: "(int \<times> string) list" where
  "statusEntries =
     [(100, ''Continue''), (200, ''OK''), (201, ''Created''), (202, ''Accepted''),
      (204, ''No Content''), (301, ''Moved Permanently''), (302, ''Found''),
      (303, ''See Other''), (307, ''Temporary Redirect''), (308, ''Permanent Redirect''),
      (400, ''Bad Request''), (401, ''Unauthorized''), (403, ''Forbidden''),
      (404, ''Not Found''), (405, ''Method Not Allowed''), (408, ''Request Timeout''),
      (413, ''Payload Too Large''), (414, ''URI Too Long''), (415, ''Unsupported Media Type''),
      (431, ''Request Header Fields Too Large''), (500, ''Internal Server Error''),
      (501, ''Not Implemented''), (502, ''Bad Gateway''), (503, ''Service Unavailable''),
      (504, ''Gateway Timeout''), (505, ''HTTP Version Not Supported'')]"

definition getReason :: "int \<Rightarrow> string" where
  "getReason status =
     (case map_of statusEntries status of Some r \<Rightarrow> r | None \<Rightarrow> ''Internal Server Error'')"

definition isValidStatusCode :: "int \<Rightarrow> int \<Rightarrow> int \<Rightarrow> bool" where
  "isValidStatusCode status left right =
     (let (lo, hi) = (if right < left then (right, left) else (left, right)) in
      if \<not> (lo \<le> status \<and> status < hi) then False
      else list_ex (\<lambda>e. fst e = status) statusEntries)"

section \<open>The request\<close>

type_synonym headers = "(string, string list) omap"

record HttpRequest =
  rq_maxBodySize :: size_t
  rq_method :: string
  rq_path :: string
  rq_version :: string
  rq_headers :: headers
  rq_query :: "(string, string) omap"
  rq_body :: string

definition new_HttpRequest :: "Config \<Rightarrow> HttpRequest" where
  "new_HttpRequest config =
     \<lparr>rq_maxBodySize = cfg_maxRequestBodySize config, rq_method = [], rq_path = [],
      rq_version = [], rq_headers = [], rq_query = [], rq_body = []\<rparr>"

definition clear_request :: "Config \<Rightarrow> HttpRequest \<Rightarrow> HttpRequest" where
  "clear_request c r =
     r\<lparr>rq_maxBodySize := cfg_maxRequestBodySize c, rq_method := [], rq_path := [],
       rq_version := [], rq_headers := [], rq_query := [], rq_body := []\<rparr>"

text \<open>The last value of a key, the whole vector, and whether the key is there.\<close>

definition last_value :: "headers \<Rightarrow> string \<Rightarrow> string" where
  "last_value h key =
     (case map_of h key of Some vs \<Rightarrow> if vs \<noteq> [] then last vs else [] | None \<Rightarrow> [])"

definition values_of :: "headers \<Rightarrow> string \<Rightarrow> string list" where
  "values_of h key = (case map_of h key of Some vs \<Rightarrow> vs | None \<Rightarrow> [])"

definition has_key :: "('k, 'v) omap \<Rightarrow> 'k \<Rightarrow> bool" where
  "has_key h key = (map_of h key \<noteq> None)"

definition add_value :: "string \<Rightarrow> string \<Rightarrow> headers \<Rightarrow> headers" where
  "add_value key v h = om_set key (values_of h key @ [v]) h"

definition rq_getHeader :: "HttpRequest \<Rightarrow> string \<Rightarrow> string" where
  "rq_getHeader r key = last_value (rq_headers r) (toLower key)"

definition rq_getHeaderVector :: "HttpRequest \<Rightarrow> string \<Rightarrow> string list" where
  "rq_getHeaderVector r key = values_of (rq_headers r) (toLower key)"

definition rq_hasHeader :: "HttpRequest \<Rightarrow> string \<Rightarrow> bool" where
  "rq_hasHeader r key = has_key (rq_headers r) (toLower key)"

definition rq_addHeader :: "string \<Rightarrow> string \<Rightarrow> HttpRequest \<Rightarrow> HttpRequest" where
  "rq_addHeader key v r = r\<lparr>rq_headers := om_set (toLower key) [v] (rq_headers r)\<rparr>"

definition rq_appendHeader :: "string \<Rightarrow> string \<Rightarrow> HttpRequest \<Rightarrow> HttpRequest" where
  "rq_appendHeader key v r = r\<lparr>rq_headers := add_value (toLower key) v (rq_headers r)\<rparr>"

definition rq_getQuery :: "HttpRequest \<Rightarrow> string \<Rightarrow> string" where
  "rq_getQuery r key = (case map_of (rq_query r) key of Some v \<Rightarrow> v | None \<Rightarrow> [])"

definition rq_hasQuery :: "HttpRequest \<Rightarrow> string \<Rightarrow> bool" where
  "rq_hasQuery r key = has_key (rq_query r) key"

definition rq_addQuery :: "string \<Rightarrow> string \<Rightarrow> HttpRequest \<Rightarrow> HttpRequest" where
  "rq_addQuery key v r = r\<lparr>rq_query := om_set key v (rq_query r)\<rparr>"

definition rq_appendBody :: "string \<Rightarrow> HttpRequest \<Rightarrow> HttpRequest" where
  "rq_appendBody data r = r\<lparr>rq_body := rq_body r @ data\<rparr>"

section \<open>The response\<close>

record HttpResponse =
  rs_serverName :: string
  rs_statusCode :: int
  rs_version :: string
  rs_headers :: headers
  rs_body :: string
  rs_isDirectory :: bool

definition new_HttpResponse :: HttpResponse where
  "new_HttpResponse =
     \<lparr>rs_serverName = httpServerName appInfo, rs_statusCode = 200,
      rs_version = httpProtocolVersion appInfo, rs_headers = [], rs_body = [],
      rs_isDirectory = False\<rparr>"

definition clear_response :: "HttpResponse \<Rightarrow> HttpResponse" where
  "clear_response r =
     r\<lparr>rs_statusCode := 200, rs_version := httpProtocolVersion appInfo, rs_isDirectory := False,
       rs_headers := [], rs_body := []\<rparr>"

definition rs_getHeader :: "HttpResponse \<Rightarrow> string \<Rightarrow> string" where
  "rs_getHeader r key = last_value (rs_headers r) key"

definition rs_getHeaderVector :: "HttpResponse \<Rightarrow> string \<Rightarrow> string list" where
  "rs_getHeaderVector r key = values_of (rs_headers r) key"

definition rs_hasHeader :: "HttpResponse \<Rightarrow> string \<Rightarrow> bool" where
  "rs_hasHeader r key = has_key (rs_headers r) key"

definition rs_setHeader :: "string \<Rightarrow> string \<Rightarrow> HttpResponse \<Rightarrow> HttpResponse" where
  "rs_setHeader key v r = r\<lparr>rs_headers := om_set key [v] (rs_headers r)\<rparr>"

definition rs_appendHeader :: "string \<Rightarrow> string \<Rightarrow> HttpResponse \<Rightarrow> HttpResponse" where
  "rs_appendHeader key v r = r\<lparr>rs_headers := add_value key v (rs_headers r)\<rparr>"

section \<open>Default pages\<close>

text \<open>The page that \<open>generateSimpleBody\<close> writes; an empty description is left out.\<close>

definition simple_page :: "int \<Rightarrow> string \<Rightarrow> string" where
  "simple_page status description =
     ''<html><head><title>'' @ show_int status @ '' '' @ getReason status @
     ''</title></head><body><h1>'' @ show_int status @ '' '' @ getReason status @ ''</h1>'' @
     (if description = [] then [] else ''<p>'' @ description @ ''</p>'') @
     ''</body></html>''"

definition generateSimpleBody ::
  "string \<Rightarrow> int \<Rightarrow> string \<Rightarrow> bool \<Rightarrow> HttpResponse \<Rightarrow> HttpResponse" where
  "generateSimpleBody method status description skipIfAlreadySet res =
     (if skipIfAlreadySet \<and> rs_body res \<noteq> [] then res
      else
        (rs_setHeader ''Content-Type'' ''text/html'' (res\<lparr>rs_statusCode := status\<rparr>))
          \<lparr>rs_body := (if method = ''HEAD'' then [] else simple_page status description)\<rparr>)"

section \<open>MIME types\<close>

definition mimeMap :: "(string, string) omap" where
  "mimeMap = fold (\<lambda>(k, v). om_set k v)
     [(''.html'', ''text/html''), (''.htm'', ''text/html''), (''.css'', ''text/css''),
      (''.js'', ''application/javascript''), (''.json'', ''application/json''),
      (''.xml'', ''application/xml''), (''.pdf'', ''application/pdf''),
      (''.zip'', ''application/zip''), (''.txt'', ''text/plain''),
      (''.form'', ''application/x-www-form-urlencoded''),
      (''.jpeg'', ''image/jpeg''), (''.jpg'', ''image/jpeg''), (''.png'', ''image/png''),
      (''.gif'', ''image/gif''), (''.bmp'', ''image/bmp''), (''.ico'', ''image/x-icon''),
      (''.svg'', ''image/svg+xml''),
      (''.mp3'', ''audio/mpeg''), (''.mp4'', ''video/mp4''), (''.webm'', ''video/webm''),
      (''.wav'', ''audio/wav''),
      (''.ttf'', ''font/ttf''), (''.otf'', ''font/otf''), (''.woff'', ''font/woff''),
      (''.woff2'', ''font/woff2''), (''.eot'', ''application/vnd.ms-fontobject'')] []"

definition getMimeType :: "string \<Rightarrow> string" where
  "getMimeType extension =
     (case rfind_char extension (CHR ''.'') of
        None \<Rightarrow> ''application/octet-stream''
      | Some dotPos \<Rightarrow>
          (case map_of mimeMap (toLower (drop dotPos extension)) of
             Some m \<Rightarrow> m
           | None \<Rightarrow> ''application/octet-stream''))"

definition getExtension :: "string \<Rightarrow> string" where
  "getExtension mimeType =
     (case find (\<lambda>it. snd it = mimeType) mimeMap of Some it \<Rightarrow> fst it | None \<Rightarrow> [])"

section \<open>Serialisation\<close>

definition addDateHeader :: "string \<Rightarrow> HttpResponse \<Rightarrow> HttpResponse" where
  "addDateHeader headerTimestamp res =
     (if \<not> rs_hasHeader res ''Date'' then rs_setHeader ''Date'' headerTimestamp res else res)"

definition addServerHeader :: "HttpResponse \<Rightarrow> HttpResponse" where
  "addServerHeader res =
     (if \<not> rs_hasHeader res ''Server'' then rs_setHeader ''Server'' (rs_serverName res) res else res)"

definition addContentLengthHeader :: "HttpResponse \<Rightarrow> HttpResponse" where
  "addContentLengthHeader res =
     (if \<not> rs_hasHeader res ''Content-Length''
      then rs_setHeader ''Content-Length'' (show_nat (length (rs_body res))) res else res)"

definition addMimeTypeHeader :: "HttpResponse \<Rightarrow> HttpResponse" where
  "addMimeTypeHeader res =
     (if \<not> rs_hasHeader res ''Content-Type''
      then rs_setHeader ''Content-Type'' ''text/html'' res else res)"

definition header_lines :: "headers \<Rightarrow> string" where
  "header_lines h = concat (map (\<lambda>(k, vs). concat (map (\<lambda>v. k @ '': '' @ v @ crlf) vs)) h)"

text \<open>The time stamp is an argument; the response itself is changed by the four additions.\<close>

definition complete_headers :: "string \<Rightarrow> HttpResponse \<Rightarrow> HttpResponse" where
  "complete_headers now res =
     addMimeTypeHeader (addContentLengthHeader (addServerHeader (addDateHeader now res)))"

definition build :: "string \<Rightarrow> HttpResponse \<Rightarrow> string" where
  "build now res0 =
     (let res = complete_headers now res0 in
      rs_version res @ '' '' @ show_int (rs_statusCode res) @ '' '' @ getReason (rs_statusCode res) @
      crlf @ header_lines (rs_headers res) @ crlf @ rs_body res)"

section \<open>The contract of a header container\<close>

lemma map_of_add_value [simp]:
  "map_of (add_value k v h) = (map_of h)(k \<mapsto> values_of h k @ [v])"
  by (simp add: add_value_def)

lemma add_value_ok [simp]: "om_ok h \<Longrightarrow> om_ok (add_value k v h)"
  by (simp add: add_value_def)

locale header_store =
  fixes norm :: "string \<Rightarrow> string"
    and hget :: "'m \<Rightarrow> string \<Rightarrow> string"
    and hset :: "string \<Rightarrow> string \<Rightarrow> 'm \<Rightarrow> 'm"
    and happend :: "string \<Rightarrow> string \<Rightarrow> 'm \<Rightarrow> 'm"
    and hhas :: "'m \<Rightarrow> string \<Rightarrow> bool"
  assumes get_set: "hget (hset k v m) l = (if norm l = norm k then v else hget m l)"
    and get_append: "hget (happend k v m) l = (if norm l = norm k then v else hget m l)"
    and has_set: "hhas (hset k v m) l \<longleftrightarrow> norm l = norm k \<or> hhas m l"
    and has_append: "hhas (happend k v m) l \<longleftrightarrow> norm l = norm k \<or> hhas m l"
    and has_norm: "norm k = norm l \<Longrightarrow> hhas m k \<longleftrightarrow> hhas m l"
begin

lemma get_set_same: "hget (hset k v m) k = v"
  by (simp add: get_set)

lemma get_set_other: "norm l \<noteq> norm k \<Longrightarrow> hget (hset k v m) l = hget m l"
  by (simp add: get_set)

text \<open>Setting a header only where it is missing: afterwards it is there, and nothing that was
  there has changed.\<close>

lemma ensure_has: "hhas (if hhas m k then m else hset k v m) k"
  by (simp add: has_set)

lemma ensure_keeps:
  "hhas m l \<Longrightarrow> hget (if hhas m k then m else hset k v m) l = hget m l"
  by (cases "norm l = norm k") (use has_norm [of l k m] in \<open>auto simp: get_set\<close>)

lemma ensure_has_other: "hhas m l \<Longrightarrow> hhas (if hhas m k then m else hset k v m) l"
  by (simp add: has_set)

lemma ensure_missing: "\<not> hhas m k \<Longrightarrow> hget (if hhas m k then m else hset k v m) k = v"
  by (simp add: get_set)

end

lemma last_value_set: "last_value (om_set k [v] h) l = (if l = k then v else last_value h l)"
  by (simp add: last_value_def)

lemma last_value_add: "last_value (add_value k v h) l = (if l = k then v else last_value h l)"
  by (simp add: last_value_def)

lemma has_key_set: "has_key (om_set k v h) l \<longleftrightarrow> l = k \<or> has_key h l"
  by (simp add: has_key_def)

lemma has_key_add: "has_key (add_value k v h) l \<longleftrightarrow> l = k \<or> has_key h l"
  by (simp add: has_key_def)

lemmas header_values = last_value_set last_value_add has_key_set has_key_add

lemmas request_accessors =
  rq_getHeader_def rq_addHeader_def rq_appendHeader_def rq_hasHeader_def rq_getHeaderVector_def

lemmas response_accessors =
  rs_getHeader_def rs_setHeader_def rs_appendHeader_def rs_hasHeader_def rs_getHeaderVector_def

interpretation request_headers:
  header_store toLower rq_getHeader rq_addHeader rq_appendHeader rq_hasHeader
  by unfold_locales (simp_all add: request_accessors header_values)

interpretation response_headers:
  header_store "\<lambda>k. k" rs_getHeader rs_setHeader rs_appendHeader rs_hasHeader
  by unfold_locales (simp_all add: response_accessors header_values)

section \<open>The framing of a response\<close>

lemma complete_body [simp]:
  "rs_body (complete_headers now res) = rs_body res"
  "rs_version (complete_headers now res) = rs_version res"
  "rs_statusCode (complete_headers now res) = rs_statusCode res"
  by (simp_all add: complete_headers_def addMimeTypeHeader_def addContentLengthHeader_def
      addServerHeader_def addDateHeader_def rs_setHeader_def)

lemma adds_keep:
  "rs_hasHeader r l \<Longrightarrow> rs_hasHeader (addDateHeader now r) l"
  "rs_hasHeader r l \<Longrightarrow> rs_hasHeader (addServerHeader r) l"
  "rs_hasHeader r l \<Longrightarrow> rs_hasHeader (addContentLengthHeader r) l"
  "rs_hasHeader r l \<Longrightarrow> rs_hasHeader (addMimeTypeHeader r) l"
  by (simp_all add: addDateHeader_def addServerHeader_def addContentLengthHeader_def
      addMimeTypeHeader_def response_headers.has_set)

lemma adds_add:
  "rs_hasHeader (addDateHeader now r) ''Date''"
  "rs_hasHeader (addServerHeader r) ''Server''"
  "rs_hasHeader (addContentLengthHeader r) ''Content-Length''"
  "rs_hasHeader (addMimeTypeHeader r) ''Content-Type''"
  by (simp_all add: addDateHeader_def addServerHeader_def addContentLengthHeader_def
      addMimeTypeHeader_def response_headers.has_set)

lemma complete_has:
  "rs_hasHeader (complete_headers now res) ''Date''"
  "rs_hasHeader (complete_headers now res) ''Server''"
  "rs_hasHeader (complete_headers now res) ''Content-Length''"
  "rs_hasHeader (complete_headers now res) ''Content-Type''"
  unfolding complete_headers_def by (intro adds_keep adds_add)+

lemma adds_map_keep:
  assumes "map_of (rs_headers r) k = Some vs"
  shows "map_of (rs_headers (addDateHeader now r)) k = Some vs"
    "map_of (rs_headers (addServerHeader r)) k = Some vs"
    "map_of (rs_headers (addContentLengthHeader r)) k = Some vs"
    "map_of (rs_headers (addMimeTypeHeader r)) k = Some vs"
  using assms
  by (auto simp: addDateHeader_def addServerHeader_def addContentLengthHeader_def
      addMimeTypeHeader_def rs_setHeader_def rs_hasHeader_def has_key_def)

lemma complete_keeps:
  "map_of (rs_headers res) k = Some vs \<Longrightarrow>
     map_of (rs_headers (complete_headers now res)) k = Some vs"
  unfolding complete_headers_def by (intro adds_map_keep)

lemma complete_length:
  assumes "\<not> rs_hasHeader res ''Content-Length''"
  shows "values_of (rs_headers (complete_headers now res)) ''Content-Length'' =
    [show_nat (length (rs_body res))]"
proof -
  let ?r = "addServerHeader (addDateHeader now res)"
  have n: "\<not> rs_hasHeader ?r ''Content-Length''"
    using assms by (simp add: addServerHeader_def addDateHeader_def response_headers.has_set)
  have b: "rs_body ?r = rs_body res"
    by (simp add: addServerHeader_def addDateHeader_def rs_setHeader_def)
  show ?thesis
    unfolding complete_headers_def addContentLengthHeader_def
    using n b by (simp add: addMimeTypeHeader_def rs_setHeader_def values_of_def)
qed



text \<open>An error page always reports the status it was built for, and is empty for \<open>HEAD\<close>.\<close>

lemma generateSimpleBody_status:
  "rs_statusCode (generateSimpleBody m status d False res) = status"
  by (simp add: generateSimpleBody_def rs_setHeader_def)

end
