(* ===== verification/LineHead.thy ===== *)
theory LineHead
  imports HttpCore URI
begin

text \<open>
  \<open>src/Http/Parser/RequestLineParser.cpp\<close> and \<open>RequestHeadParser.cpp\<close>: the request line and
  the header block.  A parser changes the request and returns the error code it sets, \<open>None\<close>
  when it returns true.  The request-line parser lets the exception of the percent decoder
  through.  The theorems give the value of a well-formed line and of a well-formed block, and
  the two ways in which they fail.
\<close>

section \<open>The request line\<close>

text \<open>One \<open>key=value\<close> pair of the query; the pairs are what lies between the ampersands.\<close>

definition parse_pair :: "string \<Rightarrow> (string \<times> string) res" where
  "parse_pair pair =
     (case find_char pair (CHR ''='') 0 of
        Some eq \<Rightarrow>
          rbind (decodeURIComponent (take eq pair)) (\<lambda>key.
          rbind (decodeURIComponent (drop (eq + 1) pair)) (\<lambda>v. Inr (key, v)))
      | None \<Rightarrow> rbind (decodeURIComponent pair) (\<lambda>key. Inr (key, [])))"

fun query_loop :: "string list \<Rightarrow> HttpRequest \<Rightarrow> HttpRequest res" where
  "query_loop [] request = Inr request"
| "query_loop (pair # pairs) request =
     rbind (parse_pair pair) (\<lambda>(key, v). query_loop pairs (rq_addQuery key v request))"

definition parse_line :: "HttpRequest \<Rightarrow> string \<Rightarrow> (HttpRequest \<times> int option) res" where
  "parse_line request line =
     (case find_char line (CHR '' '') 0 of
        None \<Rightarrow> Inr (request, Some 400)
      | Some methodEnd \<Rightarrow>
          (case find_char line (CHR '' '') (methodEnd + 1) of
             None \<Rightarrow> Inr (request, Some 400)
           | Some uriEnd \<Rightarrow>
               (let request1 = request\<lparr>rq_method := take methodEnd line\<rparr>;
                    uri = substr line (methodEnd + 1) (uriEnd - (methodEnd + 1));
                    version = drop (uriEnd + 1) line;
                    request2 = request1\<lparr>rq_version := version\<rparr>
                in if version \<noteq> ''HTTP/1.1'' \<and> version \<noteq> ''HTTP/1.0'' then Inr (request2, Some 505)
                   else
                     (case find_char uri (CHR ''?'') 0 of
                        Some pathLen \<Rightarrow>
                          rbind (query_loop (getlines (CHR ''&'') (drop (pathLen + 1) uri)) request2)
                            (\<lambda>request3. Inr (request3\<lparr>rq_path := take pathLen uri\<rparr>, None))
                      | None \<Rightarrow> Inr (request2\<lparr>rq_path := uri\<rparr>, None)))))"

section \<open>The header block\<close>

text \<open>
  The lines of the block, each with one carriage return removed at its end; the colon has to
  come before the end of its line.
\<close>

definition strip_cr :: "string \<Rightarrow> string" where
  "strip_cr line = (if line \<noteq> [] \<and> last line = CR then butlast line else line)"

definition blanks :: string where
  "blanks = [CHR '' '', TAB]"

definition parse_head_line :: "HttpRequest \<Rightarrow> string \<Rightarrow> HttpRequest \<times> int option" where
  "parse_head_line request line =
     (if line = [] then (request, None)
      else
        (case find_char line (CHR '':'') 0 of
           None \<Rightarrow> (request, Some 400)
         | Some colonPos \<Rightarrow>
             (let key = trim blanks (take colonPos line);
                  v = trim blanks (drop (colonPos + 1) line)
              in if key = [] then (request, Some 400)
                 else if rq_hasHeader request key then (request, Some 400)
                 else (rq_addHeader key v request, None))))"

fun head_loop :: "string list \<Rightarrow> HttpRequest \<Rightarrow> HttpRequest \<times> int option" where
  "head_loop [] request = (request, None)"
| "head_loop (line # lines) request =
     (case parse_head_line request (strip_cr line) of
        (request', Some e) \<Rightarrow> (request', Some e)
      | (request', None) \<Rightarrow> head_loop lines request')"

definition parse_head :: "HttpRequest \<Rightarrow> string \<Rightarrow> HttpRequest \<times> int option" where
  "parse_head request headerBlock = head_loop (getlines LF headerBlock) request"

section \<open>A well-formed request line\<close>

lemma find_char_first: "c \<notin> set xs \<Longrightarrow> find_char (xs @ c # ys) c 0 = Some (length xs)"
  using find_char_at [of "[]" 0 c xs ys] by simp

lemma find_char_absent: "c \<notin> set xs \<Longrightarrow> find_char xs c 0 = None"
  by (simp add: find_char_None)

text \<open>The text between the two blanks, and what the line means.\<close>

lemma parse_line_split:
  assumes "CHR '' '' \<notin> set m" "CHR '' '' \<notin> set uri"
  shows "parse_line r (m @ CHR '' '' # uri @ CHR '' '' # v) =
    (let r2 = r\<lparr>rq_method := m, rq_version := v\<rparr> in
     if v \<noteq> ''HTTP/1.1'' \<and> v \<noteq> ''HTTP/1.0'' then Inr (r2, Some 505)
     else
       (case find_char uri (CHR ''?'') 0 of
          Some pathLen \<Rightarrow>
            rbind (query_loop (getlines (CHR ''&'') (drop (pathLen + 1) uri)) r2)
              (\<lambda>request3. Inr (request3\<lparr>rq_path := take pathLen uri\<rparr>, None))
        | None \<Rightarrow> Inr (r2\<lparr>rq_path := uri\<rparr>, None)))"
proof -
  let ?l = "m @ CHR '' '' # uri @ CHR '' '' # v"
  have 1: "find_char ?l (CHR '' '') 0 = Some (length m)"
    using find_char_first [OF assms(1)] by simp
  have 2: "find_char ?l (CHR '' '') (length m + 1) = Some (length m + 1 + length uri)"
    using find_char_at [of "m @ [CHR '' '']" "length m + 1" "CHR '' ''" uri v] assms(2) by simp
  have 3: "drop (length m + 1 + length uri + 1) ?l = v"
    using append_eq_conv_conj [of "m @ CHR '' '' # uri @ [CHR '' '']" v] by simp
  have 4: "take (length m) ?l = m"
    "substr ?l (length m + 1) (length m + 1 + length uri - (length m + 1)) = uri"
    by (simp_all add: substr_def)
  show ?thesis
    unfolding parse_line_def 1 option.case 2 Let_def 3 4 by simp
qed

lemma parse_line_target:
  assumes "CHR '' '' \<notin> set m" "CHR '' '' \<notin> set p" "CHR '' '' \<notin> set q" "CHR ''?'' \<notin> set p"
    "v = ''HTTP/1.1'' \<or> v = ''HTTP/1.0''"
  shows "parse_line r (m @ CHR '' '' # p @ CHR ''?'' # q @ CHR '' '' # v) =
    rbind (query_loop (getlines (CHR ''&'') q) (r\<lparr>rq_method := m, rq_version := v\<rparr>))
      (\<lambda>r3. Inr (r3\<lparr>rq_path := p\<rparr>, None))"
  using parse_line_split [of m "p @ CHR ''?'' # q" r v] assms find_char_first [OF assms(4), of q]
  by auto

lemma parse_pair_plain:
  assumes "CHR ''='' \<notin> set k" "CHR ''%'' \<notin> set k" "CHR ''%'' \<notin> set w"
  shows "parse_pair (k @ CHR ''='' # w) = Inr (k, w)"
  using assms find_char_first [OF assms(1), of w]
  by (simp add: parse_pair_def decodeURIComponent_def decodeURI_plain)

definition plain_pair :: "string \<times> string \<Rightarrow> bool" where
  "plain_pair p \<longleftrightarrow>
     list_all (\<lambda>c. c \<notin> set ''=&% '') (fst p) \<and> list_all (\<lambda>c. c \<notin> set ''&% '') (snd p)"

definition print_pair :: "string \<times> string \<Rightarrow> string" where
  "print_pair p = fst p @ CHR ''='' # snd p"

lemma plain_pair_chars:
  assumes "plain_pair p"
  shows "CHR ''='' \<notin> set (fst p)" "CHR ''%'' \<notin> set (fst p)" "CHR ''%'' \<notin> set (snd p)"
    "CHR ''&'' \<notin> set (print_pair p)" "CHR '' '' \<notin> set (print_pair p)"
  using assms by (auto simp: plain_pair_def print_pair_def list_all_iff)

lemma query_loop_plain:
  "list_all plain_pair ps \<Longrightarrow>
    query_loop (map print_pair ps) r =
      Inr (r\<lparr>rq_query := fold (\<lambda>(k, w). om_set k w) ps (rq_query r)\<rparr>)"
proof (induction ps arbitrary: r)
  case (Cons p ps)
  then have "parse_pair (print_pair p) = Inr (fst p, snd p)"
    using plain_pair_chars [of p] by (simp add: print_pair_def parse_pair_plain)
  with Cons show ?case by (simp add: rq_addQuery_def split_beta)
qed simp

lemma join_no_char: "c \<notin> set d \<Longrightarrow> \<forall>t \<in> set ts. c \<notin> set t \<Longrightarrow> c \<notin> set (join d ts)"
  by (induction d ts rule: join.induct) auto

lemma getlines_join_pieces:
  "\<forall>t \<in> set ts. t \<noteq> [] \<and> d \<notin> set t \<Longrightarrow> getlines d (join [d] ts) = ts"
proof (induction ts rule: induct_list012)
  case (3 t u ts)
  then show ?case by (simp add: getlines_append)
qed (simp_all add: getlines_last)

text \<open>C32: a request line with a method, a path and a query of unescaped pairs is read back as
  exactly that method, path, version and query map, later pairs replacing earlier ones of the
  same key.\<close>

theorem parse_line_sound:
  assumes "CHR '' '' \<notin> set m" "CHR '' '' \<notin> set p" "CHR ''?'' \<notin> set p"
    and "v = ''HTTP/1.1'' \<or> v = ''HTTP/1.0''" and "list_all plain_pair ps"
  shows "parse_line r (m @ CHR '' '' # p @ CHR ''?'' # join ''&'' (map print_pair ps) @ CHR '' '' # v) =
    Inr (r\<lparr>rq_method := m, rq_version := v, rq_path := p,
           rq_query := fold (\<lambda>(k, w). om_set k w) ps (rq_query r)\<rparr>, None)"
proof -
  let ?q = "join ''&'' (map print_pair ps)"
  have chars: "\<forall>t \<in> set (map print_pair ps). t \<noteq> [] \<and> CHR ''&'' \<notin> set t \<and> CHR '' '' \<notin> set t"
    using assms(5) plain_pair_chars(4,5) by (auto simp: list_all_iff print_pair_def)
  have "CHR '' '' \<notin> set ?q" by (rule join_no_char) (use chars in auto)
  moreover have "getlines (CHR ''&'') ?q = map print_pair ps"
    by (rule getlines_join_pieces) (use chars in blast)
  ultimately show ?thesis
    using parse_line_target [OF assms(1,2) _ assms(3,4), of ?q r] query_loop_plain [OF assms(5)]
    by simp
qed

theorem parse_line_sound_witness:
  "parse_line (new_HttpRequest two_locations) ''GET /a?x=1&y=2&x=3 HTTP/1.1'' =
     Inr ((new_HttpRequest two_locations)
       \<lparr>rq_method := ''GET'', rq_version := ''HTTP/1.1'', rq_path := ''/a'',
        rq_query := [(''x'', ''3''), (''y'', ''2'')]\<rparr>, None)"
proof -
  have "list_all plain_pair [(''x'', ''1''), (''y'', ''2''), (''x'', ''3'')]"
    by (simp add: plain_pair_def)
  from parse_line_sound [OF _ _ _ _ this, of "''GET''" "''/a''" "''HTTP/1.1''"
      "new_HttpRequest two_locations"]
  show ?thesis
    by (simp add: print_pair_def new_HttpRequest_def)
qed

text \<open>
  A percent sign that is not followed by two more characters in the query makes the parser leave
  with the decoder's exception; it sets no error code.
\<close>

lemma parse_line_malformed:
  assumes "CHR '' '' \<notin> set m" "CHR '' '' \<notin> set p" "CHR ''?'' \<notin> set p" "k \<noteq> []"
    and "list_all (\<lambda>c. c \<notin> set ''=&% '') k"
    and "v = ''HTTP/1.1'' \<or> v = ''HTTP/1.0''"
  shows "parse_line r (m @ CHR '' '' # p @ CHR ''?'' # (k @ ''=%'') @ CHR '' '' # v) =
    Inl Invalid_argument"
proof -
  have k: "CHR ''='' \<notin> set k" "CHR ''%'' \<notin> set k" "CHR '' '' \<notin> set k" "CHR ''&'' \<notin> set k"
    using assms(5) by (auto simp: list_all_iff)
  then have "find_char (k @ ''=%'') (CHR ''='') 0 = Some (length k)"
    using find_char_first [of "CHR ''=''" k "''%''"] by simp
  then have "parse_pair (k @ ''=%'') = Inl Invalid_argument"
    using k by (simp add: parse_pair_def decodeURIComponent_def decodeURI_plain decodeURI_truncated)
  moreover have "getlines (CHR ''&'') (k @ ''=%'') = [k @ ''=%'']"
    by (rule getlines_last) (use k in auto)
  ultimately show ?thesis
    using parse_line_target [OF assms(1,2) _ assms(3,6), of "k @ ''=%''" r] k by simp
qed

section \<open>A well-formed header block\<close>

text \<open>A header that survives the reader's trimming: a key without colon or line feed.\<close>

definition clean :: "string \<Rightarrow> bool" where
  "clean s \<longleftrightarrow> trim blanks s = s \<and> LF \<notin> set s"

definition header_ok :: "string \<times> string \<Rightarrow> bool" where
  "header_ok h \<longleftrightarrow> clean (fst h) \<and> fst h \<noteq> [] \<and> CHR '':'' \<notin> set (fst h) \<and>
     clean (snd h)"

definition print_header :: "string \<times> string \<Rightarrow> string" where
  "print_header h = fst h @ '': '' @ snd h @ crlf"

lemma trim_blank_front: "trim blanks (CHR '' '' # s) = trim blanks s"
  by (simp add: trim_def blanks_def)

lemma parse_head_line_ok:
  assumes "header_ok h"
  shows "parse_head_line r (fst h @ '': '' @ snd h) =
    (if rq_hasHeader r (fst h) then (r, Some 400) else (rq_addHeader (fst h) (snd h) r, None))"
proof -
  have "find_char (fst h @ '': '' @ snd h) (CHR '':'') 0 = Some (length (fst h))"
    using assms find_char_first [of "CHR '':''" "fst h" "CHR '' '' # snd h"]
    by (simp add: header_ok_def)
  then show ?thesis
    using assms by (simp add: parse_head_line_def header_ok_def clean_def trim_blank_front)
qed

lemma strip_cr_snoc: "strip_cr (s @ [CR]) = s"
  by (simp add: strip_cr_def)

lemma getlines_headers:
  "list_all header_ok hs \<Longrightarrow>
    getlines LF (concat (map print_header hs)) = map (\<lambda>h. (fst h @ '': '' @ snd h) @ [CR]) hs"
proof (induction hs)
  case (Cons h hs)
  then have "LF \<notin> set ((fst h @ '': '' @ snd h) @ [CR])"
    by (auto simp: header_ok_def clean_def)
  from getlines_append [OF this, of "concat (map print_header hs)"]
  have "getlines LF (print_header h @ concat (map print_header hs)) =
      ((fst h @ '': '' @ snd h) @ [CR]) # getlines LF (concat (map print_header hs))"
    by (simp add: print_header_def)
  with Cons show ?case by (simp only: list.map concat.simps list.pred_inject)
qed simp

text \<open>What the block is expected to do, one header at a time.\<close>

fun add_all :: "(string \<times> string) list \<Rightarrow> HttpRequest \<Rightarrow> HttpRequest \<times> int option" where
  "add_all [] r = (r, None)"
| "add_all (h # hs) r =
     (if rq_hasHeader r (fst h) then (r, Some 400) else add_all hs (rq_addHeader (fst h) (snd h) r))"

lemma parse_head_add_all:
  "list_all header_ok hs \<Longrightarrow> parse_head r (concat (map print_header hs)) = add_all hs r"
proof -
  have "list_all header_ok hs \<Longrightarrow>
      head_loop (map (\<lambda>h. (fst h @ '': '' @ snd h) @ [CR]) hs) r = add_all hs r"
  proof (induction hs arbitrary: r)
    case (Cons h hs)
    then show ?case
      using parse_head_line_ok [of h r] strip_cr_snoc [of "fst h @ '': '' @ snd h"] by simp
  qed simp
  then show "list_all header_ok hs \<Longrightarrow> ?thesis"
    by (simp add: parse_head_def getlines_headers)
qed

lemma add_all_distinct:
  "distinct (map (\<lambda>h. toLower (fst h)) hs) \<Longrightarrow>
   list_all (\<lambda>h. \<not> rq_hasHeader r (fst h)) hs \<Longrightarrow>
     add_all hs r =
       (r\<lparr>rq_headers := fold (\<lambda>h. om_set (toLower (fst h)) [snd h]) hs (rq_headers r)\<rparr>, None)"
proof (induction hs arbitrary: r)
  case (Cons h hs)
  have "list_all (\<lambda>g. \<not> rq_hasHeader (rq_addHeader (fst h) (snd h) r) (fst g)) hs"
    unfolding list_all_iff
  proof
    fix g
    assume "g \<in> set hs"
    then have "\<not> rq_hasHeader r (fst g)"
      and "toLower (fst g) \<in> (\<lambda>h. toLower (fst h)) ` set hs"
      using Cons.prems(2) by (auto simp: list_all_iff simp del: split_paired_All)
    moreover have "toLower (fst h) \<notin> (\<lambda>h. toLower (fst h)) ` set hs"
      using Cons.prems(1) by simp
    ultimately have "\<not> rq_hasHeader r (fst g)" "toLower (fst g) \<noteq> toLower (fst h)" by metis+
    then show "\<not> rq_hasHeader (rq_addHeader (fst h) (snd h) r) (fst g)"
      by (simp add: request_headers.has_set)
  qed
  with Cons show ?case by (simp add: rq_addHeader_def)
qed simp

lemma add_all_duplicate:
  "\<not> distinct (map (\<lambda>h. toLower (fst h)) hs) \<or> list_ex (\<lambda>h. rq_hasHeader r (fst h)) hs \<Longrightarrow>
     snd (add_all hs r) = Some 400"
proof (induction hs arbitrary: r)
  case (Cons h hs)
  show ?case
  proof (cases "rq_hasHeader r (fst h)")
    case False
    then have "\<not> distinct (map (\<lambda>h. toLower (fst h)) hs) \<or>
        list_ex (\<lambda>g. rq_hasHeader (rq_addHeader (fst h) (snd h) r) (fst g)) hs"
      using Cons.prems by (force simp: request_headers.has_set list_ex_iff)
    from Cons.IH [OF this] False show ?thesis by simp
  qed simp
qed simp

text \<open>C30: a block of well-formed header lines is accepted exactly when no two of its names are
  equal up to case; it then adds each value under its name in lower case, and otherwise the
  request is refused with 400.\<close>

theorem parse_head_exact:
  assumes "list_all header_ok hs" "rq_headers r = []"
  shows "parse_head r (concat (map print_header hs)) =
      (r\<lparr>rq_headers := fold (\<lambda>h. om_set (toLower (fst h)) [snd h]) hs []\<rparr>, None) \<and>
      distinct (map (\<lambda>h. toLower (fst h)) hs) \<or>
    snd (parse_head r (concat (map print_header hs))) = Some 400 \<and>
      \<not> distinct (map (\<lambda>h. toLower (fst h)) hs)"
proof -
  have no: "list_all (\<lambda>h. \<not> rq_hasHeader r (fst h)) hs"
    using assms(2) by (simp add: list_all_iff rq_hasHeader_def has_key_def)
  show ?thesis
    using add_all_distinct [OF _ no] add_all_duplicate [of hs r] assms
    by (simp add: parse_head_add_all) blast
qed

theorem parse_head_exact_witness:
  "snd (parse_head (new_HttpRequest two_locations)
     (concat (map print_header [(''Host'', ''a''), (''host'', ''b'')]))) = Some 400"
proof -
  have "list_all header_ok [(''Host'', ''a''), (''host'', ''b'')]"
    by (simp add: header_ok_def clean_def trim_def blanks_def)
  moreover have "toLower ''Host'' = ''host''" "toLower ''host'' = ''host''" by code_simp+
  moreover have "rq_headers (new_HttpRequest two_locations) = []" by (simp add: new_HttpRequest_def)
  ultimately show ?thesis
    using parse_head_exact [of "[(''Host'', ''a''), (''host'', ''b'')]" "new_HttpRequest two_locations"]
    by simp
qed

end
