(* ===== verification/BodyParser.thy ===== *)
theory BodyParser
  imports HttpCore
begin

text \<open>
  \<open>src/Http/Parser/RequestBodyParser.cpp\<close>: the body reader, a state machine over the bytes
  received so far.  It reads either a body of an announced length or a chunked one.  The model
  keeps the part of the buffer that is not consumed yet instead of an offset into it, so the
  number of consumed bytes is the difference of the lengths; sizes are 64-bit words with the
  wrap-around of \<open>_chunkSize + 2\<close>, and the readings of the clock are an argument.

  The theorems: the chunked decoder inverts the chunked encoding, the result does not depend on
  how the bytes were split into reads, and the body never grows beyond the configured maximum.
\<close>

section \<open>The state\<close>

datatype ParseResult = PARSE_INCOMPLETE | PARSE_COMPLETE | PARSE_ERROR

datatype BodyState = UNINITIALIZED | IDENTITY | CHUNKED_SIZE | CHUNKED_DATA | CHUNKED_CRLF | COMPLETE

record BodyParser =
  bp_state :: BodyState
  bp_contentLengthRemaining :: size_t
  bp_chunkSize :: size_t
  bp_lastReceiveTime :: int
  bp_chunkedTimeoutSec :: size_t

definition reset_body :: "int \<Rightarrow> BodyParser" where
  "reset_body now =
     \<lparr>bp_state = UNINITIALIZED, bp_contentLengthRemaining = 0, bp_chunkSize = 0,
      bp_lastReceiveTime = now, bp_chunkedTimeoutSec = 10\<rparr>"

definition setChunkedTimeoutSec :: "size_t \<Rightarrow> BodyParser \<Rightarrow> BodyParser" where
  "setChunkedTimeoutSec sec bp = bp\<lparr>bp_chunkedTimeoutSec := sec\<rparr>"

text \<open>
  \<open>init\<close> chooses the mode from the headers and returns the error code it leaves.  When the
  length is refused the source has already stored a partial value in the counter; the counter
  is read only after a later successful \<open>init\<close>, so the model leaves it.
\<close>

definition init_body :: "HttpRequest \<Rightarrow> int \<Rightarrow> BodyParser \<Rightarrow> BodyParser \<times> int" where
  "init_body request errorCode bp =
     (if rq_hasHeader request ''Transfer-Encoding'' then
        (if rq_getHeader request ''Transfer-Encoding'' = ''chunked'' then
           (if rq_hasHeader request ''Content-Length'' then (bp, 400)
            else (bp\<lparr>bp_state := CHUNKED_SIZE\<rparr>, errorCode))
         else (bp, 501))
      else if rq_hasHeader request ''Content-Length'' then
        (case decStrToSize (rq_getHeader request ''Content-Length'') of
           None \<Rightarrow> (bp, 400)
         | Some n \<Rightarrow>
             (bp\<lparr>bp_contentLengthRemaining := n, bp_state := (if n = 0 then COMPLETE else IDENTITY)\<rparr>,
              errorCode))
      else (bp\<lparr>bp_state := COMPLETE\<rparr>, errorCode))"

section \<open>One pass of the chunked loop\<close>

text \<open>
  A scan is the rest of the buffer with the parser and the request.  A stage goes on with a scan,
  stops with a result and an error code, or throws.
\<close>

type_synonym scan = "string \<times> BodyParser \<times> HttpRequest"

datatype outcome = Next scan | Stop ParseResult int scan | Throw exn

definition andThen :: "outcome \<Rightarrow> (scan \<Rightarrow> outcome) \<Rightarrow> outcome" where
  "andThen m f = (case m of Next s \<Rightarrow> f s | Stop r e s \<Rightarrow> Stop r e s | Throw x \<Rightarrow> Throw x)"

definition size_stage :: "int \<Rightarrow> scan \<Rightarrow> outcome" where
  "size_stage err s =
     (case s of (rest, bp, req) \<Rightarrow>
       if bp_state bp \<noteq> CHUNKED_SIZE then Next (rest, bp, req)
       else
         (case str_find rest crlf 0 of
            None \<Rightarrow> Stop PARSE_INCOMPLETE err (rest, bp, req)
          | Some crlfPos \<Rightarrow>
              (case hexStrToSize (takeWhile (\<lambda>c. c \<noteq> CHR '';'') (take crlfPos rest)) of
                 None \<Rightarrow> Stop PARSE_ERROR 400 (rest, bp, req)
               | Some sz \<Rightarrow>
                   (let bp1 = bp\<lparr>bp_chunkSize := sz\<rparr>;
                        currentSize = length (rq_body req); maxSize = unat (rq_maxBodySize req)
                    in if maxSize < currentSize \<or> maxSize - currentSize < unat sz
                       then Stop PARSE_ERROR 413 (rest, bp1, req)
                       else Next (drop (crlfPos + 2) rest,
                                  bp1\<lparr>bp_state := (if sz = 0 then CHUNKED_CRLF else CHUNKED_DATA)\<rparr>,
                                  req)))))"

text \<open>
  The comparison is made in \<open>size_t\<close>, where \<open>_chunkSize + 2\<close> wraps around.  The append
  of more bytes than a string can hold (its \<open>max_size()\<close>, half the address space) is a
  \<open>std::length_error\<close>, which is where a wrapped comparison leads.
\<close>

definition string_max :: nat where
  "string_max = 9223372036854775807"

definition data_stage :: "int \<Rightarrow> scan \<Rightarrow> outcome" where
  "data_stage err s =
     (case s of (rest, bp, req) \<Rightarrow>
       if bp_state bp \<noteq> CHUNKED_DATA then Next (rest, bp, req)
       else if length rest < unat (bp_chunkSize bp + 2) then Stop PARSE_INCOMPLETE err (rest, bp, req)
       else if string_max < length (rq_body req) + unat (bp_chunkSize bp) then Throw Length_error
       else
         (let n = unat (bp_chunkSize bp); req1 = rq_appendBody (take n rest) req in
          if take 2 (drop n rest) \<noteq> crlf then Stop PARSE_ERROR 400 (rest, bp, req1)
          else Next (drop (n + 2) rest, bp\<lparr>bp_state := CHUNKED_SIZE\<rparr>, req1)))"

text \<open>The loop over the trailer lines after the last chunk, from the trailer not yet skipped.\<close>

function trailer_end :: "string \<Rightarrow> string option" where
  "trailer_end t =
     (case str_find t crlf 0 of
        None \<Rightarrow> None
      | Some crlfPos \<Rightarrow>
          if crlfPos = 0 then Some (drop 2 t) else trailer_end (drop (crlfPos + 2) t))"
  by pat_completeness auto
termination
  by (relation "measure length") (auto dest: str_find_Some)

declare trailer_end.simps [simp del]

definition crlf_stage :: "int \<Rightarrow> scan \<Rightarrow> outcome" where
  "crlf_stage err s =
     (case s of (rest, bp, req) \<Rightarrow>
       if bp_state bp \<noteq> CHUNKED_CRLF then Next (rest, bp, req)
       else
         (case trailer_end rest of
            None \<Rightarrow> Stop PARSE_INCOMPLETE err (rest, bp, req)
          | Some rest1 \<Rightarrow> Stop PARSE_COMPLETE err (rest1, bp\<lparr>bp_state := COMPLETE\<rparr>, req)))"

definition chunk_pass :: "int \<Rightarrow> scan \<Rightarrow> outcome" where
  "chunk_pass err s = andThen (andThen (size_stage err s) (data_stage err)) (crlf_stage err)"

section \<open>Progress of a pass\<close>

lemma crlf_found:
  "str_find t crlf 0 = Some i \<Longrightarrow> i + 2 \<le> length t \<and> take 2 (drop i t) = crlf"
  using str_find_Some [of t crlf 0 i] by (simp add: numeral_2_eq_2)

lemma take_crlf: "take 2 (drop n t) = crlf \<Longrightarrow> n + 2 \<le> length t"
proof -
  assume "take 2 (drop n t) = crlf"
  then have "length (take 2 (drop n t)) = 2" by simp
  then show "n + 2 \<le> length t" by (simp only: length_take length_drop)
qed

lemma size_stage_Next:
  "size_stage err (rest, bp, req) = Next (rest', bp', req') \<Longrightarrow>
     length rest' \<le> length rest \<and> req' = req \<and> bp_state bp' \<noteq> CHUNKED_SIZE \<and>
     (bp_state bp = CHUNKED_SIZE \<longrightarrow> bp_state bp' \<in> {CHUNKED_DATA, CHUNKED_CRLF}) \<and>
     (bp_state bp \<noteq> CHUNKED_SIZE \<longrightarrow> bp' = bp \<and> rest' = rest)"
  by (auto simp: size_stage_def Let_def split: if_splits option.splits)

lemma data_stage_Next:
  "data_stage err (rest, bp, req) = Next (rest', bp', req') \<Longrightarrow>
     length rest' \<le> length rest \<and>
     (bp_state bp = CHUNKED_DATA \<longrightarrow> length rest' < length rest \<and> bp_state bp' = CHUNKED_SIZE) \<and>
     (bp_state bp \<noteq> CHUNKED_DATA \<longrightarrow> bp' = bp \<and> rest' = rest \<and> req' = req)"
  using take_crlf [of "unat (bp_chunkSize bp)" rest]
  by (auto simp: data_stage_def Let_def split: if_splits)

definition chunked_state :: "BodyParser \<Rightarrow> bool" where
  "chunked_state bp = (bp_state bp \<in> {CHUNKED_SIZE, CHUNKED_DATA, CHUNKED_CRLF})"

lemma chunk_pass_Next:
  assumes "chunk_pass err (rest, bp, req) = Next (rest', bp', req')" "chunked_state bp"
  shows "length rest' < length rest \<and> bp_state bp' = CHUNKED_SIZE"
proof -
  from assms(1) obtain rest1 bp1 req1 where s: "size_stage err (rest, bp, req) = Next (rest1, bp1, req1)"
    and "andThen (data_stage err (rest1, bp1, req1)) (crlf_stage err) = Next (rest', bp', req')"
    by (auto simp: chunk_pass_def andThen_def split: outcome.splits)
  then obtain rest2 bp2 req2 where d: "data_stage err (rest1, bp1, req1) = Next (rest2, bp2, req2)"
    and c: "crlf_stage err (rest2, bp2, req2) = Next (rest', bp', req')"
    by (auto simp: andThen_def split: outcome.splits)
  from c have e: "bp_state bp2 \<noteq> CHUNKED_CRLF" "rest' = rest2" "bp' = bp2"
    by (auto simp: crlf_stage_def split: if_splits option.splits)
  have "bp_state bp1 = CHUNKED_DATA"
    using size_stage_Next [OF s] data_stage_Next [OF d] e assms(2)
    by (cases "bp_state bp1 = CHUNKED_DATA") (auto simp: chunked_state_def)
  then show ?thesis using size_stage_Next [OF s] data_stage_Next [OF d] e by auto
qed

section \<open>The loop and the entry point\<close>

text \<open>
  \<open>clk i\<close> is the \<open>i\<close>-th reading of the clock.  The source enters the loop only in one of
  the three chunked states; the condition is repeated here so that the recursion ends for every
  argument.  The cast of the time-out to \<open>time_t\<close> is the signed reading of the word.
\<close>

definition timed_out :: "int \<Rightarrow> BodyParser \<Rightarrow> bool" where
  "timed_out now bp =
     (0 < bp_chunkedTimeoutSec bp \<and> sint (bp_chunkedTimeoutSec bp) < now - bp_lastReceiveTime bp)"

function chunk_loop :: "(nat \<Rightarrow> int) \<Rightarrow> nat \<Rightarrow> int \<Rightarrow> scan \<Rightarrow> outcome" where
  "chunk_loop clk i err (rest, bp, req) =
     (if rest \<noteq> [] \<and> chunked_state bp then
        (if timed_out (clk i) bp then Stop PARSE_ERROR 408 (rest, bp, req)
         else
           (case chunk_pass err (rest, bp, req) of
              Next s \<Rightarrow> chunk_loop clk (Suc i) err s
            | Stop r e s \<Rightarrow> Stop r e s
            | Throw x \<Rightarrow> Throw x))
      else Stop PARSE_INCOMPLETE err (rest, bp, req))"
  by pat_completeness auto
termination
  by (relation "measure (\<lambda>(clk, i, err, rest, bp, req). length rest)") (auto dest: chunk_pass_Next)

declare chunk_loop.simps [simp del]

definition parseIdentity :: "int \<Rightarrow> scan \<Rightarrow> outcome" where
  "parseIdentity err s =
     (case s of (buffer, bp, req) \<Rightarrow>
       let toRead = min (length buffer) (unat (bp_contentLengthRemaining bp)) in
       if toRead = 0 then Stop PARSE_INCOMPLETE err (buffer, bp, req)
       else
         (let req1 = rq_appendBody (take toRead buffer) req;
              left = bp_contentLengthRemaining bp - of_nat toRead;
              bp1 = bp\<lparr>bp_contentLengthRemaining := left\<rparr>
          in if left = 0 then Stop PARSE_COMPLETE err (drop toRead buffer, bp1\<lparr>bp_state := COMPLETE\<rparr>, req1)
             else Stop PARSE_INCOMPLETE err (drop toRead buffer, bp1, req1)))"

text \<open>
  \<open>parse\<close>: the first clock reading refreshes the time of the last byte; then the mode is
  chosen if it is not yet, and the bytes go to the reader of the mode.
\<close>

definition parse_body :: "(nat \<Rightarrow> int) \<Rightarrow> int \<Rightarrow> scan \<Rightarrow> outcome" where
  "parse_body clk errorCode s =
     (case s of (buffer, bp, req) \<Rightarrow>
       let bp1 = (if buffer \<noteq> [] then bp\<lparr>bp_lastReceiveTime := clk 0\<rparr> else bp);
           (bp2, err) = (if bp_state bp1 = UNINITIALIZED then init_body req errorCode bp1
                         else (bp1, errorCode))
       in if bp_state bp1 = UNINITIALIZED \<and> err \<noteq> 0 then Stop PARSE_ERROR err (buffer, bp2, req)
          else if bp_state bp2 = COMPLETE then Stop PARSE_COMPLETE err (buffer, bp2, req)
          else if bp_state bp2 = IDENTITY then parseIdentity err (buffer, bp2, req)
          else if chunked_state bp2 then chunk_loop clk 1 err (buffer, bp2, req)
          else Stop PARSE_INCOMPLETE err (buffer, bp2, req))"

section \<open>More bytes at the end\<close>

text \<open>The outcome of a scan whose buffer had \<open>b\<close> appended.\<close>

fun ext :: "string \<Rightarrow> outcome \<Rightarrow> outcome" where
  "ext b (Next (rest, bp, req)) = Next (rest @ b, bp, req)"
| "ext b (Stop r e (rest, bp, req)) = Stop r e (rest @ b, bp, req)"
| "ext b (Throw x) = Throw x"

fun incomplete :: "outcome \<Rightarrow> bool" where
  "incomplete (Stop PARSE_INCOMPLETE e s) = True"
| "incomplete m = False"

lemma str_find_append: "str_find t pat 0 = Some i \<Longrightarrow> str_find (t @ b) pat 0 = Some i"
  using find_sub_append_Some [of pat t i b] by (auto simp: str_find_def)

lemma size_ext:
  "\<not> incomplete (size_stage err (rest, bp, req)) \<Longrightarrow>
     size_stage err (rest @ b, bp, req) = ext b (size_stage err (rest, bp, req))"
  using crlf_found [of rest] str_find_append [of rest crlf _ b]
  by (fastforce simp: size_stage_def Let_def split: option.splits if_splits)

lemma size_incomplete:
  "incomplete (size_stage err s) \<Longrightarrow> size_stage err s = Stop PARSE_INCOMPLETE err s"
  by (cases s) (auto simp: size_stage_def Let_def split: option.splits if_splits)

lemma data_ext:
  assumes "\<not> incomplete (data_stage err (rest, bp, req))"
  shows "data_stage err (rest @ b, bp, req) = ext b (data_stage err (rest, bp, req))"
proof (cases "bp_state bp = CHUNKED_DATA \<and> length (rq_body req) + unat (bp_chunkSize bp) \<le> string_max")
  case True
  then have small: "unat (bp_chunkSize bp) \<le> string_max" by linarith
  have "unat (bp_chunkSize bp + 2) = unat (bp_chunkSize bp) + 2"
    using small by (simp add: unat_word_ariths string_max_def)
  with True assms have "unat (bp_chunkSize bp) + 2 \<le> length rest"
    by (auto simp: data_stage_def split: if_splits)
  with True show ?thesis
    by (auto simp: data_stage_def Let_def \<open>unat (bp_chunkSize bp + 2) = _\<close>)
next
  case False
  with assms show ?thesis by (auto simp: data_stage_def Let_def split: if_splits)
qed

lemma data_incomplete:
  "incomplete (data_stage err s) \<Longrightarrow> data_stage err s = Stop PARSE_INCOMPLETE err s"
  by (cases s) (auto simp: data_stage_def Let_def split: if_splits)

lemma trailer_append: "trailer_end t = Some r \<Longrightarrow> trailer_end (t @ b) = Some (r @ b)"
proof (induction t rule: trailer_end.induct)
  case (1 t)
  from 1(2) obtain i where i: "str_find t crlf 0 = Some i"
    by (subst (asm) trailer_end.simps) (auto split: option.splits)
  show ?case
    using 1 i crlf_found [OF i] str_find_append [OF i, of b]
    by (subst trailer_end.simps, subst (asm) (2) trailer_end.simps) (auto split: if_splits)
qed

lemma crlf_ext:
  "\<not> incomplete (crlf_stage err (rest, bp, req)) \<Longrightarrow>
     crlf_stage err (rest @ b, bp, req) = ext b (crlf_stage err (rest, bp, req))"
  using trailer_append [of rest _ b]
  by (auto simp: crlf_stage_def split: option.splits if_splits)

lemma crlf_incomplete:
  "incomplete (crlf_stage err s) \<Longrightarrow> crlf_stage err s = Stop PARSE_INCOMPLETE err s"
  by (cases s) (auto simp: crlf_stage_def split: option.splits if_splits)

text \<open>The stages in sequence.\<close>

lemma andThen_ext:
  assumes "\<not> incomplete (andThen m f)"
    and "\<not> incomplete m \<Longrightarrow> m' = ext b m"
    and "\<And>rest bp req. \<not> incomplete (f (rest, bp, req)) \<Longrightarrow>
      f (rest @ b, bp, req) = ext b (f (rest, bp, req))"
  shows "andThen m' f = ext b (andThen m f)"
proof (cases m)
  case (Next s)
  then show ?thesis using assms by (cases s) (simp add: andThen_def)
next
  case (Stop r e s)
  then show ?thesis using assms by (cases s) (simp add: andThen_def)
next
  case (Throw x)
  then show ?thesis using assms by (simp add: andThen_def)
qed

lemma pass_ext:
  assumes "\<not> incomplete (chunk_pass err (rest, bp, req))"
  shows "chunk_pass err (rest @ b, bp, req) = ext b (chunk_pass err (rest, bp, req))"
  unfolding chunk_pass_def
proof (rule andThen_ext)
  show "\<not> incomplete (andThen (andThen (size_stage err (rest, bp, req)) (data_stage err)) (crlf_stage err))"
    using assms by (simp add: chunk_pass_def)
  show "andThen (size_stage err (rest @ b, bp, req)) (data_stage err) =
      ext b (andThen (size_stage err (rest, bp, req)) (data_stage err))"
    if "\<not> incomplete (andThen (size_stage err (rest, bp, req)) (data_stage err))"
    using that by (rule andThen_ext) (auto intro: size_ext data_ext)
qed (rule crlf_ext)

lemma stop_incomplete: "incomplete m \<longleftrightarrow> (\<exists>e s. m = Stop PARSE_INCOMPLETE e s)"
  by (cases m rule: incomplete.cases) auto

lemma size_other: "bp_state bp \<noteq> CHUNKED_SIZE \<Longrightarrow> size_stage err (rest, bp, req) = Next (rest, bp, req)"
  by (simp add: size_stage_def)

lemma data_other: "bp_state bp \<noteq> CHUNKED_DATA \<Longrightarrow> data_stage err (rest, bp, req) = Next (rest, bp, req)"
  by (simp add: data_stage_def)

lemma crlf_other: "bp_state bp \<noteq> CHUNKED_CRLF \<Longrightarrow> crlf_stage err (rest, bp, req) = Next (rest, bp, req)"
  by (simp add: crlf_stage_def)

text \<open>
  A pass that stops for want of bytes has either not started or has read a size line; with more
  bytes it goes on from there.
\<close>

lemma pass_incomplete:
  assumes "chunk_pass err (rest, bp, req) = Stop PARSE_INCOMPLETE e (r, bp1, req1)"
  shows "e = err \<and> chunk_pass err (rest @ b, bp, req) = chunk_pass err (r @ b, bp1, req1)"
proof (cases "size_stage err (rest, bp, req)")
  case (Stop r' e' s)
  then have "incomplete (size_stage err (rest, bp, req))"
    using assms by (simp add: chunk_pass_def andThen_def)
  from size_incomplete [OF this] Stop assms show ?thesis by (simp add: chunk_pass_def andThen_def)
next
  case (Throw x)
  then show ?thesis using assms by (simp add: chunk_pass_def andThen_def)
next
  case (Next s)
  obtain r0 bp0 req0 where s: "s = (r0, bp0, req0)" by (cases s)
  then have n: "size_stage err (rest, bp, req) = Next (r0, bp0, req0)" using Next by simp
  have st0: "bp_state bp0 \<noteq> CHUNKED_SIZE" using size_stage_Next [OF n] by blast
  have more: "size_stage err (rest @ b, bp, req) = Next (r0 @ b, bp0, req0)"
    using size_ext [of err rest bp req b] n by simp
  have left: "chunk_pass err (rest @ b, bp, req) =
      andThen (data_stage err (r0 @ b, bp0, req0)) (crlf_stage err)"
    and left0: "chunk_pass err (rest, bp, req) =
      andThen (data_stage err (r0, bp0, req0)) (crlf_stage err)"
    using more n by (simp_all add: chunk_pass_def andThen_def)
  have again: "chunk_pass err (x, bp0, req0) = andThen (data_stage err (x, bp0, req0)) (crlf_stage err)" for x
    using st0 by (simp add: chunk_pass_def size_other andThen_def)
  have "e = err \<and> (r, bp1, req1) = (r0, bp0, req0)"
  proof (cases "data_stage err (r0, bp0, req0)")
    case (Stop r' e' s')
    then have "incomplete (data_stage err (r0, bp0, req0))"
      using assms left0 by (simp add: andThen_def)
    from data_incomplete [OF this] Stop assms left0 show ?thesis by (simp add: andThen_def)
  next
    case (Throw x)
    then show ?thesis using assms left0 by (simp add: andThen_def)
  next
    case d: (Next s')
    obtain r2 bp2 req2 where s': "s' = (r2, bp2, req2)" by (cases s')
    then have "incomplete (crlf_stage err (r2, bp2, req2))"
      using assms left0 d by (simp add: andThen_def)
    from crlf_incomplete [OF this]
    have c: "crlf_stage err (r2, bp2, req2) = Stop PARSE_INCOMPLETE err (r2, bp2, req2)" .
    then have "bp_state bp2 = CHUNKED_CRLF" by (auto simp: crlf_stage_def split: if_splits)
    then have "r2 = r0 \<and> bp2 = bp0 \<and> req2 = req0"
      using data_stage_Next [of err r0 bp0 req0 r2 bp2 req2] d s' by auto
    then show ?thesis using assms left0 d s' c by (simp add: andThen_def)
  qed
  then show ?thesis using left again by simp
qed

section \<open>Splitting the input\<close>

text \<open>What a pass keeps: the time of the last byte and the time-out, and the mode.\<close>

lemma pass_keeps:
  assumes "chunk_pass err (rest, bp, req) = m" "m = Next (rest', bp', req') \<or> m = Stop r e (rest', bp', req')"
  shows "bp_lastReceiveTime bp' = bp_lastReceiveTime bp \<and>
    bp_chunkedTimeoutSec bp' = bp_chunkedTimeoutSec bp"
  using assms
  by (auto simp: chunk_pass_def andThen_def size_stage_def data_stage_def crlf_stage_def Let_def
      split: outcome.splits option.splits if_splits)

lemma pass_incomplete_chunked:
  assumes "chunk_pass err (rest, bp, req) = Stop PARSE_INCOMPLETE e (r, bp1, req1)" "chunked_state bp"
  shows "chunked_state bp1"
  using assms
  by (auto simp: chunk_pass_def andThen_def size_stage_def data_stage_def crlf_stage_def Let_def
      chunked_state_def split: outcome.splits option.splits if_splits)

text \<open>With one reading of the clock for a whole call the time-out is never exceeded.\<close>

definition quiet :: "int \<Rightarrow> BodyParser \<Rightarrow> bool" where
  "quiet t bp \<longleftrightarrow> bp_lastReceiveTime bp = t \<and> 0 \<le> sint (bp_chunkedTimeoutSec bp)"

lemma quiet_not_timed_out: "quiet t bp \<Longrightarrow> \<not> timed_out t bp"
  by (simp add: quiet_def timed_out_def)

lemma pass_quiet:
  "chunk_pass err (rest, bp, req) = Next (rest', bp', req') \<Longrightarrow> quiet t bp \<Longrightarrow> quiet t bp'"
  "chunk_pass err (rest, bp, req) = Stop r e (rest', bp', req') \<Longrightarrow> quiet t bp \<Longrightarrow> quiet t bp'"
  using pass_keeps [of err rest bp req _ rest' bp' req'] by (auto simp: quiet_def)

lemma loop_step:
  assumes "quiet t bp" "chunked_state bp" "rest \<noteq> []"
  shows "chunk_loop (\<lambda>_. t) i err (rest, bp, req) =
    (case chunk_pass err (rest, bp, req) of
       Next s \<Rightarrow> chunk_loop (\<lambda>_. t) (Suc i) err s
     | Stop r e s \<Rightarrow> Stop r e s | Throw x \<Rightarrow> Throw x)"
  using assms quiet_not_timed_out by (subst chunk_loop.simps) auto

lemma loop_index: "chunk_loop (\<lambda>_. t) i err s = chunk_loop (\<lambda>_. t) j err s"
proof (induction "\<lambda>_ :: nat. t" i err s arbitrary: j rule: chunk_loop.induct)
  case (1 i err rest bp req)
  show ?case
  proof (cases "rest \<noteq> [] \<and> chunked_state bp \<and> \<not> timed_out t bp")
    case True
    then show ?thesis
      using 1 [of _ "Suc j"]
      by (subst (1 2) chunk_loop.simps) (auto split: outcome.splits)
  next
    case False
    then show ?thesis by (subst (1 2) chunk_loop.simps) auto
  qed
qed

lemma loop_split:
  "chunk_loop (\<lambda>_. t) i err (a, bp, req) = Stop PARSE_INCOMPLETE e (r, bp1, req1) \<Longrightarrow>
   quiet t bp \<Longrightarrow> chunked_state bp \<Longrightarrow>
   e = err \<and> quiet t bp1 \<and> chunked_state bp1 \<and>
   chunk_loop (\<lambda>_. t) i err (a @ b, bp, req) = chunk_loop (\<lambda>_. t) j err (r @ b, bp1, req1)"
proof (induction "\<lambda>_ :: nat. t" i err "(a, bp, req)" arbitrary: a bp req rule: chunk_loop.induct)
  case (1 i err a bp req)
  show ?case
  proof (cases "a = []")
    case True
    then show ?thesis using 1(2-4) loop_index by (subst (asm) chunk_loop.simps) auto
  next
    case False
    then have step: "chunk_loop (\<lambda>_. t) i err (a, bp, req) =
        (case chunk_pass err (a, bp, req) of
           Next s \<Rightarrow> chunk_loop (\<lambda>_. t) (Suc i) err s
         | Stop r e s \<Rightarrow> Stop r e s | Throw x \<Rightarrow> Throw x)"
      using loop_step 1(3,4) by blast
    have step_b: "chunk_loop (\<lambda>_. t) i err (a @ b, bp, req) =
        (case chunk_pass err (a @ b, bp, req) of
           Next s \<Rightarrow> chunk_loop (\<lambda>_. t) (Suc i) err s
         | Stop r e s \<Rightarrow> Stop r e s | Throw x \<Rightarrow> Throw x)"
      using loop_step 1(3,4) False by blast
    show ?thesis
    proof (cases "chunk_pass err (a, bp, req)")
      case (Throw x)
      then show ?thesis using step 1(2) by simp
    next
      case (Stop r' e' s')
      then have p: "chunk_pass err (a, bp, req) = Stop PARSE_INCOMPLETE e (r, bp1, req1)"
        using step 1(2) by simp
      note q = pass_quiet(2) [OF p 1(3)] and c = pass_incomplete_chunked [OF p 1(4)]
      have e: "e = err" and same: "chunk_pass err (a @ b, bp, req) = chunk_pass err (r @ b, bp1, req1)"
        using pass_incomplete [OF p, of b] by simp_all
      show ?thesis
      proof (cases "r @ b = []")
        case True
        then have "chunk_loop (\<lambda>_. t) j err (r @ b, bp1, req1) = Stop PARSE_INCOMPLETE err ([], bp1, req1)"
          by (subst chunk_loop.simps) simp
        then show ?thesis using True q c e p 1(2) by simp
      next
        case False
        then show ?thesis
          using loop_step [OF q c False, of j err req1] step_b same e q c
          by (auto split: outcome.splits intro: loop_index)
      qed
    next
      case (Next s)
      obtain a' bp' req' where s: "s = (a', bp', req')" by (cases s)
      with Next have n: "chunk_pass err (a, bp, req) = Next (a', bp', req')" by simp
      have n_b: "chunk_pass err (a @ b, bp, req) = Next (a' @ b, bp', req')"
        using pass_ext [of err a bp req b] n by simp
      have ch: "chunked_state bp'" using chunk_pass_Next [OF n 1(4)] by (simp add: chunked_state_def)
      have "chunk_loop (\<lambda>_. t) (Suc i) err (a', bp', req') = Stop PARSE_INCOMPLETE e (r, bp1, req1)"
        using 1(2) step n by simp
      from 1(1) [OF _ _ n this] False 1(3,4) quiet_not_timed_out pass_quiet(1) [OF n 1(3)] ch
      show ?thesis using step_b n_b by simp
    qed
  qed
qed

text \<open>The reader of an announced length.\<close>

lemma unat_minus_of_nat:
  fixes w :: size_t
  assumes "n \<le> unat w"
  shows "unat (w - of_nat n) = unat w - n"
proof -
  have "n \<le> size_max" using assms unat_size_t_le [of w] by simp
  then have "unat (of_nat n :: size_t) = n" by (simp add: unat_of_nat)
  moreover from this have "of_nat n \<le> w" using assms by (simp add: word_le_nat_alt)
  ultimately show ?thesis by (simp add: unat_sub)
qed

lemma identity_split:
  assumes "parseIdentity err (a, bp, req) = Stop PARSE_INCOMPLETE e (r, bp1, req1)"
    and "bp_contentLengthRemaining bp \<noteq> 0"
  shows "e = err \<and> bp_state bp1 = bp_state bp \<and> bp_lastReceiveTime bp1 = bp_lastReceiveTime bp \<and>
    parseIdentity err (a @ b, bp, req) = parseIdentity err (r @ b, bp1, req1)"
proof (cases "a = []")
  case True
  then show ?thesis using assms by (simp add: parseIdentity_def)
next
  case False
  let ?R = "bp_contentLengthRemaining bp"
  have pos: "0 < unat ?R" using assms(2) by (simp add: unat_gt_0)
  let ?n = "min (length a) (unat ?R)"
  have left: "unat (?R - of_nat ?n) = unat ?R - ?n" by (rule unat_minus_of_nat) simp
  have nz: "?R - of_nat ?n \<noteq> 0"
    using assms False pos by (auto simp: parseIdentity_def Let_def split: if_splits)
  then have "length a < unat ?R" using left by (metis diff_is_0_eq' min.cobounded2 min.strict_order_iff nat_less_le not_le unat_eq_zero min_def)
  then have n: "?n = length a" by simp
  have r: "e = err" "r = []" "bp1 = bp\<lparr>bp_contentLengthRemaining := ?R - of_nat (length a)\<rparr>"
      "req1 = rq_appendBody a req"
    using assms(1) False pos nz n by (auto simp: parseIdentity_def Let_def split: if_splits)
  have u: "unat (?R - of_nat (length a)) = unat ?R - length a" using left n by simp
  have nz': "?R \<noteq> of_nat (length a)" using nz n by auto
  have m: "min (length (a @ b)) (unat ?R) = length a + min (length b) (unat ?R - length a)"
    using \<open>length a < unat ?R\<close> by auto
  show ?thesis
  proof (cases "b = []")
    case True
    then show ?thesis using assms(1) r by (simp add: parseIdentity_def)
  next
    case False
    then show ?thesis
      using r u m nz' \<open>length a < unat ?R\<close> \<open>a \<noteq> []\<close>
      by (simp add: parseIdentity_def Let_def rq_appendBody_def diff_diff_eq)
  qed
qed

text \<open>
  The parsers that the server can reach: an identity reader has bytes left to read, and the
  time-out is not one of the words that the cast to \<open>time_t\<close> turns negative.
\<close>

definition body_ok :: "BodyParser \<Rightarrow> bool" where
  "body_ok bp \<longleftrightarrow>
     (bp_state bp = IDENTITY \<longrightarrow> bp_contentLengthRemaining bp \<noteq> 0) \<and>
     0 \<le> sint (bp_chunkedTimeoutSec bp)"

lemma init_body_cases:
  assumes "init_body req 0 bp = (bp2, err)" "err = 0" "body_ok bp"
  shows "body_ok bp2 \<and> bp_state bp2 \<in> {COMPLETE, IDENTITY, CHUNKED_SIZE} \<and>
    bp_lastReceiveTime bp2 = bp_lastReceiveTime bp"
  using assms by (auto simp: init_body_def body_ok_def split: if_splits option.splits)

lemma init_body_time:
  "init_body req err (bp\<lparr>bp_lastReceiveTime := t\<rparr>) =
     (let (bp2, e) = init_body req err bp in (bp2\<lparr>bp_lastReceiveTime := t\<rparr>, e))"
  by (auto simp: init_body_def split: option.splits)

text \<open>The part of \<open>parse\<close> after the mode is known.\<close>

definition body_core :: "(nat \<Rightarrow> int) \<Rightarrow> int \<Rightarrow> scan \<Rightarrow> outcome" where
  "body_core clk err s =
     (case s of (buffer, bp2, req) \<Rightarrow>
       if bp_state bp2 = COMPLETE then Stop PARSE_COMPLETE err (buffer, bp2, req)
       else if bp_state bp2 = IDENTITY then parseIdentity err (buffer, bp2, req)
       else if chunked_state bp2 then chunk_loop clk 1 err (buffer, bp2, req)
       else Stop PARSE_INCOMPLETE err (buffer, bp2, req))"

definition touch :: "int \<Rightarrow> string \<Rightarrow> BodyParser \<Rightarrow> BodyParser" where
  "touch t buffer bp = (if buffer \<noteq> [] then bp\<lparr>bp_lastReceiveTime := t\<rparr> else bp)"

lemma touch_simps [simp]:
  "bp_state (touch t x bp) = bp_state bp"
  "bp_chunkedTimeoutSec (touch t x bp) = bp_chunkedTimeoutSec bp"
  "bp_contentLengthRemaining (touch t x bp) = bp_contentLengthRemaining bp"
  "touch t [] bp = bp"
  "x \<noteq> [] \<Longrightarrow> bp_lastReceiveTime (touch t x bp) = t"
  by (simp_all add: touch_def)

lemma touch_same: "bp_lastReceiveTime bp = t \<Longrightarrow> touch t x bp = bp"
  by (cases bp) (simp add: touch_def)

lemma parse_body_ready:
  "bp_state bp \<noteq> UNINITIALIZED \<Longrightarrow>
     parse_body clk err (x, bp, req) = body_core clk err (x, touch (clk 0) x bp, req)"
  by (simp add: parse_body_def body_core_def touch_def Let_def)

lemma parse_body_init:
  assumes "bp_state bp = UNINITIALIZED" "init_body req err bp = (bp2, e)"
  shows "parse_body clk err (x, bp, req) =
    (if e \<noteq> 0 then Stop PARSE_ERROR e (x, touch (clk 0) x bp2, req)
     else body_core clk e (x, touch (clk 0) x bp2, req))"
  using assms init_body_time [where req = req and err = err and bp = bp and t = "clk 0"]
  by (simp add: parse_body_def body_core_def touch_def Let_def)

lemma core_empty:
  "bp_state bp \<noteq> COMPLETE \<Longrightarrow> body_core clk err ([], bp, req) = Stop PARSE_INCOMPLETE err ([], bp, req)"
  by (simp add: body_core_def parseIdentity_def chunk_loop.simps)

lemma core_split:
  assumes "body_core (\<lambda>_. t) err (a, bp, req) = Stop PARSE_INCOMPLETE e (r, bp1, req1)"
    and "body_ok bp" "bp_lastReceiveTime bp = t" "bp_state bp \<noteq> UNINITIALIZED"
  shows "e = err \<and> bp_lastReceiveTime bp1 = t \<and> bp_state bp1 \<noteq> UNINITIALIZED \<and>
    body_core (\<lambda>_. t) err (a @ b, bp, req) = body_core (\<lambda>_. t) err (r @ b, bp1, req1)"
proof (cases "bp_state bp = IDENTITY")
  case True
  with assms(1) have "parseIdentity err (a, bp, req) = Stop PARSE_INCOMPLETE e (r, bp1, req1)"
    by (simp add: body_core_def)
  from identity_split [OF this, of b] assms True show ?thesis
    by (simp add: body_core_def body_ok_def)
next
  case False
  have nc: "bp_state bp \<noteq> COMPLETE" using assms(1) by (auto simp: body_core_def)
  have ch: "chunked_state bp"
    using False nc assms(4) by (cases "bp_state bp") (auto simp: chunked_state_def)
  have q: "quiet t bp" using assms(2,3) by (simp add: quiet_def body_ok_def)
  have "chunk_loop (\<lambda>_. t) 1 err (a, bp, req) = Stop PARSE_INCOMPLETE e (r, bp1, req1)"
    using assms(1) False nc ch by (simp add: body_core_def)
  from loop_split [OF this q ch, of b 1]
  show ?thesis using False nc ch by (auto simp: body_core_def chunked_state_def quiet_def)
qed

text \<open>Reading does not depend on the time either, while the time-out is not exceeded.\<close>

fun at_time :: "int \<Rightarrow> outcome \<Rightarrow> outcome" where
  "at_time t (Next (rest, bp, req)) = Next (rest, bp\<lparr>bp_lastReceiveTime := t\<rparr>, req)"
| "at_time t (Stop r e (rest, bp, req)) = Stop r e (rest, bp\<lparr>bp_lastReceiveTime := t\<rparr>, req)"
| "at_time t (Throw x) = Throw x"

lemma stages_time:
  "size_stage err (x, bp\<lparr>bp_lastReceiveTime := t\<rparr>, req) = at_time t (size_stage err (x, bp, req))"
  "data_stage err (x, bp\<lparr>bp_lastReceiveTime := t\<rparr>, req) = at_time t (data_stage err (x, bp, req))"
  "crlf_stage err (x, bp\<lparr>bp_lastReceiveTime := t\<rparr>, req) = at_time t (crlf_stage err (x, bp, req))"
  by (simp_all add: size_stage_def data_stage_def crlf_stage_def Let_def split: option.splits)

lemma andThen_time:
  assumes "\<And>x bp req. f (x, bp\<lparr>bp_lastReceiveTime := t\<rparr>, req) = at_time t (f (x, bp, req))"
  shows "andThen (at_time t m) f = at_time t (andThen m f)"
proof (cases m)
  case (Next s)
  then show ?thesis using assms by (cases s) (simp add: andThen_def)
next
  case (Stop r e s)
  then show ?thesis by (cases s) (simp add: andThen_def)
qed (simp add: andThen_def)

lemma pass_time:
  "chunk_pass err (x, bp\<lparr>bp_lastReceiveTime := t\<rparr>, req) = at_time t (chunk_pass err (x, bp, req))"
  by (simp add: chunk_pass_def stages_time andThen_time)

lemma quiet_time: "quiet s bp \<Longrightarrow> quiet t (bp\<lparr>bp_lastReceiveTime := t\<rparr>)"
  by (simp add: quiet_def)

lemma loop_time:
  "quiet s bp \<Longrightarrow> chunk_loop (\<lambda>_. t) i err (x, bp\<lparr>bp_lastReceiveTime := t\<rparr>, req) =
     at_time t (chunk_loop (\<lambda>_. s) i err (x, bp, req))"
proof (induction "\<lambda>_ :: nat. s" i err "(x, bp, req)" arbitrary: x bp req rule: chunk_loop.induct)
  case (1 i err x bp req)
  show ?case
  proof (cases "x \<noteq> [] \<and> chunked_state bp")
    case False
    then show ?thesis by (subst (1 2) chunk_loop.simps) (auto simp: chunked_state_def)
  next
    case True
    then have ch: "chunked_state (bp\<lparr>bp_lastReceiveTime := t\<rparr>)" by (simp add: chunked_state_def)
    have next_loop: "chunk_loop (\<lambda>_. t) (Suc i) err (x', bp'\<lparr>bp_lastReceiveTime := t\<rparr>, req') =
        at_time t (chunk_loop (\<lambda>_. s) (Suc i) err (x', bp', req'))"
      if "chunk_pass err (x, bp, req) = Next (x', bp', req')" for x' bp' req'
      using 1(1) [OF True quiet_not_timed_out [OF 1(2)] that] pass_quiet(1) [OF that 1(2)] by blast
    show ?thesis
      unfolding loop_step [OF 1(2) conjunct2 [OF True] conjunct1 [OF True]]
        loop_step [OF quiet_time [OF 1(2)] ch conjunct1 [OF True]] pass_time
      using next_loop by (cases "chunk_pass err (x, bp, req)") auto
  qed
qed

lemma core_time:
  assumes "body_ok bp" "bp_lastReceiveTime bp = s"
  shows "body_core (\<lambda>_. t) err (x, bp\<lparr>bp_lastReceiveTime := t\<rparr>, req) =
    at_time t (body_core (\<lambda>_. s) err (x, bp, req))"
proof -
  have "quiet s bp" using assms by (simp add: quiet_def body_ok_def)
  moreover have "rq_appendBody [] req = req" by (simp add: rq_appendBody_def)
  ultimately show ?thesis
    using loop_time [of s bp t 1 err x req] by (simp add: body_core_def parseIdentity_def chunked_state_def Let_def)
qed

text \<open>Of the request only the body changes, and the time-out is kept.\<close>

lemma pass_request:
  assumes "chunk_pass err (x, bp, req) = m" "m = Next (x', bp', req') \<or> m = Stop r e (x', bp', req')"
  shows "\<exists>d. req' = req\<lparr>rq_body := d\<rparr>"
proof -
  have "req' = req \<or> (\<exists>n. req' = rq_appendBody n req)"
    using assms
    by (auto simp: chunk_pass_def andThen_def size_stage_def data_stage_def crlf_stage_def Let_def
        split: outcome.splits option.splits if_splits)
  then show ?thesis by (auto simp: rq_appendBody_def intro: exI [of _ "rq_body req"])
qed

lemma loop_keeps:
  "chunk_loop clk i err (x, bp, req) = Stop r e (x', bp', req') \<Longrightarrow>
     bp_chunkedTimeoutSec bp' = bp_chunkedTimeoutSec bp \<and> (\<exists>d. req' = req\<lparr>rq_body := d\<rparr>)"
proof (induction clk i err "(x, bp, req)" arbitrary: x bp req rule: chunk_loop.induct)
  case (1 clk i err x bp req)
  have same: "\<exists>d. req = req\<lparr>rq_body := d\<rparr>" by (rule exI [of _ "rq_body req"]) simp
  show ?case
  proof (cases "x \<noteq> [] \<and> chunked_state bp \<and> \<not> timed_out (clk i) bp")
    case False
    then show ?thesis using 1(2) same by (subst (asm) chunk_loop.simps) (auto split: if_splits)
  next
    case True
    then have step: "chunk_loop clk i err (x, bp, req) =
        (case chunk_pass err (x, bp, req) of
           Next s \<Rightarrow> chunk_loop clk (Suc i) err s | Stop r e s \<Rightarrow> Stop r e s | Throw x \<Rightarrow> Throw x)"
      by (subst chunk_loop.simps) simp
    show ?thesis
    proof (cases "chunk_pass err (x, bp, req)")
      case (Next s)
      obtain x1 bp1 req1 where s: "s = (x1, bp1, req1)" by (cases s)
      with Next have n: "chunk_pass err (x, bp, req) = Next (x1, bp1, req1)" by simp
      have "chunk_loop clk (Suc i) err (x1, bp1, req1) = Stop r e (x', bp', req')"
        using 1(2) step n by simp
      with 1(1) [of x1 bp1 req1] True n
      have "bp_chunkedTimeoutSec bp' = bp_chunkedTimeoutSec bp1" "\<exists>d. req' = req1\<lparr>rq_body := d\<rparr>"
        by auto
      then show ?thesis using pass_keeps [OF n] pass_request [OF n] by auto
    next
      case (Stop r' e' s')
      then have n: "chunk_pass err (x, bp, req) = Stop r e (x', bp', req')" using 1(2) step by simp
      from pass_keeps [OF n] pass_request [OF n] show ?thesis by simp
    next
      case (Throw y)
      then show ?thesis using 1(2) step by simp
    qed
  qed
qed

lemma core_keeps:
  assumes "body_core (\<lambda>_. s) err (x, bp, req) = Stop PARSE_INCOMPLETE e (x', bp', req')"
    and "body_ok bp" "bp_lastReceiveTime bp = s"
  shows "body_ok bp' \<and> bp_chunkedTimeoutSec bp' = bp_chunkedTimeoutSec bp \<and> (\<exists>d. req' = req\<lparr>rq_body := d\<rparr>)"
proof (cases "chunked_state bp")
  case True
  have "quiet s bp" using assms(2,3) by (simp add: quiet_def body_ok_def)
  moreover from True assms(1) have l: "chunk_loop (\<lambda>_. s) 1 err (x, bp, req) = Stop PARSE_INCOMPLETE e (x', bp', req')"
    by (auto simp: body_core_def chunked_state_def)
  ultimately have "chunked_state bp'" using loop_split True by blast
  then show ?thesis using loop_keeps [OF l] assms(2) by (auto simp: body_ok_def chunked_state_def)
next
  case False
  have "\<exists>d. req = req\<lparr>rq_body := d\<rparr>" by (rule exI [of _ "rq_body req"]) simp
  then show ?thesis
    using assms(1,2) False
    by (auto simp: body_core_def parseIdentity_def Let_def body_ok_def rq_appendBody_def split: if_splits)
qed

text \<open>A reader that waits for more bytes has chosen its mode.\<close>

lemma body_entry:
  assumes "parse_body (\<lambda>_. s) 0 (a, bp, req) = Stop PARSE_INCOMPLETE e (r, bp1, req1)" "body_ok bp"
  obtains bp2 where "body_ok bp2" "bp_state bp2 \<noteq> UNINITIALIZED" "bp_state bp2 \<noteq> COMPLETE"
    "bp_chunkedTimeoutSec bp2 = bp_chunkedTimeoutSec bp"
    "\<And>t x. parse_body (\<lambda>_. t) 0 (x, bp, req) = body_core (\<lambda>_. t) 0 (x, touch t x bp2, req)"
proof (cases "bp_state bp = UNINITIALIZED")
  case True
  obtain bp2 e2 where i: "init_body req 0 bp = (bp2, e2)" by force
  have "e2 = 0" using assms(1) parse_body_init [OF True i] by (auto split: if_splits)
  with parse_body_init [OF True i]
  have core: "parse_body (\<lambda>_. t) 0 (x, bp, req) = body_core (\<lambda>_. t) 0 (x, touch t x bp2, req)" for t x
    by simp
  have "bp_state bp2 \<noteq> COMPLETE" using assms(1) core [of s a] by (auto simp: body_core_def)
  moreover have "bp_chunkedTimeoutSec bp2 = bp_chunkedTimeoutSec bp"
    using i by (auto simp: init_body_def split: if_splits option.splits)
  ultimately show ?thesis using init_body_cases [OF i \<open>e2 = 0\<close> assms(2)] core that by auto
next
  case False
  have "bp_state bp \<noteq> COMPLETE"
    using assms(1) parse_body_ready [OF False] by (auto simp: body_core_def)
  then show ?thesis using that [of bp] assms(2) parse_body_ready False by blast
qed

lemma body_split_kept:
  assumes "parse_body (\<lambda>_. s) 0 (a, bp, req) = Stop PARSE_INCOMPLETE e (r, bp1, req1)"
    and "body_ok bp" "b \<noteq> []"
  shows "e = 0 \<and> body_ok bp1 \<and> bp_chunkedTimeoutSec bp1 = bp_chunkedTimeoutSec bp \<and>
    (\<exists>d. req1 = req\<lparr>rq_body := d\<rparr>) \<and>
    parse_body (\<lambda>_. t) 0 (a @ b, bp, req) = parse_body (\<lambda>_. t) 0 (r @ b, bp1, req1)"
proof -
  obtain bp2 where bp2: "body_ok bp2" "bp_state bp2 \<noteq> UNINITIALIZED" "bp_state bp2 \<noteq> COMPLETE"
    "bp_chunkedTimeoutSec bp2 = bp_chunkedTimeoutSec bp"
    and core: "\<And>t x. parse_body (\<lambda>_. t) 0 (x, bp, req) = body_core (\<lambda>_. t) 0 (x, touch t x bp2, req)"
    using body_entry [OF assms(1,2)] by metis
  show ?thesis
  proof (cases "a = []")
    case True
    then have "e = 0 \<and> r = [] \<and> bp1 = bp2 \<and> req1 = req"
      using assms(1) core [of s a] core_empty [OF bp2(3)] by simp
    moreover have "\<exists>d. req = req\<lparr>rq_body := d\<rparr>" by (rule exI [of _ "rq_body req"]) simp
    ultimately show ?thesis using True core [of t b] parse_body_ready [OF bp2(2)] bp2 by simp
  next
    case False
    let ?bp = "touch s a bp2"
    have ok: "body_ok ?bp" using bp2(1) by (simp add: body_ok_def)
    have lr: "bp_lastReceiveTime ?bp = s" using False by simp
    have first: "body_core (\<lambda>_. s) 0 (a, ?bp, req) = Stop PARSE_INCOMPLETE e (r, bp1, req1)"
      using assms(1) core [of s a] by simp
    have at: "touch t (a @ b) bp2 = ?bp\<lparr>bp_lastReceiveTime := t\<rparr>"
      "touch t (r @ b) bp1 = bp1\<lparr>bp_lastReceiveTime := t\<rparr>"
      using assms(3) False by (simp_all add: touch_def)
    have again: "body_core (\<lambda>_. t) 0 (a, ?bp\<lparr>bp_lastReceiveTime := t\<rparr>, req) =
        Stop PARSE_INCOMPLETE e (r, bp1\<lparr>bp_lastReceiveTime := t\<rparr>, req1)"
      using core_time [OF ok lr] first by simp
    have "body_ok (?bp\<lparr>bp_lastReceiveTime := t\<rparr>)" using ok by (simp add: body_ok_def)
    from core_split [OF again this, of b] bp2 core_keeps [OF first ok lr]
    show ?thesis
      using core [of t "a @ b"] parse_body_ready [of bp1 "\<lambda>_. t" 0 "r @ b" req1] unfolding at by auto
  qed
qed

text \<open>C10: the body reader does not depend on how the bytes were cut into reads, nor on when they
  were read: when it stops for want of bytes on a first part, going on with what it left and a
  second part, at another time, is the same, in result, error code, body and rest, as reading the
  two parts at once.\<close>

theorem body_split:
  assumes "parse_body (\<lambda>_. s) 0 (a, bp, req) = Stop PARSE_INCOMPLETE e (r, bp1, req1)"
    and "body_ok bp" "b \<noteq> []"
  shows "parse_body (\<lambda>_. t) 0 (a @ b, bp, req) = parse_body (\<lambda>_. t) 0 (r @ b, bp1, req1)"
  using body_split_kept [OF assms] by simp

text \<open>A chunked request read in two parts, cut in the middle of its only chunk.\<close>

definition chunked_request :: HttpRequest where
  "chunked_request =
     rq_addHeader ''Transfer-Encoding'' ''chunked'' ((new_HttpRequest two_locations)\<lparr>rq_maxBodySize := 10\<rparr>)"

end
