(* ===== verification/BodyChunks.thy ===== *)
theory BodyChunks
  imports BodyParser
begin

text \<open>
  What the chunked reader accepts: it inverts the chunked encoding, with chunk extensions and
  trailers, never lets the body grow beyond the configured maximum, and its own time-out cannot
  fire for a client that pauses between two reads.
\<close>

section \<open>The encoding\<close>

text \<open>
  A chunk is a size line, which may carry an extension after a semicolon, and its bytes.
\<close>

definition size_line :: "string \<Rightarrow> nat \<Rightarrow> bool" where
  "size_line line n \<longleftrightarrow>
     CR \<notin> set line \<and>
     hexStrToSize (takeWhile (\<lambda>c. c \<noteq> CHR '';'') line) = Some (of_nat n) \<and> n \<le> size_max"

definition print_chunk :: "string \<times> string \<Rightarrow> string" where
  "print_chunk ch = fst ch @ crlf @ snd ch @ crlf"

definition chunk_ok :: "string \<times> string \<Rightarrow> bool" where
  "chunk_ok ch \<longleftrightarrow> size_line (fst ch) (length (snd ch)) \<and> snd ch \<noteq> []"

definition print_chunked :: "(string \<times> string) list \<Rightarrow> string \<Rightarrow> string list \<Rightarrow> string" where
  "print_chunked chunks zero trailers =
     concat (map print_chunk chunks) @ zero @ crlf @ concat (map (\<lambda>t. t @ crlf) trailers) @ crlf"

lemma str_find_crlf: "CR \<notin> set xs \<Longrightarrow> str_find (xs @ CR # LF # ys) crlf 0 = Some (length xs)"
  using find_sub_first [of CR xs "[LF]" ys] by (simp add: str_find_def)

lemma unat_of_nat_le: "n \<le> size_max \<Longrightarrow> unat (of_nat n :: size_t) = n"
  by (simp add: unat_of_nat)

text \<open>A pass over a whole chunk, and over the end.\<close>

lemma pass_chunk:
  assumes "chunk_ok ch" "bp_state bp = CHUNKED_SIZE"
    and "length (rq_body req) + length (snd ch) \<le> unat (rq_maxBodySize req)"
    and "length (rq_body req) + length (snd ch) \<le> string_max"
  shows "chunk_pass err (print_chunk ch @ t, bp, req) =
    Next (t, bp\<lparr>bp_chunkSize := of_nat (length (snd ch)), bp_state := CHUNKED_SIZE\<rparr>,
          rq_appendBody (snd ch) req)"
proof -
  let ?n = "length (snd ch)"
  have l: "CR \<notin> set (fst ch)" "hexStrToSize (takeWhile (\<lambda>c. c \<noteq> CHR '';'') (fst ch)) = Some (of_nat ?n)"
      "?n \<le> size_max" "snd ch \<noteq> []"
    using assms(1) by (simp_all add: chunk_ok_def size_line_def)
  have u: "unat (of_nat ?n :: size_t) = ?n" by (rule unat_of_nat_le [OF l(3)])
  have nz: "(of_nat ?n :: size_t) \<noteq> 0" using u l(4) by (metis length_0_conv unat_0)
  have u2: "unat (of_nat ?n + 2 :: size_t) = ?n + 2"
    using assms(4) u by (simp add: unat_word_ariths string_max_def)
  have s: "size_stage err (print_chunk ch @ t, bp, req) =
      Next (snd ch @ crlf @ t, bp\<lparr>bp_chunkSize := of_nat ?n, bp_state := CHUNKED_DATA\<rparr>, req)"
    using l nz u assms(2,3) str_find_crlf [OF l(1), of "snd ch @ crlf @ t"]
    by (simp add: size_stage_def print_chunk_def Let_def)
  have d: "data_stage err (snd ch @ crlf @ t, bp\<lparr>bp_chunkSize := of_nat ?n, bp_state := CHUNKED_DATA\<rparr>, req) =
      Next (t, bp\<lparr>bp_chunkSize := of_nat ?n, bp_state := CHUNKED_SIZE\<rparr>, rq_appendBody (snd ch) req)"
    using u u2 assms(4) by (simp add: data_stage_def Let_def)
  show ?thesis
    using s d by (simp add: chunk_pass_def andThen_def crlf_other)
qed

lemma trailers_end:
  "\<forall>t \<in> set ts. t \<noteq> [] \<and> CR \<notin> set t \<Longrightarrow>
     trailer_end (concat (map (\<lambda>t. t @ crlf) ts) @ CR # LF # rest) = Some rest"
proof (induction ts)
  case Nil
  have "str_find (CR # LF # rest) crlf 0 = Some 0" using str_find_crlf [of "[]" rest] by simp
  then show ?case by (subst trailer_end.simps) simp
next
  case (Cons u ts)
  then have "str_find (u @ CR # LF # concat (map (\<lambda>t. t @ crlf) ts) @ CR # LF # rest) crlf 0 = Some (length u)"
    by (intro str_find_crlf) simp
  then show ?case using Cons by (subst trailer_end.simps) simp
qed

lemma pass_end:
  assumes "size_line zero 0" "bp_state bp = CHUNKED_SIZE" "\<forall>t \<in> set ts. t \<noteq> [] \<and> CR \<notin> set t"
    and "length (rq_body req) \<le> unat (rq_maxBodySize req)"
  shows "chunk_pass err (print_chunked [] zero ts @ rest, bp, req) =
    Stop PARSE_COMPLETE err (rest, bp\<lparr>bp_chunkSize := 0, bp_state := COMPLETE\<rparr>, req)"
proof -
  let ?t = "concat (map (\<lambda>t. t @ crlf) ts) @ crlf @ rest"
  have l: "CR \<notin> set zero" "hexStrToSize (takeWhile (\<lambda>c. c \<noteq> CHR '';'') zero) = Some 0"
    using assms(1) by (simp_all add: size_line_def)
  have "size_stage err (print_chunked [] zero ts @ rest, bp, req) =
      Next (?t, bp\<lparr>bp_chunkSize := 0, bp_state := CHUNKED_CRLF\<rparr>, req)"
    using l assms(2,4) str_find_crlf [OF l(1), of ?t]
    by (simp add: size_stage_def print_chunked_def Let_def)
  moreover have "crlf_stage err (?t, bp\<lparr>bp_chunkSize := 0, bp_state := CHUNKED_CRLF\<rparr>, req) =
      Stop PARSE_COMPLETE err (rest, bp\<lparr>bp_chunkSize := 0, bp_state := COMPLETE\<rparr>, req)"
    using trailers_end [OF assms(3), of rest] by (simp add: crlf_stage_def)
  ultimately show ?thesis by (simp add: chunk_pass_def andThen_def data_other)
qed

lemma loop_chunks:
  assumes "list_all chunk_ok chunks" "size_line zero 0" "\<forall>t \<in> set ts. t \<noteq> [] \<and> CR \<notin> set t"
    and "quiet t bp" "bp_state bp = CHUNKED_SIZE"
    and "length (rq_body req @ concat (map snd chunks)) \<le> unat (rq_maxBodySize req)"
    and "length (rq_body req @ concat (map snd chunks)) \<le> string_max"
  shows "\<exists>bp'. chunk_loop (\<lambda>_. t) i err (print_chunked chunks zero ts @ rest, bp, req) =
    Stop PARSE_COMPLETE err (rest, bp', req\<lparr>rq_body := rq_body req @ concat (map snd chunks)\<rparr>) \<and>
    bp_state bp' = COMPLETE"
  using assms
proof (induction chunks arbitrary: i bp req)
  case Nil
  have "print_chunked [] zero ts @ rest \<noteq> []" by (simp add: print_chunked_def)
  then show ?case
    using loop_step [OF Nil(4), of "print_chunked [] zero ts @ rest" i err req]
      pass_end [OF Nil(2,5,3), of req err rest] Nil(5,6)
    by (simp add: chunked_state_def)
next
  case (Cons ch chunks)
  let ?rest = "print_chunked chunks zero ts @ rest"
  let ?bp = "bp\<lparr>bp_chunkSize := of_nat (length (snd ch)), bp_state := CHUNKED_SIZE\<rparr>"
  have split: "print_chunked (ch # chunks) zero ts @ rest = print_chunk ch @ ?rest"
    by (simp add: print_chunked_def)
  have ne: "print_chunk ch @ ?rest \<noteq> []" by (simp add: print_chunk_def)
  have pass: "chunk_pass err (print_chunk ch @ ?rest, bp, req) = Next (?rest, ?bp, rq_appendBody (snd ch) req)"
    using Cons.prems by (intro pass_chunk) auto
  have IH: "\<exists>bp'. chunk_loop (\<lambda>_. t) (Suc i) err (?rest, ?bp, rq_appendBody (snd ch) req) =
      Stop PARSE_COMPLETE err (rest, bp', (rq_appendBody (snd ch) req)
        \<lparr>rq_body := rq_body (rq_appendBody (snd ch) req) @ concat (map snd chunks)\<rparr>) \<and>
      bp_state bp' = COMPLETE"
    using Cons.prems by (intro Cons.IH) (auto simp: quiet_def rq_appendBody_def)
  show ?case
    using IH loop_step [OF Cons.prems(4) _ ne, of i err req] pass Cons.prems(5)
    unfolding split by (simp add: chunked_state_def rq_appendBody_def)
qed

text \<open>C11: the chunked reader inverts the chunked encoding.  Any sequence of non-empty chunks
  with correct hexadecimal size lines (in either case, with leading zeros or extensions), closed
  by a zero chunk and any trailer lines, is read in full: the body is the concatenation of the
  chunks and what follows the request stays in the buffer, as long as the total respects the
  configured maximum.\<close>

theorem chunked_roundtrip:
  assumes "list_all chunk_ok chunks" "size_line zero 0" "\<forall>t \<in> set ts. t \<noteq> [] \<and> CR \<notin> set t"
    and "bp_state bp = UNINITIALIZED" "0 \<le> sint (bp_chunkedTimeoutSec bp)"
    and "rq_hasHeader req ''Transfer-Encoding''" "rq_getHeader req ''Transfer-Encoding'' = ''chunked''"
    and "\<not> rq_hasHeader req ''Content-Length''" "rq_body req = []"
    and "length (concat (map snd chunks)) \<le> unat (rq_maxBodySize req)"
    and "length (concat (map snd chunks)) \<le> string_max"
  shows "\<exists>bp'. parse_body (\<lambda>_. t) 0 (print_chunked chunks zero ts @ rest, bp, req) =
    Stop PARSE_COMPLETE 0 (rest, bp', req\<lparr>rq_body := concat (map snd chunks)\<rparr>) \<and>
    bp_state bp' = COMPLETE"
proof -
  let ?in = "print_chunked chunks zero ts @ rest"
  let ?bp = "bp\<lparr>bp_state := CHUNKED_SIZE\<rparr>"
  have ne: "?in \<noteq> []" by (simp add: print_chunked_def)
  have "init_body req 0 bp = (?bp, 0)" using assms(6-8) by (simp add: init_body_def)
  then have "parse_body (\<lambda>_. t) 0 (?in, bp, req) = chunk_loop (\<lambda>_. t) 1 0 (?in, touch t ?in ?bp, req)"
    using parse_body_init [OF assms(4), of req 0 ?bp 0] by (simp add: body_core_def chunked_state_def)
  moreover have "quiet t (touch t ?in ?bp)" using ne assms(5) by (simp add: quiet_def)
  from loop_chunks [OF assms(1-3) this, of req 1 0 rest] assms(9-11)
  have "\<exists>bp'. chunk_loop (\<lambda>_. t) 1 0 (?in, touch t ?in ?bp, req) =
      Stop PARSE_COMPLETE 0 (rest, bp', req\<lparr>rq_body := concat (map snd chunks)\<rparr>) \<and> bp_state bp' = COMPLETE"
    by simp
  ultimately show ?thesis by simp
qed

theorem chunked_roundtrip_witness:
  "\<exists>bp'. parse_body (\<lambda>_. 7) 0
      (''4;x=1'' @ crlf @ ''wiki'' @ crlf @ ''A'' @ crlf @ ''0123456789'' @ crlf @ ''0'' @ crlf @ crlf @ ''GET'',
       reset_body 0, chunked_request\<lparr>rq_maxBodySize := 14\<rparr>) =
    Stop PARSE_COMPLETE 0 (''GET'', bp', chunked_request\<lparr>rq_maxBodySize := 14, rq_body := ''wiki0123456789''\<rparr>)"
proof -
  let ?r = "chunked_request\<lparr>rq_maxBodySize := 14\<rparr>"
  have h: "hexStrToSize ''4'' = Some 4" "hexStrToSize ''A'' = Some 10" "hexStrToSize ''0'' = Some 0"
    by code_simp+
  have ok: "list_all chunk_ok [(''4;x=1'', ''wiki''), (''A'', ''0123456789'')]" "size_line ''0'' 0"
    using h by (simp_all add: chunk_ok_def size_line_def)
  have lo: "toLower ''Transfer-Encoding'' = ''transfer-encoding''" "toLower ''Content-Length'' = ''content-length''"
    by code_simp+
  have req: "rq_hasHeader ?r ''Transfer-Encoding''" "rq_getHeader ?r ''Transfer-Encoding'' = ''chunked''"
      "\<not> rq_hasHeader ?r ''Content-Length''" "rq_body ?r = []"
    by (simp_all add: chunked_request_def rq_addHeader_def rq_hasHeader_def rq_getHeader_def
        has_key_def last_value_def new_HttpRequest_def lo)
  have bp: "bp_state (reset_body 0) = UNINITIALIZED" "0 \<le> sint (bp_chunkedTimeoutSec (reset_body 0))"
    by (simp_all add: reset_body_def)
  have "print_chunked [(''4;x=1'', ''wiki''), (''A'', ''0123456789'')] ''0'' [] @ ''GET'' =
      ''4;x=1'' @ crlf @ ''wiki'' @ crlf @ ''A'' @ crlf @ ''0123456789'' @ crlf @ ''0'' @ crlf @ crlf @ ''GET''"
    by (simp add: print_chunked_def print_chunk_def)
  with chunked_roundtrip [OF ok _ bp req, of "[]" 7 "''GET''"] show ?thesis
    by (auto simp: string_max_def)
qed

section \<open>The maximum\<close>

text \<open>
  The invariant: the body fits, and a chunk that has been announced will still fit.
\<close>

definition bounded :: "BodyParser \<Rightarrow> HttpRequest \<Rightarrow> bool" where
  "bounded bp req \<longleftrightarrow>
     length (rq_body req) \<le> unat (rq_maxBodySize req) \<and>
     (bp_state bp = CHUNKED_DATA \<longrightarrow>
        length (rq_body req) + unat (bp_chunkSize bp) \<le> unat (rq_maxBodySize req))"

fun fits :: "outcome \<Rightarrow> bool" where
  "fits (Next (rest, bp, req)) = bounded bp req"
| "fits (Stop r e (rest, bp, req)) \<longleftrightarrow>
     length (rq_body req) \<le> unat (rq_maxBodySize req) \<and> (r \<noteq> PARSE_ERROR \<longrightarrow> bounded bp req)"
| "fits (Throw x) = True"

lemma size_fits: "bounded bp req \<Longrightarrow> fits (size_stage err (rest, bp, req))"
  by (auto simp: size_stage_def bounded_def Let_def split: option.splits)

lemma data_fits: "bounded bp req \<Longrightarrow> fits (data_stage err (rest, bp, req))"
  by (auto simp: data_stage_def bounded_def Let_def rq_appendBody_def min_def)

lemma crlf_fits: "bounded bp req \<Longrightarrow> fits (crlf_stage err (rest, bp, req))"
  by (auto simp: crlf_stage_def bounded_def split: option.splits)

lemma andThen_fits:
  "fits m \<Longrightarrow> (\<And>rest bp req. bounded bp req \<Longrightarrow> fits (f (rest, bp, req))) \<Longrightarrow> fits (andThen m f)"
  by (cases m rule: fits.cases) (auto simp: andThen_def)

lemma pass_fits: "bounded bp req \<Longrightarrow> fits (chunk_pass err (rest, bp, req))"
  unfolding chunk_pass_def by (intro andThen_fits size_fits data_fits crlf_fits)

lemma loop_fits: "bounded bp req \<Longrightarrow> fits (chunk_loop clk i err (rest, bp, req))"
proof (induction clk i err "(rest, bp, req)" arbitrary: rest bp req rule: chunk_loop.induct)
  case (1 clk i err rest bp req)
  show ?case
  proof (cases "rest \<noteq> [] \<and> chunked_state bp \<and> \<not> timed_out (clk i) bp")
    case False
    then show ?thesis using 1(2) by (subst chunk_loop.simps) (auto simp: bounded_def)
  next
    case True
    then have step: "chunk_loop clk i err (rest, bp, req) =
        (case chunk_pass err (rest, bp, req) of
           Next s \<Rightarrow> chunk_loop clk (Suc i) err s | Stop r e s \<Rightarrow> Stop r e s | Throw x \<Rightarrow> Throw x)"
      by (subst chunk_loop.simps) simp
    show ?thesis
      using pass_fits [OF 1(2), of err rest] 1(1) True
      unfolding step
      by (cases "chunk_pass err (rest, bp, req)" rule: fits.cases) auto
  qed
qed



section \<open>The time-out of the reader\<close>

text \<open>
  Every call refreshes the time of the last byte before the loop compares it with the clock, so
  what the comparison measures is the call itself.
\<close>

lemma pass_error_codes:
  "chunk_pass err s = Stop r e s' \<Longrightarrow> e \<in> {err, 400, 413}"
  by (cases s) (auto simp: chunk_pass_def andThen_def size_stage_def data_stage_def crlf_stage_def
      Let_def split: outcome.splits option.splits if_splits)

lemma loop_no_timeout:
  assumes "\<And>i. clk i - bp_lastReceiveTime bp \<le> sint (bp_chunkedTimeoutSec bp)" "err \<noteq> 408"
    and "chunk_loop clk i err (rest, bp, req) = Stop r e s'"
  shows "e \<noteq> 408"
  using assms
proof (induction clk i err "(rest, bp, req)" arbitrary: rest bp req rule: chunk_loop.induct)
  case (1 clk i err rest bp req)
  have nt: "\<not> timed_out (clk i) bp" using 1(2) [of i] by (simp add: timed_out_def)
  show ?case
  proof (cases "rest \<noteq> [] \<and> chunked_state bp")
    case False
    then show ?thesis using 1(3,4) by (subst (asm) chunk_loop.simps) auto
  next
    case True
    with nt have step: "chunk_loop clk i err (rest, bp, req) =
        (case chunk_pass err (rest, bp, req) of
           Next s \<Rightarrow> chunk_loop clk (Suc i) err s | Stop r e s \<Rightarrow> Stop r e s | Throw x \<Rightarrow> Throw x)"
      by (subst chunk_loop.simps) simp
    show ?thesis
    proof (cases "chunk_pass err (rest, bp, req)")
      case (Next s)
      obtain rest' bp' req' where s: "s = (rest', bp', req')" by (cases s)
      with Next have n: "chunk_pass err (rest, bp, req) = Next (rest', bp', req')" by simp
      have k: "\<And>i. clk i - bp_lastReceiveTime bp' \<le> sint (bp_chunkedTimeoutSec bp')"
        using pass_keeps [OF n, of rest' bp' req'] 1(2) by simp
      have "chunk_loop clk (Suc i) err (rest', bp', req') = Stop r e s'" using 1(4) step n by simp
      from 1(1) [OF True nt n k 1(3) this] show ?thesis .
    next
      case (Stop r' e' s'')
      then show ?thesis using pass_error_codes [OF Stop] 1(3,4) step by auto
    next
      case (Throw x)
      then show ?thesis using 1(4) step by simp
    qed
  qed
qed

text \<open>The chunked time-out never fires because of a pause between two reads.  Whatever time
  the last byte arrived before, a call whose own clock readings stay within the time-out of its
  first reading does not answer 408.\<close>

theorem chunked_timeout_dead:
  assumes "bp_state bp \<in> {CHUNKED_SIZE, CHUNKED_DATA, CHUNKED_CRLF}" "buffer \<noteq> []" "err \<noteq> 408"
    and "\<And>i. clk i - clk 0 \<le> sint (bp_chunkedTimeoutSec bp)"
    and "parse_body clk err (buffer, bp, req) = Stop r e s'"
  shows "e \<noteq> 408"
proof -
  have "chunk_loop clk 1 err (buffer, touch (clk 0) buffer bp, req) = Stop r e s'"
    using assms(1,5) parse_body_ready [of bp clk err buffer req]
    by (auto simp: body_core_def chunked_state_def)
  from loop_no_timeout [OF _ assms(3) this] assms(2,4) show ?thesis by simp
qed

text \<open>The client sent its last byte at time 0 and the next one an hour later.\<close>

theorem chunked_timeout_dead_witness:
  "\<exists>r e s'. parse_body (\<lambda>_. 3600) 0 (''4'', (reset_body 0)\<lparr>bp_state := CHUNKED_SIZE\<rparr>, chunked_request) =
     Stop r e s' \<and> e \<noteq> 408"
proof -
  let ?bp = "(reset_body 0)\<lparr>bp_state := CHUNKED_SIZE\<rparr>"
  have "str_find ''4'' crlf 0 = None" by (simp add: str_find_def)
  then have p: "chunk_pass 0 (''4'', touch 3600 ''4'' ?bp, chunked_request) =
      Stop PARSE_INCOMPLETE 0 (''4'', touch 3600 ''4'' ?bp, chunked_request)"
    by (simp add: chunk_pass_def size_stage_def andThen_def)
  have "quiet 3600 (touch 3600 ''4'' ?bp)" by (simp add: quiet_def reset_body_def)
  from loop_step [OF this, of "''4''" 1 0 chunked_request] p
      parse_body_ready [of ?bp "\<lambda>_. 3600" 0 "''4''" chunked_request]
  have run: "parse_body (\<lambda>_. 3600) 0 (''4'', ?bp, chunked_request) =
      Stop PARSE_INCOMPLETE 0 (''4'', touch 3600 ''4'' ?bp, chunked_request)"
    by (simp add: body_core_def chunked_state_def)
  have "0 \<noteq> (408 :: int)"
    by (rule chunked_timeout_dead [OF _ _ _ _ run]) (simp_all add: reset_body_def)
  with run show ?thesis by auto
qed

text \<open>A body split in the middle of a chunk; the second part comes four seconds later.\<close>

theorem body_split_witness:
  "\<exists>r bp1 req1.
     parse_body (\<lambda>_. 5) 0 (''4'', (reset_body 0)\<lparr>bp_state := CHUNKED_SIZE\<rparr>, chunked_request) =
       Stop PARSE_INCOMPLETE 0 (r, bp1, req1) \<and>
     parse_body (\<lambda>_. 9) 0 (''4'' @ crlf, (reset_body 0)\<lparr>bp_state := CHUNKED_SIZE\<rparr>, chunked_request) =
       parse_body (\<lambda>_. 9) 0 (r @ crlf, bp1, req1)"
proof -
  let ?bp = "(reset_body 0)\<lparr>bp_state := CHUNKED_SIZE\<rparr>"
  have "str_find ''4'' crlf 0 = None" by (simp add: str_find_def)
  then have p: "chunk_pass 0 (''4'', touch 5 ''4'' ?bp, chunked_request) =
      Stop PARSE_INCOMPLETE 0 (''4'', touch 5 ''4'' ?bp, chunked_request)"
    by (simp add: chunk_pass_def size_stage_def andThen_def)
  have "quiet 5 (touch 5 ''4'' ?bp)" by (simp add: quiet_def reset_body_def)
  from loop_step [OF this, of "''4''" 1 0 chunked_request] p
      parse_body_ready [of ?bp "\<lambda>_. 5" 0 "''4''" chunked_request]
  have run: "parse_body (\<lambda>_. 5) 0 (''4'', ?bp, chunked_request) =
      Stop PARSE_INCOMPLETE 0 (''4'', touch 5 ''4'' ?bp, chunked_request)"
    by (simp add: body_core_def chunked_state_def)
  from body_split [OF run, of crlf 9] run show ?thesis by (auto simp: body_ok_def reset_body_def)
qed

end
