(* ===== verification/RequestParser.thy ===== *)
theory RequestParser
  imports LineHead BodyChunks
begin

text \<open>
  \<open>src/Http/Parser/RequestParser.cpp\<close>: the three phases of reading a request, each taking what
  it needs from the front of the receive buffer.  A phase returns its result with the parser, the
  request and the buffer it leaves; an exception of the decoder is let through.  The theorems
  follow a request through the phases and show the two inputs on which they go wrong.
\<close>

section \<open>The phases\<close>

datatype ParseState = STATE_REQUEST_LINE | STATE_HEADERS | STATE_BODY | STATE_COMPLETE

record RequestParser =
  rp_errorCode :: int
  rp_state :: ParseState
  rp_maxHeaderBytes :: size_t
  rp_lastHeaderBytes :: nat
  rp_bodyParser :: BodyParser

definition new_RequestParser :: "int \<Rightarrow> size_t \<Rightarrow> RequestParser" where
  "new_RequestParser now maxHeaderBytes =
     \<lparr>rp_errorCode = 0, rp_state = STATE_REQUEST_LINE, rp_maxHeaderBytes = maxHeaderBytes,
      rp_lastHeaderBytes = 0, rp_bodyParser = reset_body now\<rparr>"

definition reset_parser :: "int \<Rightarrow> RequestParser \<Rightarrow> RequestParser" where
  "reset_parser now rp =
     rp\<lparr>rp_state := STATE_REQUEST_LINE, rp_errorCode := 0, rp_lastHeaderBytes := 0,
        rp_bodyParser := reset_body now\<rparr>"

definition isComplete :: "RequestParser \<Rightarrow> bool" where
  "isComplete rp = (rp_state rp = STATE_COMPLETE)"

type_synonym phase = "ParseResult \<times> RequestParser \<times> HttpRequest \<times> string"

definition parseRequestLine :: "RequestParser \<Rightarrow> HttpRequest \<Rightarrow> string \<Rightarrow> phase res" where
  "parseRequestLine rp req buffer =
     (if rp_state rp \<noteq> STATE_REQUEST_LINE
      then Inr (PARSE_ERROR, rp\<lparr>rp_errorCode := 500\<rparr>, req, buffer)
      else if unat (rp_maxHeaderBytes rp) < length buffer
      then Inr (PARSE_ERROR, rp\<lparr>rp_errorCode := 431\<rparr>, req, buffer)
      else
        (case str_find buffer crlf 0 of
           None \<Rightarrow> Inr (PARSE_INCOMPLETE, rp, req, buffer)
         | Some crlfPos \<Rightarrow>
             if crlfPos = 0 then Inr (PARSE_ERROR, rp\<lparr>rp_errorCode := 400\<rparr>, req, buffer)
             else
               rbind (parse_line req (take crlfPos buffer)) (\<lambda>r.
                 case r of
                   (req1, Some e) \<Rightarrow> Inr (PARSE_ERROR, rp\<lparr>rp_errorCode := e\<rparr>, req1, buffer)
                 | (req1, None) \<Rightarrow>
                     Inr (PARSE_COMPLETE, rp\<lparr>rp_state := STATE_HEADERS\<rparr>, req1, drop (crlfPos + 2) buffer))))"

definition parseHeaders :: "RequestParser \<Rightarrow> HttpRequest \<Rightarrow> string \<Rightarrow> phase" where
  "parseHeaders rp req buffer =
     (if rp_state rp \<noteq> STATE_HEADERS
      then (PARSE_ERROR, rp\<lparr>rp_errorCode := 500\<rparr>, req, buffer)
      else
        (case str_find buffer (crlf @ crlf) 0 of
           None \<Rightarrow>
             if unat (rp_maxHeaderBytes rp) < length buffer
             then (PARSE_ERROR, rp\<lparr>rp_errorCode := 431\<rparr>, req, buffer)
             else (PARSE_INCOMPLETE, rp, req, buffer)
         | Some headerEndPos \<Rightarrow>
             (case parse_head req (take headerEndPos buffer) of
                (req1, Some e) \<Rightarrow> (PARSE_ERROR, rp\<lparr>rp_errorCode := e\<rparr>, req1, buffer)
              | (req1, None) \<Rightarrow>
                  (let next = (if rq_hasHeader req1 ''Transfer-Encoding'' \<or> rq_hasHeader req1 ''Content-Length''
                               then STATE_BODY else STATE_COMPLETE)
                   in (PARSE_COMPLETE,
                       rp\<lparr>rp_lastHeaderBytes := headerEndPos + 4, rp_state := next\<rparr>,
                       req1, drop (headerEndPos + 4) buffer)))))"

definition parseBody :: "(nat \<Rightarrow> int) \<Rightarrow> RequestParser \<Rightarrow> HttpRequest \<Rightarrow> string \<Rightarrow> phase res" where
  "parseBody clk rp req buffer =
     (if rp_state rp \<noteq> STATE_BODY
      then Inr (PARSE_ERROR, rp\<lparr>rp_errorCode := 500\<rparr>, req, buffer)
      else
        (case parse_body clk (rp_errorCode rp) (buffer, rp_bodyParser rp, req) of
           Throw x \<Rightarrow> Inl x
         | Next s \<Rightarrow> Inr (PARSE_INCOMPLETE, rp, req, buffer)
         | Stop r e (rest, bp, req1) \<Rightarrow>
             (let rp1 = rp\<lparr>rp_errorCode := e, rp_bodyParser := bp\<rparr> in
              if r = PARSE_ERROR then Inr (PARSE_ERROR, rp1, req1, buffer)
              else if r = PARSE_COMPLETE then Inr (r, rp1\<lparr>rp_state := STATE_COMPLETE\<rparr>, req1, rest)
              else Inr (r, rp1, req1, rest))))"

text \<open>The reader of the body always stops or throws, so the second case above is never taken.\<close>

lemma loop_not_Next: "chunk_loop clk i err (rest, bp, req) \<noteq> Next s"
proof (induction clk i err "(rest, bp, req)" arbitrary: rest bp req rule: chunk_loop.induct)
  case (1 clk i err rest bp req)
  show ?case
    using 1 by (subst chunk_loop.simps) (auto split: outcome.splits)
qed

lemma parse_body_not_Next: "parse_body clk err (buffer, bp, req) \<noteq> Next s"
proof (cases "bp_state bp = UNINITIALIZED")
  case True
  obtain bp2 e where "init_body req err bp = (bp2, e)" by force
  then show ?thesis
    using parse_body_init [OF True, of req err bp2 e clk buffer] loop_not_Next
    by (auto simp: body_core_def parseIdentity_def Let_def)
next
  case False
  then show ?thesis
    using parse_body_ready [OF False, of clk err buffer req] loop_not_Next
    by (auto simp: body_core_def parseIdentity_def Let_def)
qed

section \<open>A request through the phases\<close>

lemma find_sub_skip:
  "CR \<notin> set xs \<Longrightarrow> find_sub (CR # p) (xs @ ys) = map_option ((+) (length xs)) (find_sub (CR # p) ys)"
  by (induction xs) (auto simp: option.map_comp comp_def intro: option.map_cong)

text \<open>Where the empty line after a block of lines is found.\<close>

lemma find_end_of_head:
  "ls \<noteq> [] \<Longrightarrow> \<forall>l \<in> set ls. l \<noteq> [] \<and> CR \<notin> set l \<Longrightarrow>
    find_sub (crlf @ crlf) (concat (map (\<lambda>l. l @ crlf) ls) @ crlf @ rest) =
      Some (length (concat (map (\<lambda>l. l @ crlf) ls)) - 2)"
proof (induction ls)
  case (Cons l ls)
  let ?tail = "concat (map (\<lambda>l. l @ crlf) ls) @ crlf @ rest"
  have skip: "find_sub (crlf @ crlf) (concat (map (\<lambda>l. l @ crlf) (l # ls)) @ crlf @ rest) =
      map_option ((+) (length l)) (find_sub (crlf @ crlf) (crlf @ ?tail))"
    using find_sub_skip [of l "[LF, CR, LF]" "crlf @ ?tail"] Cons.prems(2) by simp
  show ?case
  proof (cases ls)
    case Nil
    then show ?thesis using skip by simp
  next
    case (Cons l2 ls2)
    then obtain x xs where l2: "l2 = x # xs" "x \<noteq> CR" using Cons.prems(2) by (cases l2) auto
    have "find_sub (crlf @ crlf) (crlf @ ?tail) = map_option (\<lambda>n. n + 2) (find_sub (crlf @ crlf) ?tail)"
      using Cons l2 by (auto simp: option.map_comp comp_def)
    moreover have "find_sub (crlf @ crlf) ?tail = Some (length (concat (map (\<lambda>l. l @ crlf) ls)) - 2)"
      using Cons.IH Cons.prems Cons by simp
    moreover have "2 \<le> length (concat (map (\<lambda>l. l @ crlf) ls))" using Cons by simp
    ultimately show ?thesis using skip by simp
  qed
qed simp

text \<open>The block without its last line end, which is where the search cuts it.\<close>

definition header_line :: "string \<times> string \<Rightarrow> string" where
  "header_line h = fst h @ '': '' @ snd h"

definition header_plain :: "string \<times> string \<Rightarrow> bool" where
  "header_plain h \<longleftrightarrow> header_ok h \<and> CR \<notin> set (fst h) \<and> CR \<notin> set (snd h)"

lemma head_loop_append:
  "head_loop (xs @ ys) r =
     (case head_loop xs r of (r', Some e) \<Rightarrow> (r', Some e) | (r', None) \<Rightarrow> head_loop ys r')"
  by (induction xs arbitrary: r) (auto split: prod.splits option.splits)

lemma add_all_append:
  "add_all (xs @ ys) r =
     (case add_all xs r of (r', Some e) \<Rightarrow> (r', Some e) | (r', None) \<Rightarrow> add_all ys r')"
  by (induction xs arbitrary: r) auto

lemma parse_head_block:
  assumes "list_all header_plain (hs @ [h])"
  shows "parse_head r (concat (map (\<lambda>h. header_line h @ crlf) hs) @ header_line h) = add_all (hs @ [h]) r"
proof -
  have ok: "list_all header_ok hs" "header_ok h" "CR \<notin> set (header_line h)" "LF \<notin> set (header_line h)"
    using assms by (auto simp: header_plain_def header_line_def header_ok_def clean_def list_all_iff)
  have pre: "getlines LF (concat (map (\<lambda>h. header_line h @ crlf) gs) @ header_line h) =
      map (\<lambda>h. header_line h @ [CR]) gs @ [header_line h]" if "list_all header_plain gs" for gs
    using that
  proof (induction gs)
    case Nil
    have "header_line h \<noteq> []" by (simp add: header_line_def)
    then show ?case using getlines_last [OF ok(4)] by simp
  next
    case (Cons g gs)
    then have "LF \<notin> set (header_line g @ [CR])"
      by (auto simp: header_plain_def header_line_def header_ok_def clean_def)
    from getlines_append [OF this] Cons show ?case by simp
  qed
  have strip: "strip_cr (header_line h) = header_line h"
  proof -
    have "header_line h \<noteq> []" by (simp add: header_line_def)
    then have "last (header_line h) \<noteq> CR" using ok(3) by (metis last_in_set)
    then show ?thesis by (simp add: strip_cr_def)
  qed
  have "head_loop (map (\<lambda>h. header_line h @ [CR]) hs) r = add_all hs r"
    using ok(1)
  proof (induction hs arbitrary: r)
    case (Cons g gs)
    then show ?case
      using parse_head_line_ok [of g r] strip_cr_snoc [of "header_line g"] by (simp add: header_line_def)
  qed simp
  then show ?thesis
    using pre [of hs] assms strip parse_head_line_ok [OF ok(2)]
    by (auto simp: parse_head_def head_loop_append add_all_append header_line_def
        split: prod.splits option.splits)
qed

lemma parseHeaders_block:
  assumes "rp_state rp = STATE_HEADERS" "hs \<noteq> []" "list_all header_plain hs"
    and "distinct (map (\<lambda>h. toLower (fst h)) hs)" "rq_headers req = []"
    and "req1 = req\<lparr>rq_headers := fold (\<lambda>h. om_set (toLower (fst h)) [snd h]) hs []\<rparr>"
  shows "parseHeaders rp req (concat (map (\<lambda>h. header_line h @ crlf) hs) @ crlf @ rest) =
    (PARSE_COMPLETE,
     rp\<lparr>rp_lastHeaderBytes := length (concat (map (\<lambda>h. header_line h @ crlf) hs)) + 2,
        rp_state := (if rq_hasHeader req1 ''Transfer-Encoding'' \<or> rq_hasHeader req1 ''Content-Length''
                     then STATE_BODY else STATE_COMPLETE)\<rparr>,
     req1, rest)"
proof -
  obtain gs h where hs: "hs = gs @ [h]" using assms(2) by (metis rev_exhaust)
  let ?block = "concat (map (\<lambda>h. header_line h @ crlf) gs) @ header_line h"
  let ?in = "concat (map (\<lambda>h. header_line h @ crlf) hs) @ crlf @ rest"
  have in_block: "?in = ?block @ crlf @ crlf @ rest" by (simp add: hs)
  have "find_sub (crlf @ crlf) (concat (map (\<lambda>l. l @ crlf) (map header_line hs)) @ crlf @ rest) =
      Some (length (concat (map (\<lambda>l. l @ crlf) (map header_line hs))) - 2)"
    using assms(2,3)
    by (intro find_end_of_head) (auto simp: list_all_iff header_plain_def header_line_def)
  then have found: "str_find ?in (crlf @ crlf) 0 = Some (length ?block)"
    by (simp add: str_find_def comp_def hs)
  have none: "list_all (\<lambda>h. \<not> rq_hasHeader req (fst h)) hs"
    using assms(5) by (simp add: list_all_iff rq_hasHeader_def has_key_def)
  have "parse_head req ?block = add_all hs req"
    using parse_head_block [of gs h req] assms(3) by (simp add: hs)
  also have "\<dots> = (req1, None)"
    using add_all_distinct [OF assms(4) none] assms(5,6) by simp
  finally have "parse_head req ?block = (req1, None)" .
  moreover have "length (concat (map (\<lambda>h. header_line h @ crlf) hs)) + 2 = length ?block + 4"
    by (simp add: hs)
  ultimately show ?thesis
    using assms(1) found unfolding in_block
    by (auto simp: parseHeaders_def Let_def numeral_eq_Suc)
qed

text \<open>C31: a block of well-formed headers with pairwise different names is taken from the buffer
  up to and including the empty line; each value is stored under its lower-case name, and the
  parser goes on to the body exactly when a length or a transfer coding was among the names.\<close>

theorem parseHeaders_complete:
  assumes "rp_state rp = STATE_HEADERS" "hs \<noteq> []" "list_all header_plain hs"
    and "distinct (map (\<lambda>h. toLower (fst h)) hs)" "rq_headers req = []"
    and "req1 = req\<lparr>rq_headers := fold (\<lambda>h. om_set (toLower (fst h)) [snd h]) hs []\<rparr>"
  shows "\<exists>n. parseHeaders rp req (concat (map (\<lambda>h. header_line h @ crlf) hs) @ crlf @ rest) =
    (PARSE_COMPLETE,
     rp\<lparr>rp_lastHeaderBytes := n,
        rp_state := (if rq_hasHeader req1 ''Transfer-Encoding'' \<or> rq_hasHeader req1 ''Content-Length''
                     then STATE_BODY else STATE_COMPLETE)\<rparr>,
     req1, rest)"
  using parseHeaders_block [OF assms] by blast

theorem parseHeaders_complete_witness:
  "\<exists>n. parseHeaders ((new_RequestParser 0 8192)\<lparr>rp_state := STATE_HEADERS\<rparr>) (new_HttpRequest two_locations)
      (''Host: a'' @ crlf @ ''Accept: b'' @ crlf @ crlf @ ''GET'') =
    (PARSE_COMPLETE,
     (new_RequestParser 0 8192)\<lparr>rp_lastHeaderBytes := n, rp_state := STATE_COMPLETE\<rparr>,
     (new_HttpRequest two_locations)\<lparr>rq_headers := [(''accept'', [''b'']), (''host'', [''a''])]\<rparr>,
     ''GET'')"
proof -
  let ?hs = "[(''Host'', ''a''), (''Accept'', ''b'')]"
  let ?rp = "(new_RequestParser 0 8192)\<lparr>rp_state := STATE_HEADERS\<rparr>"
  let ?req = "new_HttpRequest two_locations"
  have lo: "toLower ''Host'' = ''host''" "toLower ''Accept'' = ''accept''"
      "toLower ''Transfer-Encoding'' = ''transfer-encoding''" "toLower ''Content-Length'' = ''content-length''"
    by code_simp+
  have plain: "list_all header_plain ?hs"
    by (simp add: header_plain_def header_ok_def clean_def trim_def blanks_def)
  have fold: "fold (\<lambda>h. om_set (toLower (fst h)) [snd h]) ?hs [] =
      [(''accept'', [''b'']), (''host'', [''a''])]"
    by (simp add: lo)
  have "rp_state ?rp = STATE_HEADERS" "distinct (map (\<lambda>h. toLower (fst h)) ?hs)" "rq_headers ?req = []"
    by (simp_all add: lo new_HttpRequest_def)
  from parseHeaders_complete [OF this(1) _ plain this(2,3) refl, of "''GET''"]
  show ?thesis
    by (simp add: fold header_line_def rq_hasHeader_def has_key_def lo)
qed

text \<open>A request line within the size limit moves the parser to the headers and takes exactly
  the line and its terminator from the buffer; the request is the one that the line parser
  builds.\<close>

theorem parseRequestLine_complete:
  assumes "rp_state rp = STATE_REQUEST_LINE" "CR \<notin> set line" "line \<noteq> []"
    and "length (line @ crlf @ rest) \<le> unat (rp_maxHeaderBytes rp)"
    and "parse_line req line = Inr (req1, None)"
  shows "parseRequestLine rp req (line @ crlf @ rest) =
    Inr (PARSE_COMPLETE, rp\<lparr>rp_state := STATE_HEADERS\<rparr>, req1, rest)"
  using assms str_find_crlf [OF assms(2), of rest] by (simp add: parseRequestLine_def)

theorem parseRequestLine_complete_witness:
  "parseRequestLine (new_RequestParser 0 8192) (new_HttpRequest two_locations)
     (''GET / HTTP/1.1'' @ crlf @ ''Host: a'') =
   Inr (PARSE_COMPLETE, (new_RequestParser 0 8192)\<lparr>rp_state := STATE_HEADERS\<rparr>,
     (new_HttpRequest two_locations)\<lparr>rq_method := ''GET'', rq_version := ''HTTP/1.1'', rq_path := ''/''\<rparr>,
     ''Host: a'')"
proof -
  have "parse_line (new_HttpRequest two_locations) ''GET / HTTP/1.1'' =
      Inr ((new_HttpRequest two_locations)
        \<lparr>rq_method := ''GET'', rq_version := ''HTTP/1.1'', rq_path := ''/''\<rparr>, None)"
    using parse_line_split [of "''GET''" "''/''" "new_HttpRequest two_locations" "''HTTP/1.1''"]
    by (simp add: find_char_absent)
  then show ?thesis
    by (intro parseRequestLine_complete) (simp_all add: new_RequestParser_def)
qed

text \<open>The size limit of the request line is compared with everything received so far.\<close>

text \<open>A client that sends a short head and its body in one packet is answered 431 as soon as
  the packet is longer than the header limit, whatever the length of the head.\<close>

theorem early_body_431:
  assumes "rp_state rp = STATE_REQUEST_LINE"
    and "unat (rp_maxHeaderBytes rp) < length body"
  shows "parseRequestLine rp req (head @ body) =
    Inr (PARSE_ERROR, rp\<lparr>rp_errorCode := 431\<rparr>, req, head @ body)"
  using assms by (simp add: parseRequestLine_def)

theorem early_body_431_witness:
  "parseRequestLine (new_RequestParser 0 8192) chunked_request
     ((''POST / HTTP/1.1'' @ crlf @ ''Content-Length: 9000'' @ crlf @ crlf) @ replicate 9000 (CHR ''x'')) =
   Inr (PARSE_ERROR, (new_RequestParser 0 8192)\<lparr>rp_errorCode := 431\<rparr>, chunked_request,
     (''POST / HTTP/1.1'' @ crlf @ ''Content-Length: 9000'' @ crlf @ crlf) @ replicate 9000 (CHR ''x''))"
  by (rule early_body_431) (simp_all add: new_RequestParser_def)

text \<open>A request without header lines is never complete.  After the request line the buffer
  holds only the empty line, in which the headers' end marker does not occur, and the parser
  waits for more bytes.\<close>

theorem no_header_incomplete:
  assumes "rp_state rp = STATE_REQUEST_LINE" "CR \<notin> set line" "line \<noteq> []"
    and "length (line @ crlf @ crlf) \<le> unat (rp_maxHeaderBytes rp)"
    and "parse_line req line = Inr (req1, None)"
  shows "rbind (parseRequestLine rp req (line @ crlf @ crlf))
      (\<lambda>(_, rp1, req1, rest). Inr (parseHeaders rp1 req1 rest)) =
    Inr (PARSE_INCOMPLETE, rp\<lparr>rp_state := STATE_HEADERS\<rparr>, req1, crlf)"
proof -
  have "str_find crlf (crlf @ crlf) 0 = None" by (simp add: str_find_def)
  moreover have "\<not> unat (rp_maxHeaderBytes rp) < length crlf" using assms(4) by simp
  moreover have "parseRequestLine rp req (line @ crlf @ crlf) =
      Inr (PARSE_COMPLETE, rp\<lparr>rp_state := STATE_HEADERS\<rparr>, req1, crlf)"
    using assms str_find_crlf [OF assms(2), of crlf] by (simp add: parseRequestLine_def)
  ultimately show ?thesis by (simp add: parseHeaders_def)
qed

theorem no_header_incomplete_witness:
  "\<exists>rp1 req1. rbind (parseRequestLine (new_RequestParser 0 8192) (new_HttpRequest two_locations)
        (''GET / HTTP/1.0'' @ crlf @ crlf))
      (\<lambda>(_, rp1, req1, rest). Inr (parseHeaders rp1 req1 rest)) =
    Inr (PARSE_INCOMPLETE, rp1, req1, crlf)"
proof -
  have "parse_line (new_HttpRequest two_locations) ''GET / HTTP/1.0'' =
      Inr ((new_HttpRequest two_locations)
        \<lparr>rq_method := ''GET'', rq_version := ''HTTP/1.0'', rq_path := ''/''\<rparr>, None)"
    using parse_line_split [of "''GET''" "''/''" "new_HttpRequest two_locations" "''HTTP/1.0''"]
    by (simp add: find_char_absent)
  from no_header_incomplete [OF _ _ _ _ this, of "new_RequestParser 0 8192"]
  show ?thesis by (auto simp: new_RequestParser_def)
qed

end
