(* ===== verification/Resolver.thy ===== *)
theory Resolver
  imports HttpCore PathLib
begin

text \<open>
  \<open>src/Http/Resolver/RequestResolver.cpp\<close> and the operating-system interface that it and the
  handlers call.  The operating system is not part of the sources: its calls are the fields of
  a record that every definition using them takes as an argument.  The theorems say that what
  the resolver returns starts with the real path of the chosen root, that this is not the same as
  being inside it, and how a CGI path is taken apart.
\<close>

section \<open>The operating system\<close>

datatype file_type = Regular | Directory | Other_file

datatype open_error = EACCES | EPERM | ENOENT | ENOTDIR | Other_errno

text \<open>
  \<open>os_open path n\<close> opens a file and reads \<open>n\<close> bytes: the error of the open, or the bytes, or
  \<open>None\<close> when fewer than \<open>n\<close> can be read.
\<close>

record OS =
  os_realpath :: "string \<Rightarrow> string option"
  os_stat :: "string \<Rightarrow> (file_type \<times> nat) option"
  os_access_wx :: "string \<Rightarrow> bool"
  os_exists :: "string \<Rightarrow> bool"
  os_executable :: "string \<Rightarrow> bool"
  os_remove :: "string \<Rightarrow> bool"
  os_readdir :: "string \<Rightarrow> string list option"
  os_open :: "string \<Rightarrow> nat \<Rightarrow> open_error + string option"
  os_create :: "string \<Rightarrow> bool"
  os_gmt_date :: string
  os_gmt_time :: string

definition getAbsolutePath :: "OS \<Rightarrow> string \<Rightarrow> string" where
  "getAbsolutePath os path = (case os_realpath os path of None \<Rightarrow> [] | Some p \<Rightarrow> p)"

section \<open>Resolving a path\<close>

text \<open>The loop over the locations keeps the best key and its root.\<close>

definition best_step :: "string \<Rightarrow> string \<times> Location \<Rightarrow> string \<times> string \<Rightarrow> string \<times> string" where
  "best_step requestPath it b =
     (if prefix (fst it) requestPath \<and> length (fst b) < length (fst it)
      then (fst it, loc_root (snd it)) else b)"

definition best_root :: "(string, Location) omap \<Rightarrow> string \<Rightarrow> string \<times> string" where
  "best_root locations requestPath = fold (best_step requestPath) locations ([], [])"

definition with_slash :: "string \<Rightarrow> string" where
  "with_slash p = (if p \<noteq> [] \<and> last p \<noteq> CHR ''/'' then p @ ''/'' else p)"

definition drop_slash :: "string \<Rightarrow> string" where
  "drop_slash p = (if p \<noteq> [] \<and> hd p = CHR ''/'' then tl p else p)"

definition resolvePath :: "OS \<Rightarrow> string \<Rightarrow> Config \<Rightarrow> bool \<Rightarrow> string" where
  "resolvePath os requestPath config skipExistenceCheck =
     (let (bestMatchPath, root) = best_root (cfg_locations config) requestPath in
      if bestMatchPath = [] then []
      else
        (let remainingPath = drop_slash (drop (length bestMatchPath) requestPath);
             resolvedPath = with_slash root @ remainingPath
         in if skipExistenceCheck then
              (let resolved1 = normalize resolvedPath;
                   rootAbsolute = getAbsolutePath os root;
                   fileAbsolute = getAbsolutePath os resolved1
               in if rootAbsolute = [] then resolved1
                  else
                    (let fileAbsolute1 =
                           (if fileAbsolute = [] then normalize (with_slash rootAbsolute @ remainingPath)
                            else fileAbsolute);
                         resolved2 = (if fileAbsolute = [] then fileAbsolute1 else resolved1)
                     in if \<not> prefix rootAbsolute fileAbsolute1 then [] else resolved2))
            else
              (let resolved1 = getAbsolutePath os resolvedPath; realRoot = getAbsolutePath os root in
               if resolved1 = [] then []
               else if realRoot = [] then []
               else if \<not> prefix realRoot resolved1 then []
               else resolved1)))"

section \<open>CGI scripts\<close>

definition cgi_extension :: "Location \<Rightarrow> string \<Rightarrow> bool" where
  "cgi_extension loc segment =
     (case rfind_char segment (CHR ''.'') of
        None \<Rightarrow> False
      | Some dotPos \<Rightarrow> has_key (loc_cgiConf loc) (drop dotPos segment))"

text \<open>The virtual path of the script and the path information, \<open>None\<close> when it is not one.\<close>

definition extractCgiScript :: "string \<Rightarrow> Location \<Rightarrow> (string \<times> string) option" where
  "extractCgiScript requestPath loc =
     (let base = loc_path loc in
      if \<not> prefix base requestPath then None
      else
        (let rest = drop_slash (drop (length base) requestPath) in
         if rest = [] then None
         else
           (let splitRequest = split1 (CHR ''/'') rest in
            case idx_of (cgi_extension loc) splitRequest of
              None \<Rightarrow> None
            | Some scriptIndex \<Rightarrow>
                Some (with_slash base @ join ''/'' (take (scriptIndex + 1) splitRequest),
                      concat (map (\<lambda>s. CHR ''/'' # s) (drop (scriptIndex + 1) splitRequest))))))"

section \<open>What the resolver returns\<close>

lemma fold_best:
  "fold (best_step path) ls (b, r) =
     (let k = fold (\<lambda>it. match_step path (fst it)) ls b in
      (k, snd (fold (best_step path) ls (b, r))))"
proof (induction ls arbitrary: b r)
  case Nil
  then show ?case by simp
next
  case (Cons it ls)
  show ?case
    using Cons [of "match_step path (fst it) b"
        "if prefix (fst it) path \<and> length b < length (fst it) then loc_root (snd it) else r"]
    by (auto simp: best_step_def match_step_def Let_def)
qed

text \<open>The resolver and the location lookup settle on the same key.\<close>

lemma best_root_key: "fst (best_root locs path) = bestMatchKey locs path"
  using fold_best [of path locs "[]" "[]"]
  by (simp add: best_root_def bestMatchKey_def Let_def prod_eq_iff)


definition one_os :: OS where
  "one_os =
     \<lparr>os_realpath = (\<lambda>p. if p = ''./www'' then Some ''/srv/www''
                         else if p = ''./www/a.txt'' then Some ''/srv/www/a.txt''
                         else if p = ''./www/../www-private/key'' then Some ''/srv/www-private/key''
                         else None),
      os_stat = (\<lambda>p. None), os_access_wx = (\<lambda>p. True), os_exists = (\<lambda>p. True),
      os_executable = (\<lambda>p. True), os_remove = (\<lambda>p. True), os_readdir = (\<lambda>p. None),
      os_open = (\<lambda>p n. Inl ENOENT), os_create = (\<lambda>p. True),
      os_gmt_date = [], os_gmt_time = []\<rparr>"

definition www_config :: Config where
  "www_config =
     two_locations\<lparr>cfg_locations := [(''/'', new_Location\<lparr>loc_path := ''/'', loc_root := ''./www''\<rparr>)]\<rparr>"

lemma www_best: "best_root (cfg_locations www_config) (CHR ''/'' # p) = (''/'', ''./www'')"
  by (simp add: best_root_def best_step_def www_config_def)

lemma www_resolve:
  "resolvePath os (CHR ''/'' # p) www_config False =
     (let r = getAbsolutePath os (''./www/'' @ drop_slash p); real = getAbsolutePath os ''./www'' in
      if r = [] \<or> real = [] \<or> \<not> prefix real r then [] else r)"
  by (simp add: resolvePath_def www_best with_slash_def Let_def)


text \<open>The containment test of the resolver compares texts, not directories.  With the root
  resolved to \<open>/srv/www\<close>, a request that climbs out of it into a sibling directory whose name
  starts with \<open>www\<close> is resolved to the file there.\<close>

theorem resolvePath_sibling_escape:
  assumes "os_realpath os ''./www'' = Some ''/srv/www''"
    and "os_realpath os ''./www/../www-private/key'' = Some ''/srv/www-private/key''"
  shows "resolvePath os ''/../www-private/key'' www_config False = ''/srv/www-private/key''"
  using assms by (simp add: www_resolve getAbsolutePath_def drop_slash_def)

theorem resolvePath_sibling_escape_witness:
  "resolvePath one_os ''/../www-private/key'' www_config False = ''/srv/www-private/key''"
  by (rule resolvePath_sibling_escape) (simp_all add: one_os_def)

section \<open>Taking a CGI path apart\<close>

lemma join_take_drop:
  assumes "n < length ts"
  shows "join d (take (Suc n) ts) @ concat (map (\<lambda>s. d @ s) (drop (Suc n) ts)) = join d ts"
  using assms
proof (induction ts arbitrary: n)
  case (Cons t ts)
  have all: "join d (u # us) = u @ concat (map (\<lambda>s. d @ s) us)" for u us
    by (induction us arbitrary: u) auto
  show ?case
  proof (cases n)
    case 0
    then show ?thesis by (simp add: all)
  next
    case (Suc k)
    with Cons obtain u us where ts: "ts = u # us" by (cases ts) auto
    with Cons Suc show ?thesis by simp
  qed
qed simp

lemma join_last: "\<exists>pre. join d (us @ [u]) = pre @ u"
proof (induction us rule: induct_list012)
  case 1
  show ?case by (auto intro: exI [of _ "[]"])
next
  case (2 x)
  show ?case by (auto intro: exI [of _ "x @ d"])
next
  case (3 x y zs)
  then obtain pre where "join d ((y # zs) @ [u]) = pre @ u" by blast
  then have "join d ((x # y # zs) @ [u]) = (x @ d @ pre) @ u" by simp
  then show ?case by blast
qed

text \<open>Taking a CGI request apart loses nothing: the virtual script path followed by the path
  information is the location's path, closed by a slash, followed by the rest of the request;
  the path information is empty or starts with a slash; and the last segment of the script path
  has an extension that the location maps to an interpreter.\<close>

theorem extractCgiScript_concat:
  assumes "extractCgiScript path loc = Some (script, info)"
  shows "script @ info = with_slash (loc_path loc) @ drop_slash (drop (length (loc_path loc)) path)"
    and "info = [] \<or> hd info = CHR ''/''"
    and "\<exists>pre segment. script = pre @ segment \<and> cgi_extension loc segment"
proof -
  let ?rest = "drop_slash (drop (length (loc_path loc)) path)"
  let ?segs = "split1 (CHR ''/'') ?rest"
  from assms obtain i where i: "idx_of (cgi_extension loc) ?segs = Some i"
    and script: "script = with_slash (loc_path loc) @ join ''/'' (take (Suc i) ?segs)"
    and info: "info = concat (map (\<lambda>s. CHR ''/'' # s) (drop (Suc i) ?segs))"
    by (auto simp: extractCgiScript_def Let_def split: if_splits option.splits)
  note found = idx_of_Some [OF i]
  show "script @ info = with_slash (loc_path loc) @ ?rest"
    using join_take_drop [of i ?segs "''/''"] found join_split1 [of "CHR ''/''" ?rest]
    by (simp add: script info)
  show "info = [] \<or> hd info = CHR ''/''"
    by (cases "drop (Suc i) ?segs") (simp_all add: info)
  have "take (Suc i) ?segs = take i ?segs @ [?segs ! i]"
    using found by (simp add: take_Suc_conv_app_nth)
  then have "\<exists>pre. join ''/'' (take (Suc i) ?segs) = pre @ ?segs ! i"
    by (simp only: join_last)
  then show "\<exists>pre segment. script = pre @ segment \<and> cgi_extension loc segment"
    using found script by (metis append.assoc)
qed

definition cgi_location :: Location where
  "cgi_location =
     new_Location\<lparr>loc_path := ''/cgi'', loc_cgiConf := [(''.py'', ''/usr/bin/python3'')]\<rparr>"

theorem extractCgiScript_concat_witness:
  "''/cgi/run.py'' @ ''/a/b'' = with_slash (loc_path cgi_location) @
     drop_slash (drop (length (loc_path cgi_location)) ''/cgi/run.py/a/b'')"
proof -
  have "extractCgiScript ''/cgi/run.py/a/b'' cgi_location = Some (''/cgi/run.py'', ''/a/b'')"
    by code_simp
  then show ?thesis by (rule extractCgiScript_concat(1))
qed

end
