(* ===== verification/Tokens.thy ===== *)
theory Tokens
  imports Prelude
begin

text \<open>
  \<open>src/Lib/Token\<close>: the random bytes, the uniform draw and the tokens of sessions and of
  uploaded files.  The kernel's answers to \<open>read\<close> on \<open>/dev/urandom\<close> are a list of
  results that the state carries; \<open>None\<close> says that the list ended before the function
  returned.  The theorems bound a draw, say when it returns, and describe a generated token; the
  last section shows that nothing throws while the source does not fail (\<open>steady\<close>).
\<close>

section \<open>Random bytes\<close>

text \<open>One answer of \<open>read\<close>: interrupted, failed, or bytes (none at the end of the file).\<close>

datatype read_result = Interrupted | Failed | Bytes "8 word list"

text \<open>
  \<open>rd_rest\<close> holds the bytes of \<open>_buffer\<close> from \<open>_bufPos\<close> on.
\<close>

record Random =
  rd_rest :: "8 word list"
  rd_kernel :: "read_result list"

type_synonym 'a draw = "Random \<Rightarrow> ('a res \<times> Random) option"

definition draw_return :: "'a \<Rightarrow> 'a draw" where
  "draw_return a rd = Some (Inr a, rd)"

definition draw_throw :: "exn \<Rightarrow> 'a draw" where
  "draw_throw e rd = Some (Inl e, rd)"

definition draw_bind :: "'a draw \<Rightarrow> ('a \<Rightarrow> 'b draw) \<Rightarrow> 'b draw" where
  "draw_bind m f rd =
     (case m rd of
        None \<Rightarrow> None
      | Some (Inl e, rd1) \<Rightarrow> Some (Inl e, rd1)
      | Some (Inr a, rd1) \<Rightarrow> f a rd1)"

definition RANDOM_BUFFER_SIZE :: nat where
  "RANDOM_BUFFER_SIZE = 4096"

definition BYTE_RANGE :: size_t where
  "BYTE_RANGE = 256"

fun readRandomBytes ::
  "nat \<Rightarrow> 8 word list \<Rightarrow> read_result list \<Rightarrow> (8 word list res \<times> read_result list) option" where
  "readRandomBytes wanted got [] = (if length got < wanted then None else Some (Inr got, []))"
| "readRandomBytes wanted got (r # rs) =
     (if length got < wanted
      then (case r of
              Interrupted \<Rightarrow> readRandomBytes wanted got rs
            | Failed \<Rightarrow> Some (Inl Runtime_error, rs)
            | Bytes bs \<Rightarrow>
                (let new = take (wanted - length got) bs in
                 if new = [] then Some (Inl Runtime_error, rs)
                 else readRandomBytes wanted (got @ new) rs))
      else Some (Inr got, r # rs))"

definition getRandomByte :: "8 word draw" where
  "getRandomByte rd =
     (case rd_rest rd of
        b # bs \<Rightarrow> Some (Inr b, rd\<lparr>rd_rest := bs\<rparr>)
      | [] \<Rightarrow>
          (case readRandomBytes RANDOM_BUFFER_SIZE [] (rd_kernel rd) of
             None \<Rightarrow> None
           | Some (Inl e, k) \<Rightarrow> Some (Inl e, rd\<lparr>rd_kernel := k\<rparr>)
           | Some (Inr bs, k) \<Rightarrow> Some (Inr (hd bs), \<lparr>rd_rest = tl bs, rd_kernel = k\<rparr>)))"

section \<open>The uniform draw\<close>

partial_function (option) reject :: "size_t \<Rightarrow> Random \<Rightarrow> (size_t res \<times> Random) option" where
  "reject limit rd =
     (case getRandomByte rd of
        None \<Rightarrow> None
      | Some (r, rd1) \<Rightarrow>
          (case r of
             Inl e \<Rightarrow> Some (Inl e, rd1)
           | Inr byte \<Rightarrow>
               (if limit \<le> ucast byte then reject limit rd1 else Some (Inr (ucast byte), rd1))))"

declare reject.simps [code]

definition uniformRand :: "size_t \<Rightarrow> size_t \<Rightarrow> size_t draw" where
  "uniformRand min0 max0 =
     (let (min1, max1) = (if max0 < min0 then (max0, min0) else (min0, max0));
          range = max1 - min1 + 1
      in if range = 1 \<or> min1 = max1 then draw_return min1
         else if and range (range - 1) = 0
         then draw_bind getRandomByte (\<lambda>byte. draw_return (and (ucast byte) (range - 1) + min1))
         else if BYTE_RANGE < range then draw_throw Runtime_error
         else
           (let limit = (BYTE_RANGE div range) * range in
            draw_bind (reject limit) (\<lambda>result. draw_return (result mod range + min1))))"

section \<open>Tokens\<close>

definition RETRY_LIMIT :: nat where
  "RETRY_LIMIT = 3"

text \<open>The length of a character set is that of a literal, so it fits in \<open>size_t\<close>.\<close>

definition draw_char :: "string \<Rightarrow> char draw" where
  "draw_char charset =
     draw_bind (uniformRand 0 (of_nat (length charset) - 1)) (\<lambda>i. draw_return (charset ! unat i))"

text \<open>\<open>nonDotIndices\<close> and the character at a drawn one of them.\<close>

definition getNonDotChar :: "string \<Rightarrow> char draw" where
  "getNonDotChar charset =
     (let nonDotIndices = filter (\<lambda>j. charset ! j \<noteq> CHR ''.'') [0..<length charset] in
      if nonDotIndices = [] then draw_throw Runtime_error
      else
        draw_bind (uniformRand 0 (of_nat (length nonDotIndices) - 1))
          (\<lambda>idx. draw_return (charset ! (nonDotIndices ! unat idx))))"

fun retry_char :: "nat \<Rightarrow> string \<Rightarrow> string \<Rightarrow> char draw" where
  "retry_char 0 charset token = getNonDotChar charset"
| "retry_char (Suc n) charset token =
     draw_bind (draw_char charset) (\<lambda>newChar.
       if newChar \<noteq> CHR ''.'' \<or> token = [] \<or> last token \<noteq> CHR ''.'' then draw_return newChar
       else retry_char n charset token)"

definition getNextChar :: "string \<Rightarrow> string \<Rightarrow> char draw" where
  "getNextChar = retry_char RETRY_LIMIT"

fun token_loop :: "nat \<Rightarrow> string \<Rightarrow> string \<Rightarrow> string draw" where
  "token_loop 0 charset token = draw_return token"
| "token_loop (Suc n) charset token =
     draw_bind (getNextChar charset token) (\<lambda>c. token_loop n charset (token @ [c]))"

definition genToken :: "nat \<Rightarrow> string \<Rightarrow> string draw" where
  "genToken len charset =
     (if charset = [] then draw_throw Runtime_error
      else if \<forall>c \<in> set charset. c = CHR ''.'' then draw_throw Runtime_error
      else token_loop len charset [])"

definition default_charset :: string where
  "default_charset = ''ABCDEFGHIJKLMNOPQRSTUVWXYZabcdefghijklmnopqrstuvwxyz0123456789=-_.''"

section \<open>Drawing\<close>

named_theorems draw_simps \<open>how draws compose\<close>

lemma draw_bind_Inr [draw_simps]:
  "draw_bind m f rd = Some (Inr b, rd2) \<longleftrightarrow>
     (\<exists>a rd1. m rd = Some (Inr a, rd1) \<and> f a rd1 = Some (Inr b, rd2))"
  by (auto simp: draw_bind_def split: option.splits sum.splits prod.splits)

lemma draw_return_Inr [draw_simps]: "draw_return a rd = Some (Inr b, rd2) \<longleftrightarrow> a = b \<and> rd = rd2"
  by (simp add: draw_return_def)

lemma draw_throw_Inr [draw_simps]: "draw_throw e rd \<noteq> Some (Inr b, rd2)"
  by (simp add: draw_throw_def)

lemma reject_range:
  assumes "reject limit rd = Some (Inr r, rd2)" shows "r < limit"
proof -
  have "\<forall>r rd2. v = (Inr r, rd2) \<longrightarrow> r < limit" if "reject limit rd = Some v" for v
    using that
    by (rule reject.raw_induct [where P = "\<lambda>limit rd v. \<forall>r rd2. v = (Inr r, rd2) \<longrightarrow> r < limit", rotated])
      (auto simp: not_le split: option.splits sum.splits prod.splits if_splits)
  then show ?thesis using assms by blast
qed

lemma reject_skip:
  "\<forall>b \<in> set bs. limit \<le> ucast b \<Longrightarrow> ucast c < limit \<Longrightarrow>
    reject limit \<lparr>rd_rest = bs @ c # cs, rd_kernel = k\<rparr> =
      Some (Inr (ucast c), \<lparr>rd_rest = cs, rd_kernel = k\<rparr>)"
proof (induction bs)
  case Nil
  then show ?case by (subst reject.simps) (simp add: getRandomByte_def not_le [symmetric])
next
  case (Cons b bs)
  then show ?case by (subst reject.simps) (simp add: getRandomByte_def)
qed

lemma add_within:
  fixes lo hi x :: size_t
  assumes "lo \<le> hi" "x \<le> hi - lo"
  shows "lo \<le> x + lo" "x + lo \<le> hi"
proof -
  have "unat (hi - lo) = unat hi - unat lo" using assms(1) by (simp add: unat_sub)
  with assms have le: "unat x + unat lo \<le> unat hi" "unat lo \<le> unat hi"
    by (simp_all add: word_le_nat_alt)
  then have "unat (x + lo) = unat x + unat lo"
    using unat_size_t_le [of hi] by (simp add: unat_word_ariths)
  with le show "lo \<le> x + lo" "x + lo \<le> hi" by (simp_all add: word_le_nat_alt)
qed

lemma mod_le_pred:
  fixes x n :: size_t
  assumes "n \<noteq> 0"
  shows "x mod n \<le> n - 1"
proof -
  have n: "0 < unat n" using assms by (simp add: unat_gt_0)
  then have "unat (n - 1) = unat n - 1" by (simp add: unat_sub Suc_leI unat_eq_zero word_le_nat_alt)
  moreover have "unat (x mod n) < unat n" using n by (simp add: unat_mod_distrib)
  ultimately show ?thesis by (simp add: word_le_nat_alt)
qed

lemma uniformRand_ordered:
  "lo \<le> hi \<Longrightarrow> uniformRand lo hi =
     (let range = hi - lo + 1 in
      if range = 1 \<or> lo = hi then draw_return lo
      else if and range (range - 1) = 0
      then draw_bind getRandomByte (\<lambda>byte. draw_return (and (ucast byte) (range - 1) + lo))
      else if BYTE_RANGE < range then draw_throw Runtime_error
      else draw_bind (reject (BYTE_RANGE div range * range))
             (\<lambda>result. draw_return (result mod range + lo)))"
  by (simp add: uniformRand_def Let_def leD)

lemma uniformRand_range:
  assumes "uniformRand lo hi rd = Some (Inr r, rd2)" "lo \<le> hi"
  shows "lo \<le> r \<and> r \<le> hi"
proof -
  define n where "n = hi - lo + 1"
  have pred: "n - 1 = hi - lo" by (simp add: n_def)
  have "(if n = 1 \<or> lo = hi then draw_return lo
      else if and n (n - 1) = 0
      then draw_bind getRandomByte (\<lambda>byte. draw_return (and (ucast byte) (n - 1) + lo))
      else if BYTE_RANGE < n then draw_throw Runtime_error
      else draw_bind (reject (BYTE_RANGE div n * n))
             (\<lambda>result. draw_return (result mod n + lo))) rd = Some (Inr r, rd2)"
    using assms uniformRand_ordered [OF assms(2)] by (simp only: Let_def n_def)
  then consider (one) "r = lo" | (pow) x :: size_t where "r = and x (n - 1) + lo"
    | (rej) x :: size_t where "n \<noteq> 0" "r = x mod n + lo"
    by (cases "n = 0") (auto simp only: draw_simps and_zero_eq zero_and_eq if_True if_False split: if_splits)
  then show ?thesis
  proof cases
    case one
    then show ?thesis using assms(2) by simp
  next
    case pow
    have "and x (n - 1) \<le> hi - lo" unfolding pred by (rule word_and_le1)
    from add_within [OF assms(2) this] pow show ?thesis by simp
  next
    case rej
    have "x mod n \<le> hi - lo" using mod_le_pred [OF rej(1), of x] pred by simp
    from add_within [OF assms(2) this] rej show ?thesis by simp
  qed
qed

lemma and_pred_power: "0 < n \<Longrightarrow> and n (n - 1) = 0 \<Longrightarrow> \<exists>j. n = 2 ^ j" for n :: nat
proof (induction n rule: less_induct)
  case (less n)
  show ?case
  proof (cases "even n")
    case True
    then obtain m where n: "n = 2 * m" by blast
    with less.prems(1) have m: "0 < m" by simp
    have "n - 1 = 2 * (m - 1) + 1" using n m by simp
    then have "(n - 1) div 2 = m - 1" by simp
    with less.prems(2) n have "and m (m - 1) = 0" by (subst (asm) and_rec) simp
    with less.IH [of m] n m obtain j where "m = 2 ^ j" by auto
    with n show ?thesis by (intro exI [of _ "Suc j"]) simp
  next
    case False
    then obtain m where n: "n = 2 * m + 1" using oddE by blast
    with less.prems(2) have "m = 0" by (subst (asm) and_rec) simp
    with n show ?thesis by (intro exI [of _ 0]) simp
  qed
qed

lemma uniform_first_byte:
  assumes n: "1 < n" "n \<le> 256" and k: "k < n"
  shows "uniformRand 0 (of_nat n - 1) \<lparr>rd_rest = [b], rd_kernel = []\<rparr> =
      Some (Inr (of_nat k), \<lparr>rd_rest = [], rd_kernel = []\<rparr>) \<longleftrightarrow>
    unat b < 256 div n * n \<and> unat b mod n = k"
proof -
  let ?n = "of_nat n :: size_t"
  have un: "unat ?n = n" using n by (simp add: unat_of_nat)
  have uk: "unat (of_nat k :: size_t) = k" using n k by (simp add: unat_of_nat)
  have pred: "unat (?n - 1) = n - 1" using n un by (simp add: unat_sub word_le_nat_alt)
  have n1: "?n \<noteq> 1" using n un by (metis nat_neq_iff unsigned_1)
  have n2: "0 \<noteq> ?n - 1" using n1 by simp
  have big: "\<not> BYTE_RANGE < ?n" using n un by (simp add: word_less_nat_alt BYTE_RANGE_def)
  have b256: "unat b < 256" using unsigned_less [of b] by simp
  then have ub: "unat (ucast b :: size_t) = unat b"
    by (simp add: unsigned_ucast_eq take_bit_nat_eq_self)
  have lim: "unat (BYTE_RANGE div ?n * ?n) = 256 div n * n"
  proof -
    have "256 div n * n \<le> 256" "256 div n \<le> 256" by simp_all
    then have "256 div n * n mod 18446744073709551616 = 256 div n * n"
      "256 div n mod 18446744073709551616 = 256 div n" by (intro mod_less; linarith)+
    then show ?thesis
      by (simp add: unat_word_ariths unat_div_distrib BYTE_RANGE_def un)
  qed
  show ?thesis
  proof (cases "and ?n (?n - 1) = 0")
    case True
    then have "and n (n - 1) = 0" using un pred by (metis unsigned_0 unsigned_and_eq)
    with and_pred_power [of n] n(1) obtain j where j: "n = 2 ^ j" by force
    with n(2) have "(2 :: nat) ^ j \<le> 2 ^ 8" by simp
    then have j8: "j \<le> 8" by (rule power_le_imp_le_exp [rotated]) simp
    then have "(256 :: nat) = 2 ^ (8 - j) * n" using j by (simp flip: power_add)
    then have "n dvd 256" by (metis dvd_triv_right)
    then have full: "256 div n * n = 256" by simp
    have "and (n' :: nat) (n - 1) = n' mod n" for n'
      by (simp only: j take_bit_eq_mod [symmetric] take_bit_eq_mask mask_eq_exp_minus_1)
    then have "unat (and (ucast b) (?n - 1)) = unat b mod n"
      by (simp add: unsigned_and_eq pred ub)
    moreover have "uniformRand 0 (?n - 1) \<lparr>rd_rest = [b], rd_kernel = []\<rparr> =
        Some (Inr (and (ucast b) (?n - 1)), \<lparr>rd_rest = [], rd_kernel = []\<rparr>)"
      using True n1 n2
      by (simp add: uniformRand_ordered Let_def draw_bind_def draw_return_def getRandomByte_def)
    ultimately show ?thesis using full b256 uk by (auto simp: word_unat_eq_iff)
  next
    case False
    have draw: "uniformRand 0 (?n - 1) rd = draw_bind (reject (BYTE_RANGE div ?n * ?n))
        (\<lambda>result. draw_return (result mod ?n + 0)) rd" for rd
      using False n1 n2 big by (simp add: uniformRand_ordered Let_def)
    have res: "reject (BYTE_RANGE div ?n * ?n) \<lparr>rd_rest = [b], rd_kernel = []\<rparr> =
        (if unat b < 256 div n * n then Some (Inr (ucast b), \<lparr>rd_rest = [], rd_kernel = []\<rparr>) else None)"
      by (subst reject.simps, subst reject.simps)
        (simp add: getRandomByte_def RANDOM_BUFFER_SIZE_def word_le_nat_alt ub lim not_le)
    have "unat (ucast b mod ?n) = unat b mod n" by (simp add: unat_mod_distrib ub un)
    then show ?thesis
      using res uk by (auto simp: draw draw_bind_def draw_return_def word_unat_eq_iff)
  qed
qed

lemma residues:
  assumes "0 < n" "n \<le> 256" "k < n"
  shows "card {b :: 8 word. unat b < 256 div n * n \<and> unat b mod n = k} = 256 div n"
proof -
  let ?f = "\<lambda>q. of_nat (q * n + k) :: 8 word"
  have lt: "q * n + k < 256 div n * n" if "q < 256 div n" for q
  proof -
    have "q * n + k < Suc q * n" using assms(3) by simp
    also have "\<dots> \<le> 256 div n * n" using that by (intro mult_right_mono) simp_all
    finally show ?thesis .
  qed
  have le: "256 div n * n \<le> 256" by simp
  have u: "unat (?f q) = q * n + k" if "q < 256 div n" for q
  proof -
    have "q * n + k < 2 ^ 8" using less_le_trans [OF lt [OF that] le] by simp
    then show ?thesis by (simp only: unat_of_nat len_of_numeral_defs) simp
  qed
  have "{b :: 8 word. unat b < 256 div n * n \<and> unat b mod n = k} = ?f ` {..<256 div n}"
  proof (intro set_eqI iffI)
    fix b :: "8 word"
    assume "b \<in> {b. unat b < 256 div n * n \<and> unat b mod n = k}"
    then have b: "unat b < 256 div n * n" "unat b mod n = k" by auto
    then have "unat b div n < 256 div n" by (simp add: less_mult_imp_div_less)
    moreover have "b = ?f (unat b div n)"
      using div_mult_mod_eq [of "unat b" n] b(2) by (simp add: word_eq_iff_unsigned unat_of_nat)
    ultimately show "b \<in> ?f ` {..<256 div n}" by blast
  next
    fix b assume "b \<in> ?f ` {..<256 div n}"
    then obtain q where "q < 256 div n" "b = ?f q" by auto
    then show "b \<in> {b. unat b < 256 div n * n \<and> unat b mod n = k}"
      using lt u assms by simp
  qed
  moreover have "inj_on ?f {..<256 div n}"
  proof (rule inj_onI)
    fix x y assume "x \<in> {..<256 div n}" "y \<in> {..<256 div n}" "?f x = ?f y"
    then have "x * n + k = y * n + k" using u by (metis lessThan_iff)
    then show "x = y" using assms by simp
  qed
  ultimately show ?thesis by (simp add: card_image)
qed

text \<open>The draw is uniform over the byte it uses: whatever the size of the range (up to the
  256 values of a byte), every value of the range is the result for the same number of bytes.\<close>

theorem uniformRand_uniform:
  assumes "1 < n" "n \<le> 256" "k < n"
  shows "card {b. uniformRand 0 (of_nat n - 1) \<lparr>rd_rest = [b], rd_kernel = []\<rparr> =
      Some (Inr (of_nat k), \<lparr>rd_rest = [], rd_kernel = []\<rparr>)} = 256 div n"
  using residues [of n k] assms by (simp add: uniform_first_byte)

theorem uniformRand_uniform_witness:
  "card {b. uniformRand 0 (of_nat 65 - 1) \<lparr>rd_rest = [b], rd_kernel = []\<rparr> =
      Some (Inr (of_nat 64), \<lparr>rd_rest = [], rd_kernel = []\<rparr>)} = 256 div 65"
  by (rule uniformRand_uniform) simp_all

section \<open>Generated tokens\<close>

definition no_double_dot :: "string \<Rightarrow> bool" where
  "no_double_dot s \<longleftrightarrow> \<not> sublist ''..'' s"

lemma uniform_index:
  assumes "uniformRand 0 (of_nat n - 1) rd = Some (Inr i, rd2)" "0 < n" "n \<le> size_max"
  shows "unat i < n"
proof -
  have "i \<le> of_nat n - 1" using uniformRand_range [OF assms(1)] by simp
  then have "unat i \<le> unat (of_nat n - 1 :: size_t)" by (simp add: word_le_nat_alt)
  moreover have "unat (of_nat n :: size_t) = n" using assms(3) by (simp add: unat_of_nat)
  then have "unat (of_nat n - 1 :: size_t) = n - 1"
    using assms(2) by (simp add: unat_sub word_le_nat_alt)
  ultimately show ?thesis using assms(2) by simp
qed

lemma draw_char_member:
  "draw_char cs rd = Some (Inr c, rd2) \<Longrightarrow> cs \<noteq> [] \<Longrightarrow> length cs \<le> size_max \<Longrightarrow> c \<in> set cs"
  by (auto simp: draw_char_def draw_simps dest!: uniform_index)

lemma getNonDotChar_member:
  assumes "getNonDotChar cs rd = Some (Inr c, rd2)" "length cs \<le> size_max"
  shows "c \<in> set cs \<and> c \<noteq> CHR ''.''"
proof -
  let ?idx = "filter (\<lambda>j. cs ! j \<noteq> CHR ''.'') [0..<length cs]"
  from assms obtain i rd1 where i: "uniformRand 0 (of_nat (length ?idx) - 1) rd = Some (Inr i, rd1)"
    and c: "c = cs ! (?idx ! unat i)" and ne: "?idx \<noteq> []"
    by (auto simp: getNonDotChar_def draw_simps Let_def split: if_splits)
  have "length ?idx \<le> size_max" using length_filter_le [of _ "[0..<length cs]"] assms(2)
    by (metis diff_zero le_trans length_upt)
  with uniform_index [OF i] ne have "unat i < length ?idx" by blast
  then have "?idx ! unat i \<in> set ?idx" by (rule nth_mem)
  with c show ?thesis by auto
qed

lemma retry_char_ok:
  "retry_char n cs token rd = Some (Inr c, rd2) \<Longrightarrow> cs \<noteq> [] \<Longrightarrow> length cs \<le> size_max \<Longrightarrow>
    c \<in> set cs \<and> (c \<noteq> CHR ''.'' \<or> token = [] \<or> last token \<noteq> CHR ''.'')"
proof (induction n arbitrary: rd)
  case 0
  then show ?case using getNonDotChar_member by fastforce
next
  case (Suc n)
  then show ?case by (auto simp: draw_simps dest: draw_char_member split: if_splits)
qed

lemma no_double_dot_snoc:
  "no_double_dot s \<Longrightarrow> c \<noteq> CHR ''.'' \<or> s = [] \<or> last s \<noteq> CHR ''.'' \<Longrightarrow> no_double_dot (s @ [c])"
proof (induction s)
  case (Cons x s)
  then show ?case
    by (cases s) (auto simp: no_double_dot_def sublist_Cons_right)
qed (simp add: no_double_dot_def sublist_Cons_right)

lemma token_loop_ok:
  "token_loop n cs token rd = Some (Inr t, rd2) \<Longrightarrow> cs \<noteq> [] \<Longrightarrow> length cs \<le> size_max \<Longrightarrow>
    set token \<subseteq> set cs \<Longrightarrow> no_double_dot token \<Longrightarrow>
    length t = length token + n \<and> set t \<subseteq> set cs \<and> no_double_dot t"
proof (induction n arbitrary: token rd)
  case (Suc n)
  then obtain c rd1 where c: "retry_char RETRY_LIMIT cs token rd = Some (Inr c, rd1)"
    and rest: "token_loop n cs (token @ [c]) rd1 = Some (Inr t, rd2)"
    by (auto simp: draw_simps getNextChar_def)
  from retry_char_ok [OF c Suc.prems(2,3)] have
    ok: "c \<in> set cs" "c \<noteq> CHR ''.'' \<or> token = [] \<or> last token \<noteq> CHR ''.''" by auto
  from Suc.IH [OF rest Suc.prems(2,3)] ok Suc.prems(4) no_double_dot_snoc [OF Suc.prems(5) ok(2)]
  show ?case by simp
qed (simp add: draw_simps)

lemma genToken_ok:
  assumes "genToken len charset rd = Some (Inr token, rd2)" "length charset \<le> size_max"
  shows "length token = len \<and> set token \<subseteq> set charset \<and> no_double_dot token"
proof -
  from assms(1) have "token_loop len charset [] rd = Some (Inr token, rd2)" "charset \<noteq> []"
    by (auto simp: genToken_def draw_simps split: if_splits)
  from token_loop_ok [OF this assms(2)] show ?thesis by (simp add: no_double_dot_def)
qed

text \<open>A generated token has the length that was asked for, uses only characters of the set,
  and never has two dots in a row.\<close>

theorem genToken_sound:
  assumes "genToken len charset rd = Some (Inr token, rd2)" "length charset \<le> size_max"
  shows "length token = len" and "set token \<subseteq> set charset" and "no_double_dot token"
  using genToken_ok [OF assms] by simp_all

theorem genToken_sound_witness: "length ''ba.'' = (3 :: nat) \<and> no_double_dot ''ba.''"
proof -
  have "genToken 3 ''ab..'' \<lparr>rd_rest = [1, 0, 2, 3], rd_kernel = []\<rparr> =
      Some (Inr ''ba.'', \<lparr>rd_rest = [3], rd_kernel = []\<rparr>)"
    by code_simp
  from genToken_sound(1,3) [OF this] show ?thesis by simp
qed

section \<open>A source that does not fail\<close>

text \<open>The kernel never refuses to give bytes; it may interrupt a read as often as it likes.\<close>

definition gives :: "read_result \<Rightarrow> bool" where
  "gives r = (case r of Interrupted \<Rightarrow> True | Failed \<Rightarrow> False | Bytes bs \<Rightarrow> bs \<noteq> [])"

lemma gives_simps [simp]: "gives Interrupted" "\<not> gives Failed" "gives (Bytes bs) \<longleftrightarrow> bs \<noteq> []"
  by (simp_all add: gives_def)

definition steady :: "Random \<Rightarrow> bool" where
  "steady rd = list_all gives (rd_kernel rd)"

definition sure :: "'a draw \<Rightarrow> bool" where
  "sure m \<longleftrightarrow> (\<forall>rd r rd1. steady rd \<longrightarrow> m rd = Some (r, rd1) \<longrightarrow> steady rd1 \<and> (\<exists>a. r = Inr a))"

lemma sureD: "sure m \<Longrightarrow> steady rd \<Longrightarrow> m rd = Some (r, rd1) \<Longrightarrow> steady rd1 \<and> (\<exists>a. r = Inr a)"
  by (auto simp: sure_def)

lemma sure_return [intro]: "sure (draw_return a)"
  by (simp add: sure_def draw_return_def)

lemma sure_bind:
  assumes "sure m" "\<And>a. sure (f a)"
  shows "sure (draw_bind m f)"
  unfolding sure_def
proof (intro allI impI)
  fix rd r rd2 assume rd: "steady rd" and run: "draw_bind m f rd = Some (r, rd2)"
  obtain x rd1 where m: "m rd = Some (x, rd1)" using run by (auto simp: draw_bind_def split: option.splits)
  from sureD [OF assms(1) rd m] obtain a where a: "x = Inr a" "steady rd1" by blast
  then have "f a rd1 = Some (r, rd2)" using run m by (simp add: draw_bind_def)
  from sureD [OF assms(2) a(2) this] show "steady rd2 \<and> (\<exists>a. r = Inr a)" .
qed

lemma readRandomBytes_steady:
  assumes "readRandomBytes n got k = Some (r, k1)" "list_all gives k"
  shows "list_all gives k1 \<and> (\<exists>a. r = Inr a)"
  using assms
proof (induction n got k rule: readRandomBytes.induct)
  case (2 n got x rs)
  then show ?case by (cases x) (auto simp: Let_def split: if_splits)
qed (auto split: if_splits)

lemma sure_byte: "sure getRandomByte"
  unfolding sure_def
proof (intro allI impI)
  fix rd r rd1 assume s: "steady rd" and run: "getRandomByte rd = Some (r, rd1)"
  show "steady rd1 \<and> (\<exists>a. r = Inr a)"
  proof (cases "rd_rest rd")
    case (Cons b bs)
    then show ?thesis using s run by (auto simp: getRandomByte_def steady_def)
  next
    case Nil
    then obtain x k where x: "readRandomBytes RANDOM_BUFFER_SIZE [] (rd_kernel rd) = Some (x, k)"
      using run by (cases "readRandomBytes RANDOM_BUFFER_SIZE [] (rd_kernel rd)") (auto simp: getRandomByte_def)
    from readRandomBytes_steady [OF x] s have "list_all gives k" "\<exists>a. x = Inr a" by (simp_all add: steady_def)
    then show ?thesis using Nil run x by (auto simp: getRandomByte_def steady_def)
  qed
qed

lemma sure_reject: "sure (reject limit)"
proof -
  have step: "steady rd \<longrightarrow> steady (snd v) \<and> (\<exists>a. fst v = Inr a)" if "reject limit rd = Some v" for rd v
    using that
  proof (rule reject.raw_induct [where P = "\<lambda>limit rd v. steady rd \<longrightarrow> steady (snd v) \<and> (\<exists>a. fst v = Inr a)", rotated])
    fix f limit rd v
    assume ih: "\<And>limit rd y. f limit rd = Some y \<Longrightarrow> steady rd \<longrightarrow> steady (snd y) \<and> (\<exists>a. fst y = Inr a)"
      and run: "(case getRandomByte rd of None \<Rightarrow> None
        | Some (r, rd1) \<Rightarrow> (case r of Inl e \<Rightarrow> Some (Inl e, rd1)
            | Inr byte \<Rightarrow> if limit \<le> ucast byte then f limit rd1 else Some (Inr (ucast byte), rd1))) = Some v"
    obtain r rd1 where b: "getRandomByte rd = Some (r, rd1)" using run by (auto split: option.splits)
    show "steady rd \<longrightarrow> steady (snd v) \<and> (\<exists>a. fst v = Inr a)"
    proof
      assume "steady rd"
      from sureD [OF sure_byte this b] obtain x where x: "steady rd1" "r = Inr x" by blast
      show "steady (snd v) \<and> (\<exists>a. fst v = Inr a)"
      proof (cases "limit \<le> ucast x")
        case True
        then have "f limit rd1 = Some v" using run b x by simp
        with ih x show ?thesis by blast
      next
        case False
        then show ?thesis using run b x by auto
      qed
    qed
  qed
  then show ?thesis unfolding sure_def by (metis fst_conv snd_conv)
qed

text \<open>The ranges that are drawn from have at most 256 values.\<close>

lemma sure_uniformRand: "hi < 256 \<Longrightarrow> sure (uniformRand 0 hi)"
proof -
  assume hi: "hi < 256"
  have "hi + 1 \<le> BYTE_RANGE" using hi by (simp add: BYTE_RANGE_def inc_le)
  then have "\<not> BYTE_RANGE < hi - 0 + 1" by simp
  moreover have "(0 :: size_t) \<le> hi" by simp
  note uniformRand_ordered [OF this]
  ultimately show ?thesis by (auto simp: Let_def intro!: sure_bind sure_byte sure_reject)
qed

lemma index_below: "0 < n \<Longrightarrow> n < 256 \<Longrightarrow> (of_nat n - 1 :: size_t) < 256"
  by (cases n) (simp_all add: word_less_nat_alt unat_of_nat)

lemma sure_draw_char:
  assumes "charset \<noteq> []" "length charset < 256"
  shows "sure (draw_char charset)"
  unfolding draw_char_def using assms by (intro sure_bind sure_uniformRand sure_return index_below) simp_all

lemma sure_nonDot:
  assumes "\<exists>c \<in> set charset. c \<noteq> CHR ''.''" "length charset < 256"
  shows "sure (getNonDotChar charset)"
proof -
  let ?is = "filter (\<lambda>j. charset ! j \<noteq> CHR ''.'') [0..<length charset]"
  have ne: "?is \<noteq> []" using assms(1) by (auto simp: filter_empty_conv in_set_conv_nth Bex_def)
  have "length ?is \<le> length charset" using length_filter_le [of _ "[0..<length charset]"] by simp
  then have len: "length ?is < 256" using assms(2) by linarith
  have "(of_nat (length ?is) - 1 :: size_t) < 256" using ne len by (intro index_below) simp_all
  then show ?thesis
    using ne unfolding getNonDotChar_def Let_def by (simp only: if_False) (intro sure_bind sure_uniformRand sure_return)
qed

lemma sure_token:
  assumes "\<exists>c \<in> set charset. c \<noteq> CHR ''.''" "length charset < 256"
  shows "sure (genToken n charset)"
proof -
  have ne: "charset \<noteq> []" using assms(1) by auto
  have "sure (retry_char k charset token)" for k token
    by (induction k) (auto intro!: sure_bind sure_draw_char sure_nonDot assms ne)
  then have "sure (token_loop n charset token)" for token
    by (induction n arbitrary: token) (auto intro!: sure_bind simp: getNextChar_def)
  then show ?thesis using assms(1) ne by (auto simp: genToken_def)
qed

end
