(* ===== verification/SessionMgr.thy ===== *)
theory SessionMgr
  imports Tokens StringOps
begin

text \<open>
  \<open>src/Session\<close> and the cookie reader of \<open>SessionMiddleware.cpp\<close>.  A session is found by
  its key; deleting the object is removing the key, so a pointer to a deleted session is a key
  that is no longer in the map.  The readings of the clock are arguments.  The theorems show that
  the map stays well formed, which sessions a look-up and a clean-up keep, what the next clean-up
  time says, and what the cookie reader returns.
\<close>

section \<open>Sessions\<close>

record Session =
  ss_sessionId :: string
  ss_data :: "(string, string) omap"
  ss_lastAccessTime :: int
  ss_timeoutSec :: int

definition new_Session :: "int \<Rightarrow> string \<Rightarrow> int \<Rightarrow> Session" where
  "new_Session now sid timeoutSec =
     \<lparr>ss_sessionId = sid, ss_data = [], ss_lastAccessTime = now, ss_timeoutSec = timeoutSec\<rparr>"

definition getData :: "Session \<Rightarrow> string \<Rightarrow> string res" where
  "getData s key = (case map_of (ss_data s) key of None \<Rightarrow> Inl Runtime_error | Some v \<Rightarrow> Inr v)"

definition getOptionalData :: "Session \<Rightarrow> string \<Rightarrow> string \<Rightarrow> string" where
  "getOptionalData s key defaultValue =
     (case map_of (ss_data s) key of None \<Rightarrow> defaultValue | Some v \<Rightarrow> v)"

definition hasData :: "Session \<Rightarrow> string \<Rightarrow> bool" where
  "hasData s key = (map_of (ss_data s) key \<noteq> None)"

definition setData :: "string \<Rightarrow> string \<Rightarrow> Session \<Rightarrow> Session" where
  "setData key v s = s\<lparr>ss_data := om_set key v (ss_data s)\<rparr>"

definition updateLastAccess :: "int \<Rightarrow> Session \<Rightarrow> Session" where
  "updateLastAccess now s = s\<lparr>ss_lastAccessTime := now\<rparr>"

section \<open>The manager\<close>

record SessionManager =
  sm_sessions :: "(string, Session) omap"
  sm_nextCleanupTime :: int

definition new_SessionManager :: SessionManager where
  "new_SessionManager = \<lparr>sm_sessions = [], sm_nextCleanupTime = 0\<rparr>"

partial_function (option) generateSessionId ::
  "(string, Session) omap \<Rightarrow> Random \<Rightarrow> (string res \<times> Random) option" where
  "generateSessionId sessions rd =
     (case genToken 32 default_charset rd of
        None \<Rightarrow> None
      | Some (r, rd1) \<Rightarrow>
          (case r of
             Inl e \<Rightarrow> Some (Inl e, rd1)
           | Inr sessionId \<Rightarrow>
               (if map_of sessions sessionId = None then Some (Inr sessionId, rd1)
                else generateSessionId sessions rd1)))"

declare generateSessionId.simps [code]

definition next_cleanup :: "bool \<Rightarrow> int \<Rightarrow> int \<Rightarrow> int \<Rightarrow> int" where
  "next_cleanup wasEmpty timeoutSec lastAccess old =
     (if timeoutSec = 0 then 0
      else
        (let expiryTime = lastAccess + timeoutSec in
         if wasEmpty \<or> old = 0 \<or> expiryTime < old then expiryTime else old))"

definition insert_session :: "int \<Rightarrow> string \<Rightarrow> int \<Rightarrow> SessionManager \<Rightarrow> SessionManager" where
  "insert_session now sid timeoutSec m =
     \<lparr>sm_sessions = om_set sid (new_Session now sid timeoutSec) (sm_sessions m),
      sm_nextCleanupTime =
        next_cleanup (sm_sessions m = []) timeoutSec now (sm_nextCleanupTime m)\<rparr>"

definition createSession ::
  "int \<Rightarrow> int \<Rightarrow> SessionManager \<Rightarrow> Random \<Rightarrow> (string res \<times> SessionManager \<times> Random) option" where
  "createSession now timeoutSec m rd =
     (case generateSessionId (sm_sessions m) rd of
        None \<Rightarrow> None
      | Some (Inl e, rd1) \<Rightarrow> Some (Inl e, m, rd1)
      | Some (Inr sid, rd1) \<Rightarrow> Some (Inr sid, insert_session now sid timeoutSec m, rd1))"

definition expired :: "int \<Rightarrow> Session \<Rightarrow> bool" where
  "expired now s = (ss_timeoutSec s = 0 \<or> ss_timeoutSec s < now - ss_lastAccessTime s)"

text \<open>The second reading of the clock is that of \<open>updateLastAccess\<close>.\<close>

definition getSession :: "int \<Rightarrow> int \<Rightarrow> string \<Rightarrow> SessionManager \<Rightarrow> bool \<times> SessionManager" where
  "getSession now now2 sid m =
     (case map_of (sm_sessions m) sid of
        None \<Rightarrow> (False, m)
      | Some s \<Rightarrow>
          (if expired now s then (False, m\<lparr>sm_sessions := om_erase sid (sm_sessions m)\<rparr>)
           else (True, m\<lparr>sm_sessions := om_set sid (updateLastAccess now2 s) (sm_sessions m)\<rparr>)))"

definition destroySession :: "string \<Rightarrow> SessionManager \<Rightarrow> bool \<times> SessionManager" where
  "destroySession sid m =
     (if map_of (sm_sessions m) sid \<noteq> None
      then (True, m\<lparr>sm_sessions := om_erase sid (sm_sessions m)\<rparr>) else (False, m))"

fun cleanup_loop ::
  "int \<Rightarrow> (string, Session) omap \<Rightarrow> int \<Rightarrow> (string, Session) omap \<times> int" where
  "cleanup_loop now [] nextExpiry = ([], nextExpiry)"
| "cleanup_loop now ((k, s) # rest) nextExpiry =
     (if expired now s then cleanup_loop now rest nextExpiry
      else
        (let expiryTime = ss_lastAccessTime s + ss_timeoutSec s;
             (kept, n) = cleanup_loop now rest
               (if nextExpiry = 0 \<or> expiryTime < nextExpiry then expiryTime else nextExpiry)
         in ((k, s) # kept, n)))"

definition cleanupExpiredSessions :: "int \<Rightarrow> SessionManager \<Rightarrow> SessionManager" where
  "cleanupExpiredSessions now m =
     (let (kept, n) = cleanup_loop now (sm_sessions m) 0 in
      \<lparr>sm_sessions = kept, sm_nextCleanupTime = n\<rparr>)"

definition cleanup :: "int \<Rightarrow> int \<Rightarrow> SessionManager \<Rightarrow> SessionManager" where
  "cleanup now now2 m =
     (if sm_nextCleanupTime m = 0 \<or> sm_nextCleanupTime m \<le> now
      then cleanupExpiredSessions now2 m else m)"

section \<open>Cookies\<close>

fun unescape_loop :: "bool \<Rightarrow> string \<Rightarrow> string" where
  "unescape_loop esc [] = (if esc then [BSL] else [])"
| "unescape_loop esc (c # cs) =
     (if \<not> esc \<and> c = BSL then unescape_loop True cs else c # unescape_loop False cs)"

definition unescapeCookieValue :: "string \<Rightarrow> string" where
  "unescapeCookieValue = unescape_loop False"

definition strip_quotes :: "string \<Rightarrow> string" where
  "strip_quotes v =
     (if 2 \<le> length v \<and> hd v = DQ \<and> last v = DQ then take (length v - 2) (tl v) else v)"

definition extractKeyValue :: "string \<Rightarrow> (string, string) omap \<Rightarrow> (string, string) omap" where
  "extractKeyValue current result =
     (if current = [] then result
      else
        (case find_char current (CHR ''='') 0 of
           None \<Rightarrow> om_set current [] result
         | Some pos \<Rightarrow>
             om_set (trim ws_chars (take pos current))
               (unescapeCookieValue (strip_quotes (trim ws_chars (drop (pos + 1) current)))) result))"

fun cookie_loop ::
  "string \<Rightarrow> (string, string) omap \<Rightarrow> string \<Rightarrow> bool \<Rightarrow> bool \<Rightarrow> (string, string) omap" where
  "cookie_loop [] result current inQuotes escaped =
     extractKeyValue (trim ws_chars (if escaped then current @ [BSL] else current)) result"
| "cookie_loop (c # cs) result current inQuotes escaped =
     (if inQuotes \<and> \<not> escaped \<and> c = BSL then cookie_loop cs result current inQuotes True
      else if c = DQ \<and> \<not> escaped then cookie_loop cs result (current @ [c]) (\<not> inQuotes) False
      else if c = CHR '';'' \<and> \<not> inQuotes \<and> \<not> escaped
      then cookie_loop cs (extractKeyValue (trim ws_chars current) result) [] inQuotes False
      else cookie_loop cs result (current @ [c]) inQuotes False)"

definition parseCookieField :: "string \<Rightarrow> (string, string) omap" where
  "parseCookieField cookie = cookie_loop cookie [] [] False False"

section \<open>Which sessions are kept\<close>

definition all_sessions :: "(string \<Rightarrow> Session \<Rightarrow> bool) \<Rightarrow> SessionManager \<Rightarrow> bool" where
  "all_sessions P m \<longleftrightarrow> (\<forall>(k, s) \<in> set (sm_sessions m). P k s)"

text \<open>
  The invariant at time \<open>t\<close>: the map is ordered, each session is stored under its own
  identifier, was used after the epoch and not after \<open>t\<close>, has a positive time-out, and does
  not end before the next clean-up is due, which is a proper time.
\<close>

definition due_ok :: "int \<Rightarrow> int \<Rightarrow> string \<Rightarrow> Session \<Rightarrow> bool" where
  "due_ok t due k s \<longleftrightarrow>
     ss_sessionId s = k \<and> 0 < ss_lastAccessTime s \<and> ss_lastAccessTime s \<le> t \<and>
     0 < ss_timeoutSec s \<and> 0 < due \<and> due \<le> ss_lastAccessTime s + ss_timeoutSec s"

definition sessions_ok :: "int \<Rightarrow> SessionManager \<Rightarrow> bool" where
  "sessions_ok t m \<longleftrightarrow>
     om_ok (sm_sessions m) \<and> all_sessions (due_ok t (sm_nextCleanupTime m)) m"

lemma set_om_set: "(k', v') \<in> set (om_set k v m) \<Longrightarrow> (k', v') = (k, v) \<or> (k', v') \<in> set m"
  by (induction m) (auto split: if_splits)

lemma set_om_erase: "(k', v') \<in> set (om_erase k m) \<Longrightarrow> (k', v') \<in> set m"
  by (simp add: om_erase_def)

lemma due_later: "due_ok t d k s \<Longrightarrow> t \<le> t2 \<Longrightarrow> due_ok t2 d k s"
  by (auto simp: due_ok_def)

lemma insert_session_ok:
  assumes "sessions_ok t m" "0 < timeoutSec" "0 < t"
  shows "sessions_ok t (insert_session t sid timeoutSec m)"
proof -
  let ?d = "next_cleanup (sm_sessions m = []) timeoutSec t (sm_nextCleanupTime m)"
  have "due_ok t ?d k s" if "(k, s) \<in> set (om_set sid (new_Session t sid timeoutSec) (sm_sessions m))" for k s
    using set_om_set [OF that]
  proof
    assume "(k, s) = (sid, new_Session t sid timeoutSec)"
    moreover have "sm_sessions m \<noteq> [] \<Longrightarrow> 0 < sm_nextCleanupTime m"
      using assms(1) by (cases "sm_sessions m") (auto simp: sessions_ok_def all_sessions_def due_ok_def)
    ultimately show ?thesis using assms
      by (auto simp: due_ok_def new_Session_def next_cleanup_def Let_def)
  next
    assume mem: "(k, s) \<in> set (sm_sessions m)"
    then have ok: "due_ok t (sm_nextCleanupTime m) k s" and "sm_sessions m \<noteq> []"
      using assms(1) by (auto simp: sessions_ok_def all_sessions_def)
    then show ?thesis using assms by (auto simp: due_ok_def next_cleanup_def Let_def)
  qed
  then show ?thesis using assms(1)
    by (auto simp: sessions_ok_def all_sessions_def insert_session_def)
qed

lemma erase_ok: "sessions_ok t m \<Longrightarrow> sessions_ok t (m\<lparr>sm_sessions := om_erase k (sm_sessions m)\<rparr>)"
  by (auto simp: sessions_ok_def all_sessions_def dest: set_om_erase)

lemma getSession_ok:
  assumes "sessions_ok t m" "t \<le> now" "now \<le> now2"
  shows "sessions_ok now2 (snd (getSession now now2 sid m))"
proof -
  have later: "sessions_ok now2 m"
    using assms due_later by (fastforce simp: sessions_ok_def all_sessions_def)
  show ?thesis
  proof (cases "map_of (sm_sessions m) sid")
    case None
    then show ?thesis using later by (simp add: getSession_def)
  next
    case (Some s)
    then have "(sid, s) \<in> set (sm_sessions m)" by (rule map_of_SomeD)
    then have s: "due_ok t (sm_nextCleanupTime m) sid s"
      using assms(1) by (auto simp: sessions_ok_def all_sessions_def)
    have upd: "due_ok now2 (sm_nextCleanupTime m) sid (updateLastAccess now2 s)"
      using s assms by (auto simp: due_ok_def updateLastAccess_def)
    have "sessions_ok now2
        (m\<lparr>sm_sessions := om_set sid (updateLastAccess now2 s) (sm_sessions m)\<rparr>)"
      using later upd by (auto simp: sessions_ok_def all_sessions_def dest!: set_om_set)
    then show ?thesis using Some erase_ok [OF later] by (simp add: getSession_def)
  qed
qed

lemma cleanup_loop_kept: "fst (cleanup_loop now ss n) = filter (\<lambda>p. \<not> expired now (snd p)) ss"
  by (induction now ss n rule: cleanup_loop.induct) (auto simp: Let_def split: prod.splits)

lemma cleanup_loop_due:
  assumes "\<forall>(k, s) \<in> set ss. 0 < ss_lastAccessTime s + ss_timeoutSec s" "0 \<le> n"
  shows "(n \<noteq> 0 \<longrightarrow> 0 < snd (cleanup_loop now ss n) \<and> snd (cleanup_loop now ss n) \<le> n) \<and>
    (\<forall>(k, s) \<in> set (fst (cleanup_loop now ss n)).
       0 < snd (cleanup_loop now ss n) \<and>
       snd (cleanup_loop now ss n) \<le> ss_lastAccessTime s + ss_timeoutSec s)"
  using assms
proof (induction now ss n rule: cleanup_loop.induct)
  case (2 now k s rest n)
  show ?case
  proof (cases "expired now s")
    case True
    then show ?thesis using 2 by simp
  next
    case False
    let ?e = "ss_lastAccessTime s + ss_timeoutSec s"
    let ?n = "if n = 0 \<or> ?e < n then ?e else n"
    have e: "0 < ?e" using 2 by simp
    then have n: "0 < ?n" "?n \<le> ?e" "n \<noteq> 0 \<longrightarrow> ?n \<le> n" using 2 by auto
    have IH: "(?n \<noteq> 0 \<longrightarrow> 0 < snd (cleanup_loop now rest ?n) \<and> snd (cleanup_loop now rest ?n) \<le> ?n) \<and>
      (\<forall>(k, s) \<in> set (fst (cleanup_loop now rest ?n)).
         0 < snd (cleanup_loop now rest ?n) \<and>
         snd (cleanup_loop now rest ?n) \<le> ss_lastAccessTime s + ss_timeoutSec s)"
      using "2.IH"(2) [OF False refl] "2.prems" n(1) by simp
    obtain kept d where "cleanup_loop now rest ?n = (kept, d)" by force
    then show ?thesis using IH n False by (auto simp: Let_def)
  qed
qed simp

lemma cleanup_ok:
  assumes "sessions_ok t m" "t \<le> now2"
  shows "sessions_ok now2 (cleanup now now2 m)"
proof -
  have later: "sessions_ok now2 m"
    using assms due_later by (fastforce simp: sessions_ok_def all_sessions_def)
  obtain kept d where c: "cleanup_loop now2 (sm_sessions m) 0 = (kept, d)" by force
  have kept: "kept = filter (\<lambda>p. \<not> expired now2 (snd p)) (sm_sessions m)"
    using cleanup_loop_kept [of now2 "sm_sessions m" 0] c by simp
  have "\<forall>(k, s) \<in> set (sm_sessions m). 0 < ss_lastAccessTime s + ss_timeoutSec s"
    using later by (fastforce simp: sessions_ok_def all_sessions_def due_ok_def)
  from cleanup_loop_due [OF this, of 0 now2] c
  have "\<forall>(k, s) \<in> set kept. 0 < d \<and> d \<le> ss_lastAccessTime s + ss_timeoutSec s" by simp
  moreover have "om_ok kept"
    using later by (auto simp: kept om_ok_def sessions_ok_def sorted_wrt_map sorted_wrt_filter)
  ultimately have "sessions_ok now2 (cleanupExpiredSessions now2 m)"
    using later by (fastforce simp: cleanupExpiredSessions_def c sessions_ok_def all_sessions_def
        due_ok_def kept)
  then show ?thesis using later by (simp add: cleanup_def)
qed

text \<open>The operations in any order, with a clock that does not go back.\<close>

inductive sessions_reach :: "int \<Rightarrow> SessionManager \<Rightarrow> bool" where
  start: "0 < t \<Longrightarrow> sessions_reach t new_SessionManager"
| wait: "sessions_reach t m \<Longrightarrow> t \<le> t2 \<Longrightarrow> sessions_reach t2 m"
| create: "sessions_reach t m \<Longrightarrow> 0 < timeoutSec \<Longrightarrow>
    createSession t timeoutSec m rd = Some (Inr sid, m2, rd2) \<Longrightarrow> sessions_reach t m2"
| get: "sessions_reach t m \<Longrightarrow> t \<le> t2 \<Longrightarrow> sessions_reach t2 (snd (getSession t t2 sid m))"
| destroy: "sessions_reach t m \<Longrightarrow> sessions_reach t (snd (destroySession sid m))"
| clean: "sessions_reach t m \<Longrightarrow> t \<le> t2 \<Longrightarrow> sessions_reach t2 (cleanup t t2 m)"

lemma sessions_reach_ok: "sessions_reach t m \<Longrightarrow> 0 < t \<and> sessions_ok t m"
proof (induction rule: sessions_reach.induct)
  case (start t)
  then show ?case by (simp add: sessions_ok_def all_sessions_def new_SessionManager_def)
next
  case (wait t m t2)
  then show ?case using due_later by (fastforce simp: sessions_ok_def all_sessions_def)
next
  case (create t m timeoutSec rd sid m2 rd2)
  then have "m2 = insert_session t sid timeoutSec m"
    by (auto simp: createSession_def split: option.splits sum.splits)
  with create insert_session_ok show ?case by simp
next
  case (get t m t2 sid)
  then show ?case using getSession_ok [of t m t t2 sid] by simp
next
  case (destroy t m sid)
  then show ?case using erase_ok by (simp add: destroySession_def)
next
  case (clean t m t2)
  then show ?case using cleanup_ok [of t m t2 t] by simp
qed

text \<open>C25: however the manager is used (with positive time-outs and a clock that does not go back),
  a clean-up leaves exactly the sessions that have not expired: none that has expired survives
  because the clean-up time was judged not to have come.\<close>

theorem cleanup_exact:
  assumes "sessions_reach t m"
  shows "sm_sessions (cleanup t t m) = filter (\<lambda>p. \<not> expired t (snd p)) (sm_sessions m)"
proof (cases "sm_nextCleanupTime m = 0 \<or> sm_nextCleanupTime m \<le> t")
  case True
  then show ?thesis
    using cleanup_loop_kept [of t "sm_sessions m" 0]
    by (cases "cleanup_loop t (sm_sessions m) 0") (simp add: cleanup_def cleanupExpiredSessions_def)
next
  case False
  have "\<not> expired t s" if "(k, s) \<in> set (sm_sessions m)" for k s
  proof -
    have "due_ok t (sm_nextCleanupTime m) k s"
      using that sessions_reach_ok [OF assms] by (auto simp: sessions_ok_def all_sessions_def)
    with False show ?thesis by (simp add: due_ok_def expired_def)
  qed
  then have "filter (\<lambda>p. \<not> expired t (snd p)) (sm_sessions m) = sm_sessions m"
    by (auto simp: filter_id_conv)
  with False show ?thesis by (simp add: cleanup_def)
qed

definition first_manager :: SessionManager where
  "first_manager = insert_session 5 (replicate 32 (CHR ''A'')) 10 new_SessionManager"

lemma first_token:
  "genToken 32 default_charset \<lparr>rd_rest = replicate 32 0, rd_kernel = []\<rparr> =
     Some (Inr (replicate 32 (CHR ''A'')), \<lparr>rd_rest = [], rd_kernel = []\<rparr>)"
  by code_simp

lemma first_reach: "sessions_reach 5 first_manager"
proof (rule sessions_reach.create [OF sessions_reach.start])
  show "createSession 5 10 new_SessionManager \<lparr>rd_rest = replicate 32 0, rd_kernel = []\<rparr> =
      Some (Inr (replicate 32 (CHR ''A'')), first_manager, \<lparr>rd_rest = [], rd_kernel = []\<rparr>)"
    by (simp add: createSession_def generateSessionId.simps first_token first_manager_def
        new_SessionManager_def)
qed simp_all

theorem cleanup_exact_witness:
  "sm_sessions (cleanup 16 16 first_manager) = []"
proof -
  have "sessions_reach 16 first_manager" by (rule sessions_reach.wait [OF first_reach]) simp
  from cleanup_exact [OF this] show ?thesis
    by (simp add: first_manager_def insert_session_def new_SessionManager_def new_Session_def
        expired_def)
qed

lemma generateSessionId_fresh:
  assumes "generateSessionId ss rd = Some (Inr sid, rd2)"
  shows "map_of ss sid = None \<and> length sid = 32 \<and> set sid \<subseteq> set default_charset"
proof -
  let ?P = "\<lambda>ss rd v. \<forall>sid rd2. v = (Inr sid, rd2) \<longrightarrow>
      map_of ss sid = None \<and> length sid = 32 \<and> set sid \<subseteq> set default_charset"
  have le: "length default_charset \<le> size_max" by (simp add: default_charset_def)
  have step: "?P ss rd v"
    if rec: "\<And>ss rd v. rec ss rd = Some v \<Longrightarrow> ?P ss rd v"
      and body: "(case genToken 32 default_charset rd of None \<Rightarrow> None
        | Some (r, rd1) \<Rightarrow>
            (case r of Inl e \<Rightarrow> Some (Inl e, rd1)
             | Inr sessionId \<Rightarrow> (if map_of ss sessionId = None then Some (Inr sessionId, rd1)
                                  else rec ss rd1))) = Some v" for rec ss rd v
    using body rec genToken_ok [OF _ le]
    by (fastforce split: option.splits prod.splits sum.splits if_splits)
  have "?P ss rd v" if "generateSessionId ss rd = Some v" for v
    by (rule generateSessionId.raw_induct [of ?P, OF step that]) simp_all
  then show ?thesis using assms by blast
qed

section \<open>Cookies that were sent back\<close>

text \<open>A cookie as the client sends it: with or without quotes.\<close>

definition print_cookie :: "bool \<times> string \<times> string \<Rightarrow> string" where
  "print_cookie c =
     (case c of (quoted, k, v) \<Rightarrow> k @ ''='' @ (if quoted then DQ # v @ [DQ] else v))"

definition solid :: "string \<Rightarrow> bool" where
  "solid s \<longleftrightarrow> (\<forall>c \<in> set s. c \<noteq> DQ \<and> c \<noteq> BSL \<and> c \<noteq> CHR '';'' \<and> c \<notin> set ws_chars)"

definition cookie_ok :: "bool \<times> string \<times> string \<Rightarrow> bool" where
  "cookie_ok c = (case c of (quoted, k, v) \<Rightarrow>
     k \<noteq> [] \<and> solid k \<and> CHR ''='' \<notin> set k \<and>
     (if quoted then DQ \<notin> set v \<and> BSL \<notin> set v else solid v))"

lemma cookie_loop_plain:
  "\<forall>c \<in> set t. c \<noteq> DQ \<and> c \<noteq> CHR '';'' \<Longrightarrow>
    cookie_loop (t @ rest) r cur False False = cookie_loop rest r (cur @ t) False False"
  by (induction t arbitrary: cur) auto

lemma cookie_loop_quoted:
  "\<forall>c \<in> set t. c \<noteq> DQ \<and> c \<noteq> BSL \<Longrightarrow>
    cookie_loop (t @ rest) r cur True False = cookie_loop rest r (cur @ t) True False"
  by (induction t arbitrary: cur) auto

lemma cookie_loop_print:
  "cookie_ok c \<Longrightarrow>
    cookie_loop (print_cookie c @ rest) r cur False False =
      cookie_loop rest r (cur @ print_cookie c) False False"
proof -
  assume ok: "cookie_ok c"
  obtain q k v where c: "c = (q, k, v)" by (cases c)
  have k: "\<forall>x \<in> set (k @ ''=''). x \<noteq> DQ \<and> x \<noteq> CHR '';''"
    using ok by (auto simp: c cookie_ok_def solid_def)
  show ?thesis
  proof (cases q)
    case True
    have v: "\<forall>x \<in> set v. x \<noteq> DQ \<and> x \<noteq> BSL" using ok by (auto simp: c True cookie_ok_def)
    have "cookie_loop (print_cookie c @ rest) r cur False False =
        cookie_loop (v @ DQ # rest) r (cur @ k @ ''='' @ [DQ]) True False"
      using cookie_loop_plain [OF k, of "DQ # v @ DQ # rest" r cur]
      by (simp add: c True print_cookie_def)
    also have "\<dots> = cookie_loop rest r (cur @ print_cookie c) False False"
      using cookie_loop_quoted [OF v, of "DQ # rest" r "cur @ k @ ''='' @ [DQ]"]
      by (simp add: c True print_cookie_def)
    finally show ?thesis .
  next
    case False
    have "\<forall>x \<in> set (k @ ''='' @ v). x \<noteq> DQ \<and> x \<noteq> CHR '';''"
      using ok k by (auto simp: c False cookie_ok_def solid_def)
    from cookie_loop_plain [OF this] show ?thesis by (simp add: c False print_cookie_def)
  qed
qed

lemma unescape_plain: "BSL \<notin> set v \<Longrightarrow> unescapeCookieValue v = v"
proof -
  have "BSL \<notin> set v \<Longrightarrow> unescape_loop False v = v" by (induction v) auto
  then show "BSL \<notin> set v \<Longrightarrow> unescapeCookieValue v = v" by (simp add: unescapeCookieValue_def)
qed

lemma trim_solid: "solid s \<Longrightarrow> trim ws_chars s = s"
  by (cases "s = []") (simp_all add: trim_id solid_def)

lemma trim_quoted: "trim ws_chars (DQ # v @ [DQ]) = DQ # v @ [DQ]"
  by (simp add: trim_id ws_chars_def)

lemma extract_print:
  assumes "cookie_ok c"
  shows "extractKeyValue (print_cookie c) r = om_set (fst (snd c)) (snd (snd c)) r"
proof -
  obtain q k v where c: "c = (q, k, v)" by (cases c)
  let ?w = "if q then DQ # v @ [DQ] else v"
  have "find_char (print_cookie c) (CHR ''='') 0 = Some (length k)"
    using assms find_char_at [of "[]" 0 "CHR ''=''" k ?w]
    by (simp add: c print_cookie_def cookie_ok_def)
  moreover have "trim ws_chars k = k" using assms by (simp add: c cookie_ok_def trim_solid)
  moreover have "unescapeCookieValue (strip_quotes (trim ws_chars ?w)) = v"
  proof (cases q)
    case True
    then show ?thesis using assms
      by (simp add: c trim_quoted strip_quotes_def unescape_plain cookie_ok_def)
  next
    case False
    have "strip_quotes v = v"
      using assms False hd_in_set [of v] by (cases v) (auto simp: c strip_quotes_def cookie_ok_def solid_def)
    then show ?thesis using assms False
      by (auto simp: c trim_solid cookie_ok_def intro!: unescape_plain) (auto simp: solid_def)
  qed
  ultimately show ?thesis by (simp add: extractKeyValue_def c print_cookie_def)
qed

lemma trim_spaced: "trim ws_chars (CHR '' '' # s) = trim ws_chars s"
  by (simp add: trim_def ws_chars_def)

lemma trim_print: "cookie_ok c \<Longrightarrow> trim ws_chars (print_cookie c) = print_cookie c \<and> print_cookie c \<noteq> []"
proof -
  assume ok: "cookie_ok c"
  obtain q k v where c: "c = (q, k, v)" by (cases c)
  have "k \<noteq> []" "hd k \<notin> set ws_chars" using ok hd_in_set [of k] by (auto simp: c cookie_ok_def solid_def)
  moreover have "last (''='' @ v) \<notin> set ws_chars" if "\<not> q"
    using ok that last_in_set [of v] by (auto simp: c cookie_ok_def solid_def ws_chars_def)
  ultimately show ?thesis
    by (intro conjI trim_id) (auto simp: c print_cookie_def ws_chars_def)
qed

text \<open>A cookie header of well-formed pairs is read as the map of its pairs, whether a value is
  sent bare or in quotes (and then it may hold semicolons and blanks); of two pairs with one name
  the later counts.\<close>

theorem parseCookieField_join:
  assumes "\<forall>c \<in> set cs. cookie_ok c"
  shows "parseCookieField (join ''; '' (map print_cookie cs)) =
    fold (\<lambda>(q, k, v). om_set k v) cs []"
proof -
  have "cookie_loop (pre @ join ''; '' (map print_cookie cs)) r [] False False =
      fold (\<lambda>(q, k, v). om_set k v) cs r" if "pre = [] \<or> pre = '' ''" for pre r
    using assms that
  proof (induction cs arbitrary: pre r)
    case Nil
    then show ?case by (auto simp: trim_spaced extractKeyValue_def)
  next
    case (Cons c cs)
    then have c: "cookie_ok c" by simp
    have pre: "cookie_loop (pre @ s) r [] False False = cookie_loop s r pre False False" for s
      using Cons.prems(2) by auto
    have cut: "extractKeyValue (trim ws_chars (pre @ print_cookie c)) r = om_set (fst (snd c)) (snd (snd c)) r"
      using Cons.prems(2) trim_print [OF c] extract_print [OF c] by (auto simp: trim_spaced)
    obtain q k v where qkv: "c = (q, k, v)" by (cases c)
    show ?case
    proof (cases cs)
      case Nil
      then show ?thesis using cookie_loop_print [OF c, of "[]" r pre] cut pre qkv by simp
    next
      case (Cons c2 cs2)
      have "cookie_loop (pre @ join ''; '' (map print_cookie (c # cs))) r [] False False =
          cookie_loop ('' '' @ join ''; '' (map print_cookie cs)) (om_set k v r) [] False False"
        using cookie_loop_print [OF c, of "'';'' @ '' '' @ join ''; '' (map print_cookie cs)" r pre]
          cut pre qkv Cons by simp
      then show ?thesis using Cons.IH [of "'' ''" "om_set k v r"] Cons.prems qkv by simp
    qed
  qed
  from this [of "[]" "[]"] show ?thesis by (simp add: parseCookieField_def)
qed

theorem parseCookieField_join_witness:
  "parseCookieField (join ''; '' (map print_cookie
      [(False, ''a'', ''1''), (True, ''sessionId'', ''A=b; c''), (False, ''a'', ''2'')])) =
    [(''a'', ''2''), (''sessionId'', ''A=b; c'')]"
proof -
  let ?cs = "[(False, ''a'', ''1''), (True, ''sessionId'', ''A=b; c''), (False, ''a'', ''2'')]"
  have "\<forall>c \<in> set ?cs. cookie_ok c" by (simp add: cookie_ok_def solid_def ws_chars_def)
  from parseCookieField_join [OF this] show ?thesis by simp
qed

text \<open>A value in quotes that holds an escaped backslash is unescaped twice.\<close>

lemma cookie_unescaped_twice:
  "parseCookieField (''a='' @ [DQ, CHR ''x'', BSL, BSL, CHR ''y'', DQ]) = [(''a'', ''xy'')]"
  by code_simp

section \<open>A random source that does not fail\<close>

lemma sure_sessionId: "sure (generateSessionId sessions)"
proof -
  have token: "sure (genToken 32 default_charset)"
    by (rule sure_token) (simp_all add: default_charset_def)
  have step: "steady rd \<longrightarrow> steady (snd v) \<and> (\<exists>a. fst v = Inr a)" if "generateSessionId sessions rd = Some v" for rd v
    using that
  proof (rule generateSessionId.raw_induct [where P = "\<lambda>sessions rd v. steady rd \<longrightarrow> steady (snd v) \<and> (\<exists>a. fst v = Inr a)", rotated])
    fix f sessions rd v
    assume ih: "\<And>sessions rd y. f sessions rd = Some y \<Longrightarrow> steady rd \<longrightarrow> steady (snd y) \<and> (\<exists>a. fst y = Inr a)"
      and run: "(case genToken 32 default_charset rd of None \<Rightarrow> None
        | Some (r, rd1) \<Rightarrow> (case r of Inl e \<Rightarrow> Some (Inl e, rd1)
            | Inr sessionId \<Rightarrow> if map_of sessions sessionId = None then Some (Inr sessionId, rd1) else f sessions rd1)) = Some v"
    obtain r rd1 where b: "genToken 32 default_charset rd = Some (r, rd1)" using run by (auto split: option.splits)
    show "steady rd \<longrightarrow> steady (snd v) \<and> (\<exists>a. fst v = Inr a)"
    proof
      assume "steady rd"
      from sureD [OF token this b] obtain x where x: "steady rd1" "r = Inr x" by blast
      show "steady (snd v) \<and> (\<exists>a. fst v = Inr a)"
      proof (cases "map_of sessions x = None")
        case False
        then have "f sessions rd1 = Some v" using run unfolding b x by (simp only: option.case prod.case sum.case if_False)
        with ih x show ?thesis by blast
      next
        case True
        then show ?thesis using run b x by auto
      qed
    qed
  qed
  then show ?thesis unfolding sure_def by (metis fst_conv snd_conv)
qed

text \<open>With such a source a session is created whenever the call returns.\<close>

lemma createSession_steady:
  assumes "steady rd" "createSession now timeoutSec m rd = Some (r, m2, rd2)"
  shows "steady rd2 \<and> (\<exists>sid. r = Inr sid)"
proof -
  obtain x rd1 where g: "generateSessionId (sm_sessions m) rd = Some (x, rd1)"
    using assms(2) by (auto simp: createSession_def split: option.splits)
  from sureD [OF sure_sessionId assms(1) g] obtain sid where "steady rd1" "x = Inr sid" by blast
  then show ?thesis using assms(2) g by (auto simp: createSession_def)
qed

end
