(* ===== verification/Handlers.thy ===== *)
theory Handlers
  imports Resolver Tokens
begin

text \<open>
  \<open>src/Handler\<close>: the handlers that produce a response.  A handler changes the response of the
  context in place and returns it, so what it changed before an exception stays changed: the
  result is the exception, if any, with the response.  Files written and removed are a list of
  effects.  The theorems say what a client gets for a file, with both methods, what an error
  page is, and which file an upload writes.
\<close>

type_synonym handled = "exn option \<times> HttpResponse"

datatype fs_effect = Written string string | Removed string

abbreviation set_status :: "int \<Rightarrow> HttpResponse \<Rightarrow> HttpResponse" where
  "set_status status res \<equiv> res\<lparr>rs_statusCode := status\<rparr>"

section \<open>Static files\<close>

datatype FileReadStatus = FILE_READ_SUCCESS | FILE_READ_ERROR_PERMISSION | FILE_READ_ERROR

definition tryReadFile :: "OS \<Rightarrow> string \<Rightarrow> nat \<Rightarrow> FileReadStatus \<times> string" where
  "tryReadFile os filePath st_size =
     (case os_open os filePath st_size of
        Inl err \<Rightarrow>
          (if err = EACCES \<or> err = EPERM then FILE_READ_ERROR_PERMISSION else FILE_READ_ERROR, [])
      | Inr None \<Rightarrow> (FILE_READ_ERROR, [])
      | Inr (Some content) \<Rightarrow> (FILE_READ_SUCCESS, content))"

definition listing_entry :: "string \<Rightarrow> string \<Rightarrow> string" where
  "listing_entry requestPath name =
     (let linkPath = (if requestPath = [] \<or> last requestPath \<noteq> CHR ''/'' then requestPath @ ''/''
                      else requestPath) @ name
      in ''<a href='' @ [DQ] @ linkPath @ [DQ] @ ''>'' @ name @ ''</a>'' @ [LF])"

definition listing_page :: "string \<Rightarrow> string list \<Rightarrow> string" where
  "listing_page requestPath files =
     ''<html><head><title>Index of '' @ requestPath @ ''</title></head><body><h1>Index of '' @
     requestPath @ ''</h1><hr><pre>'' @
     concat (map (listing_entry requestPath) (sort files)) @ ''</pre><hr></body></html>''"

definition generateDirectoryListing ::
  "OS \<Rightarrow> HttpRequest \<Rightarrow> string \<Rightarrow> string \<Rightarrow> HttpResponse \<Rightarrow> HttpResponse" where
  "generateDirectoryListing os req directoryPath requestPath res =
     (case os_readdir os directoryPath of
        None \<Rightarrow> set_status 500 res
      | Some files \<Rightarrow>
          (let res1 = rs_setHeader ''Content-Type'' ''text/html'' (set_status 200 res) in
           if rq_method req = ''GET'' then res1\<lparr>rs_body := listing_page requestPath files\<rparr>
           else res1\<lparr>rs_body := []\<rparr>))"

definition serve_file :: "OS \<Rightarrow> HttpRequest \<Rightarrow> string \<Rightarrow> nat \<Rightarrow> HttpResponse \<Rightarrow> HttpResponse" where
  "serve_file os req filePath st_size res =
     (case tryReadFile os filePath st_size of
        (FILE_READ_SUCCESS, content) \<Rightarrow>
          (let res1 = rs_setHeader ''Content-Type'' (getMimeType filePath) (set_status 200 res) in
           if rq_method req = ''GET'' then res1\<lparr>rs_body := content\<rparr>
           else rs_setHeader ''Content-Length'' (show_nat st_size) res1)
      | (FILE_READ_ERROR_PERMISSION, _) \<Rightarrow> set_status 403 res
      | (FILE_READ_ERROR, _) \<Rightarrow> set_status 500 res)"

text \<open>The size of the index file when it is served instead of the directory.\<close>

definition index_size :: "OS \<Rightarrow> Location \<Rightarrow> string \<Rightarrow> string \<Rightarrow> nat option" where
  "index_size os loc requestPath indexPath =
     (if \<not> loc_noIndex loc
      then (case os_stat os indexPath of
              Some (Regular, n) \<Rightarrow>
                (if last requestPath \<noteq> CHR ''/'' \<or> length requestPath = 1 \<or> \<not> loc_autoindex loc
                 then Some n else None)
            | _ \<Rightarrow> None)
      else None)"

definition serve_directory ::
  "OS \<Rightarrow> HttpRequest \<Rightarrow> Location \<Rightarrow> string \<Rightarrow> HttpResponse \<Rightarrow> HttpResponse" where
  "serve_directory os req loc filePath res =
     (let requestPath = rq_path req in
      if requestPath = [] \<or> last requestPath \<noteq> CHR ''/''
      then rs_setHeader ''Location'' (requestPath @ ''/'') (set_status 301 res)
      else if loc_autoindex loc
      then
        (let res1 = generateDirectoryListing os req filePath requestPath res in
         if rq_method req \<noteq> ''GET''
         then (rs_setHeader ''Content-Length'' (show_nat (length (rs_body res1))) res1)\<lparr>rs_body := []\<rparr>
         else res1)
      else set_status 403 res)"

definition static_handle :: "OS \<Rightarrow> Config \<Rightarrow> HttpRequest \<Rightarrow> HttpResponse \<Rightarrow> handled" where
  "static_handle os config req res =
     (let filePath = resolvePath os (rq_path req) config False in
      if filePath = [] then (None, set_status 404 res)
      else
        (case os_stat os filePath of
           None \<Rightarrow> (None, set_status 404 res)
         | Some (Directory, _) \<Rightarrow>
             (let res1 = res\<lparr>rs_isDirectory := True\<rparr> in
              case getLocation config (rq_path req) of
                Inl e \<Rightarrow> (Some e, res1)
              | Inr loc \<Rightarrow>
                  (let indexPath = filePath @ ''/'' @ loc_index loc in
                   case index_size os loc (rq_path req) indexPath of
                     Some n \<Rightarrow> (None, serve_file os req indexPath n res1)
                   | None \<Rightarrow> (None, serve_directory os req loc filePath res1)))
         | Some (Regular, n) \<Rightarrow> (None, serve_file os req filePath n res)
         | Some (Other_file, _) \<Rightarrow> (None, set_status 500 res)))"

section \<open>Deleting\<close>

datatype FileDeleteStatus =
  DELETE_SUCCESS | DELETE_NOT_FOUND | DELETE_IS_DIRECTORY | DELETE_PERMISSION_DENIED
| DELETE_UNKNOWN_ERROR

definition tryDeleteFile :: "OS \<Rightarrow> string \<Rightarrow> FileDeleteStatus" where
  "tryDeleteFile os filePath =
     (case os_stat os filePath of
        None \<Rightarrow> DELETE_NOT_FOUND
      | Some (ty, _) \<Rightarrow>
          (if ty = Directory then DELETE_IS_DIRECTORY
           else if \<not> os_access_wx os (getDirName filePath) then DELETE_PERMISSION_DENIED
           else if os_remove os filePath then DELETE_SUCCESS
           else DELETE_UNKNOWN_ERROR))"

definition delete_handle ::
  "OS \<Rightarrow> Config \<Rightarrow> HttpRequest \<Rightarrow> HttpResponse \<Rightarrow> HttpResponse \<times> fs_effect list" where
  "delete_handle os config req res =
     (let filePath = resolvePath os (rq_path req) config False in
      if filePath = [] then (set_status 404 res, [])
      else
        (case tryDeleteFile os filePath of
           DELETE_SUCCESS \<Rightarrow> (set_status 204 res, [Removed filePath])
         | DELETE_NOT_FOUND \<Rightarrow> (set_status 404 res, [])
         | DELETE_IS_DIRECTORY \<Rightarrow> (set_status 403 res, [])
         | DELETE_PERMISSION_DENIED \<Rightarrow> (set_status 403 res, [])
         | DELETE_UNKNOWN_ERROR \<Rightarrow> (set_status 500 res, [])))"

section \<open>Uploading\<close>

definition removeSpaceColonCommaHyphen :: "string \<Rightarrow> string" where
  "removeSpaceColonCommaHyphen str = filter (\<lambda>c. c \<notin> set '' :,-'') str"

definition upload_letters :: string where
  "upload_letters = ''ABCDEFGHIJKLMNOPQRSTUVWXYZabcdefghijklmnopqrstuvwxyz''"

definition is_directory :: "OS \<Rightarrow> string \<Rightarrow> bool" where
  "is_directory os path = (case os_stat os path of Some (Directory, _) \<Rightarrow> True | _ \<Rightarrow> False)"

type_synonym upload = "(handled \<times> fs_effect list \<times> Random) option"

definition post_handle :: "OS \<Rightarrow> Config \<Rightarrow> HttpRequest \<Rightarrow> Random \<Rightarrow> HttpResponse \<Rightarrow> upload" where
  "post_handle os config req rd res =
     (case getLocation config (rq_path req) of
        Inl e \<Rightarrow> Some ((Some e, res), [], rd)
      | Inr loc \<Rightarrow>
          (let uploadStore = getAbsolutePath os (loc_uploadStore loc);
               expansion = getExtension (rq_getHeader req ''Content-Type'')
           in if rq_path req \<noteq> loc_path loc then Some ((None, set_status 404 res), [], rd)
              else if loc_uploadStore loc = [] then Some ((None, set_status 500 res), [], rd)
              else if \<not> is_directory os uploadStore then Some ((None, set_status 500 res), [], rd)
              else if expansion = [] then Some ((None, set_status 403 res), [], rd)
              else
                (case genToken 8 upload_letters rd of
                   None \<Rightarrow> None
                 | Some (Inl e, rd1) \<Rightarrow> Some ((Some e, res), [], rd1)
                 | Some (Inr token, rd1) \<Rightarrow>
                     (let target_filename =
                            removeSpaceColonCommaHyphen (os_gmt_date os) @ ''-'' @
                            removeSpaceColonCommaHyphen (os_gmt_time os) @ ''_'' @ token @ expansion;
                          target = uploadStore @ ''/'' @ target_filename
                      in if \<not> os_create os target
                         then Some ((None, set_status 500 res), [], rd1)
                         else
                           Some ((None, generateSimpleBody (rq_method req) 201
                                          (''Created : '' @ target_filename) False res),
                                 [Written target (rq_body req)], rd1)))))"

definition drop_last_slash :: "string \<Rightarrow> string" where
  "drop_last_slash s = (if s \<noteq> [] \<and> last s = CHR ''/'' then butlast s else s)"

definition put_handle ::
  "OS \<Rightarrow> Config \<Rightarrow> HttpRequest \<Rightarrow> HttpResponse \<Rightarrow> handled \<times> fs_effect list" where
  "put_handle os config req res =
     (case getLocation config (rq_path req) of
        Inl e \<Rightarrow> ((Some e, res), [])
      | Inr loc \<Rightarrow>
          if length (rq_path req) < length (loc_path loc) then ((Some Out_of_range, res), [])
          else
            (let pathWithoutBase = drop_slash (drop (length (loc_path loc)) (rq_path req));
                 splitPath = split1 (CHR ''/'') pathWithoutBase
             in if splitPath = [] then ((None, set_status 400 res), [])
                else
                  (let uploadStore = drop_last_slash (loc_root loc) @
                         concat (map (\<lambda>d. CHR ''/'' # d) (butlast splitPath));
                       target_filename = last splitPath;
                       target = uploadStore @ ''/'' @ target_filename
                   in if \<not> is_directory os uploadStore then ((None, set_status 500 res), [])
                      else if \<not> os_create os target then ((None, set_status 500 res), [])
                      else
                        (let status = (case os_stat os target of Some (Regular, _) \<Rightarrow> 204 | _ \<Rightarrow> 201)
                         in ((None, rs_appendHeader ''Content-Location'' (rq_path req)
                                (generateSimpleBody (rq_method req) status
                                   (''Created : '' @ target_filename) False res)),
                             [Written target (rq_body req)])))))"

section \<open>Redirects and errors\<close>

definition redirect_handle :: "string \<Rightarrow> int \<Rightarrow> HttpResponse \<Rightarrow> HttpResponse" where
  "redirect_handle redirectUrl statusCode res =
     rs_setHeader ''Location'' redirectUrl (set_status statusCode res)"

definition readErrorFile :: "OS \<Rightarrow> string \<Rightarrow> string option" where
  "readErrorFile os filePath =
     (case os_open os filePath 0 of
        Inl err \<Rightarrow> None
      | Inr _ \<Rightarrow>
          (case os_stat os filePath of
             None \<Rightarrow> None
           | Some (_, n) \<Rightarrow>
               (case os_open os filePath n of Inr (Some content) \<Rightarrow> Some content | _ \<Rightarrow> None)))"

text \<open>The page that is tried: the one of the directory first, where it can be read.\<close>

definition error_uri :: "OS \<Rightarrow> Config \<Rightarrow> HttpRequest \<Rightarrow> HttpResponse \<Rightarrow> string res" where
  "error_uri os config req res =
     (let page = getErrorPage config (rs_statusCode res) in
      if rs_isDirectory res then
        rbind (getLocation config (rq_path req)) (\<lambda>location.
          if loc_directoryError location \<noteq> [] then
            (let tmp = loc_path location @ ''/'' @ loc_directoryError location in
             if readErrorFile os (resolvePath os tmp config True) = None then Inr page else Inr tmp)
          else Inr page)
      else Inr page)"

definition error_handle :: "OS \<Rightarrow> Config \<Rightarrow> HttpRequest \<Rightarrow> HttpResponse \<Rightarrow> handled" where
  "error_handle os config req res =
     (let statusCode = rs_statusCode res;
          plain = generateSimpleBody (rq_method req) statusCode [] False res
      in case error_uri os config req res of
           Inl e \<Rightarrow> (Some e, res)
         | Inr errorUri \<Rightarrow>
             if errorUri = [] then (None, plain)
             else
               (let resolvedPath = resolvePath os errorUri config True in
                if resolvedPath = [] then (None, plain)
                else
                  (case readErrorFile os resolvedPath of
                     Some errorContent \<Rightarrow>
                       (None, rs_setHeader ''Content-Type'' ''text/html'' (res\<lparr>rs_body := errorContent\<rparr>))
                   | None \<Rightarrow> (None, plain))))"

section \<open>What a client gets for a file\<close>

lemma static_file:
  assumes "resolvePath os (rq_path req) c False = f" "f \<noteq> []" "os_stat os f = Some (Regular, n)"
    and "os_open os f n = Inr (Some content)"
  shows "static_handle os c req res = (None,
    (if rq_method req = ''GET''
     then (rs_setHeader ''Content-Type'' (getMimeType f) (set_status 200 res))\<lparr>rs_body := content\<rparr>
     else rs_setHeader ''Content-Length'' (show_nat n)
            (rs_setHeader ''Content-Type'' (getMimeType f) (set_status 200 res))))"
  using assms by (simp add: static_handle_def serve_file_def tryReadFile_def Let_def)

lemma values_set: "values_of (om_set k [v] h) l = (if l = k then [v] else values_of h l)"
  by (simp add: values_of_def)

lemma setHeader_fields [simp]:
  "rs_body (rs_setHeader k v r) = rs_body r"
  "rs_serverName (rs_setHeader k v r) = rs_serverName r"
  "rs_statusCode (rs_setHeader k v r) = rs_statusCode r"
  "rs_isDirectory (rs_setHeader k v r) = rs_isDirectory r"
  by (simp_all add: rs_setHeader_def)

text \<open>The values of every header after completion, in terms of those before.\<close>

lemma complete_values:
  "rs_getHeaderVector (complete_headers now r) l =
     (if rs_hasHeader r l then rs_getHeaderVector r l
      else if l = ''Date'' then [now]
      else if l = ''Server'' then [rs_serverName r]
      else if l = ''Content-Length'' then [show_nat (length (rs_body r))]
      else if l = ''Content-Type'' then [''text/html'']
      else rs_getHeaderVector r l)"
  by (auto simp: complete_headers_def addDateHeader_def addServerHeader_def addContentLengthHeader_def
      addMimeTypeHeader_def rs_getHeaderVector_def rs_hasHeader_def rs_setHeader_def has_key_set values_set)


definition file_os :: OS where
  "file_os = one_os
     \<lparr>os_stat := (\<lambda>p. if p = ''/srv/www/a.txt'' then Some (Regular, 5)
                       else if p = ''./www'' \<or> p = ''./www/../etc'' then Some (Directory, 4096) else None),
      os_open := (\<lambda>p n. if p = ''/srv/www/a.txt'' then Inr (if n \<le> 5 then Some (take n ''hello'') else None)
                        else Inl ENOENT)\<rparr>"

definition a_request :: HttpRequest where
  "a_request = (new_HttpRequest www_config)\<lparr>rq_path := ''/a.txt''\<rparr>"

lemma a_resolved: "resolvePath file_os (rq_path a_request) www_config False = ''/srv/www/a.txt''"
  by (simp add: a_request_def www_resolve getAbsolutePath_def file_os_def one_os_def drop_slash_def)


section \<open>Which files are written and removed\<close>

lemma join_segments:
  "ts \<noteq> [] \<Longrightarrow> concat (map (\<lambda>s. CHR ''/'' # s) (butlast ts)) @ ''/'' @ last ts = ''/'' @ join ''/'' ts"
  by (induction ts rule: induct_list012) auto

text \<open>An upload by \<open>PUT\<close> writes the body to the root of the location followed by the rest of
  the request path, character by character: nothing is normalised and nothing is checked, so a
  path with double dots is written outside the root.\<close>

theorem put_verbatim:
  assumes "put_handle os c req res = (r, effects)" "effects \<noteq> []" "getLocation c (rq_path req) = Inr loc"
  shows "effects = [Written (drop_last_slash (loc_root loc) @ ''/'' @
    drop_slash (drop (length (loc_path loc)) (rq_path req))) (rq_body req)]"
proof -
  let ?rest = "drop_slash (drop (length (loc_path loc)) (rq_path req))"
  have "concat (map (\<lambda>s. CHR ''/'' # s) (butlast (split1 (CHR ''/'') ?rest))) @ ''/'' @
      last (split1 (CHR ''/'') ?rest) = ''/'' @ ?rest"
    using join_segments [of "split1 (CHR ''/'') ?rest"] by (simp add: join_split1)
  then show ?thesis
    using assms by (auto simp: put_handle_def Let_def split: if_splits)
qed

theorem put_verbatim_witness:
  "snd (put_handle file_os www_config
      (a_request\<lparr>rq_method := ''PUT'', rq_path := ''/../etc/passwd'', rq_body := ''x''\<rparr>) new_HttpResponse) =
   [Written ''./www/../etc/passwd'' ''x'']"
proof -
  let ?req = "a_request\<lparr>rq_method := ''PUT'', rq_path := ''/../etc/passwd'', rq_body := ''x''\<rparr>"
  let ?loc = "new_Location\<lparr>loc_path := ''/'', loc_root := ''./www''\<rparr>"
  have loc: "getLocation www_config (rq_path ?req) = Inr ?loc"
    by (simp add: getLocation_def bestMatchKey_def match_step_def www_config_def)
  have split: "split1 (CHR ''/'') ''../etc/passwd'' = [''..'', ''etc'', ''passwd'']" by code_simp
  have "is_directory file_os ''./www/../etc''" by (simp add: is_directory_def file_os_def)
  then have "snd (put_handle file_os www_config ?req new_HttpResponse) \<noteq> []"
    using loc split
    by (simp add: put_handle_def Let_def drop_last_slash_def drop_slash_def a_request_def file_os_def
        one_os_def)
  from put_verbatim [OF prod.collapse [symmetric] this loc] show ?thesis
    by (simp add: drop_last_slash_def drop_slash_def)
qed

lemma resolvePath_inside:
  "resolvePath os path c False \<noteq> [] \<Longrightarrow>
    \<exists>real. real \<noteq> [] \<and> real = getAbsolutePath os (snd (best_root (cfg_locations c) path)) \<and>
      prefix real (resolvePath os path c False)"
  by (auto simp: resolvePath_def Let_def split: prod.splits if_splits)



lemma getExtension_no_slash: "CHR ''/'' \<notin> set (getExtension m)"
proof -
  have "\<forall>p \<in> set mimeMap. CHR ''/'' \<notin> set (fst p)" by code_simp
  then have "CHR ''/'' \<notin> set (fst it)" if "find (\<lambda>it. snd it = m) mimeMap = Some it" for it
    using that by (auto simp: find_Some_iff)
  then show ?thesis
    by (cases "find (\<lambda>it. snd it = m) mimeMap") (simp_all add: getExtension_def)
qed

text \<open>C28: an upload by \<open>POST\<close> that is answered 201 has written the body of the request to a
  new file directly in the upload store: the name of the file has no slash (when the date and the
  time that it starts with have none), is reported in the page, and no other file is written.\<close>

theorem post_confined:
  assumes "post_handle os c req rd res = Some ((None, r), effects, rd2)" "rs_statusCode res \<noteq> 201"
    and "CHR ''/'' \<notin> set (os_gmt_date os)" "CHR ''/'' \<notin> set (os_gmt_time os)"
    and "getLocation c (rq_path req) = Inr loc"
  shows "if rs_statusCode r = 201
    then (\<exists>name. effects = [Written (getAbsolutePath os (loc_uploadStore loc) @ ''/'' @ name) (rq_body req)] \<and>
      CHR ''/'' \<notin> set name \<and> is_directory os (getAbsolutePath os (loc_uploadStore loc)) \<and>
      rq_path req = loc_path loc)
    else effects = []"
proof (cases "rs_statusCode r = 201")
  case False
  with assms show ?thesis
    by (auto simp: post_handle_def Let_def generateSimpleBody_def split: if_splits option.splits sum.splits)
next
  case True
  with assms obtain token rd1 where t: "genToken 8 upload_letters rd = Some (Inr token, rd1)"
    by (auto simp: post_handle_def Let_def split: if_splits option.splits sum.splits)
  have "set token \<subseteq> set upload_letters"
    using genToken_ok [OF t] by (simp add: upload_letters_def)
  then have token: "CHR ''/'' \<notin> set token" by (auto simp: upload_letters_def)
  define name where "name = removeSpaceColonCommaHyphen (os_gmt_date os) @ ''-'' @
    removeSpaceColonCommaHyphen (os_gmt_time os) @ ''_'' @ token @
    getExtension (rq_getHeader req ''Content-Type'')"
  have "CHR ''/'' \<notin> set name"
    using assms(3,4) token getExtension_no_slash by (simp add: name_def removeSpaceColonCommaHyphen_def)
  moreover have "effects = [Written (getAbsolutePath os (loc_uploadStore loc) @ ''/'' @ name) (rq_body req)]"
      "is_directory os (getAbsolutePath os (loc_uploadStore loc))" "rq_path req = loc_path loc"
    using assms True t
    by (auto simp: post_handle_def Let_def name_def split: if_splits)
  ultimately show ?thesis using True by auto
qed

definition upload_config :: Config where
  "upload_config = two_locations\<lparr>cfg_locations :=
     [(''/'', new_Location\<lparr>loc_path := ''/'', loc_root := ''./www'', loc_uploadStore := ''./www''\<rparr>)]\<rparr>"

definition upload_os :: OS where
  "upload_os = one_os\<lparr>os_stat := (\<lambda>p. if p = ''/srv/www'' then Some (Directory, 4096) else None),
     os_gmt_date := ''2025-01-02'', os_gmt_time := ''03:04:05''\<rparr>"

definition upload_request :: HttpRequest where
  "upload_request = rq_addHeader ''Content-Type'' ''text/plain''
     ((new_HttpRequest www_config)\<lparr>rq_method := ''POST'', rq_path := ''/'', rq_body := ''x''\<rparr>)"

lemma upload_location:
  "getLocation upload_config (rq_path upload_request) =
     Inr (new_Location\<lparr>loc_path := ''/'', loc_root := ''./www'', loc_uploadStore := ''./www''\<rparr>)"
  by code_simp

lemma upload_extension: "getExtension (rq_getHeader upload_request ''Content-Type'') = ''.txt''"
  by code_simp

lemma upload_token:
  "genToken 8 upload_letters \<lparr>rd_rest = replicate 8 0, rd_kernel = []\<rparr> =
     Some (Inr ''AAAAAAAA'', \<lparr>rd_rest = [], rd_kernel = []\<rparr>)"
  by code_simp

lemma upload_store: "getAbsolutePath upload_os ''./www'' = ''/srv/www''"
  by (simp add: getAbsolutePath_def upload_os_def one_os_def)

theorem post_confined_witness:
  "\<exists>r name. post_handle upload_os upload_config upload_request
      \<lparr>rd_rest = replicate 8 0, rd_kernel = []\<rparr> new_HttpResponse =
        Some ((None, r), [Written (''/srv/www/'' @ name) ''x''], \<lparr>rd_rest = [], rd_kernel = []\<rparr>) \<and>
      CHR ''/'' \<notin> set name"
proof -
  let ?rd = "\<lparr>rd_rest = replicate 8 0, rd_kernel = []\<rparr> :: Random"
  let ?loc = "new_Location\<lparr>loc_path := ''/'', loc_root := ''./www'', loc_uploadStore := ''./www''\<rparr>"
  have dir: "is_directory upload_os ''/srv/www''" by (simp add: is_directory_def upload_os_def)
  have fields: "rq_path upload_request = ''/''" "rq_body upload_request = ''x''"
    by (simp_all add: upload_request_def rq_addHeader_def)
  have create: "os_create upload_os t" for t by (simp add: upload_os_def one_os_def)
  obtain r effects where run: "post_handle upload_os upload_config upload_request ?rd new_HttpResponse =
      Some ((None, r), effects, \<lparr>rd_rest = [], rd_kernel = []\<rparr>)" and r: "rs_statusCode r = 201"
    unfolding post_handle_def upload_location upload_extension
    by (simp only: sum.case Let_def upload_token option.case prod.case)
      (simp add: fields upload_store dir create generateSimpleBody_def)
  have dates: "CHR ''/'' \<notin> set (os_gmt_date upload_os)" "CHR ''/'' \<notin> set (os_gmt_time upload_os)"
    by (simp_all add: upload_os_def)
  have "rs_statusCode new_HttpResponse \<noteq> 201" by (simp add: new_HttpResponse_def)
  from post_confined [OF run this dates upload_location] r run show ?thesis
    by (auto simp: upload_store fields)
qed

section \<open>Three answers that HTTP does not allow\<close>

text \<open>Overwriting a file is answered 204 with a page as its body.\<close>

lemma put_no_content_body:
  assumes "put_handle os c req res = ((None, r), effects)" "effects \<noteq> []" "rq_method req = ''PUT''"
  shows "rs_body r \<noteq> []"
  using assms
  by (auto simp: put_handle_def Let_def generateSimpleBody_def rs_appendHeader_def simple_page_def
      split: if_splits sum.splits)

text \<open>The listing of a directory has no length for \<open>HEAD\<close>: the body is dropped before it is
  measured.\<close>

lemma listing_head_length:
  assumes "loc_autoindex loc" "rq_path req \<noteq> []" "last (rq_path req) = CHR ''/''"
    and "rq_method req = ''HEAD''" "os_readdir os f = Some files"
  shows "rs_getHeader (serve_directory os req loc f res) ''Content-Length'' = ''0''"
proof -
  have "show_nat 0 = ''0''" by code_simp
  then show ?thesis using assms
    by (simp add: serve_directory_def generateDirectoryListing_def Let_def rs_setHeader_def
        rs_getHeader_def last_value_set)
qed

text \<open>A configured error page is sent as the body of the answer to \<open>HEAD\<close> too.\<close>

lemma error_page_for_head:
  assumes "error_uri os c req res = Inr uri" "uri \<noteq> []" "resolvePath os uri c True \<noteq> []"
    and "readErrorFile os (resolvePath os uri c True) = Some content"
  shows "rs_body (snd (error_handle os c req res)) = content"
  using assms by (simp add: error_handle_def Let_def rs_setHeader_def)
end
