(* ===== verification/VHost.thy ===== *)
theory VHost
  imports HttpCore
begin

text \<open>
  \<open>src/Server/Listen/ListenKey.cpp\<close> and \<open>src/Server/VHost\<close>: the key of a listening
  socket, with the order the source gives it, and the choice of the virtual server for a request.
  A virtual server is its configuration; a pointer to one is its position in the vector.  The
  theorem says that the two nested loops compute a declarative choice: the first server with the
  requested name, and otherwise a default one.
\<close>

section \<open>Listen keys\<close>

datatype ListenKey = ListenKey (lk_interface: string) (lk_port: int)

text \<open>\<open>operator<\<close>: by the interface and then by the port.\<close>

definition listenKeyLess :: "ListenKey \<Rightarrow> ListenKey \<Rightarrow> bool" where
  "listenKeyLess a b =
     (if lk_interface a < lk_interface b then True
      else if lk_interface b < lk_interface a then False
      else lk_port a < lk_port b)"

instantiation ListenKey :: linorder
begin

definition less_ListenKey :: "ListenKey \<Rightarrow> ListenKey \<Rightarrow> bool" where
  "less_ListenKey = listenKeyLess"

definition less_eq_ListenKey :: "ListenKey \<Rightarrow> ListenKey \<Rightarrow> bool" where
  "less_eq_ListenKey a b = (a < b \<or> a = (b :: ListenKey))"

instance
  by standard
    (auto simp: less_ListenKey_def listenKeyLess_def less_eq_ListenKey_def
       intro: ListenKey.expand split: if_splits)

end

definition listenKeyToString :: "ListenKey \<Rightarrow> string" where
  "listenKeyToString key = lk_interface key @ '':'' @ show_int (lk_port key)"

section \<open>Choosing a virtual server\<close>

definition extractHostForMatch :: "string \<Rightarrow> string" where
  "extractHostForMatch s =
     (let trimmed = trim ws_chars s in
      if trimmed = [] then []
      else
        (let host = (case find_char trimmed (CHR '':'') 0 of
                       Some colon \<Rightarrow> take colon trimmed
                     | None \<Rightarrow> trimmed)
         in toLower (trim ws_chars host)))"

definition on_key :: "ListenKey \<Rightarrow> Listen \<Rightarrow> bool" where
  "on_key key l = (lst_interface l = lk_interface key \<and> lst_port l = lk_port key)"

text \<open>
  The inner loop over the listens of server \<open>i\<close>: \<open>Inl i\<close> is the early return, \<open>Inr\<close> the
  default when the loop ends.
\<close>

fun find_listens ::
  "ListenKey \<Rightarrow> string \<Rightarrow> nat \<Rightarrow> Listen list \<Rightarrow> nat option \<Rightarrow> nat + nat option" where
  "find_listens key headerHost i [] dflt = Inr dflt"
| "find_listens key headerHost i (l # ls) dflt =
     (if \<not> on_key key l then find_listens key headerHost i ls dflt
      else
        (let listenHost = extractHostForMatch (lst_host l);
             dflt1 = (if dflt = None \<or> listenHost = [] then Some i else dflt)
         in if headerHost \<noteq> [] \<and> listenHost \<noteq> [] \<and> listenHost = headerHost then Inl i
            else find_listens key headerHost i ls dflt1))"

fun find_vhosts ::
  "ListenKey \<Rightarrow> string \<Rightarrow> nat \<Rightarrow> Config list \<Rightarrow> nat option \<Rightarrow> nat option" where
  "find_vhosts key headerHost i [] dflt = dflt"
| "find_vhosts key headerHost i (v # vs) dflt =
     (case find_listens key headerHost i (cfg_listens v) dflt of
        Inl k \<Rightarrow> Some k
      | Inr dflt1 \<Rightarrow> find_vhosts key headerHost (i + 1) vs dflt1)"

definition find_vhost :: "Config list \<Rightarrow> ListenKey \<Rightarrow> string \<Rightarrow> nat option" where
  "find_vhost vhosts listenKey hostHeader =
     (if vhosts = [] then None
      else find_vhosts listenKey (extractHostForMatch hostHeader) 0 vhosts None)"

section \<open>The choice, stated without loops\<close>

definition listens_on :: "ListenKey \<Rightarrow> Config \<Rightarrow> bool" where
  "listens_on key v = list_ex (on_key key) (cfg_listens v)"

definition nameless_on :: "ListenKey \<Rightarrow> Config \<Rightarrow> bool" where
  "nameless_on key v =
     list_ex (\<lambda>l. on_key key l \<and> extractHostForMatch (lst_host l) = []) (cfg_listens v)"

definition named_on :: "ListenKey \<Rightarrow> string \<Rightarrow> Config \<Rightarrow> bool" where
  "named_on key h v =
     (h \<noteq> [] \<and> list_ex (\<lambda>l. on_key key l \<and> extractHostForMatch (lst_host l) = h) (cfg_listens v))"

text \<open>The last server with a nameless listen, or else the first that listens at all.\<close>

definition last_idx :: "('a \<Rightarrow> bool) \<Rightarrow> 'a list \<Rightarrow> nat option" where
  "last_idx P xs = find (\<lambda>i. P (xs ! i)) (rev [0..<length xs])"

definition default_vhost :: "ListenKey \<Rightarrow> Config list \<Rightarrow> nat option" where
  "default_vhost key vhosts =
     (case last_idx (nameless_on key) vhosts of
        Some i \<Rightarrow> Some i
      | None \<Rightarrow> idx_of (listens_on key) vhosts)"

lemma find_listens_eq:
  "find_listens key h i ls d =
     (if h \<noteq> [] \<and> list_ex (\<lambda>l. on_key key l \<and> extractHostForMatch (lst_host l) = h) ls then Inl i
      else Inr (if list_ex (\<lambda>l. on_key key l \<and> extractHostForMatch (lst_host l) = []) ls then Some i
                else if d = None \<and> list_ex (on_key key) ls then Some i else d))"
proof (induction ls arbitrary: d h)
  case (Cons l ls)
  show ?case
    by (cases "on_key key l"; cases "extractHostForMatch (lst_host l) = []"; cases "h = []")
      (simp_all add: Cons.IH Let_def)
qed simp

lemma last_idx_Nil [simp]: "last_idx P [] = None"
  by (simp add: last_idx_def)

lemma find_cong_set: "(\<And>x. x \<in> set xs \<Longrightarrow> P x = Q x) \<Longrightarrow> find P xs = find Q xs"
  by (induction xs) auto

lemma find_append: "find P (xs @ ys) = (case find P xs of None \<Rightarrow> find P ys | r \<Rightarrow> r)"
  by (induction xs) (auto split: option.splits)

lemma find_map_Suc: "find P (map Suc xs) = map_option Suc (find (\<lambda>i. P (Suc i)) xs)"
  by (induction xs) auto

lemma last_idx_Cons:
  "last_idx P (x # xs) =
     (case last_idx P xs of Some i \<Rightarrow> Some (Suc i) | None \<Rightarrow> if P x then Some 0 else None)"
proof -
  have "rev [0..<Suc (length xs)] = map Suc (rev [0..<length xs]) @ [0]"
    by (metis append_Cons append_Nil map_Suc_upt rev.simps(2) rev_map upt_conv_Cons zero_less_Suc)
  then show ?thesis by (simp add: last_idx_def find_append find_map_Suc split: option.splits)
qed

lemma plus_Suc_fun: "(+) (Suc i) = (\<lambda>x. Suc (i + x))"
  by auto

lemma find_vhosts_spec:
  "find_vhosts key h i vs d =
     (case idx_of (named_on key h) vs of
        Some k \<Rightarrow> Some (i + k)
      | None \<Rightarrow>
          (case last_idx (nameless_on key) vs of
             Some k \<Rightarrow> Some (i + k)
           | None \<Rightarrow> if d \<noteq> None then d else map_option ((+) i) (idx_of (listens_on key) vs)))"
proof (induction vs arbitrary: i d)
  case (Cons v vs)
  have step: "find_listens key h i (cfg_listens v) d =
      (if named_on key h v then Inl i
       else Inr (if nameless_on key v then Some i
                 else if d = None \<and> listens_on key v then Some i else d))"
    by (simp add: find_listens_eq named_on_def nameless_on_def listens_on_def)
  show ?case
  proof (cases "named_on key h v")
    case True
    then show ?thesis by (simp add: step)
  next
    case False
    let ?d = "if nameless_on key v then Some i else if d = None \<and> listens_on key v then Some i else d"
    have "find_vhosts key h i (v # vs) d = find_vhosts key h (i + 1) vs ?d"
      using False by (simp add: step)
    also have "\<dots> = (case idx_of (named_on key h) vs of
        Some k \<Rightarrow> Some (i + 1 + k)
      | None \<Rightarrow>
          (case last_idx (nameless_on key) vs of
             Some k \<Rightarrow> Some (i + 1 + k)
           | None \<Rightarrow> if ?d \<noteq> None then ?d else map_option ((+) (i + 1)) (idx_of (listens_on key) vs)))"
      by (rule Cons.IH)
    finally show ?thesis
      using False
      by (cases "idx_of (named_on key h) vs"; cases "last_idx (nameless_on key) vs"; cases d)
        (simp_all add: last_idx_Cons plus_Suc_fun option.map_comp comp_def del: idx_of_None)
  qed
qed simp

text \<open>C19: the server of a request is the first one that listens on the socket under the name in
  the Host header (compared without case, blanks and port); when none has that name it is the last
  one with a nameless listen on the socket, or else the first that listens on it.\<close>

theorem find_vhost_spec:
  "find_vhost vhosts key hostHeader =
     (case idx_of (named_on key (extractHostForMatch hostHeader)) vhosts of
        Some i \<Rightarrow> Some i
      | None \<Rightarrow> default_vhost key vhosts)"
  by (cases "vhosts = []") (simp_all add: find_vhost_def find_vhosts_spec default_vhost_def
      option.map_ident del: idx_of_None cong: option.case_cong)

end
