(* ===== verification/Context.thy ===== *)
theory Context
  imports RequestParser VHost
begin

text \<open>
  \<open>src/Middleware/Core/PipelineContext.cpp\<close> and the data of \<open>src/Server/Client/Client.cpp\<close> that
  the pipeline reads: the record that is handed from one middleware to the next.  The
  configuration that \<open>conf\<close> points to is a value, the session is the key of the session object,
  the active virtual server is its position.
\<close>

record Client =
  cl_fd :: int
  cl_ip :: string
  cl_port :: int
  cl_listenKey :: ListenKey
  cl_activeVhost :: nat

record PipelineContext =
  cx_conf :: Config
  cx_req :: HttpRequest
  cx_res :: HttpResponse
  cx_session :: "string option"
  cx_recvBuffer :: string
  cx_sendBuffer :: string
  cx_ownerClient :: Client
  cx_isCgi :: bool
  cx_parser :: RequestParser

definition new_PipelineContext :: "int \<Rightarrow> Config \<Rightarrow> size_t \<Rightarrow> Client \<Rightarrow> PipelineContext" where
  "new_PipelineContext now c maxHeaderBytes client =
     \<lparr>cx_conf = c, cx_req = new_HttpRequest c, cx_res = new_HttpResponse, cx_session = None,
      cx_recvBuffer = [], cx_sendBuffer = [], cx_ownerClient = client, cx_isCgi = False,
      cx_parser = new_RequestParser now maxHeaderBytes\<rparr>"

definition setConfig :: "Config \<Rightarrow> PipelineContext \<Rightarrow> PipelineContext" where
  "setConfig c ctx =
     ctx\<lparr>cx_conf := c,
         cx_req := (cx_req ctx)\<lparr>rq_maxBodySize := cfg_maxRequestBodySize c\<rparr>,
         cx_res := (cx_res ctx)\<lparr>rs_serverName := httpServerName appInfo,
                               rs_version := httpProtocolVersion appInfo\<rparr>\<rparr>"

definition setError :: "int \<Rightarrow> PipelineContext \<Rightarrow> PipelineContext" where
  "setError err ctx =
     ctx\<lparr>cx_res := (cx_res ctx)\<lparr>rs_statusCode := err\<rparr>,
         cx_parser := (cx_parser ctx)\<lparr>rp_errorCode := err\<rparr>\<rparr>"

text \<open>\<open>session\<close> is not among the fields that are reset.\<close>

definition reset_context :: "int \<Rightarrow> Config \<Rightarrow> PipelineContext \<Rightarrow> PipelineContext" where
  "reset_context now c ctx =
     ctx\<lparr>cx_conf := c, cx_req := clear_request c (cx_req ctx),
         cx_res := (clear_response (cx_res ctx))\<lparr>rs_serverName := httpServerName appInfo,
                               rs_version := httpProtocolVersion appInfo\<rparr>,
         cx_recvBuffer := [], cx_sendBuffer := [], cx_isCgi := False,
         cx_parser := reset_parser now (cx_parser ctx)\<rparr>"

abbreviation map_res :: "(HttpResponse \<Rightarrow> HttpResponse) \<Rightarrow> PipelineContext \<Rightarrow> PipelineContext" where
  "map_res f ctx \<equiv> ctx\<lparr>cx_res := f (cx_res ctx)\<rparr>"

text \<open>On a persistent connection a request finds the context that the first one found:
  nothing of the earlier request is left in it, except the session, which is kept (and except what
  the client sent too early, which is lost with the receive buffer).\<close>

theorem reset_context_new:
  "reset_context now c ctx =
    (new_PipelineContext now c (rp_maxHeaderBytes (cx_parser ctx)) (cx_ownerClient ctx))
      \<lparr>cx_session := cx_session ctx\<rparr>"
  by (simp add: reset_context_def new_PipelineContext_def clear_request_def new_HttpRequest_def
      clear_response_def new_HttpResponse_def reset_parser_def new_RequestParser_def)

end
