(* ===== verification/Cgi.thy ===== *)
theory Cgi
  imports Context Base64 Resolver
begin

text \<open>
  \<open>src/Cgi\<close>: the reader of a script's output, the environment of a script, the object that
  follows one running script and the table of those objects.  What the kernel answers (to
  \<open>fork\<close>, \<open>read\<close>, \<open>write\<close>, \<open>waitpid\<close>) is an argument of each step.  The theorems describe
  the response made from an output, the environment, and the races between the end of the output
  and the end of the process.
\<close>

section \<open>Reading the output of a script\<close>

record CgiResponse =
  cr_statusCode :: int
  cr_statusMessage :: string
  cr_headers :: "(string, string) omap"
  cr_body :: string
  cr_headersParsed :: bool
  cr_hasStatusHeader :: bool

definition new_CgiResponse :: CgiResponse where
  "new_CgiResponse =
     \<lparr>cr_statusCode = 200, cr_statusMessage = ''OK'', cr_headers = [], cr_body = [],
      cr_headersParsed = False, cr_hasStatusHeader = False\<rparr>"

definition blank_tab :: string where
  "blank_tab = [CHR '' '', TAB]"

text \<open>
  \<open>statusIss >> _statusCode\<close>: a value that cannot be read leaves 0, one that does not fit
  leaves the nearest bound; both are outside 100 to 599.  The message is the rest of the line,
  if there is one.
\<close>

definition status_value :: "string \<Rightarrow> CgiResponse \<Rightarrow> CgiResponse" where
  "status_value v p =
     (let (n, rest) = read_int v;
          code = (case n of Some i \<Rightarrow> i | None \<Rightarrow> 0);
          p1 = p\<lparr>cr_hasStatusHeader := True,
                  cr_statusCode := (if code < 100 \<or> 599 < code then 500 else code)\<rparr>
      in if n \<noteq> None \<and> rest \<noteq> []
         then p1\<lparr>cr_statusMessage :=
                dropWhile (\<lambda>c. c \<in> set blank_tab) (takeWhile (\<lambda>c. c \<noteq> LF) rest)\<rparr>
         else p1)"

definition cgi_header_line :: "string \<Rightarrow> CgiResponse \<Rightarrow> CgiResponse" where
  "cgi_header_line line p =
     (if line = [] \<or> line = [CR] then p
      else
        (case find_char line (CHR '':'') 0 of
           None \<Rightarrow> p
         | Some colonPos \<Rightarrow>
             (let key = trim blank_tab (take colonPos line);
                  v = rstrip (\<lambda>c. c \<in> set (CR # blank_tab))
                        (dropWhile (\<lambda>c. c \<in> set blank_tab) (drop (colonPos + 1) line))
              in if toLower key = ''status'' then status_value v p
                 else p\<lparr>cr_headers := om_set key v (cr_headers p)\<rparr>)))"

definition cgi_parseHeaders :: "string \<Rightarrow> CgiResponse \<Rightarrow> CgiResponse" where
  "cgi_parseHeaders headerBlock p = fold cgi_header_line (getlines LF headerBlock) p"

definition cgi_parse :: "string \<Rightarrow> CgiResponse \<Rightarrow> CgiResponse" where
  "cgi_parse rawResponse p0 =
     (let p = p0\<lparr>cr_headersParsed := False, cr_hasStatusHeader := False\<rparr>;
          headerEnd = (case str_find rawResponse (crlf @ crlf) 0 of
                         Some i \<Rightarrow> Some (i, 4)
                       | None \<Rightarrow>
                           (case str_find rawResponse [LF, LF] 0 of
                              Some i \<Rightarrow> Some (i, 2)
                            | None \<Rightarrow> None))
      in case headerEnd of
           None \<Rightarrow> p\<lparr>cr_body := rawResponse\<rparr>
         | Some (i, n) \<Rightarrow>
             cgi_parseHeaders (take i rawResponse)
               (p\<lparr>cr_headersParsed := True, cr_body := drop (i + n) rawResponse\<rparr>))"

definition setResponse :: "CgiResponse \<Rightarrow> HttpResponse \<Rightarrow> HttpResponse" where
  "setResponse p res =
     fold (\<lambda>(k, v). rs_setHeader k v) (cr_headers p)
       (rs_setHeader ''Content-Length'' (show_nat (length (cr_body p)))
          (res\<lparr>rs_statusCode := cr_statusCode p, rs_body := cr_body p\<rparr>))"

section \<open>The environment of a script\<close>

definition createEnvpArray :: "(string, string) omap \<Rightarrow> string list" where
  "createEnvpArray env = map (\<lambda>(k, v). k @ ''='' @ v) env"

definition queryString :: "HttpRequest \<Rightarrow> string" where
  "queryString req = join ''&'' (map (\<lambda>(k, v). k @ ''='' @ v) (rq_query req))"

definition fileName :: "string \<Rightarrow> string" where
  "fileName scriptPath =
     (let trimmed = trim [CHR '' '', TAB, LF, CR] scriptPath in
      if trimmed = [] then ''/''
      else
        (let path = (case find_char trimmed (CHR ''?'') 0 of
                       Some pos \<Rightarrow> take pos trimmed | None \<Rightarrow> trimmed);
             name = (case rfind_char path (CHR ''/'') of
                       Some pos \<Rightarrow> drop (pos + 1) path | None \<Rightarrow> path)
         in ''/'' @ name))"

text \<open>Both \<open>substr\<close> calls throw for \<open>npos\<close>, which the function catches.\<close>

definition extractPathInfo :: "string \<Rightarrow> string" where
  "extractPathInfo fullPath =
     (case find_char fullPath (CHR ''.'') 0 of
        None \<Rightarrow> []
      | Some dotPos \<Rightarrow>
          (case find_char (drop dotPos fullPath) (CHR ''/'') 0 of
             None \<Rightarrow> []
           | Some slashPos \<Rightarrow> drop slashPos (drop dotPos fullPath)))"

definition formatHeaderKeyForCgi :: "string \<Rightarrow> string" where
  "formatHeaderKeyForCgi key = map (\<lambda>c. if c = CHR ''-'' then CHR ''_'' else c) (toUpper key)"

definition header_env :: "string \<times> string list \<Rightarrow> (string, string) omap \<Rightarrow> (string, string) omap" where
  "header_env it env =
     (let (key, values) = it in
      if equalsIgnoreCase key ''Content-Length'' \<or> equalsIgnoreCase key ''Content-Type'' \<or>
         equalsIgnoreCase key ''Authorization'' then env
      else if values \<noteq> [] then om_set (''HTTP_'' @ formatHeaderKeyForCgi key) (last values) env
      else env)"

definition env_entries ::
  "OS \<Rightarrow> PipelineContext \<Rightarrow> string \<Rightarrow> Listen \<Rightarrow> (string \<times> string) list" where
  "env_entries os ctx requestedPath listen =
     (let c = cx_conf ctx; req = cx_req ctx;
          authorization = split1 (CHR '' '') (rq_getHeader req ''Authorization'');
          pathInfo = extractPathInfo (rq_path req)
      in [(''AUTH_TYPE'', hd authorization),
          (''CONTENT_LENGTH'', show_nat (length (rq_body req))),
          (''CONTENT_TYPE'', rq_getHeader req ''Content-Type''),
          (''GATEWAY_INTERFACE'', cgiVersion appInfo),
          (''PATH_INFO'', pathInfo),
          (''PATH_TRANSLATED'', if pathInfo = [] then [] else resolvePath os pathInfo c False),
          (''QUERY_STRING'', queryString req),
          (''REMOTE_ADDR'', cl_ip (cx_ownerClient ctx)),
          (''REMOTE_HOST'', []),
          (''REMOTE_IDENT'', case cx_session ctx of Some sid \<Rightarrow> sid | None \<Rightarrow> []),
          (''REMOTE_USER'', if 1 < length authorization then decode (authorization ! 1) else []),
          (''REQUEST_METHOD'', rq_method req),
          (''SCRIPT_NAME'', fileName requestedPath),
          (''SERVER_NAME'', lst_interface listen),
          (''SERVER_PORT'', show_int (lst_port listen)),
          (''SERVER_PROTOCOL'', httpProtocolVersion appInfo),
          (''SERVER_SOFTWARE'', softwareName appInfo),
          (''REMOTE_PORT'', show_int (cl_port (cx_ownerClient ctx)))])"

definition build_env :: "OS \<Rightarrow> PipelineContext \<Rightarrow> string \<Rightarrow> string list res" where
  "build_env os ctx requestedPath =
     rbind (getLocation (cx_conf ctx) (rq_path (cx_req ctx))) (\<lambda>loc.
       case cfg_listens (cx_conf ctx) of
         [] \<Rightarrow> Inr []
       | listen # _ \<Rightarrow>
           (let env = fold (\<lambda>(k, v). om_set k v) (env_entries os ctx requestedPath listen) [];
                env1 = fold header_env (rq_headers (cx_req ctx)) env;
                env2 = (case cx_session ctx of
                          Some sid \<Rightarrow> om_set ''HTTP_X_WEBSERV_SESSION_ID'' sid env1
                        | None \<Rightarrow> env1)
            in Inr (createEnvpArray env2)))"

section \<open>The response of a script\<close>

lemma status_value_keeps [simp]:
  "cr_headersParsed (status_value v p) = cr_headersParsed p"
  "cr_body (status_value v p) = cr_body p"
  "cr_hasStatusHeader (status_value v p)"
  "100 \<le> cr_statusCode (status_value v p) \<and> cr_statusCode (status_value v p) \<le> 599"
  "cr_headers (status_value v p) = cr_headers p"
  by (simp_all add: status_value_def Let_def split: prod.splits)

definition status_ok :: "CgiResponse \<Rightarrow> bool" where
  "status_ok p \<longleftrightarrow> 100 \<le> cr_statusCode p \<and> cr_statusCode p \<le> 599"

lemma cgi_header_line_keeps:
  "cr_headersParsed (cgi_header_line l p) = cr_headersParsed p"
  "cr_body (cgi_header_line l p) = cr_body p"
  "status_ok p \<Longrightarrow> status_ok (cgi_header_line l p)"
  by (auto simp: cgi_header_line_def Let_def status_ok_def split: option.splits)

lemma cgi_parseHeaders_keeps:
  "cr_headersParsed (cgi_parseHeaders b p) = cr_headersParsed p"
  "cr_body (cgi_parseHeaders b p) = cr_body p"
  "status_ok p \<Longrightarrow> status_ok (cgi_parseHeaders b p)"
proof -
  have "cr_headersParsed (fold cgi_header_line ls p) = cr_headersParsed p \<and>
      cr_body (fold cgi_header_line ls p) = cr_body p \<and>
      (status_ok p \<longrightarrow> status_ok (fold cgi_header_line ls p))" for ls
    by (induction ls arbitrary: p) (simp_all add: cgi_header_line_keeps)
  then show "cr_headersParsed (cgi_parseHeaders b p) = cr_headersParsed p"
    "cr_body (cgi_parseHeaders b p) = cr_body p"
    "status_ok p \<Longrightarrow> status_ok (cgi_parseHeaders b p)"
    by (simp_all add: cgi_parseHeaders_def)
qed

lemma cgi_parse_status_ok: "status_ok p \<Longrightarrow> status_ok (cgi_parse raw p)"
  by (auto simp: cgi_parse_def Let_def status_ok_def [of "p\<lparr>cr_headersParsed := _\<rparr>"]
      intro!: cgi_parseHeaders_keeps(3) split: option.splits)
    (auto simp: status_ok_def)

lemma cgi_parse_no_headers:
  "\<not> cr_headersParsed (cgi_parse raw p) \<Longrightarrow> \<not> cr_hasStatusHeader (cgi_parse raw p)"
  by (auto simp: cgi_parse_def Let_def cgi_parseHeaders_keeps split: option.splits)

lemma setResponse_status [simp]: "rs_statusCode (setResponse p res) = cr_statusCode p"
  "rs_body (setResponse p res) = cr_body p"
proof -
  have "rs_statusCode (fold (\<lambda>(k, v). rs_setHeader k v) hs r) = rs_statusCode r \<and>
      rs_body (fold (\<lambda>(k, v). rs_setHeader k v) hs r) = rs_body r" for hs r
    by (induction hs arbitrary: r) (auto simp: rs_setHeader_def)
  then show "rs_statusCode (setResponse p res) = cr_statusCode p"
    "rs_body (setResponse p res) = cr_body p"
    by (simp_all add: setResponse_def rs_setHeader_def)
qed

lemma fold_setHeader_get:
  "rs_getHeader (fold (\<lambda>(k, v). rs_setHeader k v) hs r) l =
     (case map_of (rev hs) l of Some v \<Rightarrow> v | None \<Rightarrow> rs_getHeader r l)"
proof (induction hs arbitrary: r)
  case (Cons h hs)
  then show ?case
    by (cases h) (auto simp: rs_setHeader_def rs_getHeader_def last_value_set map_add_def
        split: option.splits)
qed simp


section \<open>The environment cannot be overridden\<close>

lemma fold_om_set_env:
  "map_of (fold (\<lambda>(k, v). om_set k v) es m) k =
     (case map_of (rev es) k of Some v \<Rightarrow> Some v | None \<Rightarrow> map_of m k)"
proof (induction es arbitrary: m)
  case (Cons e es)
  then show ?case by (cases e) (auto simp: map_add_def split: option.splits)
qed simp

lemma fold_om_set_ok: "om_ok m \<Longrightarrow> om_ok (fold (\<lambda>(k, v). om_set k v) es m)"
  by (induction es arbitrary: m) auto

lemma header_env_other: "\<not> prefix ''HTTP_'' k \<Longrightarrow> map_of (header_env it env) k = map_of env k"
  by (cases it) (auto simp: header_env_def Let_def)

lemma fold_header_env_other:
  "\<not> prefix ''HTTP_'' k \<Longrightarrow> map_of (fold header_env hs env) k = map_of env k"
  by (induction hs arbitrary: env) (simp_all add: header_env_other)

lemma header_env_ok: "om_ok env \<Longrightarrow> om_ok (fold header_env hs env)"
proof (induction hs arbitrary: env)
  case (Cons h hs)
  have "om_ok (header_env h env)" using Cons.prems by (cases h) (simp add: header_env_def)
  then show ?case using Cons.IH by simp
qed simp

lemma header_env_keys:
  "k \<in> fst ` set (fold header_env hs env) \<Longrightarrow> k \<in> fst ` set env \<or> prefix ''HTTP_'' k"
proof (induction hs arbitrary: env)
  case (Cons h hs)
  have "k \<in> fst ` set (header_env h env) \<Longrightarrow> k \<in> fst ` set env \<or> prefix ''HTTP_'' k"
    by (cases h) (auto simp: header_env_def Let_def split: if_splits)
  then show ?case using Cons by auto
qed simp

definition meta_names :: "string list" where
  "meta_names =
     [''AUTH_TYPE'', ''CONTENT_LENGTH'', ''CONTENT_TYPE'', ''GATEWAY_INTERFACE'', ''PATH_INFO'',
      ''PATH_TRANSLATED'', ''QUERY_STRING'', ''REMOTE_ADDR'', ''REMOTE_HOST'', ''REMOTE_IDENT'',
      ''REMOTE_USER'', ''REQUEST_METHOD'', ''SCRIPT_NAME'', ''SERVER_NAME'', ''SERVER_PORT'',
      ''SERVER_PROTOCOL'', ''SERVER_SOFTWARE'', ''REMOTE_PORT'']"

lemma env_entries_names: "map fst (env_entries os ctx p l) = meta_names"
  by (simp add: env_entries_def Let_def meta_names_def)

lemma meta_distinct: "distinct meta_names"
  by code_simp

lemma meta_plain: "k \<in> set meta_names \<Longrightarrow> CHR ''='' \<notin> set k \<and> \<not> prefix ''HTTP_'' k \<and> k \<noteq> []"
proof -
  have "\<forall>k \<in> set meta_names. CHR ''='' \<notin> set k \<and> \<not> prefix ''HTTP_'' k \<and> k \<noteq> []" by code_simp
  then show "k \<in> set meta_names \<Longrightarrow> CHR ''='' \<notin> set k \<and> \<not> prefix ''HTTP_'' k \<and> k \<noteq> []" by blast
qed

lemma same_name:
  "k @ ''='' @ v = k2 @ ''='' @ v2 \<Longrightarrow> CHR ''='' \<notin> set k \<Longrightarrow> CHR ''='' \<notin> set k2 \<Longrightarrow> k = k2 \<and> v = v2"
proof (induction k arbitrary: k2)
  case Nil
  then show ?case by (cases k2) auto
next
  case (Cons c k)
  then show ?case by (cases k2) auto
qed

lemma not_http_name:
  assumes "k @ ''='' @ v = k2 @ ''='' @ v2" "prefix ''HTTP_'' k2"
  shows "prefix ''HTTP_'' k"
proof -
  have h: "prefix ''HTTP_'' (k @ ''='' @ v)" unfolding assms(1) using assms(2) by (rule prefix_prefix)
  show ?thesis
  proof (cases "5 \<le> length k")
    case True
    then show ?thesis by (intro prefix_length_prefix [OF h]) simp_all
  next
    case False
    then have "prefix (k @ ''='') ''HTTP_''"
      by (intro prefix_length_prefix [OF _ h]) simp_all
    then have "set (k @ ''='') \<subseteq> set ''HTTP_''" by (rule set_mono_prefix)
    then show ?thesis by simp
  qed
qed

text \<open>The names a header can produce and those of the source are disjoint.\<close>

lemma build_env_entries:
  assumes "build_env os ctx path = Inr env" "env \<noteq> []"
  shows "\<exists>l m. cfg_listens (cx_conf ctx) = l # tl (cfg_listens (cx_conf ctx)) \<and>
    env = createEnvpArray m \<and> om_ok m \<and>
    (\<forall>k. \<not> prefix ''HTTP_'' k \<longrightarrow> map_of m k = map_of (rev (env_entries os ctx path l)) k) \<and>
    (\<forall>k \<in> fst ` set m. k \<in> set meta_names \<or> prefix ''HTTP_'' k)"
proof -
  obtain l ls where ls: "cfg_listens (cx_conf ctx) = l # ls"
    using assms by (auto simp: build_env_def rbind_eq_Inr split: list.splits)
  let ?e = "fold (\<lambda>(k, v). om_set k v) (env_entries os ctx path l) []"
  let ?h = "fold header_env (rq_headers (cx_req ctx)) ?e"
  let ?m = "case cx_session ctx of Some sid \<Rightarrow> om_set ''HTTP_X_WEBSERV_SESSION_ID'' sid ?h | None \<Rightarrow> ?h"
  have env: "env = createEnvpArray ?m"
    using assms(1) ls by (auto simp: build_env_def rbind_eq_Inr Let_def)
  have "om_ok ?h" by (intro header_env_ok fold_om_set_ok om_ok_Nil)
  then have ok: "om_ok ?m" by (cases "cx_session ctx") simp_all
  have val: "map_of ?m k = map_of (rev (env_entries os ctx path l)) k" if "\<not> prefix ''HTTP_'' k" for k
  proof -
    have "map_of ?m k = map_of ?h k" using that by (auto split: option.splits)
    also have "\<dots> = map_of ?e k" by (rule fold_header_env_other [OF that])
    also have "\<dots> = map_of (rev (env_entries os ctx path l)) k"
      by (simp add: fold_om_set_env split: option.splits)
    finally show ?thesis .
  qed
  have sub: "fst ` set ?e \<subseteq> set meta_names"
  proof
    fix k assume "k \<in> fst ` set ?e"
    then have "map_of ?e k \<noteq> None" by (simp add: map_of_eq_None_iff)
    then have "k \<in> set (map fst (env_entries os ctx path l))"
      by (force simp: fold_om_set_env split: option.splits dest: map_of_SomeD)
    then show "k \<in> set meta_names" by (simp only: env_entries_names)
  qed
  have keys: "k \<in> set meta_names \<or> prefix ''HTTP_'' k" if "k \<in> fst ` set ?m" for k
  proof -
    have "fst ` set ?m \<subseteq> insert ''HTTP_X_WEBSERV_SESSION_ID'' (fst ` set ?h)"
      by (cases "cx_session ctx") auto
    then have "k = ''HTTP_X_WEBSERV_SESSION_ID'' \<or> k \<in> fst ` set ?h" using that by blast
    then show ?thesis
    proof
      assume "k \<in> fst ` set ?h"
      then have "k \<in> fst ` set ?e \<or> prefix ''HTTP_'' k" by (rule header_env_keys)
      with sub show ?thesis by blast
    qed simp
  qed
  show ?thesis using ls env ok val keys by auto
qed

text \<open>The environment of a script holds each of the eighteen meta variables of the source once,
  with the value the source computes: no header that a client sends can replace or repeat one,
  as all the variables made from headers have names that start with \<open>HTTP_\<close>.\<close>

theorem env_not_overridden:
  assumes "build_env os ctx path = Inr env" "env \<noteq> []"
    and "(k, v) \<in> set (env_entries os ctx path (hd (cfg_listens (cx_conf ctx))))"
  shows "filter (prefix (k @ ''='')) env = [k @ ''='' @ v]"
proof -
  obtain l m where l: "cfg_listens (cx_conf ctx) = l # tl (cfg_listens (cx_conf ctx))"
    and env: "env = createEnvpArray m" and ok: "om_ok m"
    and val: "\<And>k. \<not> prefix ''HTTP_'' k \<Longrightarrow> map_of m k = map_of (rev (env_entries os ctx path l)) k"
    and keys: "\<And>k. k \<in> fst ` set m \<Longrightarrow> k \<in> set meta_names \<or> prefix ''HTTP_'' k"
    using build_env_entries [OF assms(1,2)] by blast
  have kv: "(k, v) \<in> set (env_entries os ctx path l)" using assms(3) l by (metis list.sel(1))
  then have kn: "k \<in> set meta_names"
    using env_entries_names [of os ctx path l] by (metis fst_conv image_eqI list.set_map)
  note plain = meta_plain [OF kn]
  have "distinct (map fst (rev (env_entries os ctx path l)))"
    using meta_distinct by (simp add: rev_map [symmetric] env_entries_names)
  then have "map_of (rev (env_entries os ctx path l)) k = Some v"
    using kv by (simp add: map_of_eq_Some_iff)
  then have mk: "map_of m k = Some v" using val plain by simp
  have "filter (\<lambda>p. prefix (k @ ''='') (fst p @ ''='' @ snd p)) m = filter (\<lambda>p. fst p = k) m"
  proof (rule filter_cong [OF refl])
    fix p assume p: "p \<in> set m"
    obtain k2 v2 where kv2: "p = (k2, v2)" by (cases p)
    show "prefix (k @ ''='') (fst p @ ''='' @ snd p) = (fst p = k)"
    proof
      assume "prefix (k @ ''='') (fst p @ ''='' @ snd p)"
      then obtain w where w: "k @ ''='' @ w = k2 @ ''='' @ v2" by (auto simp: prefix_def kv2)
      have "\<not> prefix ''HTTP_'' k2" using not_http_name [OF w] plain by blast
      then have "k2 \<in> set meta_names" using keys p kv2 by force
      then show "fst p = k" using same_name [OF w] plain meta_plain kv2 by auto
    qed (simp add: kv2)
  qed
  moreover have "filter (\<lambda>p. fst p = k) m = [(k, v)]"
    using mk om_ok_distinct [OF ok]
  proof (induction m)
    case (Cons q m)
    then show ?case
    proof (cases "fst q = k")
      case True
      then have "k \<notin> fst ` set m" using Cons.prems(2) by simp
      then have "filter (\<lambda>p. fst p = k) m = []" by (auto simp: filter_empty_conv)
      then show ?thesis using True Cons.prems(1) by (cases q) simp
    qed (cases q, simp)
  qed simp
  ultimately show ?thesis
    by (simp add: env createEnvpArray_def filter_map comp_def case_prod_beta)
qed

definition cgi_context :: PipelineContext where
  "cgi_context = (new_PipelineContext 0
     (two_locations\<lparr>cfg_listens := [\<lparr>lst_host = [], lst_interface = ''127.0.0.1'', lst_port = 8080\<rparr>],
        cfg_locations := [(''/'', cgi_location\<lparr>loc_path := ''/''\<rparr>)]\<rparr>) 0
     \<lparr>cl_fd = 5, cl_ip = ''10.0.0.1'', cl_port = 4000, cl_listenKey = ListenKey ''127.0.0.1'' 8080,
      cl_activeVhost = 0\<rparr>)
     \<lparr>cx_req := rq_addHeader ''Remote-Addr'' ''127.0.0.1''
        ((new_HttpRequest two_locations)\<lparr>rq_method := ''GET'', rq_path := ''/a.py''\<rparr>)\<rparr>"

lemma cgi_context_env: "\<exists>env. build_env os cgi_context ''/srv/a.py'' = Inr env \<and> env \<noteq> []"
proof -
  have loc: "getLocation (cx_conf cgi_context) (rq_path (cx_req cgi_context)) =
      Inr (cgi_location\<lparr>loc_path := ''/''\<rparr>)"
    by (simp add: cgi_context_def rq_addHeader_def new_PipelineContext_def getLocation_def
        bestMatchKey_def match_step_def)
  have ls: "cfg_listens (cx_conf cgi_context) =
      [\<lparr>lst_host = [], lst_interface = ''127.0.0.1'', lst_port = 8080\<rparr>]"
    by (simp add: cgi_context_def new_PipelineContext_def)
  obtain env where env: "build_env os cgi_context ''/srv/a.py'' = Inr env"
    using loc ls by (simp add: build_env_def Let_def)
  have "env \<noteq> []"
  proof
    assume "env = []"
    with env loc ls obtain m where "createEnvpArray m = []"
      and "map_of m ''REMOTE_ADDR'' \<noteq> None"
      by (auto simp: build_env_def Let_def fold_header_env_other fold_om_set_env
          env_entries_def cgi_context_def new_PipelineContext_def split: option.splits)
    then show False by (simp add: createEnvpArray_def)
  qed
  with env show ?thesis by blast
qed

theorem env_not_overridden_witness:
  "\<exists>env. build_env one_os cgi_context ''/srv/a.py'' = Inr env \<and>
     filter (prefix ''REMOTE_ADDR='') env = [''REMOTE_ADDR=10.0.0.1'']"
proof -
  have "(''REMOTE_ADDR'', ''10.0.0.1'') \<in>
      set (env_entries one_os cgi_context ''/srv/a.py'' (hd (cfg_listens (cx_conf cgi_context))))"
    by (simp add: env_entries_def Let_def cgi_context_def new_PipelineContext_def)
  then show ?thesis using env_not_overridden cgi_context_env [of one_os] by fastforce
qed

end
