(* ===== verification/CgiRun.thy ===== *)
theory CgiRun
  imports Cgi
begin

text \<open>
  \<open>src/Cgi/CgiWorker.cpp\<close> and \<open>CgiManager.cpp\<close>: one running script and the table of them.
  A file descriptor that was closed is \<open>-1\<close>; the bytes that were written to the completion
  socket and not yet read are a counter, as the event loop calls back exactly while there are
  some.  What \<open>fork\<close>, \<open>read\<close>, \<open>write\<close> and \<open>waitpid\<close> answer is an argument.
\<close>

section \<open>A worker\<close>

datatype CgiState = CGI_INIT | CGI_SENDING_BODY | CGI_RECEIVING | CGI_COMPLETE | CGI_ERROR | CGI_TIMEOUT

record CgiWorker =
  wk_state :: CgiState
  wk_clientFd :: int
  wk_pid :: int
  wk_exitStatus :: int
  wk_exitStatusSet :: bool
  wk_outputComplete :: bool
  wk_completionNotified :: bool
  wk_requestBody :: string
  wk_bytesSent :: nat
  wk_scriptPath :: string
  wk_interpreterPath :: string
  wk_lastActivityTime :: int
  wk_timeoutSeconds :: int
  wk_responseBuffer :: string
  wk_responseParser :: CgiResponse
  wk_writeFd :: int
  wk_readFd :: int
  wk_errFd :: int
  wk_statusFd :: int
  wk_completionOut :: int
  wk_completionIn :: int
  wk_eventFds :: "int list"
  wk_keepCompletionEvent :: bool
  wk_completionBytes :: nat

text \<open>The descriptors of the parent's ends of the five socket pairs.\<close>

record PipeFds =
  pf_in :: int
  pf_out :: int
  pf_err :: int
  pf_status :: int
  pf_completeOut :: int
  pf_completeIn :: int

datatype spawn =
  No_sockets
| No_process PipeFds
| No_nonblocking int PipeFds
| Started int PipeFds

definition new_worker ::
  "int \<Rightarrow> int \<Rightarrow> Config \<Rightarrow> HttpRequest \<Rightarrow> string \<Rightarrow> string \<Rightarrow> CgiWorker" where
  "new_worker now clientFd conf req scriptPath interpreterPath =
     \<lparr>wk_state = CGI_INIT, wk_clientFd = clientFd, wk_pid = -1, wk_exitStatus = -1,
      wk_exitStatusSet = False, wk_outputComplete = False, wk_completionNotified = False,
      wk_requestBody = rq_body req, wk_bytesSent = 0, wk_scriptPath = scriptPath,
      wk_interpreterPath = interpreterPath, wk_lastActivityTime = now,
      wk_timeoutSeconds = sint (cfg_timeoutSec conf), wk_responseBuffer = [],
      wk_responseParser = new_CgiResponse, wk_writeFd = -1, wk_readFd = -1, wk_errFd = -1,
      wk_statusFd = -1, wk_completionOut = -1, wk_completionIn = -1,
      wk_eventFds = [-1, -1, -1, -1, -1], wk_keepCompletionEvent = False, wk_completionBytes = 0\<rparr>"

definition set_pipes :: "PipeFds \<Rightarrow> CgiWorker \<Rightarrow> CgiWorker" where
  "set_pipes p w =
     w\<lparr>wk_writeFd := pf_in p, wk_readFd := pf_out p, wk_errFd := pf_err p,
       wk_statusFd := pf_status p, wk_completionOut := pf_completeOut p,
       wk_completionIn := pf_completeIn p\<rparr>"

definition execute :: "int \<Rightarrow> spawn \<Rightarrow> CgiWorker \<Rightarrow> CgiWorker" where
  "execute now sp w =
     (case sp of
        No_sockets \<Rightarrow> w\<lparr>wk_state := CGI_ERROR, wk_outputComplete := True, wk_exitStatusSet := True\<rparr>
      | No_process p \<Rightarrow>
          w\<lparr>wk_state := CGI_ERROR, wk_statusFd := pf_status p,
            wk_outputComplete := True, wk_exitStatusSet := True\<rparr>
      | No_nonblocking pid p \<Rightarrow>
          w\<lparr>wk_pid := pid, wk_state := CGI_ERROR, wk_statusFd := pf_status p,
            wk_outputComplete := True\<rparr>
      | Started pid p \<Rightarrow>
          (let w1 = (set_pipes p w)\<lparr>wk_pid := pid\<rparr> in
           (if wk_requestBody w1 = [] then w1\<lparr>wk_writeFd := -1, wk_state := CGI_RECEIVING\<rparr>
            else w1\<lparr>wk_state := CGI_SENDING_BODY\<rparr>)\<lparr>wk_lastActivityTime := now\<rparr>))"

definition isFinished :: "CgiWorker \<Rightarrow> bool" where
  "isFinished w = (if wk_state w = CGI_TIMEOUT then True else wk_outputComplete w \<and> wk_exitStatusSet w)"

definition setExitStatus :: "int \<Rightarrow> CgiWorker \<Rightarrow> CgiWorker" where
  "setExitStatus status w = w\<lparr>wk_exitStatus := status, wk_exitStatusSet := True\<rparr>"

text \<open>The byte that wakes the completion event; nothing is written to a closed socket.\<close>

definition notify :: "CgiWorker \<Rightarrow> CgiWorker" where
  "notify w =
     (if isFinished w \<and> wk_completionIn w \<noteq> -1
      then w\<lparr>wk_completionBytes := wk_completionBytes w + 1\<rparr> else w)"

text \<open>An answer of \<open>read\<close>: nothing yet, an error, the end, or bytes.\<close>

datatype answer = Again | Error | Eof | Data string

definition max_cgi_response :: nat where
  "max_cgi_response = 10 * 1024 * 1024"

text \<open>
  \<open>handleRead\<close>; the second component says that \<open>cleanupFinishedWorkers\<close> of the manager is
  called on the way out.
\<close>

definition handleRead :: "int \<Rightarrow> answer \<Rightarrow> CgiWorker \<Rightarrow> CgiWorker \<times> bool" where
  "handleRead now a w =
     (if wk_readFd w < 0 then (w, False)
      else
        (case a of
           Again \<Rightarrow> (w, False)
         | Error \<Rightarrow> (w\<lparr>wk_state := CGI_ERROR, wk_readFd := -1, wk_outputComplete := True\<rparr>, True)
         | Eof \<Rightarrow>
             (let p = cgi_parse (wk_responseBuffer w) (wk_responseParser w);
                  st = (if \<not> cr_headersParsed p then CGI_ERROR
                        else if wk_state w \<noteq> CGI_ERROR \<and> wk_state w \<noteq> CGI_TIMEOUT then CGI_COMPLETE
                        else wk_state w)
              in ((notify (w\<lparr>wk_readFd := -1, wk_responseParser := p, wk_state := st,
                            wk_outputComplete := True\<rparr>))\<lparr>wk_lastActivityTime := now\<rparr>, False))
         | Data bytes \<Rightarrow>
             (if max_cgi_response < length (wk_responseBuffer w) + length bytes
              then (w\<lparr>wk_state := CGI_ERROR, wk_readFd := -1, wk_outputComplete := True\<rparr>, True)
              else (w\<lparr>wk_responseBuffer := wk_responseBuffer w @ bytes,
                     wk_lastActivityTime := now\<rparr>, False))))"

text \<open>An answer of \<open>write\<close>: retry, an error, or the number of bytes taken.\<close>

datatype written = Retry | Write_error | Taken nat

definition handleWrite :: "int \<Rightarrow> written \<Rightarrow> CgiWorker \<Rightarrow> CgiWorker" where
  "handleWrite now a w =
     (if wk_writeFd w < 0 then w
      else if wk_state w = CGI_ERROR \<or> wk_state w = CGI_TIMEOUT then w\<lparr>wk_writeFd := -1\<rparr>
      else if wk_requestBody w = [] then w\<lparr>wk_writeFd := -1, wk_state := CGI_RECEIVING\<rparr>
      else
        (case a of
           Retry \<Rightarrow> w
         | Write_error \<Rightarrow> w\<lparr>wk_state := CGI_ERROR, wk_writeFd := -1\<rparr>
         | Taken n \<Rightarrow>
             (let w1 = w\<lparr>wk_bytesSent := wk_bytesSent w + n\<rparr> in
              (if length (wk_requestBody w1) \<le> wk_bytesSent w1
               then w1\<lparr>wk_writeFd := -1, wk_state := CGI_RECEIVING\<rparr> else w1)
                \<lparr>wk_lastActivityTime := now\<rparr>)))"

definition handleReadErr :: "int \<Rightarrow> answer \<Rightarrow> CgiWorker \<Rightarrow> CgiWorker" where
  "handleReadErr now a w =
     (if wk_errFd w < 0 then w
      else
        (case a of
           Again \<Rightarrow> w
         | Error \<Rightarrow> w\<lparr>wk_errFd := -1\<rparr>
         | Eof \<Rightarrow> w\<lparr>wk_errFd := -1, wk_lastActivityTime := now\<rparr>
         | Data bytes \<Rightarrow> w\<lparr>wk_lastActivityTime := now\<rparr>))"

text \<open>What the child reports before \<open>execve\<close> succeeds: an error number, or nothing.\<close>

definition handleErrorExit :: "int option \<Rightarrow> CgiWorker \<Rightarrow> CgiWorker" where
  "handleErrorExit childErr w =
     (case childErr of
        None \<Rightarrow> w
      | Some err \<Rightarrow>
          notify ((setExitStatus err (w\<lparr>wk_state := CGI_ERROR\<rparr>))
            \<lparr>wk_statusFd := -1, wk_outputComplete := True, wk_exitStatusSet := True\<rparr>))"

section \<open>The table of workers\<close>

text \<open>
  \<open>_workers\<close> maps the address of a worker to the worker, in the order they were added; the two
  other maps hold addresses.
\<close>

record CgiManager =
  cm_maxWorkers :: nat
  cm_next :: nat
  cm_workers :: "(nat \<times> CgiWorker) list"
  cm_clientFdToWorker :: "(int, nat) omap"
  cm_pidToWorker :: "(int, nat) omap"
  cm_completedClients :: "int list"

definition new_CgiManager :: "nat \<Rightarrow> CgiManager" where
  "new_CgiManager maxWorkers =
     \<lparr>cm_maxWorkers = maxWorkers, cm_next = 0, cm_workers = [], cm_clientFdToWorker = [],
      cm_pidToWorker = [], cm_completedClients = []\<rparr>"

definition set_worker :: "nat \<Rightarrow> CgiWorker \<Rightarrow> CgiManager \<Rightarrow> CgiManager" where
  "set_worker a w m =
     m\<lparr>cm_workers := map (\<lambda>(b, v). if b = a then (b, w) else (b, v)) (cm_workers m)\<rparr>"

definition removeWorker :: "nat \<Rightarrow> CgiManager \<Rightarrow> CgiManager" where
  "removeWorker a m =
     (case map_of (cm_workers m) a of
        None \<Rightarrow> m
      | Some w \<Rightarrow>
          m\<lparr>cm_workers := filter (\<lambda>p. fst p \<noteq> a) (cm_workers m),
            cm_clientFdToWorker := om_erase (wk_clientFd w) (cm_clientFdToWorker m),
            cm_pidToWorker := (if 0 < wk_pid w then om_erase (wk_pid w) (cm_pidToWorker m)
                              else cm_pidToWorker m)\<rparr>)"

text \<open>The events that are registered for a new worker, by descriptor.\<close>

datatype cgi_event = Cgi_read nat | Cgi_write nat | Cgi_error nat | Cgi_end int nat | Cgi_error_exit nat

definition interpreter_for :: "Location \<Rightarrow> string \<Rightarrow> string" where
  "interpreter_for loc scriptVirtual =
     (case rfind_char scriptVirtual (CHR ''.'') of
        None \<Rightarrow> []
      | Some dotPos \<Rightarrow>
          (case map_of (loc_cgiConf loc) (drop dotPos scriptVirtual) of Some i \<Rightarrow> i | None \<Rightarrow> []))"

definition resolved_interpreter :: "string \<Rightarrow> string \<Rightarrow> string" where
  "resolved_interpreter interpreterPath scriptPath =
     (if interpreterPath \<noteq> [] \<and> hd interpreterPath \<noteq> CHR ''/''
      then (case rfind_char scriptPath (CHR ''/'') of
              Some lastSlashPos \<Rightarrow> take lastSlashPos scriptPath @ ''/'' @ interpreterPath
            | None \<Rightarrow> interpreterPath)
      else interpreterPath)"

text \<open>Everything that is checked before a process is started: the status, or what to run.\<close>

definition cgi_target :: "OS \<Rightarrow> PipelineContext \<Rightarrow> (int + string \<times> string) res" where
  "cgi_target os ctx =
     rbind (getLocation (cx_conf ctx) (rq_path (cx_req ctx))) (\<lambda>loc.
       case extractCgiScript (rq_path (cx_req ctx)) loc of
         None \<Rightarrow> Inr (Inl 404)
       | Some (scriptVirtual, pathInfo) \<Rightarrow>
           (let scriptPath = resolvePath os scriptVirtual (cx_conf ctx) False;
                interpreterPath = interpreter_for loc scriptVirtual;
                resolved = resolved_interpreter interpreterPath scriptPath
            in Inr (if scriptPath = [] then Inl 404
                    else if interpreterPath = [] then Inl 404
                    else if \<not> os_exists os resolved then Inl 404
                    else if \<not> os_executable os resolved then Inl 403
                    else Inr (scriptPath, interpreterPath))))"

definition worker_events :: "string \<Rightarrow> nat \<Rightarrow> CgiWorker \<Rightarrow> (int \<times> cgi_event) list" where
  "worker_events meth a w =
     [(wk_readFd w, Cgi_read a)] @
     (if wk_writeFd w \<noteq> -1 \<and> (meth = ''POST'' \<or> meth = ''PUT'') then [(wk_writeFd w, Cgi_write a)]
      else []) @
     [(wk_errFd w, Cgi_error a), (wk_completionOut w, Cgi_end (wk_clientFd w) a),
      (wk_statusFd w, Cgi_error_exit a)]"

text \<open>What follows a successful start: the worker is entered in both maps and its events are
  registered.\<close>

definition register_worker ::
  "string \<Rightarrow> nat \<Rightarrow> CgiWorker \<Rightarrow> CgiManager \<Rightarrow> CgiManager \<times> (int \<times> cgi_event) list" where
  "register_worker meth a w m =
     (let evs = worker_events meth a w;
          writeEventFd = (if length evs = 5 then wk_writeFd w else -1);
          w1 = w\<lparr>wk_eventFds := [wk_readFd w, writeEventFd, wk_errFd w, wk_statusFd w,
                                wk_completionOut w]\<rparr>;
          m1 = (set_worker a w1 m)
                 \<lparr>cm_clientFdToWorker := om_set (wk_clientFd w) a (cm_clientFdToWorker m),
                  cm_pidToWorker := om_set (wk_pid w) a (cm_pidToWorker m)\<rparr>
      in (if isFinished w1
          then m1\<lparr>cm_completedClients := cm_completedClients m1 @ [wk_clientFd w1]\<rparr>
          else m1, evs))"

definition createWorker ::
  "OS \<Rightarrow> int \<Rightarrow> spawn \<Rightarrow> PipelineContext \<Rightarrow> CgiManager \<Rightarrow>
     HttpResponse \<times> CgiManager \<times> (int \<times> cgi_event) list" where
  "createWorker os now sp ctx m =
     (let res = cx_res ctx in
      if cm_maxWorkers m \<le> length (cm_workers m) then (res\<lparr>rs_statusCode := 503\<rparr>, m, [])
      else
        (case cgi_target os ctx of
           Inl e \<Rightarrow> (res\<lparr>rs_statusCode := 500\<rparr>, m, [])
         | Inr (Inl status) \<Rightarrow> (res\<lparr>rs_statusCode := status\<rparr>, m, [])
         | Inr (Inr (scriptPath, interpreterPath)) \<Rightarrow>
             (let a = cm_next m;
                  w = execute now sp (new_worker now (cl_fd (cx_ownerClient ctx)) (cx_conf ctx)
                        (cx_req ctx) scriptPath interpreterPath);
                  m1 = m\<lparr>cm_next := a + 1, cm_workers := cm_workers m @ [(a, w)]\<rparr>
              in if wk_state w = CGI_ERROR then (res\<lparr>rs_statusCode := 500\<rparr>, m1, [])
                 else (res, register_worker (rq_method (cx_req ctx)) a w m1))))"

definition timed_out_worker :: "int \<Rightarrow> CgiWorker \<Rightarrow> bool" where
  "timed_out_worker now w = (wk_timeoutSeconds w < now - wk_lastActivityTime w)"

definition time_out_worker :: "nat \<Rightarrow> CgiManager \<Rightarrow> CgiManager" where
  "time_out_worker a m =
     (case map_of (cm_workers m) a of
        None \<Rightarrow> m
      | Some w \<Rightarrow>
          (let m1 = (if 0 < wk_pid w
                     then m\<lparr>cm_pidToWorker := om_erase (wk_pid w) (cm_pidToWorker m)\<rparr> else m);
               m2 = set_worker a (w\<lparr>wk_state := CGI_TIMEOUT\<rparr>) m1
           in m2\<lparr>cm_completedClients := cm_completedClients m2 @ [wk_clientFd w]\<rparr>))"

definition cleanupTimedOutWorkers :: "int \<Rightarrow> CgiManager \<Rightarrow> CgiManager" where
  "cleanupTimedOutWorkers now m =
     fold time_out_worker (map fst (filter (\<lambda>p. timed_out_worker now (snd p)) (cm_workers m))) m"

text \<open>How a process ended: by a signal, or with an exit status; the raw status comes with it.\<close>

datatype ended = Signalled | Exited int

definition reap_worker :: "ended \<Rightarrow> int \<Rightarrow> CgiWorker \<Rightarrow> CgiWorker" where
  "reap_worker e status w =
     (let w1 = setExitStatus status w;
          failed = (case e of Signalled \<Rightarrow> True
                    | Exited n \<Rightarrow> n \<noteq> 0 \<and> \<not> cr_hasStatusHeader (wk_responseParser w1));
          w2 = (if wk_state w1 \<noteq> CGI_TIMEOUT \<and> failed then w1\<lparr>wk_state := CGI_ERROR\<rparr> else w1)
      in notify w2)"

definition reap :: "int \<times> ended \<times> int \<Rightarrow> CgiManager \<Rightarrow> CgiManager" where
  "reap r m =
     (case r of (pid, e, status) \<Rightarrow>
        (case map_of (cm_pidToWorker m) pid of
           None \<Rightarrow> m
         | Some a \<Rightarrow>
             (case map_of (cm_workers m) a of
                None \<Rightarrow> m
              | Some w \<Rightarrow>
                  set_worker a (reap_worker e status w)
                    (m\<lparr>cm_pidToWorker := om_erase pid (cm_pidToWorker m)\<rparr>))))"

text \<open>The children that \<open>waitpid\<close> returns, in order.\<close>

definition cleanupFinishedWorkers :: "(int \<times> ended \<times> int) list \<Rightarrow> CgiManager \<Rightarrow> CgiManager" where
  "cleanupFinishedWorkers children m = fold reap children m"

definition worker_response :: "CgiWorker \<Rightarrow> HttpResponse \<Rightarrow> HttpResponse" where
  "worker_response w res =
     (if wk_state w = CGI_COMPLETE then setResponse (wk_responseParser w) res
      else if wk_state w = CGI_TIMEOUT then res\<lparr>rs_statusCode := 504\<rparr>
      else if cr_hasStatusHeader (wk_responseParser w) then setResponse (wk_responseParser w) res
      else res\<lparr>rs_statusCode := 500\<rparr>)"

definition isCgiComplete :: "int \<Rightarrow> HttpResponse \<Rightarrow> CgiManager \<Rightarrow> bool \<times> HttpResponse \<times> CgiManager" where
  "isCgiComplete clientFd res m =
     (case map_of (cm_clientFdToWorker m) clientFd of
        None \<Rightarrow> (False, res, m)
      | Some a \<Rightarrow>
          (case map_of (cm_workers m) a of
             None \<Rightarrow> (False, res, m)
           | Some w \<Rightarrow>
               (if \<not> isFinished w then (False, res, m)
                else (True, worker_response w res, removeWorker a m))))"

definition abortClient :: "int \<Rightarrow> CgiManager \<Rightarrow> CgiManager" where
  "abortClient clientFd m =
     (case map_of (cm_clientFdToWorker m) clientFd of
        None \<Rightarrow> m
      | Some a \<Rightarrow>
          (case map_of (cm_workers m) a of
             None \<Rightarrow> m
           | Some w \<Rightarrow>
               removeWorker a
                 (if 0 < wk_pid w then m\<lparr>cm_pidToWorker := om_erase (wk_pid w) (cm_pidToWorker m)\<rparr>
                  else m)))"

section \<open>The end of the output and the end of the process\<close>

definition running :: "CgiWorker \<Rightarrow> bool" where
  "running w \<longleftrightarrow> (wk_state w = CGI_SENDING_BODY \<or> wk_state w = CGI_RECEIVING) \<and>
     0 \<le> wk_readFd w \<and> wk_completionIn w \<noteq> -1 \<and> wk_completionBytes w = 0 \<and>
     \<not> wk_outputComplete w \<and> \<not> wk_exitStatusSet w \<and> \<not> cr_hasStatusHeader (wk_responseParser w)"

lemma notify_fields [simp]:
  "wk_state (notify w) = wk_state w"
  "wk_outputComplete (notify w) = wk_outputComplete w"
  "wk_exitStatusSet (notify w) = wk_exitStatusSet w"
  "wk_responseParser (notify w) = wk_responseParser w"
  "wk_readFd (notify w) = wk_readFd w"
  "wk_completionIn (notify w) = wk_completionIn w"
  "wk_responseBuffer (notify w) = wk_responseBuffer w"
  "wk_clientFd (notify w) = wk_clientFd w"
  "wk_pid (notify w) = wk_pid w"
  by (simp_all add: notify_def)

lemma isFinished_notify [simp]: "isFinished (notify w) = isFinished w"
  by (simp add: isFinished_def)

lemma notify_bytes:
  "wk_completionBytes (notify w) =
     wk_completionBytes w + (if isFinished w \<and> wk_completionIn w \<noteq> -1 then 1 else 0)"
  by (simp add: notify_def)

text \<open>What the two steps do to the fields that matter.\<close>

definition eof_state :: "CgiResponse \<Rightarrow> CgiState \<Rightarrow> CgiState" where
  "eof_state p st =
     (if \<not> cr_headersParsed p then CGI_ERROR
      else if st \<noteq> CGI_ERROR \<and> st \<noteq> CGI_TIMEOUT then CGI_COMPLETE else st)"

lemma eof_fields:
  assumes "0 \<le> wk_readFd w" "p = cgi_parse (wk_responseBuffer w) (wk_responseParser w)"
    and "v = fst (handleRead t Eof w)"
  shows "wk_state v = eof_state p (wk_state w)" "wk_responseParser v = p" "wk_outputComplete v"
    and "wk_exitStatusSet v = wk_exitStatusSet w" "wk_completionIn v = wk_completionIn w"
    and "wk_completionBytes v = wk_completionBytes w +
      (if (eof_state p (wk_state w) = CGI_TIMEOUT \<or> wk_exitStatusSet w) \<and> wk_completionIn w \<noteq> -1
       then 1 else 0)"
  using assms(1) unfolding assms(2,3)
  by (simp_all add: handleRead_def Let_def notify_bytes isFinished_def eof_state_def)

definition reap_state :: "ended \<Rightarrow> bool \<Rightarrow> CgiState \<Rightarrow> CgiState" where
  "reap_state e hasStatus st =
     (if st \<noteq> CGI_TIMEOUT \<and> (case e of Signalled \<Rightarrow> True | Exited n \<Rightarrow> n \<noteq> 0 \<and> \<not> hasStatus)
      then CGI_ERROR else st)"

lemma reap_fields:
  assumes "v = reap_worker e status w"
  shows "wk_state v = reap_state e (cr_hasStatusHeader (wk_responseParser w)) (wk_state w)"
    and "wk_responseParser v = wk_responseParser w" "wk_outputComplete v = wk_outputComplete w"
    and "wk_exitStatusSet v" "wk_completionIn v = wk_completionIn w" "wk_readFd v = wk_readFd w"
    and "wk_responseBuffer v = wk_responseBuffer w"
    and "wk_completionBytes v = wk_completionBytes w +
      (if (wk_state v = CGI_TIMEOUT \<or> wk_outputComplete w) \<and> wk_completionIn w \<noteq> -1 then 1 else 0)"
  unfolding assms
  by (cases e; simp add: reap_worker_def Let_def notify_bytes isFinished_def reap_state_def
      setExitStatus_def)+

text \<open>When a script closes its output and ends, it does not matter which the server sees
  first: in both orders the worker is finished, the client is woken by exactly one byte, and the
  response is the same.\<close>

theorem cgi_order_independent:
  assumes "running w"
  shows "let a = reap_worker e status (fst (handleRead t Eof w));
             b = fst (handleRead t Eof (reap_worker e status w))
    in isFinished a \<and> isFinished b \<and> wk_completionBytes a = 1 \<and> wk_completionBytes b = 1 \<and>
       worker_response a res = worker_response b res"
proof -
  define p where "p = cgi_parse (wk_responseBuffer w) (wk_responseParser w)"
  define u where "u = fst (handleRead t Eof w)"
  define a where "a = reap_worker e status u"
  define v where "v = reap_worker e status w"
  define b where "b = fst (handleRead t Eof v)"
  have none: "\<not> cr_headersParsed p \<Longrightarrow> \<not> cr_hasStatusHeader p"
    unfolding p_def by (rule cgi_parse_no_headers)
  from assms have w: "wk_state w = CGI_SENDING_BODY \<or> wk_state w = CGI_RECEIVING" "0 \<le> wk_readFd w"
      "wk_completionIn w \<noteq> -1" "wk_completionBytes w = 0" "\<not> wk_outputComplete w"
      "\<not> wk_exitStatusSet w" "\<not> cr_hasStatusHeader (wk_responseParser w)"
    by (simp_all add: running_def)
  note u = eof_fields [OF w(2) p_def u_def]
  note a = reap_fields [OF a_def]
  note v = reap_fields [OF v_def]
  have rv: "0 \<le> wk_readFd v" "p = cgi_parse (wk_responseBuffer v) (wk_responseParser v)"
    using w(2) by (simp_all add: v p_def)
  note b = eof_fields [OF rv b_def]
  have sa: "wk_state a = reap_state e (cr_hasStatusHeader p) (eof_state p (wk_state w))"
    by (simp add: a u)
  have sb: "wk_state b = eof_state p (reap_state e False (wk_state w))"
    using w(7) by (simp add: b v)
  have nt: "wk_state a \<noteq> CGI_TIMEOUT" "wk_state b \<noteq> CGI_TIMEOUT" "wk_state u \<noteq> CGI_TIMEOUT"
      "wk_state v \<noteq> CGI_TIMEOUT"
    using w(1) by (auto simp: sa sb u v reap_state_def eof_state_def)
  have "isFinished a" "isFinished b" by (simp_all add: isFinished_def a b u v)
  moreover have "wk_completionBytes a = 1" using a(8) u w nt by simp
  moreover have "wk_completionBytes b = 1" using b(6) v w nt by simp
  moreover have "worker_response a res = worker_response b res"
    using none w(1)
    by (cases e) (auto simp: worker_response_def sa sb a b u v reap_state_def eof_state_def)
  ultimately show ?thesis by (simp add: Let_def a_def b_def u_def v_def)
qed

definition started_worker :: CgiWorker where
  "started_worker = execute 0
     (Started 100 \<lparr>pf_in = 10, pf_out = 11, pf_err = 12, pf_status = 13, pf_completeOut = 14,
                  pf_completeIn = 15\<rparr>)
     ((new_worker 0 5 two_locations (new_HttpRequest two_locations) ''/srv/a.py'' ''/bin/py'')
        \<lparr>wk_responseBuffer := ''Status: 404'' @ [LF, LF] @ ''x''\<rparr>)"

lemma started_running: "running started_worker"
  by (simp add: started_worker_def execute_def Let_def new_worker_def new_HttpRequest_def
      set_pipes_def running_def new_CgiResponse_def)

theorem cgi_order_independent_witness:
  "worker_response (reap_worker (Exited 1) 256 (fst (handleRead 1 Eof started_worker))) new_HttpResponse =
   worker_response (fst (handleRead 1 Eof (reap_worker (Exited 1) 256 started_worker))) new_HttpResponse"
  using cgi_order_independent [OF started_running, of "Exited 1" 256 1] by (simp add: Let_def)

section \<open>A script that runs out of time\<close>

lemma set_worker_lookup:
  "map_of (cm_workers (set_worker a w m)) b =
     (if b = a \<and> map_of (cm_workers m) a \<noteq> None then Some w else map_of (cm_workers m) b)"
proof -
  have "map_of (map (\<lambda>(b, v). if b = a then (b, w) else (b, v)) ws) b =
      (if b = a \<and> map_of ws a \<noteq> None then Some w else map_of ws b)" for ws
    by (induction ws) auto
  then show ?thesis by (simp add: set_worker_def)
qed

lemma set_worker_maps [simp]:
  "cm_clientFdToWorker (set_worker a w m) = cm_clientFdToWorker m"
  "cm_pidToWorker (set_worker a w m) = cm_pidToWorker m"
  "map fst (cm_workers (set_worker a w m)) = map fst (cm_workers m)"
  "cm_maxWorkers (set_worker a w m) = cm_maxWorkers m"
  "cm_next (set_worker a w m) = cm_next m"
  by (auto simp: set_worker_def)

lemma reap_other:
  assumes "\<forall>pid. map_of (cm_pidToWorker m) pid \<noteq> Some a"
  shows "map_of (cm_workers (reap r m)) a = map_of (cm_workers m) a \<and>
    (\<forall>pid. map_of (cm_pidToWorker (reap r m)) pid \<noteq> Some a)"
proof -
  obtain pid e st where r: "r = (pid, e, st)" by (cases r)
  show ?thesis
  proof (cases "map_of (cm_pidToWorker m) pid")
    case None
    then show ?thesis using assms by (simp add: reap_def r)
  next
    case (Some b)
    with assms have "b \<noteq> a" by blast
    then show ?thesis using assms Some
      by (auto simp: reap_def r set_worker_lookup split: option.splits)
  qed
qed

lemma reaps_other:
  "\<forall>pid. map_of (cm_pidToWorker m) pid \<noteq> Some a \<Longrightarrow>
    map_of (cm_workers (cleanupFinishedWorkers rs m)) a = map_of (cm_workers m) a"
proof (induction rs arbitrary: m)
  case (Cons r rs)
  from Cons.IH [of "reap r m"] reap_other [OF Cons.prems, of r] show ?case
    by (simp add: cleanupFinishedWorkers_def)
qed (simp add: cleanupFinishedWorkers_def)


definition silent_manager :: CgiManager where
  "silent_manager = (new_CgiManager 8)
     \<lparr>cm_next := 1, cm_workers := [(0, started_worker\<lparr>wk_responseBuffer := []\<rparr>)],
      cm_clientFdToWorker := [(5, 0)], cm_pidToWorker := [(100, 0)]\<rparr>"

section \<open>Workers that could not be started\<close>

text \<open>Everything the server does to the table, with any answers of the kernel.\<close>

inductive manager_step :: "CgiManager \<Rightarrow> CgiManager \<Rightarrow> bool" where
  create: "createWorker os now sp ctx m = (res, m2, evs) \<Longrightarrow> manager_step m m2"
| event: "map_of (cm_workers m) a = Some w \<Longrightarrow> wk_clientFd v = wk_clientFd w \<Longrightarrow> wk_pid v = wk_pid w \<Longrightarrow>
    manager_step m (set_worker a v m)"
| timeouts: "manager_step m (cleanupTimedOutWorkers now m)"
| reaped: "manager_step m (cleanupFinishedWorkers children m)"
| finished: "isCgiComplete clientFd res m = (b, res2, m2) \<Longrightarrow> manager_step m m2"
| aborted: "manager_step m (abortClient clientFd m)"

definition lost :: "nat \<Rightarrow> CgiManager \<Rightarrow> bool" where
  "lost a m \<longleftrightarrow> a \<in> fst ` set (cm_workers m) \<and> a < cm_next m \<and> a \<notin> snd ` set (cm_clientFdToWorker m)"

lemma snd_om_set: "snd ` set (om_set k v m) \<subseteq> insert v (snd ` set m)"
  by (induction m) auto

lemma snd_om_erase: "snd ` set (om_erase k m) \<subseteq> snd ` set m"
  by (auto simp: om_erase_def)

lemma lost_set_worker [simp]: "lost a (set_worker b v m) = lost a m"
  by (simp add: lost_def flip: set_map)

lemma lost_pids [simp]: "lost a (m\<lparr>cm_pidToWorker := x\<rparr>) = lost a m"
  "lost a (m\<lparr>cm_completedClients := y\<rparr>) = lost a m"
  by (simp_all add: lost_def)

lemma lost_time_out: "lost a m \<Longrightarrow> lost a (time_out_worker b m)"
  by (auto simp: time_out_worker_def Let_def split: option.splits)

lemma lost_reap: "lost a m \<Longrightarrow> lost a (reap r m)"
  by (cases r) (auto simp: reap_def split: option.splits)

lemma lost_remove:
  assumes "lost a m" "a \<noteq> b"
  shows "lost a (removeWorker b m)"
proof (cases "map_of (cm_workers m) b")
  case None
  then show ?thesis using assms by (simp add: removeWorker_def)
next
  case (Some w)
  have "a \<notin> snd ` set (om_erase (wk_clientFd w) (cm_clientFdToWorker m))"
    using assms(1) snd_om_erase [of "wk_clientFd w" "cm_clientFdToWorker m"] by (auto simp: lost_def)
  then show ?thesis using assms Some by (auto simp: removeWorker_def lost_def)
qed

lemma lost_mapped: "lost a m \<Longrightarrow> map_of (cm_clientFdToWorker m) fd = Some b \<Longrightarrow> a \<noteq> b"
  by (force simp: lost_def dest: map_of_SomeD)

lemma register_worker_fields:
  assumes "register_worker meth b w m = (m2, evs)"
  shows "fst ` set (cm_workers m2) = fst ` set (cm_workers m)" "cm_next m2 = cm_next m"
    and "cm_clientFdToWorker m2 = om_set (wk_clientFd w) b (cm_clientFdToWorker m)"
    and "cm_maxWorkers m2 = cm_maxWorkers m"
proof -
  have "m2 = (fst (register_worker meth b w m))" using assms by simp
  then show "fst ` set (cm_workers m2) = fst ` set (cm_workers m)" "cm_next m2 = cm_next m"
    "cm_clientFdToWorker m2 = om_set (wk_clientFd w) b (cm_clientFdToWorker m)"
    "cm_maxWorkers m2 = cm_maxWorkers m"
    by (simp_all add: register_worker_def Let_def flip: set_map)
qed

lemma createWorker_cases:
  assumes "createWorker os now sp ctx m = (res, m2, evs)"
  obtains (refused) "m2 = m"
  | (failed) w where "m2 = m\<lparr>cm_next := cm_next m + 1, cm_workers := cm_workers m @ [(cm_next m, w)]\<rparr>"
      "rs_statusCode res = 500"
  | (started) w where "register_worker (rq_method (cx_req ctx)) (cm_next m) w
      (m\<lparr>cm_next := cm_next m + 1, cm_workers := cm_workers m @ [(cm_next m, w)]\<rparr>) = (m2, evs)"
      "wk_state w \<noteq> CGI_ERROR"
  using assms
  by (auto simp: createWorker_def Let_def split: if_splits sum.splits prod.splits)

lemma lost_create:
  assumes "lost a m" "createWorker os now sp ctx m = (res, m2, evs)"
  shows "lost a m2"
proof -
  have keep: "a \<notin> snd ` set (om_set k (cm_next m) (cm_clientFdToWorker m))" for k
    using assms(1) snd_om_set [of k "cm_next m" "cm_clientFdToWorker m"] by (auto simp: lost_def)
  show ?thesis
    using assms(2)
  proof (cases rule: createWorker_cases)
    case refused
    with assms(1) show ?thesis by simp
  next
    case failed
    with assms(1) show ?thesis by (simp add: lost_def)
  next
    case started
    from register_worker_fields [OF started(1)] keep assms(1) show ?thesis by (simp add: lost_def)
  qed
qed

lemma lost_step: "manager_step m m2 \<Longrightarrow> lost a m \<Longrightarrow> lost a m2"
proof (induction rule: manager_step.induct)
  case (create os now sp ctx m res m2 evs)
  then show ?case using lost_create by blast
next
  case (timeouts m now)
  have "lost a m \<Longrightarrow> lost a (fold time_out_worker as m)" for as
    by (induction as arbitrary: m) (simp_all add: lost_time_out)
  with timeouts show ?case by (simp add: cleanupTimedOutWorkers_def)
next
  case (reaped m children)
  have "lost a m \<Longrightarrow> lost a (fold reap rs m)" for rs
    by (induction rs arbitrary: m) (simp_all add: lost_reap)
  with reaped show ?case by (simp add: cleanupFinishedWorkers_def)
next
  case (finished clientFd res m b res2 m2)
  then show ?case
    using lost_mapped [of a m clientFd] lost_remove
    by (auto simp: isCgiComplete_def split: option.splits if_splits)
next
  case (aborted m clientFd)
  then show ?case
    using lost_mapped [of a m clientFd] lost_remove
    by (auto simp: abortClient_def split: option.splits)
qed simp

lemma max_step: "manager_step m m2 \<Longrightarrow> cm_maxWorkers m2 = cm_maxWorkers m"
proof (induction rule: manager_step.induct)
  case (create os now sp ctx m res m2 evs)
  then show ?case
    by (cases rule: createWorker_cases) (simp_all add: register_worker_fields(4))
next
  case (timeouts m now)
  have t: "cm_maxWorkers (time_out_worker b m) = cm_maxWorkers m" for b m
    by (simp add: time_out_worker_def Let_def split: option.splits)
  have "cm_maxWorkers (fold time_out_worker as m) = cm_maxWorkers m" for as
    by (induction as arbitrary: m) (simp_all add: t)
  then show ?case by (simp add: cleanupTimedOutWorkers_def)
next
  case (reaped m children)
  have r: "cm_maxWorkers (reap r m) = cm_maxWorkers m" for r m
    by (cases r) (simp add: reap_def split: option.splits)
  have "cm_maxWorkers (fold reap rs m) = cm_maxWorkers m" for rs
    by (induction rs arbitrary: m) (simp_all add: r)
  then show ?case by (simp add: cleanupFinishedWorkers_def)
qed (auto simp: isCgiComplete_def abortClient_def removeWorker_def split: option.splits if_splits)

text \<open>A worker whose process could not be started (no socket pair, or no \<open>fork\<close>) stays in the
  table for ever and counts against the limit: once as many of them as the limit allows have piled
  up, every CGI request is refused with 503, whatever happens afterwards.\<close>

theorem cgi_failed_starts_exhaust:
  assumes "manager_step\<^sup>*\<^sup>* m m2" "\<forall>a \<in> A. lost a m" "finite A" "cm_maxWorkers m \<le> card A"
  shows "fst (createWorker os now sp ctx m2) = (cx_res ctx)\<lparr>rs_statusCode := 503\<rparr>"
proof -
  have inv: "(\<forall>a \<in> A. lost a m2) \<and> cm_maxWorkers m2 = cm_maxWorkers m"
    using assms(1,2) by (induction rule: rtranclp_induct) (auto simp: lost_step max_step)
  then have "A \<subseteq> fst ` set (cm_workers m2)" by (auto simp: lost_def)
  then have "card A \<le> card (fst ` set (cm_workers m2))" by (intro card_mono) simp_all
  also have "\<dots> \<le> length (cm_workers m2)"
    by (metis card_image_le card_length finite_set le_trans)
  finally have "cm_maxWorkers m2 \<le> length (cm_workers m2)" using inv assms(4) by simp
  then show ?thesis by (simp add: createWorker_def)
qed

text \<open>Such a worker is what a failed start leaves behind.\<close>

lemma failed_start_lost:
  assumes "createWorker os now No_sockets ctx m = (res, m2, evs)" "m2 \<noteq> m"
    and "cm_next m \<notin> snd ` set (cm_clientFdToWorker m)"
  shows "lost (cm_next m) m2"
proof -
  have "\<exists>w. m2 = m\<lparr>cm_next := cm_next m + 1, cm_workers := cm_workers m @ [(cm_next m, w)]\<rparr>"
    using assms(1,2)
    by (auto simp: createWorker_def Let_def execute_def split: if_splits sum.splits prod.splits)
  with assms(3) show ?thesis by (auto simp: lost_def)
qed

definition cgi_os :: OS where
  "cgi_os = one_os\<lparr>os_realpath := (\<lambda>p. Some (''/srv/'' @ p))\<rparr>"

lemma cgi_target_example: "cgi_target cgi_os cgi_context = Inr (Inr (''/srv/a.py'', ''/usr/bin/python3''))"
proof -
  have loc: "getLocation (cx_conf cgi_context) (rq_path (cx_req cgi_context)) =
      Inr (cgi_location\<lparr>loc_path := ''/''\<rparr>)"
    by (simp add: cgi_context_def rq_addHeader_def new_PipelineContext_def getLocation_def
        bestMatchKey_def match_step_def)
  have path: "rq_path (cx_req cgi_context) = ''/a.py''"
    by (simp add: cgi_context_def rq_addHeader_def)
  have script: "extractCgiScript ''/a.py'' (cgi_location\<lparr>loc_path := ''/''\<rparr>) = Some (''/a.py'', [])"
    by code_simp
  have interp: "interpreter_for (cgi_location\<lparr>loc_path := ''/''\<rparr>) ''/a.py'' = ''/usr/bin/python3''"
    by code_simp
  have best: "best_root (cfg_locations (cx_conf cgi_context)) ''/a.py'' = (''/'', [])"
    by code_simp
  have "resolvePath cgi_os ''/a.py'' (cx_conf cgi_context) False = ''/srv/a.py''"
    by (simp add: resolvePath_def best with_slash_def drop_slash_def getAbsolutePath_def cgi_os_def)
  then show ?thesis
    using loc by (simp add: cgi_target_def path script interp resolved_interpreter_def cgi_os_def one_os_def)
qed

theorem cgi_failed_starts_exhaust_witness:
  "\<exists>m. snd (createWorker cgi_os 0 No_sockets cgi_context (new_CgiManager 1)) = (m, []) \<and>
     fst (createWorker cgi_os 9 No_sockets cgi_context m) = (cx_res cgi_context)\<lparr>rs_statusCode := 503\<rparr>"
proof -
  let ?w = "execute 0 No_sockets (new_worker 0 5 (cx_conf cgi_context) (cx_req cgi_context)
      ''/srv/a.py'' ''/usr/bin/python3'')"
  let ?m = "(new_CgiManager 1)\<lparr>cm_next := 1, cm_workers := [(0, ?w)]\<rparr>"
  have fd: "cl_fd (cx_ownerClient cgi_context) = 5"
    by (simp add: cgi_context_def new_PipelineContext_def)
  have c: "createWorker cgi_os 0 No_sockets cgi_context (new_CgiManager 1) =
      ((cx_res cgi_context)\<lparr>rs_statusCode := 500\<rparr>, ?m, [])"
    by (simp add: createWorker_def cgi_target_example Let_def fd new_CgiManager_def)
      (simp add: execute_def)
  have "lost 0 ?m" by (simp add: lost_def new_CgiManager_def)
  moreover have "manager_step\<^sup>*\<^sup>* ?m ?m" by simp
  moreover have "cm_maxWorkers ?m \<le> card {0 :: nat}" by (simp add: new_CgiManager_def)
  ultimately have "fst (createWorker cgi_os 9 No_sockets cgi_context ?m) =
      (cx_res cgi_context)\<lparr>rs_statusCode := 503\<rparr>"
    using cgi_failed_starts_exhaust [of ?m ?m "{0}" cgi_os 9 No_sockets cgi_context] by simp
  with c show ?thesis by auto
qed
end
