(* ===== verification/CgiChild.thy ===== *)
theory CgiChild
  imports CgiRun
begin

text \<open>
  The child side of a script: what \<open>CgiWorker::execute\<close> does after \<open>fork\<close> in the child and
  \<open>CgiWorker::_childProcess\<close> (\<open>src/Cgi/CgiWorker.cpp\<close>).  What \<open>dup2\<close>, \<open>chdir\<close> and \<open>execve\<close> answer is an
  argument, \<open>None\<close> for success and otherwise the value of \<open>errno\<close>.

  The facts: a script runs in its own directory under the interpreter of the configuration, with
  the environment of \<open>CgiEnvBuilder\<close>; a child that cannot get there tells the server, which finishes
  the worker at once; every descriptor of the server but the pipes of the worker is passed to the
  script.
\<close>

record ChildOs =
  ch_dup2 :: "int \<Rightarrow> int option"
  ch_chdir :: "string \<Rightarrow> int option"
  ch_execve :: "string \<Rightarrow> int option"

text \<open>Both ends of the sockets of one worker, as \<open>fork\<close> copies them.\<close>

record ChildPipes =
  cp_in :: "int \<times> int"
  cp_out :: "int \<times> int"
  cp_err :: "int \<times> int"
  cp_status :: "int \<times> int"
  cp_complete :: "int \<times> int"

text \<open>A child either becomes the script, in a directory, with its arguments, its environment and the
  descriptors that stay open, or reports an error number on the status socket and then loops.\<close>

record Script =
  sc_cwd :: "string option"
  sc_program :: string
  sc_argv :: "string list"
  sc_env :: "string list"
  sc_fds :: "int list"

datatype child = Runs Script | Stopped int

definition without :: "int list \<Rightarrow> int list \<Rightarrow> int list" where
  "without fds gone = filter (\<lambda>fd. fd \<notin> set gone) fds"

definition script_dir :: "string \<Rightarrow> string option" where
  "script_dir scriptPath =
     (case rfind_char scriptPath (CHR ''/'') of
        None \<Rightarrow> None
      | Some lastSlashPos \<Rightarrow>
          (let scriptDir = take lastSlashPos scriptPath in if scriptDir = [] then None else Some scriptDir))"

fun dup_all :: "(int \<Rightarrow> int option) \<Rightarrow> int list \<Rightarrow> int option" where
  "dup_all d [] = None"
| "dup_all d (fd # fds) = (case d fd of Some err \<Rightarrow> Some err | None \<Rightarrow> dup_all d fds)"

definition childProcess ::
  "ChildOs \<Rightarrow> ChildPipes \<Rightarrow> string \<Rightarrow> string \<Rightarrow> string list \<Rightarrow> int list \<Rightarrow> child" where
  "childProcess k p scriptPath interpreterPath envp fds =
     (let fds1 = without fds [snd (cp_in p), fst (cp_out p), fst (cp_err p)] in
      case dup_all (ch_dup2 k) [fst (cp_in p), snd (cp_out p), snd (cp_err p)] of
        Some err \<Rightarrow> Stopped err
      | None \<Rightarrow>
          (let fds2 = without ([0, 1, 2] @ without fds1 [0, 1, 2]) [fst (cp_in p), snd (cp_out p), snd (cp_err p)];
               dir = script_dir scriptPath
           in case (case dir of None \<Rightarrow> None | Some d \<Rightarrow> ch_chdir k d) of
                Some err \<Rightarrow> Stopped err
              | None \<Rightarrow>
                  (case ch_execve k interpreterPath of
                     Some err \<Rightarrow> Stopped err
                   | None \<Rightarrow> Runs \<lparr>sc_cwd = dir, sc_program = interpreterPath,
                       sc_argv = [interpreterPath, scriptPath], sc_env = envp,
                       sc_fds = without fds2 [snd (cp_status p)]\<rparr>)))"

text \<open>\<open>EINVAL\<close> and \<open>ECHILD\<close> of Linux.  \<open>errno\<close> is what an earlier call left there.\<close>

definition run_child ::
  "OS \<Rightarrow> ChildOs \<Rightarrow> int \<Rightarrow> ChildPipes \<Rightarrow> PipelineContext \<Rightarrow> string \<Rightarrow> string \<Rightarrow> int list \<Rightarrow> child" where
  "run_child os k errno p ctx scriptPath interpreterPath fds =
     (let fds1 = without fds [snd (cp_in p), fst (cp_out p), fst (cp_err p), fst (cp_status p),
            fst (cp_complete p), snd (cp_complete p)] in
      case build_env os ctx scriptPath of
        Inl _ \<Rightarrow> Stopped (if errno \<noteq> 0 then errno else 10)
      | Inr [] \<Rightarrow> Stopped 22
      | Inr (e # es) \<Rightarrow> childProcess k p scriptPath interpreterPath (e # es) fds1)"

text \<open>The processes that the destructor of a worker and of the manager kill; \<open>waits\<close> is the answer of
  a \<open>waitpid\<close> that does not block.\<close>

definition kill_worker :: "(int \<Rightarrow> int) \<Rightarrow> CgiWorker \<Rightarrow> int list" where
  "kill_worker waits w = (if 0 < wk_pid w \<and> waits (wk_pid w) = 0 then [wk_pid w] else [])"

definition end_manager :: "CgiManager \<Rightarrow> int list" where
  "end_manager m = concat (map (\<lambda>(_, w). if 0 < wk_pid w then [wk_pid w] else []) (cm_workers m))"

section \<open>The script that runs\<close>

lemma childProcess_runs:
  "childProcess k p scriptPath interpreterPath envp fds = Runs s \<Longrightarrow>
     sc_cwd s = script_dir scriptPath \<and> sc_program s = interpreterPath \<and>
     sc_argv s = [interpreterPath, scriptPath] \<and> sc_env s = envp"
  by (auto simp: childProcess_def Let_def split: option.splits)

lemma run_child_runs:
  assumes "run_child os k errno p ctx scriptPath interpreterPath fds = Runs s"
  shows "build_env os ctx scriptPath = Inr (sc_env s)" "sc_env s \<noteq> []"
    "sc_cwd s = script_dir scriptPath" "sc_program s = interpreterPath" "sc_argv s = [interpreterPath, scriptPath]"
  using assms by (auto simp: run_child_def Let_def dest!: childProcess_runs split: sum.splits list.splits)

lemma child_runs_iff:
  "(\<exists>s. childProcess k p scriptPath interpreterPath envp fds = Runs s) \<longleftrightarrow>
     ch_dup2 k (fst (cp_in p)) = None \<and> ch_dup2 k (snd (cp_out p)) = None \<and> ch_dup2 k (snd (cp_err p)) = None \<and>
     (\<forall>d. script_dir scriptPath = Some d \<longrightarrow> ch_chdir k d = None) \<and> ch_execve k interpreterPath = None"
  by (auto simp: childProcess_def Let_def split: option.splits)

text \<open>The file that \<open>execve\<close> runs: a relative path is looked up in the directory of the child.\<close>

definition program_file :: "Script \<Rightarrow> string" where
  "program_file s =
     (if sc_program s \<noteq> [] \<and> hd (sc_program s) \<noteq> CHR ''/''
      then (case sc_cwd s of Some d \<Rightarrow> d @ ''/'' @ sc_program s | None \<Rightarrow> sc_program s)
      else sc_program s)"

lemma cgi_target_executable:
  "cgi_target os ctx = Inr (Inr (sp, ip)) \<Longrightarrow>
     sp \<noteq> [] \<and> os_executable os (resolved_interpreter ip sp)"
  by (auto simp: cgi_target_def rbind_eq_Inr Let_def split: option.splits if_splits)

text \<open>C22: the file that a CGI request executes is the one whose permission was checked, be its path in
  the configuration absolute or relative to the script; it is given the script the request
  resolved to, runs in the directory of the script, and finds every meta variable in its
  environment once, with the value computed for the request.\<close>

theorem script_as_checked:
  assumes "cgi_target os ctx = Inr (Inr (scriptPath, interpreterPath))" "script_dir scriptPath = Some dir"
    and "run_child os k errno p ctx scriptPath interpreterPath fds = Runs s"
    and "(name, v) \<in> set (env_entries os ctx scriptPath (hd (cfg_listens (cx_conf ctx))))"
  shows "os_executable os (program_file s) \<and> sc_argv s = [interpreterPath, scriptPath] \<and> sc_cwd s = Some dir \<and>
    filter (prefix (name @ ''='')) (sc_env s) = [name @ ''='' @ v]"
proof -
  note r = run_child_runs [OF assms(3)]
  obtain n where n: "rfind_char scriptPath (CHR ''/'') = Some n" "dir = take n scriptPath"
    using assms(2) by (auto simp: script_dir_def Let_def split: option.splits if_splits)
  have "program_file s = resolved_interpreter interpreterPath scriptPath"
    unfolding program_file_def resolved_interpreter_def r(3,4) assms(2) n by simp
  moreover have "filter (prefix (name @ ''='')) (sc_env s) = [name @ ''='' @ v]"
    by (rule env_not_overridden [OF r(1,2) assms(4)])
  ultimately show ?thesis using cgi_target_executable [OF assms(1)] r assms(2) by simp
qed

lemma set_without: "set (without fds gone) = set fds - set gone"
  by (auto simp: without_def)

lemma childProcess_fds:
  "childProcess k p scriptPath interpreterPath envp fds = Runs s \<Longrightarrow>
     sc_fds s = without (without ([0, 1, 2] @ without (without fds [snd (cp_in p), fst (cp_out p), fst (cp_err p)]) [0, 1, 2])
       [fst (cp_in p), snd (cp_out p), snd (cp_err p)]) [snd (cp_status p)]"
  unfolding childProcess_def Let_def by (force split: option.splits)

text \<open>Nothing is closed for the script but the sockets of its own worker: the listening sockets,
  the connections of all other clients and the sockets of the other scripts stay open in it.\<close>

theorem script_inherits_descriptors:
  assumes "run_child os k errno p ctx scriptPath interpreterPath fds = Runs s"
    and "fd \<in> set fds"
    and "fd \<notin> {fst (cp_in p), snd (cp_in p), fst (cp_out p), snd (cp_out p), fst (cp_err p), snd (cp_err p),
      fst (cp_status p), snd (cp_status p), fst (cp_complete p), snd (cp_complete p)}"
  shows "fd \<in> set (sc_fds s)"
proof -
  obtain envp where "childProcess k p scriptPath interpreterPath envp (without fds [snd (cp_in p), fst (cp_out p),
      fst (cp_err p), fst (cp_status p), fst (cp_complete p), snd (cp_complete p)]) = Runs s"
    using assms(1) unfolding run_child_def Let_def by (force split: sum.splits list.splits)
  from childProcess_fds [OF this] show ?thesis using assms(2,3) by (simp add: set_without) blast
qed

section \<open>A script that is started\<close>

definition calm_child :: ChildOs where
  "calm_child = \<lparr>ch_dup2 = \<lambda>_. None, ch_chdir = \<lambda>_. None, ch_execve = \<lambda>_. None\<rparr>"

definition ten_pipes :: ChildPipes where
  "ten_pipes = \<lparr>cp_in = (10, 11), cp_out = (12, 13), cp_err = (14, 15), cp_status = (16, 17), cp_complete = (18, 19)\<rparr>"


lemma started_child:
  "\<exists>s. run_child os calm_child 0 ten_pipes cgi_context ''/srv/a.py'' ''/usr/bin/python3'' [0, 1, 2, 3, 10, 11] = Runs s"
proof -
  obtain env where "build_env os cgi_context ''/srv/a.py'' = Inr env" "env \<noteq> []" using cgi_context_env by blast
  then show ?thesis by (cases env) (simp_all add: run_child_def childProcess_def calm_child_def Let_def split: option.split)
qed

theorem script_as_checked_witness:
  "\<exists>s. os_executable cgi_os (program_file s) \<and> sc_argv s = [''/usr/bin/python3'', ''/srv/a.py''] \<and>
     sc_cwd s = Some ''/srv'' \<and> filter (prefix ''REMOTE_ADDR='') (sc_env s) = [''REMOTE_ADDR=10.0.0.1'']"
proof -
  obtain s where run: "run_child cgi_os calm_child 0 ten_pipes cgi_context ''/srv/a.py'' ''/usr/bin/python3''
      [0, 1, 2, 3, 10, 11] = Runs s" using started_child by blast
  have "script_dir ''/srv/a.py'' = Some ''/srv''" by (simp add: script_dir_def rfind_char_def)
  moreover have "(''REMOTE_ADDR'', ''10.0.0.1'') \<in>
      set (env_entries cgi_os cgi_context ''/srv/a.py'' (hd (cfg_listens (cx_conf cgi_context))))"
    by (simp add: env_entries_def Let_def cgi_context_def new_PipelineContext_def)
  ultimately show ?thesis using script_as_checked [OF cgi_target_example _ run] by fastforce
qed

theorem script_inherits_descriptors_witness:
  "\<exists>s. run_child one_os calm_child 0 ten_pipes cgi_context ''/srv/a.py'' ''/usr/bin/python3''
     [0, 1, 2, 3, 10, 11] = Runs s \<and> 3 \<in> set (sc_fds s)"
proof -
  obtain s where run: "run_child one_os calm_child 0 ten_pipes cgi_context ''/srv/a.py'' ''/usr/bin/python3''
      [0, 1, 2, 3, 10, 11] = Runs s" using started_child by blast
  from script_inherits_descriptors [OF this, of 3] run show ?thesis by (auto simp: ten_pipes_def)
qed

end
