(* ===== verification/Pipeline.thy ===== *)
theory Pipeline
  imports CgiRun Handlers SessionMgr
begin

text \<open>
  \<open>src/Middleware\<close>: the chain of middlewares that a request goes through, built by
  \<open>PipelineRouteBuilder\<close> and run by \<open>MiddlewareProcessor\<close>.  A middleware gets the context and
  what \<open>proc->next\<close> would do; calling it or not is the early return of the source.  Selecting
  another virtual server restarts the chain of that server; the number of restarts is a fuel, and
  one restart is shown to be enough.
\<close>

section \<open>The world of the pipeline\<close>

record World =
  wo_sessions :: SessionManager
  wo_random :: Random
  wo_cgi :: CgiManager
  wo_effects :: "fs_effect list"
  wo_events :: "(int \<times> cgi_event) list"

text \<open>What is fixed during one call: the servers, the system, the readings of the clock and the
  outcome of starting a process.\<close>

record Env =
  en_vhosts :: "Config list"
  en_os :: OS
  en_body_clock :: "nat \<Rightarrow> int"
  en_session_now :: int
  en_session_touch :: int
  en_session_created :: int
  en_cgi_now :: int
  en_spawn :: spawn

type_synonym state = "PipelineContext \<times> World"

text \<open>\<open>None\<close>: the call does not return (the fuel, or the bytes of the random source, ran out).\<close>

type_synonym result = "(exn option \<times> state) option"

type_synonym continuation = "state \<Rightarrow> result"

abbreviation returned :: "state \<Rightarrow> result" where
  "returned s \<equiv> Some (None, s)"

abbreviation throws :: "exn \<Rightarrow> state \<Rightarrow> result" where
  "throws e s \<equiv> Some (Some e, s)"

section \<open>Errors\<close>

definition closes_connection :: "int \<Rightarrow> bool" where
  "closes_connection status = (status \<in> {400, 413, 431, 500, 501, 502, 503, 504})"

definition error_mw :: "Env \<Rightarrow> state \<Rightarrow> result" where
  "error_mw env s =
     (let (ctx, w) = s; status = rs_statusCode (cx_res ctx) in
      if 400 \<le> status \<and> status \<le> 599 then
        (case error_handle (en_os env) (cx_conf ctx) (cx_req ctx) (cx_res ctx) of
           (Some e, res) \<Rightarrow> throws e (ctx\<lparr>cx_res := res\<rparr>, w)
         | (None, res) \<Rightarrow>
             returned (ctx\<lparr>cx_res := (if closes_connection status then rs_setHeader ''Connection'' ''close'' res
                                     else res)\<rparr>, w))
      else returned s)"

definition fail_with :: "Env \<Rightarrow> int \<Rightarrow> state \<Rightarrow> result" where
  "fail_with env err s = error_mw env (setError err (fst s), snd s)"

section \<open>Reading the request\<close>

text \<open>What a phase of the parser leaves in the context.\<close>

definition take_phase :: "RequestParser \<times> HttpRequest \<times> string \<Rightarrow> PipelineContext \<Rightarrow> PipelineContext" where
  "take_phase p ctx =
     (case p of (rp, req, buffer) \<Rightarrow>
        ctx\<lparr>cx_parser := rp, cx_req := req, cx_recvBuffer := buffer\<rparr>)"

text \<open>When the query cannot be decoded the exception leaves the chain; what the request holds by then is
  not read again, and the state given here is that before the line.\<close>

definition line_mw :: "Env \<Rightarrow> continuation \<Rightarrow> state \<Rightarrow> result" where
  "line_mw env next s =
     (let (ctx, w) = s in
      if rp_state (cx_parser ctx) \<noteq> STATE_REQUEST_LINE then next s
      else
        (case parseRequestLine (cx_parser ctx) (cx_req ctx) (cx_recvBuffer ctx) of
           Inl e \<Rightarrow> throws e s
         | Inr (r, p) \<Rightarrow>
             (let ctx1 = take_phase p ctx in
              case r of
                PARSE_INCOMPLETE \<Rightarrow> returned (ctx1, w)
              | PARSE_ERROR \<Rightarrow> fail_with env (rp_errorCode (cx_parser ctx1)) (ctx1, w)
              | PARSE_COMPLETE \<Rightarrow> next (ctx1, w))))"

definition head_mw :: "Env \<Rightarrow> continuation \<Rightarrow> state \<Rightarrow> result" where
  "head_mw env next s =
     (let (ctx, w) = s in
      if rp_state (cx_parser ctx) \<noteq> STATE_HEADERS then next s
      else
        (case parseHeaders (cx_parser ctx) (cx_req ctx) (cx_recvBuffer ctx) of
           (r, p) \<Rightarrow>
             (let ctx1 = take_phase p ctx in
              case r of
                PARSE_INCOMPLETE \<Rightarrow> returned (ctx1, w)
              | PARSE_ERROR \<Rightarrow> fail_with env (rp_errorCode (cx_parser ctx1)) (ctx1, w)
              | PARSE_COMPLETE \<Rightarrow> next (ctx1, w))))"

text \<open>The checks after a complete body: the status of the first that fails.\<close>

definition body_check :: "PipelineContext \<Rightarrow> int option" where
  "body_check ctx =
     (let req = cx_req ctx in
      if unat (rq_maxBodySize req) < length (rq_body req) then Some 413
      else if \<not> rq_hasHeader req ''Content-Length'' \<and> cx_recvBuffer ctx \<noteq> [] then Some 400
      else if rq_hasHeader req ''Content-Length'' then
        (if \<not> rq_hasHeader req ''Transfer-Encoding'' \<and> cx_recvBuffer ctx \<noteq> [] then Some 400
         else
           (case decStrToSize (rq_getHeader req ''Content-Length'') of
              None \<Rightarrow> Some 400
            | Some contentLength \<Rightarrow>
                if length (rq_body req) \<noteq> unat contentLength then Some 400 else None))
      else None)"

definition body_mw :: "Env \<Rightarrow> continuation \<Rightarrow> state \<Rightarrow> result" where
  "body_mw env next s =
     (let (ctx, w) = s in
      if rp_state (cx_parser ctx) \<noteq> STATE_BODY then next s
      else
        (case parseBody (en_body_clock env) (cx_parser ctx) (cx_req ctx) (cx_recvBuffer ctx) of
           Inl e \<Rightarrow> throws e s
         | Inr (r, p) \<Rightarrow>
             (let ctx1 = take_phase p ctx in
              case r of
                PARSE_INCOMPLETE \<Rightarrow> returned (ctx1, w)
              | PARSE_ERROR \<Rightarrow> fail_with env (rp_errorCode (cx_parser ctx1)) (ctx1, w)
              | PARSE_COMPLETE \<Rightarrow>
                  (case body_check ctx1 of
                     Some err \<Rightarrow> fail_with env err (ctx1, w)
                   | None \<Rightarrow> next (ctx1, w)))))"

definition head_pending :: "PipelineContext \<Rightarrow> bool" where
  "head_pending ctx =
     (rp_state (cx_parser ctx) = STATE_REQUEST_LINE \<or> rp_state (cx_parser ctx) = STATE_HEADERS)"

text \<open>\<open>conf\<close> is never null here: every server has a configuration.\<close>

definition vhost_mw :: "Env \<Rightarrow> (Config \<Rightarrow> continuation) \<Rightarrow> continuation \<Rightarrow> state \<Rightarrow> result" where
  "vhost_mw env restart next s =
     (let (ctx, w) = s; client = cx_ownerClient ctx in
      if head_pending ctx then returned s
      else
        (case find_vhost (en_vhosts env) (cl_listenKey client) (rq_getHeader (cx_req ctx) ''Host'') of
           Some i \<Rightarrow>
             (let selected = en_vhosts env ! i in
              if i \<noteq> cl_activeVhost client
              then restart selected
                     (setConfig selected (ctx\<lparr>cx_ownerClient := client\<lparr>cl_activeVhost := i\<rparr>\<rparr>), w)
              else next (setConfig selected ctx, w))
         | None \<Rightarrow> next (setConfig (en_vhosts env ! cl_activeVhost client) ctx, w)))"

definition limits_mw :: "Env \<Rightarrow> continuation \<Rightarrow> state \<Rightarrow> result" where
  "limits_mw env next s =
     (let (ctx, w) = s in
      if head_pending ctx then returned s
      else
        (case getLocation (cx_conf ctx) (rq_path (cx_req ctx)) of
           Inl e \<Rightarrow> throws e s
         | Inr loc \<Rightarrow>
             if unat (cfg_maxRequestHeaderSize (cx_conf ctx)) < rp_lastHeaderBytes (cx_parser ctx)
             then fail_with env 431 s
             else
               (let maxBodySize = (if loc_hasMaxRequestBodySize loc then loc_maxRequestBodySize loc
                                   else cfg_maxRequestBodySize (cx_conf ctx));
                    ctx1 = ctx\<lparr>cx_req := (cx_req ctx)\<lparr>rq_maxBodySize := maxBodySize\<rparr>,
                               cx_parser := (cx_parser ctx)\<lparr>rp_bodyParser :=
                                 setChunkedTimeoutSec (loc_chunkedTimeoutSec loc)
                                   (rp_bodyParser (cx_parser ctx))\<rparr>\<rparr>
                in if rq_hasHeader (cx_req ctx1) ''Content-Length''
                   then (case decStrToSize (rq_getHeader (cx_req ctx1) ''Content-Length'') of
                           None \<Rightarrow> fail_with env 400 (ctx1, w)
                         | Some contentLength \<Rightarrow>
                             if maxBodySize < contentLength then fail_with env 413 (ctx1, w)
                             else next (ctx1, w))
                   else next (ctx1, w))))"

section \<open>Answering it\<close>

definition redirect_location :: "HttpRequest \<Rightarrow> Location \<Rightarrow> string" where
  "redirect_location req loc =
     (let query = (if rq_query req = [] then []
                   else ''?'' @ join ''&'' (map (\<lambda>(k, v). k @ ''='' @ v) (rq_query req)));
          newLocation = loc_redirectUrl loc @ query;
          host = rq_getHeader req ''host''
      in if newLocation \<noteq> [] \<and> hd newLocation = CHR ''/'' \<and> host \<noteq> []
         then ''http://'' @ host @ newLocation else newLocation)"

definition redirect_mw :: "Env \<Rightarrow> continuation \<Rightarrow> state \<Rightarrow> result" where
  "redirect_mw env next s =
     (let (ctx, w) = s in
      case getLocation (cx_conf ctx) (rq_path (cx_req ctx)) of
        Inl e \<Rightarrow> throws e s
      | Inr loc \<Rightarrow>
          if loc_hasRedirect loc
          then returned
            (map_res (\<lambda>res.
               (rs_setHeader ''Location'' (redirect_location (cx_req ctx) loc)
                 (rs_setHeader ''Content-Length'' ''0''
                   (rs_setHeader ''Content-Type'' ''text/html''
                     (res\<lparr>rs_statusCode := loc_redirectCode loc\<rparr>))))\<lparr>rs_body := []\<rparr>) ctx, w)
          else next s)"

definition connection_mw :: "Env \<Rightarrow> continuation \<Rightarrow> state \<Rightarrow> result" where
  "connection_mw env next s =
     (let (ctx, w) = s in
      if rq_getHeader (cx_req ctx) ''connection'' = ''close'' \<or> rq_version (cx_req ctx) = ''HTTP/1.0''
      then next (map_res (rs_setHeader ''Connection'' ''close'') ctx, w)
      else next s)"

text \<open>Where a session is created, the new one is announced in \<open>Set-Cookie\<close>.\<close>

definition session_token :: "HttpRequest \<Rightarrow> string" where
  "session_token req =
     (if rq_getHeader req ''Cookie'' = [] then []
      else
        (case map_of (parseCookieField (rq_getHeader req ''Cookie'')) ''sessionId'' of
           Some t \<Rightarrow> t | None \<Rightarrow> []))"

definition session_mw :: "Env \<Rightarrow> continuation \<Rightarrow> state \<Rightarrow> result" where
  "session_mw env next s =
     (let (ctx, w) = s;
          token = session_token (cx_req ctx);
          (found, m) = (if token = [] then (False, wo_sessions w)
                        else getSession (en_session_now env) (en_session_touch env) token (wo_sessions w));
          w1 = w\<lparr>wo_sessions := m\<rparr>
      in if found then next (ctx\<lparr>cx_session := Some token\<rparr>, w1)
         else
           (case createSession (en_session_created env) (sint (cfg_sessionTimeoutSec (cx_conf ctx))) m
                   (wo_random w) of
              None \<Rightarrow> None
            | Some (Inl e, m2, rd) \<Rightarrow> throws e (ctx, w1\<lparr>wo_sessions := m2, wo_random := rd\<rparr>)
            | Some (Inr sid, m2, rd) \<Rightarrow>
                next (map_res (rs_appendHeader ''Set-Cookie''
                        (''sessionId='' @ [DQ] @ sid @ [DQ] @ ''; Path=/; HttpOnly''))
                        (ctx\<lparr>cx_session := Some sid\<rparr>),
                      w1\<lparr>wo_sessions := m2, wo_random := rd\<rparr>)))"

definition isCgiRequest :: "PipelineContext \<Rightarrow> Location \<Rightarrow> bool" where
  "isCgiRequest ctx loc =
     (if loc_cgiConf loc = [] then False
      else
        (case extractCgiScript (rq_path (cx_req ctx)) loc of
           None \<Rightarrow> False
         | Some (scriptVirtual, pathInfo) \<Rightarrow>
             (case rfind_char scriptVirtual (CHR ''.'') of
                None \<Rightarrow> False
              | Some dotPos \<Rightarrow> has_key (loc_cgiConf loc) (drop dotPos scriptVirtual))))"

definition cgi_mw :: "Env \<Rightarrow> continuation \<Rightarrow> state \<Rightarrow> result" where
  "cgi_mw env next s =
     (let (ctx, w) = s; meth = rq_method (cx_req ctx) in
      case getLocation (cx_conf ctx) (rq_path (cx_req ctx)) of
        Inl e \<Rightarrow> throws e s
      | Inr loc \<Rightarrow>
          if \<not> isCgiRequest ctx loc then next s
          else if meth \<noteq> ''GET'' \<and> meth \<noteq> ''POST''
          then returned (map_res (rs_setHeader ''Allow'' ''GET, POST'') (setError 405 ctx), w)
          else if meth \<notin> set (loc_allowedMethods loc) then returned (setError 405 ctx, w)
          else
            (case createWorker (en_os env) (en_cgi_now env) (en_spawn env) ctx (wo_cgi w) of
               (res, m, evs) \<Rightarrow>
                 (let ctx1 = ctx\<lparr>cx_res := res\<rparr>;
                      w1 = w\<lparr>wo_cgi := m, wo_events := wo_events w @ evs\<rparr>
                  in if rs_statusCode res < 400 then returned (ctx1\<lparr>cx_isCgi := True\<rparr>, w1)
                     else returned (ctx1, w1))))"

datatype ISubHandler = StaticFileHandler | PostHandler | DeleteHandler | PutHandler

text \<open>One call of a handler, in the world.\<close>

definition call_handler ::
  "Env \<Rightarrow> ISubHandler \<Rightarrow> PipelineContext \<Rightarrow> World \<Rightarrow> (handled \<times> World) option" where
  "call_handler env h ctx w =
     (let os = en_os env; conf = cx_conf ctx; req = cx_req ctx; res = cx_res ctx in
      case h of
        StaticFileHandler \<Rightarrow> Some (static_handle os conf req res, w)
      | PostHandler \<Rightarrow>
          (case post_handle os conf req (wo_random w) res of
             None \<Rightarrow> None
           | Some (r, effects, rd) \<Rightarrow>
               Some (r, w\<lparr>wo_effects := wo_effects w @ effects, wo_random := rd\<rparr>))
      | DeleteHandler \<Rightarrow>
          (case delete_handle os conf req res of
             (res1, effects) \<Rightarrow> Some ((None, res1), w\<lparr>wo_effects := wo_effects w @ effects\<rparr>))
      | PutHandler \<Rightarrow>
          (case put_handle os conf req res of
             (r, effects) \<Rightarrow> Some (r, w\<lparr>wo_effects := wo_effects w @ effects\<rparr>)))"

definition getAllowedMethods :: "(string, ISubHandler) omap \<Rightarrow> string" where
  "getAllowedMethods handlers =
     join '', '' (filter (has_key handlers) [''GET'', ''HEAD'', ''POST'', ''PUT'', ''DELETE''])"

definition handler_mw :: "Env \<Rightarrow> (string, ISubHandler) omap \<Rightarrow> continuation \<Rightarrow> state \<Rightarrow> result" where
  "handler_mw env handlers next s =
     (let (ctx, w) = s; meth = rq_method (cx_req ctx) in
      case map_of handlers meth of
        Some h \<Rightarrow>
          (case call_handler env h ctx w of
             None \<Rightarrow> None
           | Some ((None, res), w1) \<Rightarrow> returned (ctx\<lparr>cx_res := res\<rparr>, w1)
           | Some ((Some e, res), w1) \<Rightarrow> returned (setError 500 (ctx\<lparr>cx_res := res\<rparr>), w1))
      | None \<Rightarrow>
          if meth \<in> set VALID_ALLOWED_METHODS
          then returned (map_res (rs_setHeader ''Allow'' (getAllowedMethods handlers)) (setError 405 ctx), w)
          else returned (setError 501 ctx, w))"

section \<open>Chains\<close>

datatype sub_middleware =
  SessionMiddleware | CgiRouterMiddleware | HandlerMiddleware "(string, ISubHandler) omap"

datatype middleware =
  RequestLineParserMiddleware | RequestHeadParserMiddleware | VHostSelectMiddleware
| RequestLimitsMiddleware | RequestBodyParserMiddleware | RedirectMiddleware
| ConnectionHeaderMiddleware | PipelineRouterMiddleware "(string, sub_middleware list) omap"
| ErrorHandlerMiddleware

fun sub_handle :: "Env \<Rightarrow> sub_middleware \<Rightarrow> continuation \<Rightarrow> continuation" where
  "sub_handle env SessionMiddleware next s = session_mw env next s"
| "sub_handle env CgiRouterMiddleware next s = cgi_mw env next s"
| "sub_handle env (HandlerMiddleware handlers) next s = handler_mw env handlers next s"

text \<open>\<open>MiddlewareProcessor::next\<close> on what is left of a chain: at its end it does nothing.\<close>

primrec chain_run :: "('m \<Rightarrow> continuation \<Rightarrow> continuation) \<Rightarrow> 'm list \<Rightarrow> continuation" where
  "chain_run handle [] s = returned s"
| "chain_run handle (m # rest) s = handle m (chain_run handle rest) s"

definition sub_run :: "Env \<Rightarrow> sub_middleware list \<Rightarrow> continuation" where
  "sub_run env = chain_run (sub_handle env)"

definition best_route :: "(string, 'a) omap \<Rightarrow> string \<Rightarrow> 'a option" where
  "best_route routes requestPath =
     map_option snd (find (\<lambda>it. prefix (fst it) requestPath)
       (sort_key (\<lambda>it. - int (length (fst it))) routes))"

definition router_mw ::
  "Env \<Rightarrow> (string, sub_middleware list) omap \<Rightarrow> continuation \<Rightarrow> state \<Rightarrow> result" where
  "router_mw env routes next s =
     (let (ctx, w) = s in
      case best_route routes (rq_path (cx_req ctx)) of
        None \<Rightarrow> next (setError 404 ctx, w)
      | Some chain \<Rightarrow>
          (case sub_run env chain s of
             None \<Rightarrow> None
           | Some (Some e, s1) \<Rightarrow> throws e s1
           | Some (None, s1) \<Rightarrow>
               if 400 \<le> rs_statusCode (cx_res (fst s1)) then next s1 else returned s1))"

fun main_step :: "Env \<Rightarrow> (Config \<Rightarrow> continuation) \<Rightarrow> middleware \<Rightarrow> continuation \<Rightarrow> continuation" where
  "main_step env restart RequestLineParserMiddleware next s = line_mw env next s"
| "main_step env restart RequestHeadParserMiddleware next s = head_mw env next s"
| "main_step env restart VHostSelectMiddleware next s = vhost_mw env restart next s"
| "main_step env restart RequestLimitsMiddleware next s = limits_mw env next s"
| "main_step env restart RequestBodyParserMiddleware next s = body_mw env next s"
| "main_step env restart RedirectMiddleware next s = redirect_mw env next s"
| "main_step env restart ConnectionHeaderMiddleware next s = connection_mw env next s"
| "main_step env restart (PipelineRouterMiddleware routes) next s = router_mw env routes next s"
| "main_step env restart ErrorHandlerMiddleware next s = error_mw env s"

definition main_run :: "Env \<Rightarrow> (Config \<Rightarrow> continuation) \<Rightarrow> middleware list \<Rightarrow> continuation" where
  "main_run env restart = chain_run (main_step env restart)"

section \<open>Building the chains\<close>

definition static_handlers :: "Location \<Rightarrow> (string, ISubHandler) omap" where
  "static_handlers loc =
     fold (\<lambda>(meth, h) handlers.
         if meth \<in> set (loc_allowedMethods loc) then om_set meth h handlers else handlers)
       [(''GET'', StaticFileHandler), (''HEAD'', StaticFileHandler), (''POST'', PostHandler),
        (''DELETE'', DeleteHandler), (''PUT'', PutHandler)] []"

definition route_chain :: "Location \<Rightarrow> sub_middleware list" where
  "route_chain loc =
     (if loc_session loc \<and> loc_allowedMethods loc \<noteq> [] then [SessionMiddleware] else []) @
     (if loc_cgiConf loc \<noteq> [] then [CgiRouterMiddleware] else []) @
     (if static_handlers loc \<noteq> [] then [HandlerMiddleware (static_handlers loc)] else [])"

definition build_routes :: "Config \<Rightarrow> (string, sub_middleware list) omap" where
  "build_routes conf =
     fold (\<lambda>it routes. om_set (loc_path (snd it)) (route_chain (snd it)) routes) (cfg_locations conf) []"

definition buildRoute :: "Config \<Rightarrow> middleware list" where
  "buildRoute conf =
     [RequestLineParserMiddleware, RequestHeadParserMiddleware, VHostSelectMiddleware,
      RequestLimitsMiddleware, RequestBodyParserMiddleware, RedirectMiddleware,
      ConnectionHeaderMiddleware, PipelineRouterMiddleware (build_routes conf),
      ErrorHandlerMiddleware]"

primrec main_handle :: "nat \<Rightarrow> Env \<Rightarrow> Config \<Rightarrow> continuation" where
  "main_handle 0 env conf s = None"
| "main_handle (Suc k) env conf s = main_run env (main_handle k env) (buildRoute conf) s"

section \<open>Contracts of chains\<close>

text \<open>
  What a chain promises from what each of its middlewares promises: from a state with \<open>pre\<close>, a
  middleware of the chain ends in a result with \<open>post\<close> provided that every call of
  \<open>proc->next\<close> it makes, again from a state with \<open>pre\<close>, does.
\<close>

locale chain_contract =
  fixes handle :: "'m \<Rightarrow> continuation \<Rightarrow> continuation"
    and member :: "'m \<Rightarrow> bool"
    and pre :: "state \<Rightarrow> bool"
    and post :: "result \<Rightarrow> bool"
  assumes finish: "pre s \<Longrightarrow> post (returned s)"
    and step: "member m \<Longrightarrow> pre s \<Longrightarrow> (\<And>s'. pre s' \<Longrightarrow> post (next s')) \<Longrightarrow> post (handle m next s)"
begin

lemma run: "list_all member ms \<Longrightarrow> pre s \<Longrightarrow> post (chain_run handle ms s)"
proof (induction ms arbitrary: s)
  case Nil
  then show ?case by (simp add: finish)
next
  case (Cons m ms)
  then show ?case by (auto intro: step)
qed

end

text \<open>What the middlewares of a route never touch.\<close>

definition fixed_part :: "PipelineContext \<Rightarrow> Config \<times> HttpRequest \<times> string \<times> Client \<times> ParseState" where
  "fixed_part ctx =
     (cx_conf ctx, cx_req ctx, cx_recvBuffer ctx, cx_ownerClient ctx, rp_state (cx_parser ctx))"

fun ends_with :: "(state \<Rightarrow> bool) \<Rightarrow> result \<Rightarrow> bool" where
  "ends_with P None = True"
| "ends_with P (Some (e, s)) = P s"

lemma fixed_part_simps [simp]:
  "fixed_part (setError err ctx) = fixed_part ctx"
  "fixed_part (ctx\<lparr>cx_res := res\<rparr>) = fixed_part ctx"
  "fixed_part (ctx\<lparr>cx_session := sid\<rparr>) = fixed_part ctx"
  "fixed_part (ctx\<lparr>cx_isCgi := b\<rparr>) = fixed_part ctx"
  by (simp_all add: fixed_part_def setError_def)

interpretation route_keeps: chain_contract "sub_handle env" "\<lambda>m. True"
  "\<lambda>s. fixed_part (fst s) = fp" "ends_with (\<lambda>s. fixed_part (fst s) = fp)" for env fp
proof unfold_locales
  fix m and s :: state and "next" :: continuation
  assume s: "fixed_part (fst s) = fp"
    and n: "\<And>s'. fixed_part (fst s') = fp \<Longrightarrow> ends_with (\<lambda>s. fixed_part (fst s) = fp) (next s')"
  obtain ctx w where sw: "s = (ctx, w)" by (cases s)
  show "ends_with (\<lambda>s. fixed_part (fst s) = fp) (sub_handle env m next s)"
    using s n
    by (cases m) (auto simp: sw session_mw_def cgi_mw_def handler_mw_def Let_def
        split: prod.splits option.splits sum.splits if_splits)
qed simp

lemma sub_run_keeps: "sub_run env chain s = Some (e, s') \<Longrightarrow> fixed_part (fst s') = fixed_part (fst s)"
  using route_keeps.run [of chain s "fixed_part (fst s)" env]
  by (simp add: sub_run_def list_all_iff)

section \<open>Nothing happens before the request is complete\<close>

abbreviation untouched :: "World \<Rightarrow> state \<Rightarrow> bool" where
  "untouched w s \<equiv> snd s = w"

definition complete_ctx :: "state \<Rightarrow> bool" where
  "complete_ctx s \<longleftrightarrow> rp_state (cx_parser (fst s)) = STATE_COMPLETE"

lemma error_mw_ends:
  "error_mw env s = Some (e, s') \<Longrightarrow> snd s' = snd s \<and> cx_parser (fst s') = cx_parser (fst s) \<and>
     cx_conf (fst s') = cx_conf (fst s)"
  by (cases s) (auto simp: error_mw_def Let_def split: prod.splits option.splits if_splits)

lemma fail_with_ends:
  "fail_with env err s = Some (e, s') \<Longrightarrow> snd s' = snd s \<and>
     rp_state (cx_parser (fst s')) = rp_state (cx_parser (fst s))"
  by (auto simp: fail_with_def setError_def dest: error_mw_ends)

lemma error_mw_total: "error_mw env s \<noteq> None"
  by (cases s) (auto simp: error_mw_def Let_def split: prod.splits option.splits)

lemma ends_with_mono: "ends_with P r \<Longrightarrow> (\<And>s. P s \<Longrightarrow> Q s) \<Longrightarrow> ends_with Q r"
  by (cases r) auto

lemma ends_error: "(\<And>s'. snd s' = snd s \<Longrightarrow> P s') \<Longrightarrow> ends_with P (error_mw env s)"
  using error_mw_ends [of env s] by (cases "error_mw env s") auto

lemma ends_fail: "(\<And>s'. snd s' = snd s \<Longrightarrow> P s') \<Longrightarrow> ends_with P (fail_with env err s)"
  by (simp add: fail_with_def ends_error)

lemma parseBody_complete:
  "parseBody clk rp req buf = Inr (PARSE_COMPLETE, rp2, req2, buf2) \<Longrightarrow> rp_state rp2 = STATE_COMPLETE"
  by (auto simp: parseBody_def Let_def split: if_splits outcome.splits prod.splits)

text \<open>
  The first middlewares leave the world alone; the selection of the server and the limits go on
  only when the head has been read, and the body reader only when the request is complete.
\<close>

lemma first_stages:
  assumes "\<And>s'. snd s' = snd s \<Longrightarrow> P s'" "\<And>s'. snd s' = snd s \<Longrightarrow> ends_with P (next s')"
  shows "ends_with P (line_mw env next s)" "ends_with P (head_mw env next s)"
proof -
  obtain ctx w where s: "s = (ctx, w)" by (cases s)
  note fail = ends_fail [of "(_, w)" P env]
  show "ends_with P (line_mw env next s)" "ends_with P (head_mw env next s)"
    using assms fail
    by (auto simp: s line_mw_def head_mw_def Let_def
        split: prod.splits sum.splits ParseResult.splits)
qed

lemma later_stages:
  assumes "\<And>s'. snd s' = snd s \<Longrightarrow> P s'"
    and "\<And>s'. snd s' = snd s \<Longrightarrow> \<not> head_pending (fst s') \<Longrightarrow> ends_with P (next s')"
  shows "(\<And>c s'. snd s' = snd s \<Longrightarrow> ends_with P (restart c s')) \<Longrightarrow>
      ends_with P (vhost_mw env restart next s)"
    and "ends_with P (limits_mw env next s)"
proof -
  obtain ctx w where s: "s = (ctx, w)" by (cases s)
  note fail = ends_fail [of "(_, w)" P env]
  show "(\<And>c s'. snd s' = snd s \<Longrightarrow> ends_with P (restart c s')) \<Longrightarrow>
      ends_with P (vhost_mw env restart next s)"
    using assms
    by (auto simp: s vhost_mw_def Let_def head_pending_def setConfig_def split: option.splits)
  show "ends_with P (limits_mw env next s)"
    using assms fail
    by (auto simp: s limits_mw_def Let_def head_pending_def split: sum.splits option.splits)
qed

lemma body_stage:
  assumes "\<And>s'. snd s' = snd s \<Longrightarrow> P s'" "\<not> head_pending (fst s)"
    and "\<And>s'. snd s' = snd s \<Longrightarrow> complete_ctx s' \<Longrightarrow> ends_with P (next s')"
  shows "ends_with P (body_mw env next s)"
proof -
  obtain ctx w where s: "s = (ctx, w)" by (cases s)
  note fail = ends_fail [of "(_, w)" P env]
  show ?thesis
  proof (cases "rp_state (cx_parser ctx) = STATE_BODY")
    case False
    then have "complete_ctx s"
      using assms(2) by (cases "rp_state (cx_parser ctx)") (auto simp: s head_pending_def complete_ctx_def)
    then show ?thesis using False assms(3) by (simp add: s body_mw_def)
  next
    case True
    show ?thesis
    proof (cases "parseBody (en_body_clock env) (cx_parser ctx) (cx_req ctx) (cx_recvBuffer ctx)")
      case (Inl e)
      then show ?thesis using True assms(1) by (simp add: s body_mw_def)
    next
      case (Inr q)
      obtain r rp req buf where q: "q = (r, rp, req, buf)" by (cases q)
      show ?thesis
      proof (cases r)
        case PARSE_COMPLETE
        then have "rp_state rp = STATE_COMPLETE" using Inr q parseBody_complete by blast
        then have "complete_ctx (take_phase (rp, req, buf) ctx, w)"
          by (simp add: complete_ctx_def take_phase_def)
        then show ?thesis using True Inr q PARSE_COMPLETE assms(3) fail assms(1)
          by (auto simp: s body_mw_def Let_def split: option.splits)
      qed (use True Inr q assms(1) fail in \<open>auto simp: s body_mw_def Let_def\<close>)
    qed
  qed
qed

lemma answer_stages:
  assumes "\<And>s'. complete_ctx s' \<Longrightarrow> ends_with complete_ctx (next s')" "complete_ctx s"
  shows "ends_with complete_ctx (redirect_mw env next s)"
    and "ends_with complete_ctx (connection_mw env next s)"
    and "ends_with complete_ctx (router_mw env routes next s)"
    and "ends_with complete_ctx (error_mw env s)"
proof -
  obtain ctx w where s: "s = (ctx, w)" by (cases s)
  show "ends_with complete_ctx (redirect_mw env next s)" "ends_with complete_ctx (connection_mw env next s)"
    using assms
    by (auto simp: s redirect_mw_def connection_mw_def Let_def complete_ctx_def split: sum.splits)
  show "ends_with complete_ctx (error_mw env s)"
    using assms(2) error_mw_ends [of env s] by (cases "error_mw env s") (auto simp: complete_ctx_def)
  have keep: "complete_ctx s'" if "sub_run env chain s = Some (e, s')" for chain e s'
    using sub_run_keeps [OF that] assms(2) by (simp add: complete_ctx_def fixed_part_def)
  show "ends_with complete_ctx (router_mw env routes next s)"
    using assms keep
    by (auto simp: s router_mw_def Let_def complete_ctx_def setError_def split: option.splits prod.splits)
qed

lemma main_effects:
  "ends_with (\<lambda>s'. snd s' = snd s \<or> complete_ctx s') (main_handle k env conf s)"
proof (induction k arbitrary: conf s)
  case (Suc k)
  define w where "w = snd s"
  let ?P = "\<lambda>s'. snd s' = w \<or> complete_ctx s'"
  let ?run = "chain_run (main_step env (main_handle k env))"
  have err: "ends_with complete_ctx (?run [ErrorHandlerMiddleware] s')" if "complete_ctx s'" for s'
    using answer_stages(4) [of returned s' env] that by simp
  have router: "ends_with complete_ctx (?run [PipelineRouterMiddleware rs, ErrorHandlerMiddleware] s')"
    if "complete_ctx s'" for s' rs
    by (subst chain_run.simps(2), simp only: main_step.simps, rule answer_stages(3) [OF err that])
  have conn: "ends_with complete_ctx
      (?run [ConnectionHeaderMiddleware, PipelineRouterMiddleware rs, ErrorHandlerMiddleware] s')"
    if "complete_ctx s'" for s' rs
    by (subst chain_run.simps(2), simp only: main_step.simps, rule answer_stages(2) [OF router that])
  have redir: "ends_with complete_ctx (?run [RedirectMiddleware, ConnectionHeaderMiddleware,
      PipelineRouterMiddleware rs, ErrorHandlerMiddleware] s')"
    if "complete_ctx s'" for s' rs
    by (subst chain_run.simps(2), simp only: main_step.simps, rule answer_stages(1) [OF conn that])
  have body: "ends_with ?P (?run [RequestBodyParserMiddleware, RedirectMiddleware,
      ConnectionHeaderMiddleware, PipelineRouterMiddleware rs, ErrorHandlerMiddleware] s')"
    if "snd s' = w" "\<not> head_pending (fst s')" for s' rs
  proof (subst chain_run.simps(2), simp only: main_step.simps, rule body_stage)
    show "ends_with ?P (?run [RedirectMiddleware, ConnectionHeaderMiddleware,
        PipelineRouterMiddleware rs, ErrorHandlerMiddleware] s'')" if "complete_ctx s''" for s''
      using redir [OF that, of rs] by (rule ends_with_mono) simp
  qed (use that in simp_all)
  have lim: "ends_with ?P (?run [RequestLimitsMiddleware, RequestBodyParserMiddleware,
      RedirectMiddleware, ConnectionHeaderMiddleware, PipelineRouterMiddleware rs,
      ErrorHandlerMiddleware] s')"
    if "snd s' = w" for s' rs
  proof (subst chain_run.simps(2), simp only: main_step.simps, rule later_stages(2))
    show "ends_with ?P (?run [RequestBodyParserMiddleware, RedirectMiddleware,
        ConnectionHeaderMiddleware, PipelineRouterMiddleware rs, ErrorHandlerMiddleware] s'')"
      if "snd s'' = snd s'" "\<not> head_pending (fst s'')" for s''
      using body [of s'' rs] that \<open>snd s' = w\<close> by (simp del: chain_run.simps)
  qed (use that in simp)
  have vh: "ends_with ?P (?run [VHostSelectMiddleware, RequestLimitsMiddleware,
      RequestBodyParserMiddleware, RedirectMiddleware, ConnectionHeaderMiddleware,
      PipelineRouterMiddleware rs, ErrorHandlerMiddleware] s')"
    if "snd s' = w" for s' rs
  proof (subst chain_run.simps(2), simp only: main_step.simps, rule later_stages(1))
    show "ends_with ?P (?run [RequestLimitsMiddleware, RequestBodyParserMiddleware,
        RedirectMiddleware, ConnectionHeaderMiddleware, PipelineRouterMiddleware rs,
        ErrorHandlerMiddleware] s'')" if "snd s'' = snd s'" for s''
      using lim [of s'' rs] that \<open>snd s' = w\<close> by (simp del: chain_run.simps)
    show "ends_with ?P (main_handle k env c s'')" if "snd s'' = snd s'" for c s''
      using Suc.IH [of s'' c] that \<open>snd s' = w\<close> by simp
  qed (use that in simp)
  have head: "ends_with ?P (?run (tl (buildRoute conf)) s')" if "snd s' = w" for s'
  proof -
    have "ends_with ?P (?run (tl (tl (buildRoute conf))) s'')" if "snd s'' = snd s'" for s''
      using vh [of s''] that \<open>snd s' = w\<close> by (simp add: buildRoute_def del: chain_run.simps)
    then have "ends_with ?P (head_mw env (?run (tl (tl (buildRoute conf)))) s')"
      using that by (intro first_stages(2)) auto
    then show ?thesis by (simp add: buildRoute_def)
  qed
  have "ends_with ?P (line_mw env (?run (tl (buildRoute conf))) s)"
    using head by (intro first_stages(1)) (auto simp: w_def)
  then have "ends_with ?P (?run (buildRoute conf) s)" by (simp add: buildRoute_def)
  then show ?case by (simp add: main_run_def w_def)
qed simp

text \<open>C6: until a request has been read to its end nothing is done for it: no file is written or
  removed, no script is started, no session is made or touched and no random byte is used; when
  the pipeline ends, either the world is unchanged or the parser is in its final state.\<close>

theorem nothing_before_complete:
  assumes "main_handle k env conf s = Some (e, s')"
  shows "snd s' = snd s \<or> rp_state (cx_parser (fst s')) = STATE_COMPLETE"
  using main_effects [of s k env conf] assms by (simp add: complete_ctx_def)
definition idle_env :: Env where
  "idle_env = \<lparr>en_vhosts = [www_config], en_os = one_os, en_body_clock = (\<lambda>_. 0), en_session_now = 0,
     en_session_touch = 0, en_session_created = 0, en_cgi_now = 0, en_spawn = No_sockets\<rparr>"

definition idle_world :: World where
  "idle_world = \<lparr>wo_sessions = new_SessionManager, wo_random = \<lparr>rd_rest = [], rd_kernel = []\<rparr>,
     wo_cgi = new_CgiManager 8, wo_effects = [], wo_events = []\<rparr>"

definition some_client :: Client where
  "some_client = \<lparr>cl_fd = 5, cl_ip = ''10.0.0.1'', cl_port = 4000,
     cl_listenKey = ListenKey ''127.0.0.1'' 8080, cl_activeVhost = 0\<rparr>"

definition partial_context :: PipelineContext where
  "partial_context = (new_PipelineContext 0 www_config 100 some_client)\<lparr>cx_recvBuffer := ''GET /''\<rparr>"

lemma partial_run:
  "main_handle 1 idle_env www_config (partial_context, idle_world) =
     returned (partial_context, idle_world)"
proof -
  have "str_find ''GET /'' crlf 0 = None" by code_simp
  then show ?thesis
    by (simp add: main_run_def buildRoute_def line_mw_def parseRequestLine_def partial_context_def
        new_PipelineContext_def new_RequestParser_def take_phase_def)
qed

theorem nothing_before_complete_witness:
  "snd (partial_context, idle_world) = idle_world \<or>
   rp_state (cx_parser (fst (partial_context, idle_world))) = STATE_COMPLETE"
  using nothing_before_complete [OF partial_run] by simp

section \<open>Restarts\<close>

definition settled :: "Env \<Rightarrow> state \<Rightarrow> bool" where
  "settled env s \<longleftrightarrow>
     (let client = cx_ownerClient (fst s) in
      \<not> head_pending (fst s) \<and>
      find_vhost (en_vhosts env) (cl_listenKey client) (rq_getHeader (cx_req (fst s)) ''Host'') =
        Some (cl_activeVhost client))"

lemma chain_cong:
  assumes "\<And>m next s. m \<in> set ms \<Longrightarrow> h1 m next s = h2 m next s"
  shows "chain_run h1 ms s = chain_run h2 ms s"
  using assms
proof (induction ms arbitrary: s)
  case (Cons m ms)
  then have "chain_run h1 ms = chain_run h2 ms" by (intro ext) simp
  with Cons.prems show ?case by simp
qed simp

lemma no_restart:
  "VHostSelectMiddleware \<notin> set ms \<Longrightarrow>
    chain_run (main_step env r1) ms s = chain_run (main_step env r2) ms s"
proof (rule chain_cong)
  fix m and "next" :: continuation and s
  assume "VHostSelectMiddleware \<notin> set ms" "m \<in> set ms"
  then show "main_step env r1 m next s = main_step env r2 m next s" by (cases m) auto
qed

lemma tail_no_restart:
  "chain_run (main_step env r1) (drop 3 (buildRoute c)) = chain_run (main_step env r2) (drop 3 (buildRoute c))"
  by (intro ext no_restart) (auto simp: buildRoute_def)

lemma chain_run_Cons: "chain_run h (m # rest) = h m (chain_run h rest)"
  by (rule ext) simp

lemma main_step_fun:
  "main_step env r RequestLineParserMiddleware n = line_mw env n"
  "main_step env r RequestHeadParserMiddleware n = head_mw env n"
  "main_step env r VHostSelectMiddleware n = vhost_mw env r n"
  "main_step env r RequestLimitsMiddleware n = limits_mw env n"
  "main_step env r RequestBodyParserMiddleware n = body_mw env n"
  "main_step env r RedirectMiddleware n = redirect_mw env n"
  "main_step env r ConnectionHeaderMiddleware n = connection_mw env n"
  "main_step env r (PipelineRouterMiddleware rs) n = router_mw env rs n"
  "main_step env r ErrorHandlerMiddleware n = error_mw env"
  by (simp_all add: fun_eq_iff)

lemma run_route:
  "main_run env r (buildRoute c) =
     line_mw env (head_mw env (vhost_mw env r (chain_run (main_step env r) (drop 3 (buildRoute c)))))"
  by (simp add: main_run_def buildRoute_def chain_run_Cons main_step_fun)

lemma vhost_cong:
  assumes "\<And>c s'. settled env s' \<Longrightarrow> r1 c s' = r2 c s'"
  shows "vhost_mw env r1 next s = vhost_mw env r2 next s"
proof -
  obtain ctx w where s: "s = (ctx, w)" by (cases s)
  let ?client = "cx_ownerClient ctx"
  let ?find = "find_vhost (en_vhosts env) (cl_listenKey ?client) (rq_getHeader (cx_req ctx) ''Host'')"
  show ?thesis
  proof (cases "head_pending ctx")
    case True
    then show ?thesis by (simp add: s vhost_mw_def Let_def)
  next
    case False
    have "settled env (setConfig c (ctx\<lparr>cx_ownerClient := ?client\<lparr>cl_activeVhost := i\<rparr>\<rparr>), w)"
      if "?find = Some i" for c i
      using False that by (simp add: settled_def Let_def setConfig_def head_pending_def rq_getHeader_def)
    then show ?thesis
      using assms by (auto simp: s vhost_mw_def Let_def split: option.splits)
  qed
qed

lemma settled_run:
  assumes "settled env s"
  shows "main_run env r1 (buildRoute c) s = main_run env r2 (buildRoute c) s"
proof -
  obtain ctx w where s: "s = (ctx, w)" by (cases s)
  have st: "rp_state (cx_parser ctx) \<noteq> STATE_REQUEST_LINE" "rp_state (cx_parser ctx) \<noteq> STATE_HEADERS"
    using assms by (simp_all add: settled_def Let_def s head_pending_def)
  have "vhost_mw env r1 next s = vhost_mw env r2 next s" for "next"
    using assms by (simp add: s vhost_mw_def settled_def Let_def)
  then show ?thesis
    using tail_no_restart [of env r1 c r2] st by (simp add: run_route s line_mw_def head_mw_def)
qed

lemma run_cong:
  assumes "\<And>c s'. settled env s' \<Longrightarrow> r1 c s' = r2 c s'"
  shows "main_run env r1 (buildRoute c) s = main_run env r2 (buildRoute c) s"
proof -
  have "vhost_mw env r1 next = vhost_mw env r2 next" for "next"
    using vhost_cong [of env r1 r2] assms by blast
  then show ?thesis using tail_no_restart [of env r1 c r2] by (simp add: run_route)
qed

section \<open>Routes and locations\<close>

definition handler_of :: "string \<Rightarrow> ISubHandler option" where
  "handler_of meth =
     map_of [(''GET'', StaticFileHandler), (''HEAD'', StaticFileHandler), (''POST'', PostHandler),
             (''DELETE'', DeleteHandler), (''PUT'', PutHandler)] meth"

lemma fold_handlers:
  "map_of (fold (\<lambda>(meth, h) handlers. if meth \<in> A then om_set meth h handlers else handlers) hs m) k =
     (case map_of (rev hs) k of
        Some h \<Rightarrow> if k \<in> A then Some h else map_of m k
      | None \<Rightarrow> map_of m k)"
proof (induction hs arbitrary: m)
  case (Cons p hs)
  then show ?case by (cases p) (auto simp: map_add_def split: option.splits)
qed simp

lemma static_handlers_lookup:
  "map_of (static_handlers loc) meth = (if meth \<in> set (loc_allowedMethods loc) then handler_of meth else None)"
  unfolding static_handlers_def fold_handlers by (auto simp: handler_of_def)

lemma handler_of_valid: "handler_of meth \<noteq> None \<longleftrightarrow> meth \<in> set VALID_ALLOWED_METHODS"
  by (auto simp: handler_of_def VALID_ALLOWED_METHODS_def)

text \<open>C15: at the end of a route a method is served by its handler exactly when the location allows
  it; a method the server knows but the location does not allow is answered 405 with the allowed
  ones in the header \<open>Allow\<close>, in a fixed order; any other method is answered 501; in the last two
  cases nothing is written or removed.\<close>

theorem method_dispatch:
  "handler_mw env (static_handlers loc) next (ctx, w) =
     (let meth = rq_method (cx_req ctx); allowed = (\<lambda>m. m \<in> set (loc_allowedMethods loc)) in
      if meth \<in> set VALID_ALLOWED_METHODS \<and> allowed meth then
        (case call_handler env (the (handler_of meth)) ctx w of
           None \<Rightarrow> None
         | Some ((e, res), w1) \<Rightarrow>
             returned (if e = None then ctx\<lparr>cx_res := res\<rparr> else setError 500 (ctx\<lparr>cx_res := res\<rparr>), w1))
      else if meth \<in> set VALID_ALLOWED_METHODS then
        returned (map_res (rs_setHeader ''Allow''
          (join '', '' (filter allowed [''GET'', ''HEAD'', ''POST'', ''PUT'', ''DELETE'']))) (setError 405 ctx), w)
      else returned (setError 501 ctx, w))"
proof -
  let ?meth = "rq_method (cx_req ctx)"
  let ?allowed = "\<lambda>m. m \<in> set (loc_allowedMethods loc)"
  have "filter (has_key (static_handlers loc)) [''GET'', ''HEAD'', ''POST'', ''PUT'', ''DELETE''] =
      filter ?allowed [''GET'', ''HEAD'', ''POST'', ''PUT'', ''DELETE'']"
    by (rule filter_cong [OF refl]) (auto simp: has_key_def static_handlers_lookup handler_of_def)
  then have allow: "getAllowedMethods (static_handlers loc) =
      join '', '' (filter ?allowed [''GET'', ''HEAD'', ''POST'', ''PUT'', ''DELETE''])"
    by (simp only: getAllowedMethods_def)
  show ?thesis
  proof (cases "?meth \<in> set VALID_ALLOWED_METHODS \<and> ?allowed ?meth")
    case True
    then obtain h where "handler_of ?meth = Some h" using handler_of_valid by blast
    then show ?thesis using True
      by (simp add: handler_mw_def Let_def static_handlers_lookup split: option.splits prod.splits)
  next
    case False
    then have "map_of (static_handlers loc) ?meth = None"
      using handler_of_valid [of ?meth] by (auto simp: static_handlers_lookup)
    then show ?thesis using False by (simp add: handler_mw_def Let_def allow)
  qed
qed

text \<open>A configuration in which every location is stored under its own path.\<close>

definition well_keyed :: "Config \<Rightarrow> bool" where
  "well_keyed conf \<longleftrightarrow>
     om_ok (cfg_locations conf) \<and> (\<forall>(k, l) \<in> set (cfg_locations conf). k = loc_path l)"

lemma build_routes_lookup:
  assumes "well_keyed conf"
  shows "map_of (build_routes conf) k = map_option route_chain (map_of (cfg_locations conf) k)"
    and "fst ` set (build_routes conf) = fst ` set (cfg_locations conf)" "om_ok (build_routes conf)"
proof -
  let ?step = "\<lambda>it routes. om_set (loc_path (snd it)) (route_chain (snd it)) routes"
  have fold: "map_of (fold ?step ls m) k =
        (case map_of (rev ls) k of Some l \<Rightarrow> Some (route_chain l) | None \<Rightarrow> map_of m k) \<and>
      fst ` set (fold ?step ls m) = fst ` set ls \<union> fst ` set m \<and>
      (om_ok m \<longrightarrow> om_ok (fold ?step ls m))"
    if "\<forall>(k, l) \<in> set ls. k = loc_path l" for ls m
    using that
    by (induction ls arbitrary: m) (auto simp: map_add_def split: option.splits)
  have "map_of (rev (cfg_locations conf)) = map_of (cfg_locations conf)"
    using assms om_ok_distinct [of "cfg_locations conf"]
    by (intro map_of_inject_set [THEN iffD2]) (auto simp: well_keyed_def rev_map [symmetric])
  then show "map_of (build_routes conf) k = map_option route_chain (map_of (cfg_locations conf) k)"
    "fst ` set (build_routes conf) = fst ` set (cfg_locations conf)" "om_ok (build_routes conf)"
    using fold [of "cfg_locations conf" "[]"] assms
    by (auto simp: build_routes_def well_keyed_def split: option.splits)
qed

text \<open>The first prefix in the order of decreasing length is the longest one.\<close>

lemma find_first: "find P xs = Some x \<Longrightarrow> \<exists>us vs. xs = us @ x # vs \<and> P x \<and> (\<forall>u \<in> set us. \<not> P u)"
proof (induction xs)
  case (Cons y xs)
  show ?case
  proof (cases "P y")
    case True
    then have "y # xs = [] @ x # xs \<and> P x" using Cons.prems by simp
    then show ?thesis by fastforce
  next
    case False
    then obtain us vs where "xs = us @ x # vs" "P x" "\<forall>u \<in> set us. \<not> P u"
      using Cons by auto
    then have "y # xs = (y # us) @ x # vs \<and> P x \<and> (\<forall>u \<in> set (y # us). \<not> P u)"
      using False by simp
    then show ?thesis by blast
  qed
qed simp

lemma best_route_longest:
  assumes "om_ok routes" "k \<in> fst ` set routes" "prefix k path"
    and "\<And>k'. k' \<in> fst ` set routes \<Longrightarrow> prefix k' path \<Longrightarrow> length k' \<le> length k"
  shows "best_route routes path = map_of routes k"
proof -
  let ?sorted = "sort_key (\<lambda>it. - int (length (fst it))) routes"
  obtain v where kv: "(k, v) \<in> set routes" using assms(2) by auto
  then have "find (\<lambda>it. prefix (fst it) path) ?sorted \<noteq> None"
    using assms(3) by (auto simp: find_None_iff)
  then obtain x where x: "find (\<lambda>it. prefix (fst it) path) ?sorted = Some x" by blast
  from find_first [OF this] obtain us vs where split: "?sorted = us @ x # vs" "prefix (fst x) path"
    and none: "\<forall>u \<in> set us. \<not> prefix (fst u) path" by blast
  have "x \<in> set ?sorted" unfolding split(1) by simp
  then have xin: "x \<in> set routes" by simp
  then have le: "length (fst x) \<le> length k" using assms(4) split(2) by blast
  have "(k, v) \<in> set (us @ x # vs)" using kv split(1) by (metis set_sort)
  then have "(k, v) \<in> set (x # vs)" using none assms(3) by auto
  moreover have "sorted (map (\<lambda>it. - int (length (fst it))) (us @ x # vs))"
    using sorted_sort_key [of "\<lambda>it. - int (length (fst it))" routes] split(1) by metis
  ultimately have "length k \<le> length (fst x)"
    by (auto simp: sorted_append)
  then have "fst x = k"
    using le split(2) assms(3) by (auto simp: prefix_def append_eq_append_conv)
  then have "map_of routes k = Some (snd x)"
    using xin assms(1) om_ok_map_of [of routes k "snd x"] by (metis prod.collapse)
  then show ?thesis using x by (simp add: best_route_def)
qed

text \<open>The router and the location look-up agree: for every path that starts with a slash the
  chain that is run is the one built for the location that the handlers and limits look up, so a
  request is never limited by one location and served by another.\<close>

theorem router_agrees:
  assumes "well_keyed conf" "''/'' \<in> fst ` set (cfg_locations conf)" "prefix ''/'' path"
  shows "\<exists>loc. getLocation conf path = Inr loc \<and>
    best_route (build_routes conf) path = Some (route_chain loc)"
proof -
  let ?key = "bestMatchKey (cfg_locations conf) path"
  have ne: "?key \<noteq> []" using bestMatchKey_longest [OF assms(2,3)] by auto
  from bestMatchKey_sound [OF this] have key: "?key \<in> fst ` set (cfg_locations conf)" "prefix ?key path"
    by auto
  obtain loc where loc: "map_of (cfg_locations conf) ?key = Some loc"
    using key(1) by (metis map_of_eq_None_iff not_None_eq)
  then have "getLocation conf path = Inr loc" using ne by (simp add: getLocation_def Let_def)
  moreover have "best_route (build_routes conf) path = map_of (build_routes conf) ?key"
  proof (rule best_route_longest)
    show "length k' \<le> length ?key" if "k' \<in> fst ` set (build_routes conf)" "prefix k' path" for k'
      using that bestMatchKey_longest by (simp add: build_routes_lookup(2) [OF assms(1)])
  qed (use key in \<open>simp_all add: build_routes_lookup [OF assms(1)]\<close>)
  ultimately show ?thesis using loc by (simp add: build_routes_lookup(1) [OF assms(1)])
qed

theorem router_agrees_witness:
  "\<exists>loc. getLocation two_locations ''/img/a.png'' = Inr loc \<and>
    best_route (build_routes two_locations) ''/img/a.png'' = Some (route_chain loc)"
  by (rule router_agrees) (simp_all add: well_keyed_def two_locations_def om_ok_def)
section \<open>Exceptions\<close>

definition has_default :: "Config \<Rightarrow> bool" where
  "has_default conf \<longleftrightarrow> ''/'' \<in> fst ` set (cfg_locations conf)"

lemma has_default_location: "has_default conf \<Longrightarrow> \<exists>l. getLocation conf path = Inr l"
  unfolding has_default_def by (rule getLocation_total)

lemma error_handle_no_throw: "has_default conf \<Longrightarrow> fst (error_handle os conf req res) = None"
  using has_default_location [of conf "rq_path req"]
  by (auto simp: error_handle_def error_uri_def Let_def split: sum.splits option.splits if_splits)

text \<open>A run that throws nothing leaves the random source in order as well.\<close>

definition no_throw :: "result \<Rightarrow> bool" where
  "no_throw r \<longleftrightarrow> (\<forall>e s. r = Some (e, s) \<longrightarrow> e = None \<and> steady (wo_random (snd s)))"

lemma no_throw_simps [simp]:
  "no_throw None" "no_throw (Some (None, s)) \<longleftrightarrow> steady (wo_random (snd s))" "\<not> no_throw (Some (Some e, s))"
  by (cases s; simp add: no_throw_def)+

definition serving :: "state \<Rightarrow> bool" where
  "serving s \<longleftrightarrow> has_default (cx_conf (fst s)) \<and> steady (wo_random (snd s))"

lemma error_mw_no_throw: "serving s \<Longrightarrow> no_throw (error_mw env s)"
proof -
  assume "serving s"
  then have d: "has_default (cx_conf (fst s))" and r: "steady (wo_random (snd s))" by (simp_all add: serving_def)
  obtain ctx w where s: "s = (ctx, w)" by (cases s)
  obtain e res where h: "error_handle (en_os env) (cx_conf ctx) (cx_req ctx) (cx_res ctx) = (e, res)"
    by force
  then have "e = None" using error_handle_no_throw [of "cx_conf ctx"] d by (metis fst_conv s)
  then show ?thesis using r by (simp add: s error_mw_def h Let_def)
qed

lemma fail_with_no_throw: "serving s \<Longrightarrow> no_throw (fail_with env err s)"
  by (simp add: fail_with_def error_mw_no_throw setError_def serving_def)

lemma post_handle_steady:
  assumes "steady rd" "post_handle os conf req rd res = Some (r, effects, rd2)"
  shows "steady rd2"
proof -
  have "sure (genToken 8 upload_letters)" by (rule sure_token) (simp_all add: upload_letters_def)
  from sureD [OF this assms(1)] assms show ?thesis
    by (auto simp: post_handle_def Let_def split: sum.splits if_splits option.splits)
qed

lemma call_handler_steady:
  "steady (wo_random w) \<Longrightarrow> call_handler env h ctx w = Some (r, w2) \<Longrightarrow> steady (wo_random w2)"
  by (cases h) (auto simp: call_handler_def Let_def split: option.splits prod.splits dest: post_handle_steady)

text \<open>A route does not throw: a handler's exceptions are turned into 500, and a session is always
  created while the random source gives bytes.\<close>

interpretation route_no_throw: chain_contract "sub_handle env" "\<lambda>_. True" serving no_throw for env
proof unfold_locales
  fix m and s :: state and "next" :: continuation
  assume s: "serving s" and n: "\<And>s'. serving s' \<Longrightarrow> no_throw (next s')"
  obtain ctx w where sw: "s = (ctx, w)" by (cases s)
  obtain l where l: "getLocation (cx_conf ctx) (rq_path (cx_req ctx)) = Inr l"
    using has_default_location s sw by (metis fst_conv serving_def)
  have rd: "steady (wo_random w)" using s by (simp add: sw serving_def)
  have other: "serving (ctx2, w2)" if "cx_conf ctx2 = cx_conf ctx" "steady (wo_random w2)" for ctx2 w2
    using s that by (simp add: sw serving_def)
  show "no_throw (sub_handle env m next s)"
  proof (cases m)
    case SessionMiddleware
    then show ?thesis
      by (auto simp: sw session_mw_def Let_def rd intro!: n other split: prod.splits option.splits sum.splits
          dest: createSession_steady [OF rd])
  next
    case CgiRouterMiddleware
    then show ?thesis using s n l rd by (auto simp: sw cgi_mw_def Let_def serving_def split: prod.splits)
  next
    case (HandlerMiddleware hs)
    then show ?thesis
      using rd call_handler_steady [OF rd] by (auto simp: sw handler_mw_def Let_def split: option.splits prod.splits)
  qed
qed (simp add: serving_def)

lemma find_member: "find P xs = Some x \<Longrightarrow> x \<in> set xs"
  by (induction xs) (auto split: if_splits)

lemma last_idx_bound: "last_idx P xs = Some i \<Longrightarrow> i < length xs"
  unfolding last_idx_def by (drule find_member) simp

lemma find_vhost_bound: "find_vhost vs key h = Some i \<Longrightarrow> i < length vs"
  using idx_of_Some last_idx_bound
  by (fastforce simp: find_vhost_def find_vhosts_spec split: option.splits if_splits)

definition sound_servers :: "Env \<Rightarrow> bool" where
  "sound_servers env \<longleftrightarrow> (\<forall>c \<in> set (en_vhosts env). has_default c)"

text \<open>Reading throws where the query of the request line cannot be decoded, and where a chunk does not
  fit into a string.\<close>

definition fails_to_read :: "Env \<Rightarrow> PipelineContext \<Rightarrow> bool" where
  "fails_to_read env ctx \<longleftrightarrow>
     (rp_state (cx_parser ctx) = STATE_REQUEST_LINE \<and>
        (\<exists>e. parseRequestLine (cx_parser ctx) (cx_req ctx) (cx_recvBuffer ctx) = Inl e)) \<or>
     (rp_state (cx_parser ctx) = STATE_BODY \<and>
        (\<exists>e. parseBody (en_body_clock env) (cx_parser ctx) (cx_req ctx) (cx_recvBuffer ctx) = Inl e))"

text \<open>A context in a server that can look up every path; with \<open>b\<close>, its request is complete.\<close>

definition able :: "bool \<Rightarrow> Env \<Rightarrow> state \<Rightarrow> bool" where
  "able b env s \<longleftrightarrow> serving s \<and> cl_activeVhost (cx_ownerClient (fst s)) < length (en_vhosts env) \<and>
     (b \<longrightarrow> complete_ctx s)"

definition only_reading :: "bool \<Rightarrow> Env \<Rightarrow> result \<Rightarrow> bool" where
  "only_reading b env r \<longleftrightarrow>
     (\<forall>e s. r = Some (e, s) \<longrightarrow> able False env s \<and> (e \<noteq> None \<longrightarrow> \<not> b \<and> fails_to_read env (fst s)))"

lemma only_reading_simps [simp]:
  "only_reading b env None"
  "only_reading b env (Some (None, s)) \<longleftrightarrow> able False env s"
  "only_reading b env (Some (Some e, s)) \<longleftrightarrow> able False env s \<and> \<not> b \<and> fails_to_read env (fst s)"
  by (cases s; auto simp: only_reading_def)+

lemma able_weak [simp]: "able b env s \<Longrightarrow> able False env s"
  by (simp add: able_def)

text \<open>What \<open>able\<close> reads of a context.\<close>

lemma able_cong:
  "able b env s \<Longrightarrow> cx_conf ctx = cx_conf (fst s) \<Longrightarrow> cx_ownerClient ctx = cx_ownerClient (fst s) \<Longrightarrow>
    rp_state (cx_parser ctx) = rp_state (cx_parser (fst s)) \<Longrightarrow> wo_random w = wo_random (snd s) \<Longrightarrow> able b env (ctx, w)"
  by (simp add: able_def serving_def complete_ctx_def)

lemma error_mw_client: "error_mw env s = Some (e, s') \<Longrightarrow> cx_ownerClient (fst s') = cx_ownerClient (fst s)"
  by (cases s) (auto simp: error_mw_def Let_def split: prod.splits option.splits if_splits)

lemma able_error_mw:
  assumes "able b env s"
  shows "only_reading b env (error_mw env s)"
proof (cases "error_mw env s")
  case (Some r)
  obtain e s' where r: "r = (e, s')" by (cases r)
  have "no_throw (error_mw env s)" using assms by (simp add: able_def error_mw_no_throw)
  then have "e = None" "steady (wo_random (snd s'))" using Some r by (cases e; simp)+
  then show ?thesis
    using Some r assms error_mw_ends [of env s e s'] error_mw_client [of env s e s']
    by (simp add: able_def serving_def complete_ctx_def)
qed simp

lemma able_fail_with: "able b env s \<Longrightarrow> only_reading b env (fail_with env err s)"
  unfolding fail_with_def by (rule able_error_mw) (simp add: able_def serving_def complete_ctx_def setError_def)

lemma router_only_reading:
  assumes "able b env s"
    and "\<And>s'. able b env s' \<Longrightarrow> only_reading b env (next s')"
  shows "only_reading b env (router_mw env (build_routes conf) next s)"
proof (cases "best_route (build_routes conf) (rq_path (cx_req (fst s)))")
  case None
  then show ?thesis using assms
    by (cases s) (simp add: router_mw_def able_def serving_def complete_ctx_def setError_def)
next
  case (Some chain)
  have nt: "no_throw (sub_run env chain s)"
    unfolding sub_run_def using assms(1) by (intro route_no_throw.run) (simp_all add: list_all_iff able_def)
  show ?thesis
  proof (cases "sub_run env chain s")
    case None
    then show ?thesis using Some by (cases s) (simp add: router_mw_def)
  next
    case sub: (Some r)
    obtain s' where r: "r = (None, s')" using nt sub by (cases r; cases "fst r") auto
    then have rd: "steady (wo_random (snd s'))" using nt sub by simp
    have "able b env s'"
      using sub_run_keeps [of env chain s None s'] sub r rd assms(1)
      by (simp add: able_def serving_def complete_ctx_def fixed_part_def)
    then show ?thesis using Some sub r assms(2) by (cases s; cases s') (auto simp: router_mw_def)
  qed
qed

lemma vhost_only_reading:
  assumes "sound_servers env" "able b env s"
    and "\<And>s'. able b env s' \<Longrightarrow> only_reading b env (next s')"
    and "\<And>c s'. able b env s' \<Longrightarrow> only_reading b env (restart c s')"
  shows "only_reading b env (vhost_mw env restart next s)"
proof -
  obtain ctx w where s: "s = (ctx, w)" by (cases s)
  let ?client = "cx_ownerClient ctx"
  let ?find = "find_vhost (en_vhosts env) (cl_listenKey ?client) (rq_getHeader (cx_req ctx) ''Host'')"
  have chosen: "able b env (setConfig (en_vhosts env ! i) (ctx\<lparr>cx_ownerClient := ?client\<lparr>cl_activeVhost := j\<rparr>\<rparr>), w)"
    if "i < length (en_vhosts env)" "j < length (en_vhosts env)" for i j
    using assms(1,2) that by (simp add: able_def serving_def complete_ctx_def setConfig_def s sound_servers_def)
  have active: "cl_activeVhost ?client < length (en_vhosts env)" using assms(2) by (simp add: able_def s)
  have kept: "able b env (setConfig (en_vhosts env ! i) ctx, w)" if "i < length (en_vhosts env)" for i
    using chosen [OF that active] by simp
  show ?thesis
  proof (cases ?find)
    case None
    then show ?thesis using assms(2,3) kept [OF active] by (simp add: s vhost_mw_def Let_def)
  next
    case (Some i)
    then have "i < length (en_vhosts env)" by (rule find_vhost_bound)
    then show ?thesis using Some assms(2-4) chosen kept by (simp add: s vhost_mw_def Let_def)
  qed
qed

lemma limits_only_reading:
  assumes "able b env s" "\<And>s'. able b env s' \<Longrightarrow> only_reading b env (next s')"
  shows "only_reading b env (limits_mw env next s)"
proof -
  obtain ctx w where s: "s = (ctx, w)" by (cases s)
  obtain l where l: "getLocation (cx_conf ctx) (rq_path (cx_req ctx)) = Inr l"
    using has_default_location assms(1) s by (metis fst_conv able_def serving_def)
  have keep: "able b env (ctx\<lparr>cx_req := r, cx_parser := (cx_parser ctx)\<lparr>rp_bodyParser := p\<rparr>\<rparr>, w)" for r p
    using assms(1) by (simp add: able_def serving_def complete_ctx_def s)
  show ?thesis
    using assms keep able_fail_with [OF keep] able_fail_with [OF assms(1)]
    by (auto simp: s limits_mw_def Let_def l split: option.splits)
qed


lemma head_only_reading:
  assumes "able b env s" "\<And>s'. able b env s' \<Longrightarrow> only_reading b env (next s')"
  shows "only_reading b env (head_mw env next s)"
proof -
  obtain ctx w where s: "s = (ctx, w)" by (cases s)
  have not_b: "\<not> b" if "rp_state (cx_parser ctx) \<noteq> STATE_COMPLETE"
    using assms(1) that by (simp add: able_def complete_ctx_def s)
  have phase: "able False env (take_phase p ctx, w)" for p
    using assms(1) by (cases p) (simp add: able_def serving_def take_phase_def s)
  show ?thesis
  proof (cases b)
    case True
    then show ?thesis using assms by (simp add: s head_mw_def able_def complete_ctx_def)
  next
    case False
    then show ?thesis
      using assms phase able_fail_with [OF phase]
      by (auto simp: s head_mw_def Let_def split: prod.splits ParseResult.splits)
  qed
qed

lemma line_only_reading:
  assumes "able b env s" "\<And>s'. able b env s' \<Longrightarrow> only_reading b env (next s')"
  shows "only_reading b env (line_mw env next s)"
proof -
  obtain ctx w where s: "s = (ctx, w)" by (cases s)
  have phase: "able False env (take_phase p ctx, w)" for p
    using assms(1) by (cases p) (simp add: able_def serving_def take_phase_def s)
  show ?thesis
  proof (cases b)
    case True
    then show ?thesis using assms by (simp add: s line_mw_def able_def complete_ctx_def)
  next
    case False
    then show ?thesis
      using assms phase able_fail_with [OF phase]
      by (auto simp: s line_mw_def Let_def fails_to_read_def split: prod.splits sum.splits ParseResult.splits)
  qed
qed

lemma body_only_reading:
  assumes "able b env s" "\<And>s'. able b env s' \<Longrightarrow> only_reading b env (next s')"
  shows "only_reading b env (body_mw env next s)"
proof -
  obtain ctx w where s: "s = (ctx, w)" by (cases s)
  have phase: "able False env (take_phase p ctx, w)" for p
    using assms(1) by (cases p) (simp add: able_def serving_def take_phase_def s)
  show ?thesis
  proof (cases b)
    case True
    then show ?thesis using assms by (simp add: s body_mw_def able_def complete_ctx_def)
  next
    case False
    then show ?thesis
      using assms phase able_fail_with [OF phase]
      by (auto simp: s body_mw_def Let_def fails_to_read_def
          split: prod.splits sum.splits ParseResult.splits option.splits)
  qed
qed

lemma main_contract:
  assumes "sound_servers env" "\<And>c s'. able b env s' \<Longrightarrow> only_reading b env (restart c s')"
  shows "chain_contract (main_step env restart) (\<lambda>m. m \<in> set (buildRoute conf)) (able b env) (only_reading b env)"
proof unfold_locales
  fix m and s :: state and "next" :: continuation
  assume m: "m \<in> set (buildRoute conf)" and s: "able b env s"
    and n: "\<And>s'. able b env s' \<Longrightarrow> only_reading b env (next s')"
  obtain ctx w where sw: "s = (ctx, w)" by (cases s)
  obtain l where l: "getLocation (cx_conf ctx) (rq_path (cx_req ctx)) = Inr l"
    using has_default_location s sw by (metis fst_conv able_def serving_def)
  have res: "able c env (ctx\<lparr>cx_res := r\<rparr>, w)" if "able c env s" for r c
    using that by (simp add: able_def serving_def complete_ctx_def sw)
  from m consider "m = RequestLineParserMiddleware" | "m = RequestHeadParserMiddleware"
    | "m = VHostSelectMiddleware" | "m = RequestLimitsMiddleware" | "m = RequestBodyParserMiddleware"
    | "m = RedirectMiddleware" | "m = ConnectionHeaderMiddleware"
    | "m = PipelineRouterMiddleware (build_routes conf)" | "m = ErrorHandlerMiddleware"
    by (auto simp: buildRoute_def)
  then show "only_reading b env (main_step env restart m next s)"
  proof cases
    case 3 then show ?thesis using vhost_only_reading [OF assms(1) s n assms(2)] by simp
  next
    case 8 then show ?thesis using router_only_reading [OF s n] by simp
  qed (use line_only_reading [OF s n] head_only_reading [OF s n] limits_only_reading [OF s n]
      body_only_reading [OF s n] able_error_mw [OF s] n [OF s] n [OF res [OF s]] res [OF able_weak [OF s]] l
      in \<open>auto simp: sw redirect_mw_def connection_mw_def Let_def\<close>)
qed simp

text \<open>Reading apart, the pipeline never throws: in servers that have a location for \<open>/\<close>, while the random
  source gives bytes, whatever the request, the files and the scripts do, an exception leaves the
  pipeline only when reading fails, and none once the request is complete.\<close>

lemma pipeline_only_reading:
  assumes "sound_servers env" "able b env s"
  shows "only_reading b env (main_handle k env conf s)"
  using assms(2)
proof (induction k arbitrary: conf s)
  case (Suc k)
  have "chain_contract (main_step env (main_handle k env)) (\<lambda>m. m \<in> set (buildRoute conf)) (able b env)
      (only_reading b env)"
    using assms(1) Suc by (intro main_contract) auto
  from chain_contract.run [OF this, of "buildRoute conf" s] Suc.prems show ?case
    by (simp add: main_run_def list_all_iff)
qed simp

lemma answering_never_throws:
  assumes "sound_servers env" "able True env s"
  shows "main_handle k env conf s \<noteq> Some (Some e, s')"
  using pipeline_only_reading [OF assms, of k conf] by (cases s') auto

text \<open>A request line whose query holds a percent sign that is not followed by two characters
  throws out of the pipeline: nothing on the way turns the exception into a response.\<close>

theorem malformed_query_throws:
  assumes "rp_state (cx_parser ctx) = STATE_REQUEST_LINE"
    and "cx_recvBuffer ctx = (m @ CHR '' '' # p @ CHR ''?'' # (q @ ''=%'') @ CHR '' '' # ''HTTP/1.1'') @ crlf @ rest"
    and "length (cx_recvBuffer ctx) \<le> unat (rp_maxHeaderBytes (cx_parser ctx))"
    and "CHR '' '' \<notin> set m" "CHR '' '' \<notin> set p" "CHR ''?'' \<notin> set p" "q \<noteq> []"
    and "list_all (\<lambda>c. c \<notin> set ''=&% '') q"
    and "CR \<notin> set m" "CR \<notin> set p" "CR \<notin> set q"
  shows "main_handle (Suc k) env conf (ctx, w) = throws Invalid_argument (ctx, w)"
proof -
  let ?line = "m @ CHR '' '' # p @ CHR ''?'' # (q @ ''=%'') @ CHR '' '' # ''HTTP/1.1''"
  have "CR \<notin> set ?line" using assms(9-11) by auto
  from str_find_crlf [OF this, of rest]
  have "str_find (cx_recvBuffer ctx) crlf 0 = Some (length ?line)"
    unfolding assms(2) by simp
  moreover have "take (length l) (l @ r) = l" for l r :: string by simp
  then have "take (length ?line) (cx_recvBuffer ctx) = ?line" unfolding assms(2) .
  moreover have "parse_line (cx_req ctx) ?line = Inl Invalid_argument"
    using assms(4-8) by (intro parse_line_malformed) simp_all
  ultimately have "parseRequestLine (cx_parser ctx) (cx_req ctx) (cx_recvBuffer ctx) = Inl Invalid_argument"
    using assms(1,3) by (simp add: parseRequestLine_def)
  then show ?thesis using assms(1) by (simp add: main_run_def buildRoute_def line_mw_def)
qed

theorem malformed_query_throws_witness:
  "main_handle 1 idle_env www_config
     (partial_context\<lparr>cx_recvBuffer := ''GET /?a=% HTTP/1.1'' @ crlf\<rparr>, idle_world) =
   throws Invalid_argument
     (partial_context\<lparr>cx_recvBuffer := ''GET /?a=% HTTP/1.1'' @ crlf\<rparr>, idle_world)"
  using malformed_query_throws [of "partial_context\<lparr>cx_recvBuffer := ''GET /?a=% HTTP/1.1'' @ crlf\<rparr>"
      "''GET''" "''/''" "''a''" "[]" 0 idle_env www_config idle_world]
  by (simp add: partial_context_def new_PipelineContext_def new_RequestParser_def)

end
