(* ===== verification/Timeouts.thy ===== *)
theory Timeouts
  imports Prelude
begin

text \<open>
  \<open>src/Lib/Timeout/TimeoutManager.cpp\<close>: the deadlines of the connections, kept in a map from a
  time to the objects that expire then and in a map from an object back to its time.  The two
  maps are shown to stay consistent, and together to implement a partial function from objects to
  deadlines; the sleep the event loop is given neither misses a deadline nor ends before one.
  An object is its address, and 0 is the null pointer; the readings of the clock are arguments.
\<close>

section \<open>The statistics\<close>

record TimeoutStats =
  st_totalTimeouts :: size_t
  st_activeConnections :: size_t
  st_maxActiveConnections :: size_t

definition new_TimeoutStats :: TimeoutStats where
  "new_TimeoutStats = \<lparr>st_totalTimeouts = 0, st_activeConnections = 0, st_maxActiveConnections = 0\<rparr>"

definition incrementTimeouts :: "TimeoutStats \<Rightarrow> TimeoutStats" where
  "incrementTimeouts st = st\<lparr>st_totalTimeouts := st_totalTimeouts st + 1\<rparr>"

definition incrementActiveConnections :: "TimeoutStats \<Rightarrow> TimeoutStats" where
  "incrementActiveConnections st =
     (let n = st_activeConnections st + 1
      in st\<lparr>st_activeConnections := n,
            st_maxActiveConnections := (if st_maxActiveConnections st < n then n
                                        else st_maxActiveConnections st)\<rparr>)"

definition decrementActiveConnections :: "TimeoutStats \<Rightarrow> TimeoutStats" where
  "decrementActiveConnections st = st\<lparr>st_activeConnections := st_activeConnections st - 1\<rparr>"

section \<open>The manager\<close>

record TimeoutManager =
  tm_timeoutMap :: "(int, nat list) omap"
  tm_reverseMap :: "(nat, int) omap"
  tm_stats :: TimeoutStats

definition new_TimeoutManager :: TimeoutManager where
  "new_TimeoutManager = \<lparr>tm_timeoutMap = [], tm_reverseMap = [], tm_stats = new_TimeoutStats\<rparr>"

text \<open>The object is taken out of the list of its time, and an empty list out of the map.\<close>

definition unlist :: "nat \<Rightarrow> int \<Rightarrow> (int, nat list) omap \<Rightarrow> (int, nat list) omap" where
  "unlist obj expiryTime tmap =
     (case map_of tmap expiryTime of
        None \<Rightarrow> tmap
      | Some objs \<Rightarrow>
          (if remove1 obj objs = [] then om_erase expiryTime tmap
           else om_set expiryTime (remove1 obj objs) tmap))"

definition remove_timer :: "nat \<Rightarrow> TimeoutManager \<Rightarrow> TimeoutManager" where
  "remove_timer obj m =
     (if obj = 0 then m
      else
        (case map_of (tm_reverseMap m) obj of
           None \<Rightarrow> m
         | Some expiryTime \<Rightarrow>
             m\<lparr>tm_timeoutMap := unlist obj expiryTime (tm_timeoutMap m),
               tm_reverseMap := om_erase obj (tm_reverseMap m),
               tm_stats := decrementActiveConnections (tm_stats m)\<rparr>))"

definition listed :: "(int, nat list) omap \<Rightarrow> int \<Rightarrow> nat list" where
  "listed tmap t = (case map_of tmap t of None \<Rightarrow> [] | Some objs \<Rightarrow> objs)"

definition add_timer :: "int \<Rightarrow> nat \<Rightarrow> int \<Rightarrow> TimeoutManager \<Rightarrow> TimeoutManager" where
  "add_timer now obj timeoutSec m =
     (if obj = 0 then m
      else
        (let m1 = remove_timer obj m; expiryTime = now + timeoutSec
         in m1\<lparr>tm_timeoutMap := om_set expiryTime (listed (tm_timeoutMap m1) expiryTime @ [obj])
                                  (tm_timeoutMap m1),
               tm_reverseMap := om_set obj expiryTime (tm_reverseMap m1),
               tm_stats := incrementActiveConnections (tm_stats m1)\<rparr>))"

text \<open>The first loop of \<open>checkAndHandleTimeouts\<close>: the entries up to the present are taken out.\<close>

fun take_expired :: "int \<Rightarrow> (int, nat list) omap \<Rightarrow> nat list \<times> (int, nat list) omap" where
  "take_expired now [] = ([], [])"
| "take_expired now ((t, objs) # tmap) =
     (if t \<le> now then (let (due, rest) = take_expired now tmap in (objs @ due, rest))
      else ([], (t, objs) # tmap))"

definition collect_expired :: "int \<Rightarrow> TimeoutManager \<Rightarrow> nat list \<times> TimeoutManager" where
  "collect_expired now m =
     (let (due, tmap) = take_expired now (tm_timeoutMap m)
      in (due, m\<lparr>tm_timeoutMap := tmap,
                 tm_reverseMap := fold om_erase due (tm_reverseMap m),
                 tm_stats := fold (\<lambda>_. decrementActiveConnections) due (tm_stats m)\<rparr>))"

text \<open>
  The whole of it, for a state that holds a manager: \<open>onTimeout\<close> may use the manager, which is
  read and written through \<open>get\<close> and \<open>put\<close>.
\<close>

definition checkAndHandleTimeouts ::
  "('s \<Rightarrow> TimeoutManager) \<Rightarrow> (TimeoutManager \<Rightarrow> 's \<Rightarrow> 's) \<Rightarrow> (nat \<Rightarrow> 's \<Rightarrow> 's) \<Rightarrow> int \<Rightarrow> 's \<Rightarrow> 's" where
  "checkAndHandleTimeouts get put onTimeout now s =
     (let (due, m) = collect_expired now (get s)
      in fold (\<lambda>obj s. onTimeout obj (put ((get s)\<lparr>tm_stats := incrementTimeouts (tm_stats (get s))\<rparr>) s))
           due (put m s))"

definition int_max :: int where
  "int_max = 2147483647"

text \<open>A difference of whole seconds is exact as a \<open>double\<close> where it is compared and scaled.\<close>

definition getNextTimeoutInterval :: "int \<Rightarrow> TimeoutManager \<Rightarrow> int" where
  "getNextTimeoutInterval now m =
     (case tm_timeoutMap m of
        [] \<Rightarrow> -1
      | (nextExpiry, _) # _ \<Rightarrow>
          (if nextExpiry \<le> now then 0
           else let diff = nextExpiry - now
                in if int_max < diff * 1000 then int_max else diff * 1000))"

definition getActiveTimeoutCount :: "TimeoutManager \<Rightarrow> size_t" where
  "getActiveTimeoutCount m = st_activeConnections (tm_stats m)"

section \<open>The contract\<close>

text \<open>
  What the server relies on: a set of deadlines, of which the due ones are handed out once, the
  earliest first, and a bound on the sleep.
\<close>

locale deadline_queue =
  fixes deadline :: "'q \<Rightarrow> 'o \<Rightarrow> int option"
    and add :: "int \<Rightarrow> 'o \<Rightarrow> int \<Rightarrow> 'q \<Rightarrow> 'q"
    and remove :: "'o \<Rightarrow> 'q \<Rightarrow> 'q"
    and due :: "int \<Rightarrow> 'q \<Rightarrow> 'o list \<times> 'q"
    and sleep :: "int \<Rightarrow> 'q \<Rightarrow> int"
    and valid :: "'o \<Rightarrow> bool"
    and inv :: "'q \<Rightarrow> bool"
  assumes add: "inv q \<Longrightarrow> valid x \<Longrightarrow> deadline (add now x d q) = (deadline q)(x \<mapsto> now + d)"
    and inv_add: "inv q \<Longrightarrow> inv (add now x d q)"
    and remove: "inv q \<Longrightarrow> deadline (remove x q) = (deadline q)(x := None)"
    and inv_remove: "inv q \<Longrightarrow> inv (remove x q)"
    and due: "inv q \<Longrightarrow> due now q = (xs, r) \<Longrightarrow>
      distinct xs \<and> set xs = {x. \<exists>t. deadline q x = Some t \<and> t \<le> now} \<and>
      sorted (map (\<lambda>x. the (deadline q x)) xs) \<and> deadline r = deadline q |` (- set xs)"
    and inv_due: "inv q \<Longrightarrow> due now q = (xs, r) \<Longrightarrow> inv r"
    and sleep_none: "inv q \<Longrightarrow> sleep now q = -1 \<longleftrightarrow> deadline q = Map.empty"
    and sleep_some: "inv q \<Longrightarrow> deadline q x = Some t \<Longrightarrow>
      0 \<le> sleep now q \<and> (now < t \<longrightarrow> sleep now q \<le> (t - now) * 1000)"
begin

text \<open>After the due ones are taken out, no deadline that is left has passed.\<close>

lemma due_done: "inv q \<Longrightarrow> due now q = (xs, r) \<Longrightarrow> deadline r x = Some t \<Longrightarrow> now < t"
  using due [of q now xs r] by (force simp: restrict_map_def split: if_splits)

lemma due_again: "inv q \<Longrightarrow> due now q = (xs, r) \<Longrightarrow> fst (due now r) = []"
proof -
  assume a: "inv q" "due now q = (xs, r)"
  obtain ys r2 where b: "due now r = (ys, r2)" by (cases "due now r")
  have "set ys = {x. \<exists>t. deadline r x = Some t \<and> t \<le> now}" using due [OF inv_due [OF a] b] by simp
  also have "\<dots> = {}" using due_done [OF a] by force
  finally show ?thesis using b by simp
qed

text \<open>A deadline that is moved is not handed out at its old time.\<close>

lemma readd_not_due:
  assumes "inv q" "valid x" "0 < d" "due now (add now x d q) = (xs, r)"
  shows "x \<notin> set xs" "deadline r x = Some (now + d)"
  using due [OF inv_add [OF assms(1)] assms(4)] add [OF assms(1,2), of now d] assms(3)
  by (auto simp: restrict_map_def)

lemma removed_not_due: "inv q \<Longrightarrow> due now (remove x q) = (xs, r) \<Longrightarrow> x \<notin> set xs"
  using due [OF inv_remove [of q x], of now xs r] remove [of q x] by auto

end

section \<open>The two maps\<close>

definition timers_ok :: "TimeoutManager \<Rightarrow> bool" where
  "timers_ok m \<longleftrightarrow>
     om_ok (tm_timeoutMap m) \<and> om_ok (tm_reverseMap m) \<and>
     (\<forall>t. map_of (tm_timeoutMap m) t \<noteq> Some [] \<and> distinct (listed (tm_timeoutMap m) t)) \<and>
     (\<forall>t obj. obj \<in> set (listed (tm_timeoutMap m) t) \<longleftrightarrow> map_of (tm_reverseMap m) obj = Some t) \<and>
     map_of (tm_reverseMap m) 0 = None"

abbreviation deadlines :: "TimeoutManager \<Rightarrow> nat \<Rightarrow> int option" where
  "deadlines m \<equiv> map_of (tm_reverseMap m)"

lemma timers_okD:
  assumes "timers_ok m"
  shows "om_ok (tm_timeoutMap m)" "om_ok (tm_reverseMap m)" "deadlines m 0 = None"
    "map_of (tm_timeoutMap m) t \<noteq> Some []" "distinct (listed (tm_timeoutMap m) t)"
    "obj \<in> set (listed (tm_timeoutMap m) t) \<longleftrightarrow> deadlines m obj = Some t"
  using assms by (simp_all add: timers_ok_def)

lemma new_timers_ok: "timers_ok new_TimeoutManager"
  by (simp add: timers_ok_def new_TimeoutManager_def listed_def)

lemma listed_om_set [simp]:
  "listed (om_set t xs tmap) u = (if u = t then xs else listed tmap u)"
  by (simp add: listed_def)

lemma listed_om_erase [simp]:
  "listed (om_erase t tmap) u = (if u = t then [] else listed tmap u)"
  by (simp add: listed_def)

lemma listed_unlist [simp]:
  "listed (unlist obj t tmap) u = (if u = t then remove1 obj (listed tmap u) else listed tmap u)"
  by (auto simp: unlist_def listed_def split: option.splits)

lemma unlist_ok: "om_ok tmap \<Longrightarrow> om_ok (unlist obj t tmap)"
  by (simp add: unlist_def split: option.splits)

lemma unlist_not_Nil: "map_of tmap u \<noteq> Some [] \<Longrightarrow> map_of (unlist obj t tmap) u \<noteq> Some []"
  by (auto simp: unlist_def split: option.splits if_splits)

lemma deadlines_remove:
  "timers_ok m \<Longrightarrow> deadlines (remove_timer obj m) = (deadlines m)(obj := None)"
  by (auto simp: remove_timer_def timers_okD fun_upd_idem split: option.splits)

lemma remove_timer_ok:
  assumes "timers_ok m"
  shows "timers_ok (remove_timer obj m)"
proof (cases "obj = 0 \<or> deadlines m obj = None")
  case True
  then show ?thesis using assms by (auto simp: remove_timer_def)
next
  case False
  then obtain t where t: "deadlines m obj = Some t" and "obj \<noteq> 0" by auto
  note d = timers_okD [OF assms]
  have "x \<in> set (listed (unlist obj t (tm_timeoutMap m)) u) \<longleftrightarrow>
      ((deadlines m)(obj := None)) x = Some u" for x u
    using d(5) [of t] d(6) [of x u] d(6) [of obj u] t by (auto simp: set_remove1_eq)
  then show ?thesis
    using t \<open>obj \<noteq> 0\<close> d
    by (simp add: remove_timer_def timers_ok_def unlist_ok unlist_not_Nil)
qed

lemma deadlines_add:
  "timers_ok m \<Longrightarrow> obj \<noteq> 0 \<Longrightarrow> deadlines (add_timer now obj d m) = (deadlines m)(obj \<mapsto> now + d)"
  by (simp add: add_timer_def Let_def deadlines_remove)

lemma add_timer_ok:
  assumes "timers_ok m"
  shows "timers_ok (add_timer now obj d m)"
proof (cases "obj = 0")
  case True
  then show ?thesis using assms by (simp add: add_timer_def)
next
  case False
  define m1 where "m1 = remove_timer obj m"
  have "timers_ok m1" and none: "deadlines m1 obj = None"
    using remove_timer_ok [OF assms] deadlines_remove [OF assms] by (simp_all add: m1_def)
  note d = timers_okD [OF this(1)]
  from d(6) none have "obj \<notin> set (listed (tm_timeoutMap m1) t)" for t by simp
  then show ?thesis
    using d False none by (auto simp: add_timer_def Let_def m1_def [symmetric] timers_ok_def)
qed

lemma take_expired:
  "om_ok tmap \<Longrightarrow> take_expired now tmap =
     (concat (map snd (filter (\<lambda>p. fst p \<le> now) tmap)), filter (\<lambda>p. now < fst p) tmap)"
proof (induction tmap)
  case (Cons p tmap)
  obtain t objs where p: "p = (t, objs)" by (cases p)
  from Cons.prems have ok: "om_ok tmap" and later: "\<forall>q \<in> set tmap. t < fst q"
    by (auto simp: om_ok_def p)
  show ?case
  proof (cases "t \<le> now")
    case True
    then show ?thesis using Cons.IH [OF ok] by (simp add: p)
  next
    case False
    with later have "filter (\<lambda>p. fst p \<le> now) tmap = []" "filter (\<lambda>p. now < fst p) tmap = tmap"
      by (auto simp: filter_empty_conv filter_id_conv)
    then show ?thesis using False by (simp add: p)
  qed
qed simp

lemma fold_om_erase [simp]:
  "map_of (fold om_erase ks m) = map_of m |` (- set ks)"
  by (induction ks arbitrary: m) (auto simp: restrict_map_def fun_eq_iff)

lemma fold_om_erase_ok: "om_ok m \<Longrightarrow> om_ok (fold om_erase ks m)"
  by (induction ks arbitrary: m) simp_all

lemma due_members:
  assumes "om_ok tmap"
  shows "x \<in> set (concat (map snd (filter (\<lambda>p. fst p \<le> now) tmap))) \<longleftrightarrow>
    (\<exists>t \<le> now. x \<in> set (listed tmap t))"
  using om_ok_map_of [OF assms]
  by (force simp: listed_def split: option.splits)

lemma listed_filter:
  "om_ok tmap \<Longrightarrow> listed (filter (\<lambda>p. now < fst p) tmap) t = (if now < t then listed tmap t else [])"
proof (induction tmap)
  case (Cons p tmap)
  then have "om_ok tmap" by (simp add: om_ok_def)
  with Cons.IH show ?case by (auto simp: listed_def split: if_splits option.splits)
qed (simp add: listed_def)

lemma map_of_filter_later:
  "map_of (filter (\<lambda>p. now < fst p) tmap) t = (if now < t then map_of tmap t else None)"
  by (induction tmap) auto

lemma om_ok_filter: "om_ok m \<Longrightarrow> om_ok (filter P m)"
  by (auto simp: om_ok_def sorted_wrt_map sorted_wrt_filter)

lemma om_ok_Cons: "om_ok (p # m) \<longleftrightarrow> (\<forall>q \<in> set m. fst p < fst q) \<and> om_ok m"
  by (auto simp: om_ok_def)

text \<open>The lists of different times are disjoint, so the due objects are distinct and in order.\<close>

lemma due_order:
  assumes "om_ok tmap" "\<forall>(t, objs) \<in> set tmap. distinct objs \<and> (\<forall>x \<in> set objs. f x = Some (t :: int))"
  shows "distinct (concat (map snd tmap)) \<and> sorted (map (\<lambda>x. the (f x)) (concat (map snd tmap)))"
  using assms
proof (induction tmap)
  case (Cons p tmap)
  obtain t objs where p: "p = (t, objs)" by (cases p)
  have IH: "distinct (concat (map snd tmap)) \<and> sorted (map (\<lambda>x. the (f x)) (concat (map snd tmap)))"
    using Cons by (simp add: om_ok_Cons)
  have late: "\<exists>u. t < u \<and> f x = Some u" if "x \<in> set (concat (map snd tmap))" for x
    using that Cons.prems by (fastforce simp: om_ok_Cons p)
  have here: "f x = Some t" if "x \<in> set objs" for x using that Cons.prems(2) by (simp add: p)
  have "map (\<lambda>x. the (f x)) objs = replicate (length objs) t"
    using here by (auto intro: nth_equalityI)
  then show ?case using IH late here Cons.prems(2)
    by (fastforce simp: p sorted_append)
qed simp

lemma collect_expired:
  assumes "timers_ok m" "collect_expired now m = (xs, r)"
  shows "distinct xs" "set xs = {x. \<exists>t. deadlines m x = Some t \<and> t \<le> now}"
    "sorted (map (\<lambda>x. the (deadlines m x)) xs)" "deadlines r = deadlines m |` (- set xs)"
    "timers_ok r"
proof -
  note d = timers_okD [OF assms(1)]
  let ?due = "filter (\<lambda>p. fst p \<le> now) (tm_timeoutMap m)"
  have xs: "xs = concat (map snd ?due)"
    and r: "tm_timeoutMap r = filter (\<lambda>p. now < fst p) (tm_timeoutMap m)"
      "tm_reverseMap r = fold om_erase xs (tm_reverseMap m)"
    using assms(2) take_expired [OF d(1)] by (auto simp: collect_expired_def)
  have entry: "distinct objs \<and> (\<forall>x \<in> set objs. deadlines m x = Some t)" if "(t, objs) \<in> set ?due" for t objs
  proof -
    from that have "listed (tm_timeoutMap m) t = objs"
      using om_ok_map_of [OF d(1)] by (simp add: listed_def)
    then show ?thesis using d(5) [of t] d(6) [of _ t] by auto
  qed
  from due_order [OF om_ok_filter [OF d(1)], of "\<lambda>p. fst p \<le> now" "deadlines m"] entry
  show "distinct xs" "sorted (map (\<lambda>x. the (deadlines m x)) xs)" by (auto simp: xs)
  show set_xs: "set xs = {x. \<exists>t. deadlines m x = Some t \<and> t \<le> now}"
    using due_members [OF d(1), of _ now] d(6) unfolding xs by blast
  show dr: "deadlines r = deadlines m |` (- set xs)" by (simp add: r)
  show "timers_ok r"
    unfolding timers_ok_def r
    using d set_xs
    by (auto simp: om_ok_filter fold_om_erase_ok listed_filter map_of_filter_later restrict_map_def)
qed

lemma first_deadline:
  assumes "timers_ok m" "deadlines m x = Some t"
  shows "\<exists>u objs tmap. tm_timeoutMap m = (u, objs) # tmap \<and> u \<le> t"
proof -
  note d = timers_okD [OF assms(1)]
  from assms(2) d(6) have mem: "x \<in> set (listed (tm_timeoutMap m) t)" by simp
  then obtain u objs tmap where m: "tm_timeoutMap m = (u, objs) # tmap"
    by (cases "tm_timeoutMap m") (auto simp: listed_def)
  have "u \<le> t"
  proof (cases "t = u")
    case False
    with mem m obtain ys where "map_of tmap t = Some ys"
      by (cases "map_of tmap t") (auto simp: listed_def)
    then have "t \<in> fst ` set tmap" by (auto dest!: map_of_SomeD intro: rev_image_eqI)
    with d(1) m show ?thesis by (fastforce simp: om_ok_Cons)
  qed simp
  with m show ?thesis by blast
qed

lemma sleep_bound:
  assumes "timers_ok m" "deadlines m x = Some t"
  shows "0 \<le> getNextTimeoutInterval now m"
    and "now < t \<Longrightarrow> getNextTimeoutInterval now m \<le> (t - now) * 1000"
  using first_deadline [OF assms] by (auto simp: getNextTimeoutInterval_def Let_def int_max_def)

lemma no_deadlines: "timers_ok m \<Longrightarrow> tm_timeoutMap m = [] \<longleftrightarrow> deadlines m = Map.empty"
proof
  assume ok: "timers_ok m"
  note d = timers_okD [OF ok]
  show "deadlines m = Map.empty" if "tm_timeoutMap m = []"
    using d(6) that by (fastforce simp: listed_def)
  show "tm_timeoutMap m = []" if e: "deadlines m = Map.empty"
  proof (cases "tm_timeoutMap m")
    case (Cons p tmap)
    then have "listed (tm_timeoutMap m) (fst p) = snd p" by (simp add: listed_def)
    moreover have "snd p \<noteq> []" using d(4) [of "fst p"] Cons by auto
    ultimately show ?thesis using d(6) e by (metis last_in_set option.distinct(1))
  qed simp
qed

interpretation timer: deadline_queue deadlines add_timer remove_timer collect_expired
  getNextTimeoutInterval "\<lambda>obj. obj \<noteq> 0" timers_ok
proof unfold_locales
  fix m xs r and now t :: int and x
  assume ok: "timers_ok m"
  show "getNextTimeoutInterval now m = -1 \<longleftrightarrow> deadlines m = Map.empty"
    using no_deadlines [OF ok]
    by (auto simp: getNextTimeoutInterval_def Let_def int_max_def split: list.splits)
  show "0 \<le> getNextTimeoutInterval now m \<and>
      (now < t \<longrightarrow> getNextTimeoutInterval now m \<le> (t - now) * 1000)" if "deadlines m x = Some t"
    using sleep_bound [OF ok that] by simp
  assume "collect_expired now m = (xs, r)"
  note c = collect_expired [OF ok this]
  show "distinct xs \<and> set xs = {x. \<exists>t. deadlines m x = Some t \<and> t \<le> now} \<and>
      sorted (map (\<lambda>x. the (deadlines m x)) xs) \<and> deadlines r = deadlines m |` (- set xs)"
    using c by simp
  show "timers_ok r" by (rule c(5))
qed (simp_all add: deadlines_add deadlines_remove add_timer_ok remove_timer_ok)


section \<open>Histories\<close>

text \<open>What the event loop does with the manager, and the deadlines that result by definition.\<close>

datatype timer_op = Add int nat int | Remove nat | Check int

fun run_timer :: "timer_op \<Rightarrow> TimeoutManager \<Rightarrow> TimeoutManager" where
  "run_timer (Add now obj d) m = add_timer now obj d m"
| "run_timer (Remove obj) m = remove_timer obj m"
| "run_timer (Check now) m = snd (collect_expired now m)"

fun spec_timer :: "timer_op \<Rightarrow> (nat \<Rightarrow> int option) \<Rightarrow> nat \<Rightarrow> int option" where
  "spec_timer (Add now obj d) f = (if obj = 0 then f else f(obj \<mapsto> now + d))"
| "spec_timer (Remove obj) f = f(obj := None)"
| "spec_timer (Check now) f = (\<lambda>x. case f x of None \<Rightarrow> None | Some t \<Rightarrow> if t \<le> now then None else Some t)"

definition run_timers :: "timer_op list \<Rightarrow> TimeoutManager" where
  "run_timers ops = fold run_timer ops new_TimeoutManager"

definition spec_timers :: "timer_op list \<Rightarrow> nat \<Rightarrow> int option" where
  "spec_timers ops = fold spec_timer ops Map.empty"

definition counted :: "TimeoutManager \<Rightarrow> bool" where
  "counted m \<longleftrightarrow> getActiveTimeoutCount m = of_nat (card (dom (deadlines m)))"

lemma finite_deadlines: "finite (dom (deadlines m))"
  by (rule finite_dom_map_of)

lemma counted_remove:
  assumes "timers_ok m" "counted m"
  shows "counted (remove_timer obj m)"
proof (cases "obj = 0 \<or> deadlines m obj = None")
  case True
  then show ?thesis using assms by (auto simp: remove_timer_def)
next
  case False
  then have "obj \<in> dom (deadlines m)" by auto
  then have "card (dom (deadlines m)) = Suc (card (dom (deadlines m) - {obj}))"
    using card.remove [OF finite_deadlines] by metis
  with False assms show ?thesis
    by (auto simp: counted_def getActiveTimeoutCount_def remove_timer_def decrementActiveConnections_def)
qed

lemma counted_add:
  assumes "timers_ok m" "counted m"
  shows "counted (add_timer now obj d m)"
proof (cases "obj = 0")
  case True
  then show ?thesis using assms by (simp add: add_timer_def)
next
  case False
  define m1 where "m1 = remove_timer obj m"
  have c: "counted m1" and "obj \<notin> dom (deadlines m1)"
    using counted_remove [OF assms] deadlines_remove [OF assms(1)] by (auto simp: m1_def)
  then have "card (insert obj (dom (deadlines m1))) = Suc (card (dom (deadlines m1)))"
    using finite_deadlines by simp
  with False c show ?thesis
    by (simp add: counted_def getActiveTimeoutCount_def add_timer_def Let_def
        incrementActiveConnections_def m1_def [symmetric] add.commute)
qed

lemma fold_decrement:
  "st_activeConnections (fold (\<lambda>_. decrementActiveConnections) xs st) =
     st_activeConnections st - of_nat (length xs)"
  by (induction xs arbitrary: st) (simp_all add: decrementActiveConnections_def)

lemma counted_collect:
  assumes "timers_ok m" "counted m" "collect_expired now m = (xs, r)"
  shows "counted r"
proof -
  note c = collect_expired [OF assms(1,3)]
  have sub: "set xs \<subseteq> dom (deadlines m)" using c(2) by auto
  have "card (dom (deadlines r)) = card (dom (deadlines m)) - length xs"
    using c(1,4) sub by (simp add: Diff_eq [symmetric] card_Diff_subset distinct_card)
  moreover have "length xs \<le> card (dom (deadlines m))"
    using card_mono [OF finite_deadlines sub] c(1) by (simp add: distinct_card)
  moreover have "getActiveTimeoutCount r = getActiveTimeoutCount m - of_nat (length xs)"
    using assms(3)
    by (auto simp: getActiveTimeoutCount_def collect_expired_def fold_decrement split: prod.splits)
  ultimately show ?thesis using assms(2) by (simp add: counted_def of_nat_diff)
qed

lemma run_timers_step:
  assumes "timers_ok m" "counted m"
  shows "timers_ok (run_timer a m) \<and> counted (run_timer a m) \<and>
    deadlines (run_timer a m) = spec_timer a (deadlines m)"
proof (cases a)
  case (Check now)
  obtain xs r where r: "collect_expired now m = (xs, r)" by (cases "collect_expired now m")
  note c = collect_expired [OF assms(1) r]
  have "deadlines r = spec_timer a (deadlines m)"
    unfolding c(4) by (auto simp: Check c(2) restrict_map_def fun_eq_iff split: option.splits)
  then show ?thesis using c(5) counted_collect [OF assms r] by (simp add: Check r)
qed (use assms in \<open>auto simp: add_timer_ok remove_timer_ok counted_add counted_remove
      deadlines_add deadlines_remove\<close>, auto simp: add_timer_def)

lemma run_timers:
  "timers_ok (run_timers ops) \<and> counted (run_timers ops) \<and> deadlines (run_timers ops) = spec_timers ops"
proof (induction ops rule: rev_induct)
  case Nil
  then show ?case
    by (simp add: run_timers_def spec_timers_def new_timers_ok counted_def getActiveTimeoutCount_def)
      (simp add: new_TimeoutManager_def new_TimeoutStats_def)
next
  case (snoc a ops)
  then show ?case
    using run_timers_step [of "run_timers ops" a] by (simp add: run_timers_def spec_timers_def)
qed

text \<open>C13: whatever is added, moved, removed and checked, the two maps together hold exactly the
  deadlines that result, the counter of active connections is their number, and a check takes out
  exactly the objects whose last deadline has come, each once and the earliest first.\<close>

theorem timeouts_refine:
  "deadlines (run_timers ops) = spec_timers ops \<and>
   getActiveTimeoutCount (run_timers ops) = of_nat (card (dom (spec_timers ops))) \<and>
   (let xs = fst (collect_expired now (run_timers ops)) in
     distinct xs \<and> set xs = {x. \<exists>t. spec_timers ops x = Some t \<and> t \<le> now} \<and>
     sorted (map (\<lambda>x. the (spec_timers ops x)) xs))"
proof -
  obtain xs r where r: "collect_expired now (run_timers ops) = (xs, r)"
    by (cases "collect_expired now (run_timers ops)")
  show ?thesis
    using run_timers [of ops] timer.due [OF _ r] r by (simp add: counted_def)
qed

text \<open>The event loop sleeps exactly to the earliest deadline: not at all when it has passed,
  for ever when there is none, and never longer than an \<open>int\<close> of milliseconds can say.\<close>

theorem sleep_exact:
  "getNextTimeoutInterval now (run_timers ops) =
    (if dom (spec_timers ops) = {} then -1
     else min int_max (1000 * max 0 (Min (ran (spec_timers ops)) - now)))"
proof -
  define m where "m = run_timers ops"
  have ok: "timers_ok m" and eq: "deadlines m = spec_timers ops" using run_timers by (simp_all add: m_def)
  note d = timers_okD [OF ok]
  show ?thesis
  proof (cases "tm_timeoutMap m")
    case Nil
    then have "deadlines m = Map.empty" using no_deadlines [OF ok] by simp
    then show ?thesis using Nil eq by (simp add: getNextTimeoutInterval_def m_def)
  next
    case (Cons p tmap)
    obtain u objs where p: "p = (u, objs)" by (cases p)
    have lu: "listed (tm_timeoutMap m) u = objs" using Cons p by (simp add: listed_def)
    moreover have "objs \<noteq> []" using d(4) [of u] Cons p by auto
    ultimately obtain x where x: "deadlines m x = Some u" using d(6) last_in_set by metis
    have low: "u \<le> t" if "deadlines m y = Some t" for y t
      using first_deadline [OF ok that] Cons p by auto
    have "Min (ran (deadlines m)) = u"
    proof (rule Min_eqI)
      show "finite (ran (deadlines m))" by (rule finite_ran [OF finite_deadlines])
      show "u \<in> ran (deadlines m)" using x by (rule ranI)
      show "u \<le> t" if "t \<in> ran (deadlines m)" for t using low that by (auto simp: ran_def)
    qed
    moreover have "dom (deadlines m) \<noteq> {}" using x by auto
    ultimately show ?thesis using Cons p
      by (auto simp: getNextTimeoutInterval_def Let_def m_def [symmetric] eq [symmetric] int_max_def)
  qed
qed

end
