(* ===== verification/Events.thy ===== *)
theory Events
  imports CgiRun
begin

text \<open>
  \<open>src/Server/Client/EventManager.cpp\<close> and the event classes under \<open>src/Server/Client/Events\<close>:
  which object is called when \<open>epoll\<close> reports a descriptor.  The table of descriptors that
  \<open>src/Socket/SocketsManager.cpp\<close> keeps in the kernel is here a map from a descriptor to its mask.
  Closing a client (\<open>IFdCloser\<close>) is left to the server, which tells it to this theory as a
  function.
\<close>

section \<open>Events\<close>

type_synonym mask = "32 word"

definition EPOLLIN :: mask where "EPOLLIN = 1"
definition EPOLLOUT :: mask where "EPOLLOUT = 4"
definition EPOLLERR :: mask where "EPOLLERR = 8"
definition EPOLLHUP :: mask where "EPOLLHUP = 16"

lemmas epoll_flags = EPOLLIN_def EPOLLOUT_def EPOLLERR_def EPOLLHUP_def

text \<open>The subclasses of \<open>AEvent\<close>; the events of a client hold its address.\<close>

datatype event = NewConnectionEvent | ReadEvent nat | WriteEvent nat | CgiEvent cgi_event

fun expectedEventType :: "event \<Rightarrow> mask" where
  "expectedEventType NewConnectionEvent = EPOLLIN"
| "expectedEventType (ReadEvent c) = EPOLLIN"
| "expectedEventType (WriteEvent c) = EPOLLOUT"
| "expectedEventType (CgiEvent (Cgi_read a)) = EPOLLIN"
| "expectedEventType (CgiEvent (Cgi_write a)) = EPOLLOUT"
| "expectedEventType (CgiEvent (Cgi_error a)) = EPOLLIN"
| "expectedEventType (CgiEvent (Cgi_end c a)) = EPOLLIN"
| "expectedEventType (CgiEvent (Cgi_error_exit a)) = EPOLLIN"

definition isExpectedEventType :: "mask \<Rightarrow> event \<Rightarrow> bool" where
  "isExpectedEventType events e = (and events (expectedEventType e) \<noteq> 0)"

section \<open>The tables\<close>

record EventManager =
  em_eventsTable :: "(int, event list) omap"
  em_clientTable :: "(int, bool) omap"

definition new_EventManager :: EventManager where
  "new_EventManager = \<lparr>em_eventsTable = [], em_clientTable = []\<rparr>"

text \<open>\<open>initFd\<close> for a client (\<open>True\<close>) and for any other descriptor.\<close>

definition initFd :: "bool \<Rightarrow> int \<Rightarrow> EventManager \<Rightarrow> EventManager" where
  "initFd isClient fd em = em\<lparr>em_clientTable := om_set fd isClient (em_clientTable em)\<rparr>"

definition events_of :: "int \<Rightarrow> EventManager \<Rightarrow> event list" where
  "events_of fd em = (case map_of (em_eventsTable em) fd of None \<Rightarrow> [] | Some es \<Rightarrow> es)"

definition addEvent :: "int \<Rightarrow> event \<Rightarrow> EventManager \<Rightarrow> EventManager" where
  "addEvent fd e em =
     (if has_key (em_clientTable em) fd
      then em\<lparr>em_eventsTable := om_set fd (events_of fd em @ [e]) (em_eventsTable em)\<rparr>
      else em)"

definition clearEvents :: "int \<Rightarrow> EventManager \<Rightarrow> EventManager" where
  "clearEvents fd em =
     (if has_key (em_eventsTable em) fd
      then em\<lparr>em_eventsTable := om_erase fd (em_eventsTable em)\<rparr> else em)"

definition forgetFd :: "int \<Rightarrow> EventManager \<Rightarrow> EventManager" where
  "forgetFd fd em =
     (let em1 = (if has_key (em_eventsTable em) fd then clearEvents fd em else em)
      in em1\<lparr>em_clientTable := om_erase fd (em_clientTable em1)\<rparr>)"

text \<open>
  \<open>removeFd\<close> of a state that holds the manager: a client is closed by the server, which forgets
  the descriptor itself.
\<close>

definition removeFd ::
  "('s \<Rightarrow> EventManager) \<Rightarrow> (EventManager \<Rightarrow> 's \<Rightarrow> 's) \<Rightarrow> (int \<Rightarrow> 's \<Rightarrow> 's) \<Rightarrow> int \<Rightarrow> 's \<Rightarrow> 's" where
  "removeFd get put closeFd fd s =
     (let s1 = put (clearEvents fd (get s)) s in
      case map_of (em_clientTable (get s1)) fd of
        None \<Rightarrow> s1
      | Some isClient \<Rightarrow>
          (let s2 = (if isClient then closeFd fd s1 else s1)
           in put ((get s2)\<lparr>em_clientTable := om_erase fd (em_clientTable (get s2))\<rparr>) s2))"

section \<open>Dispatch\<close>

text \<open>The answer of the peek that is made on \<open>EPOLLHUP\<close>: bytes are there, or not.\<close>

definition effective_events :: "bool \<Rightarrow> mask \<Rightarrow> mask" where
  "effective_events peek events =
     (if and events EPOLLHUP \<noteq> 0 \<and> peek then or events EPOLLIN else events)"

definition hung_up :: "mask \<Rightarrow> bool" where
  "hung_up events \<longleftrightarrow> and events EPOLLHUP \<noteq> 0"

definition failed :: "mask \<Rightarrow> bool" where
  "failed events \<longleftrightarrow> and events EPOLLHUP = 0 \<and> and events EPOLLERR \<noteq> 0"

text \<open>
  \<open>handle\<close>: the first event of the descriptor that waits for what was reported is called, and no
  other.  After an error the descriptor has been removed, and reading its entry again leaves an
  empty one.
\<close>

definition dispatch :: "int \<Rightarrow> mask \<Rightarrow> EventManager \<Rightarrow> event option" where
  "dispatch fd effective em = find (isExpectedEventType effective) (events_of fd em)"

definition touch_entry :: "int \<Rightarrow> EventManager \<Rightarrow> EventManager" where
  "touch_entry fd em = em\<lparr>em_eventsTable := om_set fd (events_of fd em) (em_eventsTable em)\<rparr>"

definition handle_events ::
  "('s \<Rightarrow> EventManager) \<Rightarrow> (EventManager \<Rightarrow> 's \<Rightarrow> 's) \<Rightarrow> (int \<Rightarrow> 's \<Rightarrow> 's) \<Rightarrow>
     bool \<Rightarrow> int \<Rightarrow> mask \<Rightarrow> 's \<Rightarrow> event option \<times> 's" where
  "handle_events get put closeFd peek fd events s =
     (if \<not> has_key (em_eventsTable (get s)) fd then (None, s)
      else
        (let s1 = (if failed events then removeFd get put closeFd fd s else s);
             s2 = put (touch_entry fd (get s1)) s1
         in (dispatch fd (effective_events peek events) (get s2), s2)))"

section \<open>What the tables hold\<close>

abbreviation watched :: "EventManager \<Rightarrow> int \<Rightarrow> event list option" where
  "watched em \<equiv> map_of (em_eventsTable em)"

abbreviation kind_of :: "EventManager \<Rightarrow> int \<Rightarrow> bool option" where
  "kind_of em \<equiv> map_of (em_clientTable em)"

named_theorems table_simps \<open>the two tables after each operation\<close>

lemma initFd_tables [table_simps]:
  "watched (initFd b fd em) = watched em" "kind_of (initFd b fd em) = (kind_of em)(fd \<mapsto> b)"
  by (simp_all add: initFd_def)

lemma addEvent_tables [table_simps]:
  "watched (addEvent fd e em) =
     (if kind_of em fd = None then watched em else (watched em)(fd \<mapsto> events_of fd em @ [e]))"
  "kind_of (addEvent fd e em) = kind_of em"
  by (simp_all add: addEvent_def has_key_def)

lemma clearEvents_tables [table_simps]:
  "watched (clearEvents fd em) = (watched em)(fd := None)" "kind_of (clearEvents fd em) = kind_of em"
  by (auto simp: clearEvents_def has_key_def fun_upd_idem)

lemma forgetFd_tables [table_simps]:
  "watched (forgetFd fd em) = (watched em)(fd := None)"
  "kind_of (forgetFd fd em) = (kind_of em)(fd := None)"
  by (auto simp: forgetFd_def Let_def table_simps has_key_def fun_upd_idem)

lemma events_of_watched: "events_of fd em = (case watched em fd of None \<Rightarrow> [] | Some es \<Rightarrow> es)"
  by (simp add: events_of_def)

lemma touch_entry_tables [table_simps]:
  "watched (touch_entry fd em) = (watched em)(fd \<mapsto> events_of fd em)"
  "kind_of (touch_entry fd em) = kind_of em"
  by (simp_all add: touch_entry_def)

end
