(* ===== verification/Bootstrap.thy ===== *)
theory Bootstrap
  imports VHost
begin

text \<open>
  \<open>src/Server/Bootstrap/ServerBootstrap.cpp\<close>: what the server computes from all the
  configurations before it listens.  The check of the listens is shown to be equivalent to a
  condition on the list of all of them, and the header limits to be maxima.
\<close>

section \<open>Limits\<close>

definition listenToString :: "Listen \<Rightarrow> string" where
  "listenToString l = lst_interface l @ '':'' @ show_int (lst_port l)"

definition normalizeListenHost :: "string \<Rightarrow> string" where
  "normalizeListenHost host = toLower (trim ws_chars host)"

text \<open>\<open>Performance::Performance\<close>\<close>

definition CGI_MIN_WORKERS :: size_t where "CGI_MIN_WORKERS = 16"
definition CGI_MAX_WORKERS :: size_t where "CGI_MAX_WORKERS = 256"

definition resolveCgiMaxWorkers :: "Config list \<Rightarrow> size_t res" where
  "resolveCgiMaxWorkers configs =
     (if configs = [] then Inl Runtime_error
      else Inr (fold (\<lambda>c maxWorkers.
             max maxWorkers (max CGI_MIN_WORKERS (min (cfg_maxEvents c) CGI_MAX_WORKERS))) configs 0))"

definition resolveMaxEvents :: "Config list \<Rightarrow> size_t res" where
  "resolveMaxEvents configs =
     (case configs of
        [] \<Rightarrow> Inl Runtime_error
      | c # cs \<Rightarrow> Inr (fold (\<lambda>c maxEvents. max maxEvents (cfg_maxEvents c)) cs (cfg_maxEvents c)))"

definition header_max_step ::
  "size_t \<Rightarrow> Listen \<Rightarrow> (string, size_t) omap \<Rightarrow> (string, size_t) omap" where
  "header_max_step maxHeader l m =
     (case map_of m (listenToString l) of
        Some v \<Rightarrow> (if v < maxHeader then om_set (listenToString l) maxHeader m else m)
      | None \<Rightarrow> om_set (listenToString l) maxHeader m)"

definition resolveListenHeaderMax :: "Config list \<Rightarrow> (string, size_t) omap res" where
  "resolveListenHeaderMax configs =
     (if configs = [] then Inl Runtime_error
      else Inr (fold (\<lambda>c. fold (header_max_step (cfg_maxRequestHeaderSize c)) (cfg_listens c)) configs []))"

section \<open>The check of the listens\<close>

record Seen =
  sn_hostsByListen :: "(ListenKey, string list) omap"
  sn_wildcardPorts :: "int list"
  sn_specificPorts :: "int list"

definition seen_hosts :: "Seen \<Rightarrow> ListenKey \<Rightarrow> string list" where
  "seen_hosts s key = (case map_of (sn_hostsByListen s) key of None \<Rightarrow> [] | Some hs \<Rightarrow> hs)"

definition is_wildcard :: "Listen \<Rightarrow> bool" where
  "is_wildcard l = (lst_interface l = ''0.0.0.0'')"

text \<open>The pair of an interface and a port, in the order of pairs, which is that of \<open>ListenKey\<close>.\<close>

definition listen_key :: "Listen \<Rightarrow> ListenKey" where
  "listen_key l = ListenKey (lst_interface l) (lst_port l)"

definition validate_listen :: "Listen \<Rightarrow> Seen \<Rightarrow> Seen res" where
  "validate_listen l s =
     (let key = listen_key l; hostKey = normalizeListenHost (lst_host l); seenHosts = seen_hosts s key in
      if hostKey \<in> set seenHosts then Inl Runtime_error
      else
        (let s1 = s\<lparr>sn_hostsByListen := om_set key (seenHosts @ [hostKey]) (sn_hostsByListen s)\<rparr> in
         if is_wildcard l
         then (if lst_port l \<in> set (sn_specificPorts s1) then Inl Runtime_error
               else Inr (s1\<lparr>sn_wildcardPorts := sn_wildcardPorts s1 @ [lst_port l]\<rparr>))
         else (if lst_port l \<in> set (sn_wildcardPorts s1) then Inl Runtime_error
               else Inr (s1\<lparr>sn_specificPorts := sn_specificPorts s1 @ [lst_port l]\<rparr>))))"

fun validate_listens :: "Listen list \<Rightarrow> Seen \<Rightarrow> Seen res" where
  "validate_listens [] s = Inr s"
| "validate_listens (l # ls) s = rbind (validate_listen l s) (validate_listens ls)"

fun validate_configs :: "Config list \<Rightarrow> Seen \<Rightarrow> Seen res" where
  "validate_configs [] s = Inr s"
| "validate_configs (c # cs) s =
     (if cfg_listens c = [] then Inl Runtime_error
      else rbind (validate_listens (cfg_listens c) s) (validate_configs cs))"

definition validateListenCompatibility :: "Config list \<Rightarrow> unit res" where
  "validateListenCompatibility configs =
     rbind (validate_configs configs
         \<lparr>sn_hostsByListen = [], sn_wildcardPorts = [], sn_specificPorts = []\<rparr>) (\<lambda>_. Inr ())"

section \<open>What is accepted\<close>

definition all_listens :: "Config list \<Rightarrow> Listen list" where
  "all_listens configs = concat (map cfg_listens configs)"

definition full_key :: "Listen \<Rightarrow> ListenKey \<times> string" where
  "full_key l = (listen_key l, normalizeListenHost (lst_host l))"

definition clash :: "Listen \<Rightarrow> Listen \<Rightarrow> bool" where
  "clash l l' \<longleftrightarrow> lst_port l = lst_port l' \<and> is_wildcard l \<noteq> is_wildcard l'"

text \<open>The state after a list of listens.\<close>

definition seen_ok :: "Listen list \<Rightarrow> Seen \<Rightarrow> bool" where
  "seen_ok ls s \<longleftrightarrow>
     (\<forall>k. set (seen_hosts s k) = {normalizeListenHost (lst_host l) | l. l \<in> set ls \<and> listen_key l = k}) \<and>
     set (sn_wildcardPorts s) = lst_port ` {l \<in> set ls. is_wildcard l} \<and>
     set (sn_specificPorts s) = lst_port ` {l \<in> set ls. \<not> is_wildcard l}"

definition compatible :: "Listen list \<Rightarrow> Listen \<Rightarrow> bool" where
  "compatible ls l \<longleftrightarrow> full_key l \<notin> full_key ` set ls \<and> list_all (\<lambda>l'. \<not> clash l l') ls"

lemma seen_hosts_simps [simp]:
  "seen_hosts (s\<lparr>sn_hostsByListen := om_set key hs (sn_hostsByListen s)\<rparr>) k =
     (if k = key then hs else seen_hosts s k)"
  "seen_hosts (s\<lparr>sn_wildcardPorts := ps\<rparr>) k = seen_hosts s k"
  "seen_hosts (s\<lparr>sn_specificPorts := ps\<rparr>) k = seen_hosts s k"
  by (simp_all add: seen_hosts_def)

definition record_listen :: "Listen \<Rightarrow> Seen \<Rightarrow> Seen" where
  "record_listen l s =
     (let s1 = s\<lparr>sn_hostsByListen := om_set (listen_key l)
                 (seen_hosts s (listen_key l) @ [normalizeListenHost (lst_host l)]) (sn_hostsByListen s)\<rparr>
      in if is_wildcard l then s1\<lparr>sn_wildcardPorts := sn_wildcardPorts s1 @ [lst_port l]\<rparr>
         else s1\<lparr>sn_specificPorts := sn_specificPorts s1 @ [lst_port l]\<rparr>)"

lemma record_listen_ok:
  assumes "seen_ok ls s"
  shows "seen_ok (ls @ [l]) (record_listen l s)"
proof -
  have "set (seen_hosts (record_listen l s) k) =
      {normalizeListenHost (lst_host x) | x. x \<in> set (ls @ [l]) \<and> listen_key x = k}" for k
    using assms by (auto simp: seen_ok_def record_listen_def Let_def)
  then show ?thesis using assms by (auto simp: seen_ok_def record_listen_def Let_def)
qed

lemma validate_listen_ok:
  assumes "seen_ok ls s"
  shows "validate_listen l s =
    (if compatible ls l then Inr (record_listen l s) else Inl Runtime_error)"
proof -
  have "normalizeListenHost (lst_host l) \<in> set (seen_hosts s (listen_key l)) \<longleftrightarrow>
      full_key l \<in> full_key ` set ls"
    using assms by (auto simp: seen_ok_def full_key_def image_iff intro: sym)
  moreover have "lst_port l \<in> set (sn_specificPorts s) \<longleftrightarrow>
      (\<exists>l' \<in> set ls. lst_port l = lst_port l' \<and> \<not> is_wildcard l')"
    using assms by (auto simp: seen_ok_def)
  moreover have "lst_port l \<in> set (sn_wildcardPorts s) \<longleftrightarrow>
      (\<exists>l' \<in> set ls. lst_port l = lst_port l' \<and> is_wildcard l')"
    using assms by (auto simp: seen_ok_def)
  ultimately show ?thesis
    by (auto simp: validate_listen_def record_listen_def Let_def compatible_def clash_def list_all_iff)
qed

fun compatible_all :: "Listen list \<Rightarrow> Listen list \<Rightarrow> bool" where
  "compatible_all ls [] = True"
| "compatible_all ls (l # rest) = (compatible ls l \<and> compatible_all (ls @ [l]) rest)"

lemma validate_listens_ok:
  assumes "seen_ok ls s"
  shows "if compatible_all ls rest then \<exists>s'. validate_listens rest s = Inr s' \<and> seen_ok (ls @ rest) s'
    else validate_listens rest s = Inl Runtime_error"
  using assms
proof (induction rest arbitrary: ls s)
  case (Cons l rest)
  from validate_listen_ok [OF Cons.prems, of l] record_listen_ok [OF Cons.prems, of l]
    Cons.IH [of "ls @ [l]"] show ?case
    by (cases "compatible ls l") (auto split: if_splits)
qed simp

lemma compatible_all_append:
  "compatible_all ls (xs @ ys) \<longleftrightarrow> compatible_all ls xs \<and> compatible_all (ls @ xs) ys"
  by (induction xs arbitrary: ls) auto

lemma validate_configs_ok:
  assumes "seen_ok ls s"
  shows "if list_all (\<lambda>c. cfg_listens c \<noteq> []) configs \<and> compatible_all ls (all_listens configs)
    then \<exists>s'. validate_configs configs s = Inr s' else validate_configs configs s = Inl Runtime_error"
  using assms
proof (induction configs arbitrary: ls s)
  case (Cons c cs)
  from validate_listens_ok [OF Cons.prems, of "cfg_listens c"] Cons.IH [of "ls @ cfg_listens c"] show ?case
    by (cases "compatible_all ls (cfg_listens c)") (auto simp: all_listens_def compatible_all_append split: if_splits)
qed (simp add: all_listens_def)

lemma clash_sym: "clash l l' \<longleftrightarrow> clash l' l"
  by (auto simp: clash_def)

lemma compatible_all_eq:
  "compatible_all ls rest \<longleftrightarrow>
     distinct (map full_key rest) \<and> full_key ` set ls \<inter> full_key ` set rest = {} \<and>
     (\<forall>l' \<in> set rest. \<forall>l \<in> set ls \<union> set rest. \<not> clash l l')"
proof (induction rest arbitrary: ls)
  case (Cons l rest)
  show ?case
    using clash_sym by (auto simp: Cons.IH compatible_def list_all_iff) (auto simp: clash_def)
qed simp

text \<open>C20: the listens of all the servers are accepted exactly when every server has one, no two
  of them have the same interface, port and host name (up to case and blanks), and no port is
  listened on both through the wildcard address and through another.\<close>

theorem validate_exact:
  "validateListenCompatibility configs =
    (if list_all (\<lambda>c. cfg_listens c \<noteq> []) configs \<and>
        distinct (map (\<lambda>l. (lst_interface l, lst_port l, normalizeListenHost (lst_host l))) (all_listens configs)) \<and>
        \<not> (\<exists>l \<in> set (all_listens configs). \<exists>l' \<in> set (all_listens configs).
            lst_port l = lst_port l' \<and> is_wildcard l \<and> \<not> is_wildcard l')
     then Inr () else Inl Runtime_error)"
proof -
  have start: "seen_ok [] \<lparr>sn_hostsByListen = [], sn_wildcardPorts = [], sn_specificPorts = []\<rparr>"
    by (simp add: seen_ok_def seen_hosts_def)
  have keys: "distinct (map full_key ls) \<longleftrightarrow>
      distinct (map (\<lambda>l. (lst_interface l, lst_port l, normalizeListenHost (lst_host l))) ls)" for ls
    by (simp add: distinct_map inj_on_def full_key_def listen_key_def)
  have no_clash: "(\<forall>l' \<in> set ls. \<forall>l \<in> set ls. \<not> clash l l') \<longleftrightarrow>
      \<not> (\<exists>l \<in> set ls. \<exists>l' \<in> set ls. lst_port l = lst_port l' \<and> is_wildcard l \<and> \<not> is_wildcard l')" for ls
    unfolding clash_def by metis
  have accept: "compatible_all [] (all_listens configs) \<longleftrightarrow>
      distinct (map (\<lambda>l. (lst_interface l, lst_port l, normalizeListenHost (lst_host l))) (all_listens configs)) \<and>
      \<not> (\<exists>l \<in> set (all_listens configs). \<exists>l' \<in> set (all_listens configs).
            lst_port l = lst_port l' \<and> is_wildcard l \<and> \<not> is_wildcard l')"
    unfolding compatible_all_eq keys no_clash [symmetric] by simp
  show ?thesis
    using validate_configs_ok [OF start, of configs]
    unfolding validateListenCompatibility_def accept [symmetric]
    by (cases "list_all (\<lambda>c. cfg_listens c \<noteq> []) configs \<and> compatible_all [] (all_listens configs)") auto
qed

section \<open>The header limits\<close>

lemma header_max_step:
  "map_of (header_max_step v l m) k =
     (if k = listenToString l then Some (case map_of m k of None \<Rightarrow> v | Some u \<Rightarrow> max u v) else map_of m k)"
  by (auto simp: header_max_step_def max_def split: option.splits)

definition limits_of :: "(size_t \<times> Listen) list \<Rightarrow> string \<Rightarrow> size_t set" where
  "limits_of ps k = fst ` {p \<in> set ps. listenToString (snd p) = k}"

lemma limits_of_snoc:
  "limits_of (ps @ [p]) k = (if listenToString (snd p) = k then insert (fst p) (limits_of ps k) else limits_of ps k)"
  by (auto simp: limits_of_def)

lemma header_max_fold:
  "map_of (fold (\<lambda>p. header_max_step (fst p) (snd p)) ps []) k =
     (if limits_of ps k = {} then None else Some (Max (limits_of ps k)))"
proof (induction ps rule: rev_induct)
  case (snoc p ps)
  have "finite (limits_of ps k)" by (simp add: limits_of_def)
  then show ?case using snoc by (auto simp: header_max_step limits_of_snoc max.commute)
qed (simp add: limits_of_def)

definition limit_pairs :: "Config list \<Rightarrow> (size_t \<times> Listen) list" where
  "limit_pairs configs = concat (map (\<lambda>c. map (\<lambda>l. (cfg_maxRequestHeaderSize c, l)) (cfg_listens c)) configs)"

lemma header_max_fold_configs:
  "fold (\<lambda>c. fold (header_max_step (cfg_maxRequestHeaderSize c)) (cfg_listens c)) configs m =
     fold (\<lambda>p. header_max_step (fst p) (snd p)) (limit_pairs configs) m"
  by (induction configs arbitrary: m) (simp_all add: limit_pairs_def fold_map comp_def)

text \<open>C21: the header limit of a listening socket is the largest limit of the servers that share
  it, so a request that its own server would accept is not cut off before the server is known.\<close>

theorem header_max_exact:
  "case resolveListenHeaderMax configs of
     Inl e \<Rightarrow> configs = []
   | Inr m \<Rightarrow> configs \<noteq> [] \<and>
       map_of m key =
         (let limits = {cfg_maxRequestHeaderSize c | c. c \<in> set configs \<and>
                          key \<in> listenToString ` set (cfg_listens c)}
          in if limits = {} then None else Some (Max limits))"
proof -
  have "{cfg_maxRequestHeaderSize c | c. c \<in> set configs \<and> key \<in> listenToString ` set (cfg_listens c)} =
      limits_of (limit_pairs configs) key"
    by (force simp: limits_of_def limit_pairs_def)
  then show ?thesis
    by (simp add: resolveListenHeaderMax_def header_max_fold_configs header_max_fold)
qed

end
