(* ===== verification/Listeners.thy ===== *)
theory Listeners
  imports Bootstrap Events
begin

text \<open>
  \<open>src/Server/Listen\<close>: the table of listening sockets, its construction from the configurations,
  the opening of the sockets with its roll-back, and the acceptance of a connection.  A pointer to
  a listener is its key.  The outcomes of the system calls are arguments.
\<close>

section \<open>Listeners\<close>

record Listener =
  ls_key :: ListenKey
  ls_fd :: int
  ls_vhostIndices :: "nat list"
  ls_defaultVhostIndex :: nat

definition new_Listener :: "ListenKey \<Rightarrow> Listener" where
  "new_Listener key =
     \<lparr>ls_key = key, ls_fd = -1, ls_vhostIndices = [], ls_defaultVhostIndex = 0\<rparr>"

definition setSocket :: "int \<Rightarrow> Listener \<Rightarrow> Listener" where
  "setSocket fd l = l\<lparr>ls_fd := fd\<rparr>"

definition addVhostIndex :: "nat \<Rightarrow> Listener \<Rightarrow> Listener" where
  "addVhostIndex index l =
     (let l1 = (if ls_vhostIndices l = [] then l\<lparr>ls_defaultVhostIndex := index\<rparr> else l)
      in l1\<lparr>ls_vhostIndices := ls_vhostIndices l1 @ [index]\<rparr>)"

section \<open>The table\<close>

definition index_listen ::
  "nat \<Rightarrow> Listen \<Rightarrow> (ListenKey, Listener) omap \<Rightarrow> (ListenKey, Listener) omap" where
  "index_listen i listenConf listeners =
     (let key = ListenKey (lst_interface listenConf) (lst_port listenConf);
          l = (case map_of listeners key of None \<Rightarrow> new_Listener key | Some l \<Rightarrow> l)
      in om_set key (addVhostIndex i l) listeners)"

fun index_vhosts ::
  "nat \<Rightarrow> Config list \<Rightarrow> (ListenKey, Listener) omap \<Rightarrow> (ListenKey, Listener) omap" where
  "index_vhosts i [] listeners = listeners"
| "index_vhosts i (config # cs) listeners =
     index_vhosts (i + 1) cs (fold (index_listen i) (cfg_listens config) listeners)"

definition build_table :: "Config list \<Rightarrow> (ListenKey, Listener) omap" where
  "build_table vhosts = index_vhosts 0 vhosts []"

section \<open>Opening the sockets\<close>

text \<open>
  What happens for one key: \<open>socket\<close> fails; a later call fails and the guard closes the
  descriptor; or the descriptor listens.
\<close>

datatype open_outcome = No_socket | Not_listening int | Listening int

record Registry =
  rg_listeners :: "(ListenKey, Listener) omap"
  rg_byFd :: "(int, ListenKey) omap"
  rg_em :: EventManager
  rg_epoll :: "(int, mask) omap"
  rg_closed :: "int list"

definition forget_fd :: "int \<Rightarrow> Registry \<Rightarrow> Registry" where
  "forget_fd fd r = r\<lparr>rg_em := forgetFd fd (rg_em r), rg_epoll := om_erase fd (rg_epoll r)\<rparr>"

definition forget_and_close :: "int \<Rightarrow> Registry \<Rightarrow> Registry" where
  "forget_and_close fd r = (forget_fd fd r)\<lparr>rg_closed := rg_closed r @ [fd]\<rparr>"

definition clear_sockets :: "(ListenKey, Listener) omap \<Rightarrow> (ListenKey, Listener) omap" where
  "clear_sockets = map (\<lambda>(k, l). (k, setSocket (-1) l))"

definition roll_back :: "int option \<Rightarrow> int list \<Rightarrow> Registry \<Rightarrow> Registry" where
  "roll_back currentFd openedFds r =
     (let r1 = (case currentFd of None \<Rightarrow> r | Some fd \<Rightarrow> forget_fd fd r);
          r2 = fold forget_and_close openedFds r1
      in r2\<lparr>rg_byFd := [], rg_listeners := clear_sockets (rg_listeners r2)\<rparr>)"

definition register_listener :: "ListenKey \<Rightarrow> int \<Rightarrow> Registry \<Rightarrow> Registry" where
  "register_listener key fd r =
     r\<lparr>rg_listeners := map (\<lambda>(k, l). (k, if k = key then setSocket fd l else l)) (rg_listeners r),
       rg_epoll := om_set fd EPOLLIN (rg_epoll r),
       rg_byFd := om_set fd key (rg_byFd r),
       rg_em := addEvent fd NewConnectionEvent (initFd False fd (rg_em r))\<rparr>"

fun open_all :: "(ListenKey \<Rightarrow> open_outcome) \<Rightarrow> ListenKey list \<Rightarrow> int list \<Rightarrow> Registry \<Rightarrow> exn option \<times> Registry" where
  "open_all opens [] openedFds r = (None, r)"
| "open_all opens (key # keys) openedFds r =
     (case opens key of
        No_socket \<Rightarrow> (Some Runtime_error, roll_back None openedFds r)
      | Not_listening fd \<Rightarrow>
          (Some Runtime_error, roll_back (Some fd) openedFds (r\<lparr>rg_closed := rg_closed r @ [fd]\<rparr>))
      | Listening fd \<Rightarrow> open_all opens keys (openedFds @ [fd]) (register_listener key fd r))"

definition openAndRegisterListeners :: "(ListenKey \<Rightarrow> open_outcome) \<Rightarrow> Registry \<Rightarrow> exn option \<times> Registry" where
  "openAndRegisterListeners opens r = open_all opens (map fst (rg_listeners r)) [] r"

definition build_registry :: "(ListenKey \<Rightarrow> open_outcome) \<Rightarrow> Config list \<Rightarrow> Registry \<Rightarrow> exn option \<times> Registry" where
  "build_registry opens vhosts r =
     openAndRegisterListeners opens (r\<lparr>rg_listeners := build_table vhosts, rg_byFd := []\<rparr>)"

definition forgetAll :: "Registry \<Rightarrow> Registry" where
  "forgetAll r =
     (let r1 = fold (\<lambda>fd r. if 0 \<le> fd then forget_and_close fd r else forget_fd fd r)
                 (map fst (rg_byFd r)) r
      in r1\<lparr>rg_byFd := [], rg_listeners := []\<rparr>)"

section \<open>Accepting a connection\<close>

text \<open>
  An answer of \<open>accept\<close>: a descriptor with the address of the peer; a descriptor that could not be
  made non-blocking; or an error.
\<close>

datatype accept_answer = Accepted int string int | Accept_blocking int | Accept_failed

record AcceptedConn =
  ac_fd :: int
  ac_ip :: string
  ac_port :: int
  ac_key :: ListenKey
  ac_defaultVhostIndex :: nat

text \<open>The second component is the descriptor that is closed on the way out.\<close>

definition acceptOnce ::
  "accept_answer \<Rightarrow> (int, ListenKey) omap \<Rightarrow> (ListenKey, Listener) omap \<Rightarrow> int \<Rightarrow>
     AcceptedConn option \<times> int option" where
  "acceptOnce a byFd listeners listenFd =
     (case map_of byFd listenFd of
        None \<Rightarrow> (None, None)
      | Some key \<Rightarrow>
          (case map_of listeners key of
             None \<Rightarrow> (None, None)
           | Some l \<Rightarrow>
               (let result = \<lparr>ac_fd = -1, ac_ip = [], ac_port = 0, ac_key = ls_key l,
                              ac_defaultVhostIndex = ls_defaultVhostIndex l\<rparr>
                in case a of
                     Accept_failed \<Rightarrow> (Some result, None)
                   | Accept_blocking fd \<Rightarrow> (Some result, Some fd)
                   | Accepted fd ip port \<Rightarrow>
                       (Some (result\<lparr>ac_fd := fd, ac_ip := ip, ac_port := port\<rparr>), None))))"

section \<open>What the table says\<close>

lemma addVhostIndex_fields [simp]:
  "ls_key (addVhostIndex i l) = ls_key l" "ls_fd (addVhostIndex i l) = ls_fd l"
  "ls_vhostIndices (addVhostIndex i l) = ls_vhostIndices l @ [i]"
  by (simp_all add: addVhostIndex_def Let_def)

lemma addVhostIndex_default:
  "ls_defaultVhostIndex (addVhostIndex i l) =
     (if ls_vhostIndices l = [] then i else ls_defaultVhostIndex l)"
  by (simp add: addVhostIndex_def Let_def)

definition table_entry :: "ListenKey \<Rightarrow> nat list \<Rightarrow> Listener option \<Rightarrow> bool" where
  "table_entry key is e \<longleftrightarrow>
     (if is = [] then e = None
      else e = Some \<lparr>ls_key = key, ls_fd = -1, ls_vhostIndices = is, ls_defaultVhostIndex = hd is\<rparr>)"

lemma index_listen_entry:
  assumes "table_entry key is (map_of m key)"
  shows "table_entry key (is @ (if on_key key l then [i] else [])) (map_of (index_listen i l m) key)"
proof (cases "on_key key l")
  case True
  then have "ListenKey (lst_interface l) (lst_port l) = key" by (cases key) (simp add: on_key_def)
  with True assms show ?thesis
    by (cases "is = []")
      (simp_all add: table_entry_def index_listen_def Let_def new_Listener_def addVhostIndex_def)
next
  case False
  then have "key \<noteq> ListenKey (lst_interface l) (lst_port l)" by (auto simp: on_key_def)
  with False assms show ?thesis by (simp add: index_listen_def Let_def)
qed

lemma index_listens_entry:
  assumes "table_entry key is (map_of m key)"
  shows "table_entry key (is @ map (\<lambda>_. i) (filter (on_key key) ls)) (map_of (fold (index_listen i) ls m) key)"
  using assms
proof (induction ls arbitrary: "is" m)
  case (Cons l ls)
  from Cons.IH [OF index_listen_entry [OF Cons.prems, of l i]] show ?case
    by (cases "on_key key l") simp_all
qed simp

text \<open>The positions of the servers that listen on a key, once for every such listen.\<close>

fun listening :: "ListenKey \<Rightarrow> nat \<Rightarrow> Config list \<Rightarrow> nat list" where
  "listening key i [] = []"
| "listening key i (c # cs) = map (\<lambda>_. i) (filter (on_key key) (cfg_listens c)) @ listening key (i + 1) cs"

lemma index_vhosts_entry:
  assumes "table_entry key is (map_of m key)"
  shows "table_entry key (is @ listening key i cs) (map_of (index_vhosts i cs m) key)"
  using assms
proof (induction cs arbitrary: i "is" m)
  case (Cons c cs)
  from Cons.IH [OF index_listens_entry [OF Cons.prems, of i "cfg_listens c"], of "i + 1"] show ?case by simp
qed simp

lemma listening_Nil: "listening key i cs = [] \<longleftrightarrow> idx_of (listens_on key) cs = None"
  by (induction cs arbitrary: i) (auto simp: listens_on_def list_ex_iff filter_empty_conv)

lemma listening_hd: "idx_of (listens_on key) cs = Some k \<Longrightarrow> hd (listening key i cs) = i + k"
proof (induction cs arbitrary: i k)
  case (Cons c cs)
  show ?case
  proof (cases "filter (on_key key) (cfg_listens c) = []")
    case True
    then have "\<not> listens_on key c" by (auto simp: listens_on_def list_ex_iff filter_empty_conv)
    with Cons True show ?thesis by auto
  next
    case False
    then have "listens_on key c" by (auto simp: listens_on_def list_ex_iff filter_empty_conv)
    with Cons False show ?thesis by (simp add: hd_map)
  qed
qed simp

text \<open>C37: there is a listening socket for exactly the pairs of interface and port that a server
  listens on, and a connection accepted there belongs, until its Host header is known, to the
  first server of the configuration that listens on it.\<close>

theorem listener_default:
  "map_option ls_defaultVhostIndex (map_of (build_table vhosts) key) = idx_of (listens_on key) vhosts"
proof -
  have e: "table_entry key (listening key 0 vhosts) (map_of (build_table vhosts) key)"
    using index_vhosts_entry [of key "[]" "[]" 0 vhosts] by (simp add: build_table_def table_entry_def)
  show ?thesis
  proof (cases "idx_of (listens_on key) vhosts")
    case None
    then have "listening key 0 vhosts = []" using listening_Nil by blast
    then show ?thesis using e None by (simp add: table_entry_def del: idx_of_None)
  next
    case (Some k)
    then show ?thesis using e listening_Nil [of key 0 vhosts] listening_hd [OF Some, of 0]
      by (simp add: table_entry_def)
  qed
qed

section \<open>All or nothing\<close>

text \<open>The descriptors that opening the keys in order gets from the kernel.\<close>

fun opened :: "(ListenKey \<Rightarrow> open_outcome) \<Rightarrow> ListenKey list \<Rightarrow> int list" where
  "opened opens [] = []"
| "opened opens (key # keys) =
     (case opens key of No_socket \<Rightarrow> [] | Not_listening fd \<Rightarrow> [fd] | Listening fd \<Rightarrow> fd # opened opens keys)"

text \<open>What is registered for each descriptor.\<close>

definition registered :: "Registry \<Rightarrow> int \<Rightarrow> event list option \<times> bool option \<times> mask option" where
  "registered r fd = (watched (rg_em r) fd, kind_of (rg_em r) fd, map_of (rg_epoll r) fd)"

definition nothing_registered :: "event list option \<times> bool option \<times> mask option" where
  "nothing_registered = (None, None, None)"

lemma registered_forget [simp]:
  "registered (forget_fd fd r) = (registered r)(fd := nothing_registered)"
  "registered (forget_and_close fd r) = (registered r)(fd := nothing_registered)"
  by (simp_all add: registered_def forget_fd_def forget_and_close_def table_simps nothing_registered_def
      fun_eq_iff)

lemma fold_forget_and_close:
  "registered (fold forget_and_close fds r) x = (if x \<in> set fds then nothing_registered else registered r x)"
  "rg_closed (fold forget_and_close fds r) = rg_closed r @ fds"
  "rg_listeners (fold forget_and_close fds r) = rg_listeners r"
  by (induction fds arbitrary: r) (auto simp: forget_and_close_def forget_fd_def
      registered_def table_simps nothing_registered_def)

lemma registered_roll_back:
  "registered (roll_back cur fds r) x =
     (if x \<in> set fds \<or> cur = Some x then nothing_registered else registered r x)"
proof -
  have "registered (r\<lparr>rg_byFd := b, rg_listeners := l\<rparr>) = registered r" for r :: Registry and b l
    by (simp add: registered_def fun_eq_iff)
  then show ?thesis
    by (cases cur) (auto simp: roll_back_def Let_def fold_forget_and_close)
qed

lemma roll_back_rest:
  "rg_closed (roll_back cur fds r) = rg_closed r @ fds" "rg_byFd (roll_back cur fds r) = []"
  "rg_listeners (roll_back cur fds r) = clear_sockets (rg_listeners r)"
  by (cases cur; simp add: roll_back_def Let_def fold_forget_and_close forget_fd_def)+

lemma registered_register:
  "registered (register_listener key fd r) = (registered r)(fd :=
     (Some (events_of fd (rg_em r) @ [NewConnectionEvent]), Some False, Some EPOLLIN))"
  by (auto simp: registered_def register_listener_def table_simps fun_eq_iff events_of_def)

lemma clear_sockets_register:
  "clear_sockets (rg_listeners (register_listener key fd r)) = clear_sockets (rg_listeners r)"
  by (auto simp: clear_sockets_def register_listener_def setSocket_def)

lemma open_all_failed:
  assumes "open_all opens keys fds r = (Some e, r')"
    and "\<And>fd. fd \<in> set (opened opens keys) \<Longrightarrow> registered r fd = nothing_registered"
    and "distinct (opened opens keys)"
  shows "registered r' x = (if x \<in> set fds then nothing_registered else registered r x)"
    and "\<exists>xs. rg_closed r' = rg_closed r @ xs \<and> (distinct (fds @ opened opens keys) \<longrightarrow> distinct xs) \<and>
           set xs = set fds \<union> set (opened opens keys)"
    and "rg_byFd r' = []" and "rg_listeners r' = clear_sockets (rg_listeners r)"
proof -
  have "registered r' x = (if x \<in> set fds then nothing_registered else registered r x) \<and>
    (\<exists>xs. rg_closed r' = rg_closed r @ xs \<and> (distinct (fds @ opened opens keys) \<longrightarrow> distinct xs) \<and>
           set xs = set fds \<union> set (opened opens keys)) \<and>
    rg_byFd r' = [] \<and> rg_listeners r' = clear_sockets (rg_listeners r)"
    using assms
  proof (induction keys arbitrary: fds r)
    case (Cons key keys)
    show ?case
    proof (cases "opens key")
      case No_socket
      then show ?thesis using Cons.prems(1)
        by (auto simp: registered_roll_back roll_back_rest)
    next
      case (Not_listening fd)
      have closing: "registered (r\<lparr>rg_closed := c\<rparr>) = registered r" for c
        by (simp add: registered_def fun_eq_iff)
      have "rg_closed r' = rg_closed r @ fd # fds"
        using Cons.prems(1) Not_listening by (auto simp: roll_back_rest)
      moreover have "registered r fd = nothing_registered" using Cons.prems(2) Not_listening by simp
      ultimately show ?thesis using Cons.prems(1) Not_listening
        by (auto simp: registered_roll_back roll_back_rest closing intro!: exI [of _ "fd # fds"])
    next
      case (Listening fd)
      have fresh: "registered (register_listener key fd r) f = nothing_registered"
        if "f \<in> set (opened opens keys)" for f
        using that Cons.prems(2,3) Listening by (auto simp: registered_register)
      have "open_all opens keys (fds @ [fd]) (register_listener key fd r) = (Some e, r')"
        and "distinct (opened opens keys)"
        using Cons.prems(1,3) Listening by simp_all
      note IH = Cons.IH [OF this(1) fresh this(2)]
      moreover have "rg_closed (register_listener key fd r) = rg_closed r"
        by (simp add: register_listener_def)
      moreover have "registered r fd = nothing_registered" using Cons.prems(2) Listening by simp
      ultimately show ?thesis using Listening
        by (auto simp: registered_register clear_sockets_register)
    qed
  qed simp
  then show "registered r' x = (if x \<in> set fds then nothing_registered else registered r x)"
    and "\<exists>xs. rg_closed r' = rg_closed r @ xs \<and> (distinct (fds @ opened opens keys) \<longrightarrow> distinct xs) \<and>
           set xs = set fds \<union> set (opened opens keys)"
    and "rg_byFd r' = []" and "rg_listeners r' = clear_sockets (rg_listeners r)" by blast+
qed

lemma map_of_register:
  "map_of (rg_listeners (register_listener key fd r)) k =
     map_option (\<lambda>l. if k = key then setSocket fd l else l) (map_of (rg_listeners r) k)"
proof -
  have "map_of (map (\<lambda>(k, l). (k, if k = key then setSocket fd l else l)) ls) k =
      map_option (\<lambda>l. if k = key then setSocket fd l else l) (map_of ls k)" for ls
    by (induction ls) auto
  then show ?thesis by (simp add: register_listener_def)
qed

lemma open_all_frame:
  assumes "open_all opens keys fds r = (None, r')"
  shows "rg_closed r' = rg_closed r"
    and "f \<notin> set (opened opens keys) \<Longrightarrow>
      registered r' f = registered r f \<and> map_of (rg_byFd r') f = map_of (rg_byFd r) f"
    and "k \<notin> set keys \<Longrightarrow> map_of (rg_listeners r') k = map_of (rg_listeners r) k"
proof -
  have "rg_closed r' = rg_closed r \<and>
    (f \<notin> set (opened opens keys) \<longrightarrow>
      registered r' f = registered r f \<and> map_of (rg_byFd r') f = map_of (rg_byFd r) f) \<and>
    (k \<notin> set keys \<longrightarrow> map_of (rg_listeners r') k = map_of (rg_listeners r) k)"
    using assms
  proof (induction keys arbitrary: fds r)
    case (Cons key keys)
    then obtain fd where fd: "opens key = Listening fd"
      and rest: "open_all opens keys (fds @ [fd]) (register_listener key fd r) = (None, r')"
      by (auto split: open_outcome.splits)
    have "rg_closed (register_listener key fd r) = rg_closed r"
      "map_of (rg_byFd (register_listener key fd r)) = (map_of (rg_byFd r))(fd \<mapsto> key)"
      by (simp_all add: register_listener_def)
    with Cons.IH [OF rest] fd show ?case
      by (auto simp: registered_register map_of_register option.map_ident cong: option.map_cong)
  qed simp
  then show "rg_closed r' = rg_closed r"
    and "f \<notin> set (opened opens keys) \<Longrightarrow>
      registered r' f = registered r f \<and> map_of (rg_byFd r') f = map_of (rg_byFd r) f"
    and "k \<notin> set keys \<Longrightarrow> map_of (rg_listeners r') k = map_of (rg_listeners r) k" by blast+
qed

definition listens :: "(ListenKey \<Rightarrow> open_outcome) \<Rightarrow> Registry \<Rightarrow> ListenKey \<Rightarrow> bool" where
  "listens opens r k \<longleftrightarrow>
     (\<exists>fd. opens k = Listening fd \<and> map_of (rg_byFd r) fd = Some k \<and>
        map_option ls_fd (map_of (rg_listeners r) k) = Some fd \<and>
        registered r fd = (Some [NewConnectionEvent], Some False, Some EPOLLIN))"

lemma open_all_listens:
  assumes "open_all opens keys fds r = (None, r')" "distinct keys" "distinct (opened opens keys)"
    and "\<And>fd. fd \<in> set (opened opens keys) \<Longrightarrow> registered r fd = nothing_registered"
    and "set keys \<subseteq> dom (map_of (rg_listeners r))" "k \<in> set keys"
  shows "listens opens r' k"
  using assms
proof (induction keys arbitrary: fds r)
  case (Cons key keys)
  then obtain fd where fd: "opens key = Listening fd"
    and rest: "open_all opens keys (fds @ [fd]) (register_listener key fd r) = (None, r')"
    by (auto split: open_outcome.splits)
  have new: "fd \<notin> set (opened opens keys)" and dist: "distinct (opened opens keys)"
    using Cons.prems(3) fd by simp_all
  have none: "registered r fd = nothing_registered" using Cons.prems(4) fd by simp
  then have here: "registered (register_listener key fd r) fd =
      (Some [NewConnectionEvent], Some False, Some EPOLLIN)"
    by (simp add: registered_register events_of_watched) (simp add: registered_def nothing_registered_def)
  show ?case
  proof (cases "k = key")
    case True
    have "key \<notin> set keys" using Cons.prems(2) by simp
    note frame = open_all_frame(2) [OF rest new] open_all_frame(3) [OF rest this]
    moreover have "map_of (rg_byFd (register_listener key fd r)) fd = Some key"
      by (simp add: register_listener_def)
    moreover obtain l where "map_of (rg_listeners r) key = Some l" using Cons.prems(5) by auto
    ultimately show ?thesis using True fd here
      by (auto simp: listens_def map_of_register setSocket_def)
  next
    case False
    have "registered (register_listener key fd r) f = nothing_registered"
      if "f \<in> set (opened opens keys)" for f
      using that new Cons.prems(4) fd by (auto simp: registered_register)
    moreover have "set keys \<subseteq> dom (map_of (rg_listeners (register_listener key fd r)))"
      using Cons.prems(5) by (auto simp: map_of_register)
    ultimately show ?thesis
      using Cons.IH [OF rest _ dist] Cons.prems(2,6) False by simp
  qed
qed simp

lemma build_table_ok: "om_ok (build_table vhosts)"
proof -
  have fold_ok: "om_ok (fold (index_listen i) ls m)" if "om_ok m" for i ls m
    using that by (induction ls arbitrary: m) (simp_all add: index_listen_def Let_def)
  have "om_ok (index_vhosts i vs m)" if "om_ok m" for i vs m
    using that by (induction vs arbitrary: i m) (simp_all add: fold_ok)
  then show ?thesis by (simp add: build_table_def)
qed

text \<open>C18: the listening sockets are opened all or none.  When the server starts, every pair of
  interface and port has its own descriptor, entered in all the tables; when one of them cannot
  be opened, the tables are as they were, and every descriptor the kernel had handed out has been
  closed exactly once.\<close>

theorem listeners_all_or_none:
  assumes "build_registry opens vhosts r = (e, r')"
    and "distinct (opened opens (map fst (build_table vhosts)))"
    and "\<forall>fd \<in> set (opened opens (map fst (build_table vhosts))). registered r fd = nothing_registered"
  shows "if e = None
    then rg_closed r' = rg_closed r \<and> (\<forall>k \<in> set (map fst (build_table vhosts)). listens opens r' k)
    else registered r' = registered r \<and> rg_byFd r' = [] \<and> rg_listeners r' = clear_sockets (build_table vhosts) \<and>
      (\<exists>xs. rg_closed r' = rg_closed r @ xs \<and> distinct xs \<and>
         set xs = set (opened opens (map fst (build_table vhosts))))"
proof -
  let ?r = "r\<lparr>rg_listeners := build_table vhosts, rg_byFd := []\<rparr>"
  let ?keys = "map fst (build_table vhosts)"
  have open_all: "open_all opens ?keys [] ?r = (e, r')"
    using assms(1) by (simp add: build_registry_def openAndRegisterListeners_def)
  have same: "registered ?r = registered r" by (simp add: registered_def fun_eq_iff)
  show ?thesis
  proof (cases e)
    case None
    have "distinct ?keys" by (rule om_ok_distinct [OF build_table_ok])
    moreover have "set ?keys \<subseteq> dom (map_of (rg_listeners ?r))" by (simp add: dom_map_of_conv_image_fst)
    ultimately show ?thesis
      using open_all_listens [OF open_all [unfolded None] _ assms(2)] assms(3) same
        open_all_frame(1) [OF open_all [unfolded None]] None by simp
  next
    case (Some x)
    note f = open_all_failed [OF open_all [unfolded Some] _ assms(2)]
    show ?thesis using f assms(2,3) same Some by (simp add: fun_eq_iff)
  qed
qed

definition two_listens :: Config where
  "two_listens = two_locations\<lparr>cfg_listens :=
     [\<lparr>lst_host = [], lst_interface = ''127.0.0.1'', lst_port = 8080\<rparr>,
      \<lparr>lst_host = [], lst_interface = ''127.0.0.1'', lst_port = 80\<rparr>]\<rparr>"

definition no_registry :: Registry where
  "no_registry = \<lparr>rg_listeners = [], rg_byFd = [], rg_em = new_EventManager, rg_epoll = [], rg_closed = []\<rparr>"

definition port_taken :: "ListenKey \<Rightarrow> open_outcome" where
  "port_taken k = (if lk_port k = 80 then Listening 3 else Not_listening 4)"

theorem listeners_all_or_none_witness:
  "registered (snd (build_registry port_taken [two_listens] no_registry)) = registered no_registry"
proof -
  define r' where "r' = snd (build_registry port_taken [two_listens] no_registry)"
  have fds: "opened port_taken (map fst (build_table [two_listens])) = [3, 4]" by code_simp
  have "fst (build_registry port_taken [two_listens] no_registry) = Some Runtime_error" by code_simp
  then have run: "build_registry port_taken [two_listens] no_registry = (Some Runtime_error, r')"
    by (simp add: r'_def prod_eq_iff)
  have "\<forall>fd. registered no_registry fd = nothing_registered"
    by (simp add: registered_def no_registry_def new_EventManager_def nothing_registered_def)
  then show ?thesis using listeners_all_or_none [OF run] by (simp add: fds r'_def)
qed

end
