(* ===== verification/Connection.thy ===== *)
theory Connection
  imports Pipeline Timeouts Listeners
begin

text \<open>
  \<open>src/Server/Client/HttpConnection.cpp\<close>, \<open>src/Server/Client/Client.cpp\<close> and the part of
  \<open>src/Server/Server.cpp\<close> that closes a connection: one client from its first byte to the closing
  of its socket.  The server object is a record of the tables it owns; what \<open>send\<close>
  takes and which descriptors are closed is recorded in the order it happens.
\<close>

section \<open>The server object\<close>

text \<open>A client: its address, its context and the send buffer of its \<open>Socket\<close>.\<close>

record Conn =
  cn_addr :: nat
  cn_ctx :: PipelineContext
  cn_sendBuffer :: string

text \<open>
  \<open>sv_epoll\<close> is what \<open>SocketsManager\<close> has registered in the kernel.  \<open>sv_sent\<close> and \<open>sv_closed\<close>
  record the calls of \<open>send\<close> and \<open>close\<close>.  \<open>sv_dangling\<close> says that an object was used after it was
  destroyed, which C++ leaves undefined.
\<close>

record Server =
  sv_listeners :: "(ListenKey, Listener) omap"
  sv_byFd :: "(int, ListenKey) omap"
  sv_listenHeaderMax :: "(string, size_t) omap"
  sv_world :: World
  sv_timers :: TimeoutManager
  sv_epoll :: "(int, mask) omap"
  sv_em :: EventManager
  sv_clients :: "(int, Conn) omap"
  sv_sent :: "(int \<times> string) list"
  sv_closed :: "int list"
  sv_next :: nat
  sv_dangling :: bool

type_synonym effect = "exn option \<times> Server"

abbreviation done_ok :: "Server \<Rightarrow> effect" where "done_ok sv \<equiv> (None, sv)"

text \<open>The statement after another: an exception skips it.\<close>

definition andthen :: "effect \<Rightarrow> (Server \<Rightarrow> effect) \<Rightarrow> effect" where
  "andthen r f = (case r of (None, sv) \<Rightarrow> f sv | (Some e, sv) \<Rightarrow> (Some e, sv))"

lemma andthen_simps [simp]:
  "andthen (None, sv) f = f sv" "andthen (Some e, sv) f = (Some e, sv)"
  by (simp_all add: andthen_def)

section \<open>Descriptors\<close>

text \<open>The kernel refuses to modify what is not registered, and to register it twice.\<close>

definition registerSocket :: "int \<Rightarrow> mask \<Rightarrow> Server \<Rightarrow> effect" where
  "registerSocket fd events sv =
     (if has_key (sv_epoll sv) fd then (Some Runtime_error, sv)
      else done_ok (sv\<lparr>sv_epoll := om_set fd events (sv_epoll sv)\<rparr>))"

definition modifySocket :: "int \<Rightarrow> mask \<Rightarrow> Server \<Rightarrow> effect" where
  "modifySocket fd events sv =
     (if has_key (sv_epoll sv) fd then done_ok (sv\<lparr>sv_epoll := om_set fd events (sv_epoll sv)\<rparr>)
      else (Some Runtime_error, sv))"

definition unregisterSocket :: "int \<Rightarrow> Server \<Rightarrow> Server" where
  "unregisterSocket fd sv = sv\<lparr>sv_epoll := om_erase fd (sv_epoll sv)\<rparr>"

text \<open>Closing a descriptor also takes it out of \<open>epoll\<close>.\<close>

definition close_fd :: "int \<Rightarrow> Server \<Rightarrow> Server" where
  "close_fd fd sv = sv\<lparr>sv_epoll := om_erase fd (sv_epoll sv), sv_closed := sv_closed sv @ [fd]\<rparr>"

definition on_em :: "(EventManager \<Rightarrow> EventManager) \<Rightarrow> Server \<Rightarrow> Server" where
  "on_em f sv = sv\<lparr>sv_em := f (sv_em sv)\<rparr>"

definition on_cgi :: "(CgiManager \<Rightarrow> CgiManager) \<Rightarrow> Server \<Rightarrow> Server" where
  "on_cgi f sv = sv\<lparr>sv_world := (sv_world sv)\<lparr>wo_cgi := f (wo_cgi (sv_world sv))\<rparr>\<rparr>"

section \<open>Destroying a worker\<close>

text \<open>\<open>detachEvents\<close>: the descriptors that were recorded at registration are forgotten.\<close>

definition detach_fd :: "int \<Rightarrow> Server \<Rightarrow> Server" where
  "detach_fd fd sv = on_em (forgetFd fd) (unregisterSocket fd sv)"

definition detachEvents :: "bool \<Rightarrow> CgiWorker \<Rightarrow> Server \<Rightarrow> Server" where
  "detachEvents keepCompletionEvent w sv =
     fold detach_fd
       (filter (\<lambda>fd. 0 \<le> fd \<and> \<not> (keepCompletionEvent \<and> fd = last (wk_eventFds w))) (wk_eventFds w)) sv"

definition closePipe :: "int \<Rightarrow> Server \<Rightarrow> Server" where
  "closePipe fd sv = (if fd \<noteq> -1 then close_fd fd sv else sv)"

definition destroy_worker :: "bool \<Rightarrow> CgiWorker \<Rightarrow> Server \<Rightarrow> Server" where
  "destroy_worker keep w sv =
     fold closePipe
       ([wk_writeFd w, wk_readFd w, wk_errFd w] @ (if keep then [] else [wk_completionOut w]) @
        [wk_completionIn w, wk_statusFd w])
       (detachEvents keep w sv)"

definition worker_of_client :: "int \<Rightarrow> Server \<Rightarrow> CgiWorker option" where
  "worker_of_client fd sv =
     (let m = wo_cgi (sv_world sv) in
      case map_of (cm_clientFdToWorker m) fd of
        None \<Rightarrow> None
      | Some a \<Rightarrow> map_of (cm_workers m) a)"

text \<open>\<open>CgiManager::abortClient\<close> with the destructor of the worker it removes.\<close>

definition abort_client :: "int \<Rightarrow> Server \<Rightarrow> Server" where
  "abort_client fd sv =
     (case worker_of_client fd sv of
        None \<Rightarrow> sv
      | Some w \<Rightarrow> destroy_worker False w (on_cgi (abortClient fd) sv))"

section \<open>Closing a connection\<close>

definition closeConnection :: "int \<Rightarrow> Server \<Rightarrow> Server" where
  "closeConnection clientFd sv =
     (let sv1 = on_em (forgetFd clientFd) (unregisterSocket clientFd (abort_client clientFd sv)) in
      case map_of (sv_clients sv1) clientFd of
        Some c \<Rightarrow>
          (close_fd clientFd (sv1\<lparr>sv_timers := remove_timer (cn_addr c) (sv_timers sv1)\<rparr>))
            \<lparr>sv_clients := om_erase clientFd (sv_clients sv1)\<rparr>
      | None \<Rightarrow> close_fd clientFd sv1)"

definition removeClientFd :: "int \<Rightarrow> Server \<Rightarrow> Server" where
  "removeClientFd = removeFd sv_em (\<lambda>em sv. sv\<lparr>sv_em := em\<rparr>) closeConnection"

section \<open>Deadlines of a client\<close>

definition calculateTimeout :: "PipelineContext \<Rightarrow> int" where
  "calculateTimeout ctx =
     (case rp_state (cx_parser ctx) of
        STATE_REQUEST_LINE \<Rightarrow> sint (cfg_requestHeaderTimeoutSec (cx_conf ctx))
      | STATE_HEADERS \<Rightarrow> sint (cfg_requestHeaderTimeoutSec (cx_conf ctx))
      | STATE_BODY \<Rightarrow> sint (cfg_requestBodyTimeoutSec (cx_conf ctx))
      | STATE_COMPLETE \<Rightarrow> sint (cfg_timeoutSec (cx_conf ctx)))"

definition updateTimeout :: "int \<Rightarrow> int \<Rightarrow> Server \<Rightarrow> Server" where
  "updateTimeout now fd sv =
     (case map_of (sv_clients sv) fd of
        None \<Rightarrow> sv\<lparr>sv_dangling := True\<rparr>
      | Some c \<Rightarrow>
          sv\<lparr>sv_timers := add_timer now (cn_addr c) (calculateTimeout (cn_ctx c)) (sv_timers sv)\<rparr>)"

definition set_conn :: "int \<Rightarrow> Conn \<Rightarrow> Server \<Rightarrow> Server" where
  "set_conn fd c sv = sv\<lparr>sv_clients := om_set fd c (sv_clients sv)\<rparr>"

section \<open>Requests and responses\<close>

definition has_answer :: "PipelineContext \<Rightarrow> bool" where
  "has_answer ctx \<longleftrightarrow> isComplete (cx_parser ctx) \<or> rp_errorCode (cx_parser ctx) \<noteq> 0"

text \<open>\<open>date\<close> is the time stamp of the response.\<close>

definition generateResponse :: "string \<Rightarrow> int \<Rightarrow> Server \<Rightarrow> effect" where
  "generateResponse date fd sv =
     (case map_of (sv_clients sv) fd of
        None \<Rightarrow> done_ok (sv\<lparr>sv_dangling := True\<rparr>)
      | Some c \<Rightarrow>
          (if \<not> has_answer (cn_ctx c) then done_ok sv
           else
             (let c1 = c\<lparr>cn_ctx := map_res (complete_headers date) (cn_ctx c),
                         cn_sendBuffer := cn_sendBuffer c @ build date (cx_res (cn_ctx c))\<rparr>;
                  sv1 = set_conn fd c1 sv
              in if cn_sendBuffer c1 \<noteq> [] then modifySocket fd (or EPOLLIN EPOLLOUT) sv1
                 else done_ok sv1)))"

text \<open>
  The events of a new worker are registered under descriptors the kernel has just handed out, which
  are not registered yet.
\<close>

definition watch :: "bool \<Rightarrow> int \<Rightarrow> mask \<Rightarrow> event list \<Rightarrow> Server \<Rightarrow> Server" where
  "watch isClient fd events es sv =
     on_em (\<lambda>em. fold (addEvent fd) es (initFd isClient fd em))
       (sv\<lparr>sv_epoll := om_set fd events (sv_epoll sv)\<rparr>)"

definition watch_cgi :: "int \<times> cgi_event \<Rightarrow> Server \<Rightarrow> Server" where
  "watch_cgi p = watch False (fst p) (expectedEventType (CgiEvent (snd p))) [CgiEvent (snd p)]"

text \<open>What the pipeline did to the context and the world is put back, and its events registered.\<close>

definition after_pipeline :: "int \<Rightarrow> Conn \<Rightarrow> state \<Rightarrow> Server \<Rightarrow> Server" where
  "after_pipeline fd c s sv =
     (case s of (ctx, w) \<Rightarrow>
        fold watch_cgi (wo_events w)
          (set_conn fd (c\<lparr>cn_ctx := ctx\<rparr>) (sv\<lparr>sv_world := w\<lparr>wo_events := []\<rparr>\<rparr>)))"

text \<open>Two calls of the chain are enough, as selecting a server restarts it once.\<close>

definition handleRequest :: "Env \<Rightarrow> string \<Rightarrow> int \<Rightarrow> Server \<Rightarrow> effect option" where
  "handleRequest env date fd sv =
     (case map_of (sv_clients sv) fd of
        None \<Rightarrow> Some (done_ok (sv\<lparr>sv_dangling := True\<rparr>))
      | Some c \<Rightarrow>
          (case main_handle 2 env (en_vhosts env ! cl_activeVhost (cx_ownerClient (cn_ctx c)))
                  (cn_ctx c, sv_world sv) of
             None \<Rightarrow> None
           | Some (e, ctx, w) \<Rightarrow>
               (let sv1 = after_pipeline fd c (ctx, w) sv in
                case e of
                  Some x \<Rightarrow> Some (Some x, sv1)
                | None \<Rightarrow>
                    Some (if cx_isCgi ctx
                          then done_ok (set_conn fd (c\<lparr>cn_ctx := ctx\<lparr>cx_isCgi := False\<rparr>\<rparr>) sv1)
                          else if has_answer ctx then generateResponse date fd sv1
                          else done_ok sv1))))"

section \<open>Events of a client\<close>

text \<open>An answer of \<open>recv\<close>: bytes, the end, or an error (\<open>True\<close>: there is nothing yet).\<close>

datatype received = Received string | Disconnected | Recv_failed bool

definition append_received :: "string \<Rightarrow> Conn \<Rightarrow> Conn" where
  "append_received bytes c =
     c\<lparr>cn_ctx := (cn_ctx c)\<lparr>cx_recvBuffer := cx_recvBuffer (cn_ctx c) @ bytes\<rparr>\<rparr>"

definition handleReadEvent ::
  "Env \<Rightarrow> string \<Rightarrow> int \<Rightarrow> received \<Rightarrow> int \<Rightarrow> Server \<Rightarrow> effect option" where
  "handleReadEvent env date now r fd sv =
     (case map_of (sv_clients sv) fd of
        None \<Rightarrow> Some (done_ok (sv\<lparr>sv_dangling := True\<rparr>))
      | Some c \<Rightarrow>
          (case r of
             Received bytes \<Rightarrow>
               map_option (\<lambda>x. andthen x (\<lambda>sv2. done_ok (updateTimeout now fd sv2)))
                 (handleRequest env date fd (set_conn fd (append_received bytes c) sv))
           | Disconnected \<Rightarrow> Some (done_ok (closeConnection fd sv))
           | Recv_failed again \<Rightarrow> Some (done_ok (if again then sv else closeConnection fd sv))))"

text \<open>An answer of \<open>send\<close>: how many bytes it took, or an error (\<open>True\<close>: try again later).\<close>

datatype sent = Sent nat | Send_failed bool

definition handleWriteEvent :: "Env \<Rightarrow> int \<Rightarrow> sent \<Rightarrow> int \<Rightarrow> Server \<Rightarrow> effect" where
  "handleWriteEvent env now s fd sv =
     (case map_of (sv_clients sv) fd of
        None \<Rightarrow> done_ok (sv\<lparr>sv_dangling := True\<rparr>)
      | Some c \<Rightarrow>
          (if cn_sendBuffer c = [] then modifySocket fd EPOLLIN sv
           else
             (case s of
                Sent n \<Rightarrow>
                  (let c1 = c\<lparr>cn_sendBuffer := drop n (cn_sendBuffer c)\<rparr>;
                       sv1 = set_conn fd c1 (sv\<lparr>sv_sent := sv_sent sv @ [(fd, take n (cn_sendBuffer c))]\<rparr>)
                   in if cn_sendBuffer c1 \<noteq> [] then done_ok sv1
                      else if rs_getHeader (cx_res (cn_ctx c1)) ''Connection'' = ''close''
                      then done_ok (closeConnection fd sv1)
                      else andthen (modifySocket fd EPOLLIN sv1) (\<lambda>sv2.
                        done_ok (set_conn fd
                          (c1\<lparr>cn_ctx := reset_context now
                                (en_vhosts env ! cl_activeVhost (cx_ownerClient (cn_ctx c1))) (cn_ctx c1)\<rparr>)
                          (updateTimeout now fd sv2))))
              | Send_failed again \<Rightarrow> done_ok (if again then sv else closeConnection fd sv))))"

text \<open>
  The time-out of a client: the answer 408 replaces whatever is still in the send buffer, is
  offered to the socket once, and the descriptor is removed, which closes the connection.  When
  the connection was closed on the way, \<open>this\<close> is used after it was destroyed.
\<close>

definition onTimeout :: "Env \<Rightarrow> string \<Rightarrow> int \<Rightarrow> sent \<Rightarrow> int \<Rightarrow> Server \<Rightarrow> effect" where
  "onTimeout env date now s fd sv =
     (case map_of (sv_clients sv) fd of
        None \<Rightarrow> done_ok (sv\<lparr>sv_dangling := True\<rparr>)
      | Some c \<Rightarrow>
          (let ctx = map_res (\<lambda>res. res\<lparr>rs_statusCode := 408\<rparr>) (cn_ctx c) in
           case error_handle (en_os env) (cx_conf ctx) (cx_req ctx) (cx_res ctx) of
             (Some e, res) \<Rightarrow> (Some e, set_conn fd (c\<lparr>cn_ctx := ctx\<lparr>cx_res := res\<rparr>\<rparr>) sv)
           | (None, res) \<Rightarrow>
               (let c1 = c\<lparr>cn_ctx := ctx\<lparr>cx_res := complete_headers date res\<rparr>,
                          cn_sendBuffer := build date res\<rparr>
                in andthen (handleWriteEvent env now s fd (set_conn fd c1 sv)) (\<lambda>sv1.
                     done_ok
                       (case map_of (sv_clients sv1) fd of
                          None \<Rightarrow> sv1\<lparr>sv_dangling := True\<rparr>
                        | Some _ \<Rightarrow> removeClientFd fd sv1)))))"

end
