(* ===== verification/SplitReads.thy ===== *)
theory SplitReads
  imports Connection
begin

text \<open>
  A request does not depend on how the network cut it into reads.  The whole pipeline is run on
  every part that arrives, from the request line to the selection of the virtual server, the limits and the body; the theorem
  puts the incremental readers together and says that the last of these runs gives what a single
  run on all the bytes gives.
\<close>

section \<open>Runs that differ in the buffer\<close>

text \<open>The same with other bytes in the receive buffer.\<close>

definition with_buffer :: "string \<Rightarrow> state \<Rightarrow> state" where
  "with_buffer bytes s = ((fst s)\<lparr>cx_recvBuffer := bytes\<rparr>, snd s)"

definition same_but_buffer :: "string \<Rightarrow> result \<Rightarrow> result" where
  "same_but_buffer bytes = map_option (\<lambda>(e, s). (e, with_buffer bytes s))"

lemma same_but_buffer_simps [simp]:
  "same_but_buffer bytes None = None"
  "same_but_buffer bytes (Some (e, ctx, w)) = Some (e, ctx\<lparr>cx_recvBuffer := bytes\<rparr>, w)"
  by (simp_all add: same_but_buffer_def with_buffer_def)

lemma error_mw_buffer: "error_mw env (with_buffer b s) = same_but_buffer b (error_mw env s)"
  by (cases s) (simp add: error_mw_def with_buffer_def Let_def split: prod.splits option.splits)

lemma fail_with_buffer: "fail_with env err (with_buffer b s) = same_but_buffer b (fail_with env err s)"
proof -
  have "(setError err (fst (with_buffer b s)), snd (with_buffer b s)) = with_buffer b (setError err (fst s), snd s)"
    by (simp add: with_buffer_def setError_def)
  then show ?thesis by (simp add: fail_with_def error_mw_buffer)
qed

text \<open>
  Results that a client cannot tell apart: after an error the bytes that were not used are still in
  the buffer, which is emptied before the next request.
\<close>

fun same_result :: "result \<Rightarrow> result \<Rightarrow> bool" where
  "same_result None None = True"
| "same_result (Some (None, s)) (Some (None, s')) = (with_buffer [] s = with_buffer [] s')"
| "same_result (Some (Some e, s)) (Some (Some e', s')) = (e = e')"
| "same_result r r' = False"

lemma same_result_refl [simp]: "same_result r r"
  by (cases "(r, r)" rule: same_result.cases) auto

lemma same_result_buffer:
  "same_result (fail_with env err (ctx\<lparr>cx_recvBuffer := a\<rparr>, w)) (fail_with env err (ctx\<lparr>cx_recvBuffer := b\<rparr>, w))"
proof -
  have to: "same_result (same_but_buffer a r) (same_but_buffer b r)" for r
    by (cases r; cases "fst (the r)") (auto simp: with_buffer_def)
  show ?thesis
    using to [of "fail_with env err (ctx, w)"] fail_with_buffer [of env err _ "(ctx, w)"]
    by (simp add: with_buffer_def)
qed

section \<open>The run without its restart\<close>

text \<open>The context after the selection of the virtual server.\<close>

definition vhost_of :: "Env \<Rightarrow> PipelineContext \<Rightarrow> nat" where
  "vhost_of env ctx =
     (case find_vhost (en_vhosts env) (cl_listenKey (cx_ownerClient ctx)) (rq_getHeader (cx_req ctx) ''Host'') of
        Some i \<Rightarrow> i | None \<Rightarrow> cl_activeVhost (cx_ownerClient ctx))"

definition settle :: "Env \<Rightarrow> PipelineContext \<Rightarrow> PipelineContext" where
  "settle env ctx =
     setConfig (en_vhosts env ! vhost_of env ctx)
       (ctx\<lparr>cx_ownerClient := (cx_ownerClient ctx)\<lparr>cl_activeVhost := vhost_of env ctx\<rparr>\<rparr>)"

definition answer_run :: "Env \<Rightarrow> Config \<Rightarrow> continuation" where
  "answer_run env c = chain_run (main_step env (\<lambda>_ _. None)) (drop 5 (buildRoute c))"

definition after_head :: "Env \<Rightarrow> Config \<Rightarrow> continuation" where
  "after_head env conf s =
     (let (ctx, w) = s in
      if head_pending ctx then returned s
      else
        limits_mw env (body_mw env (answer_run env
            (if vhost_of env ctx = cl_activeVhost (cx_ownerClient ctx) then conf else en_vhosts env ! vhost_of env ctx)))
          (settle env ctx, w))"

lemma answer_any:
  "chain_run (main_step env r) (drop 3 (buildRoute c)) = limits_mw env (body_mw env (answer_run env c))"
proof -
  have "chain_run (main_step env r) (drop 5 (buildRoute c)) = answer_run env c"
    unfolding answer_run_def by (intro ext no_restart) (simp add: buildRoute_def)
  moreover have "drop 3 (buildRoute c) =
      RequestLimitsMiddleware # RequestBodyParserMiddleware # drop 5 (buildRoute c)"
    by (simp add: buildRoute_def)
  ultimately show ?thesis by (simp add: chain_run_Cons main_step_fun)
qed

lemma same_client: "client\<lparr>cl_activeVhost := cl_activeVhost client\<rparr> = client" for client :: Client
  by simp

lemma setConfig_twice [simp]: "setConfig c (setConfig c ctx) = setConfig c ctx"
  by (simp add: setConfig_def)

lemma vhost_settles:
  "vhost_mw env (main_handle (Suc k) env) (chain_run (main_step env r) (drop 3 (buildRoute conf))) s = after_head env conf s"
proof -
  obtain ctx w where s: "s = (ctx, w)" by (cases s)
  let ?client = "cx_ownerClient ctx"
  let ?find = "find_vhost (en_vhosts env) (cl_listenKey ?client) (rq_getHeader (cx_req ctx) ''Host'')"
  show ?thesis
  proof (cases "head_pending ctx")
    case True
    then show ?thesis by (simp add: s vhost_mw_def after_head_def Let_def)
  next
    case False
    show ?thesis
    proof (cases "?find = None \<or> ?find = Some (cl_activeVhost ?client)")
      case True
      then have "vhost_of env ctx = cl_activeVhost ?client" by (auto simp: vhost_of_def)
      moreover have "ctx\<lparr>cx_ownerClient := ?client\<rparr> = ctx" by simp
      ultimately show ?thesis
        using True False
        by (auto simp: s vhost_mw_def after_head_def settle_def Let_def answer_any)
    next
      case other: False
      then obtain i where i: "?find = Some i" "i \<noteq> cl_activeVhost ?client" by auto
      let ?new = "setConfig (en_vhosts env ! i) (ctx\<lparr>cx_ownerClient := ?client\<lparr>cl_activeVhost := i\<rparr>\<rparr>)"
      have st: "rp_state (cx_parser ?new) = rp_state (cx_parser ctx)" "head_pending ?new \<longleftrightarrow> head_pending ctx"
        "rq_getHeader (cx_req ?new) = rq_getHeader (cx_req ctx)"
        "cx_ownerClient ?new = ?client\<lparr>cl_activeVhost := i\<rparr>"
        by (auto simp: setConfig_def head_pending_def rq_getHeader_def)
      have again: "main_handle (Suc k) env (en_vhosts env ! i) (?new, w) =
          limits_mw env (body_mw env (answer_run env (en_vhosts env ! i))) (?new, w)"
        using st False i
        by (simp add: run_route line_mw_def head_mw_def vhost_mw_def head_pending_def answer_any Let_def)
      show ?thesis
        using i False again
        by (simp add: s vhost_mw_def after_head_def settle_def vhost_of_def Let_def)
    qed
  qed
qed

lemma run_settles: "main_handle 2 env conf = line_mw env (head_mw env (after_head env conf))"
proof -
  have "vhost_mw env (main_handle (Suc 0) env) (chain_run (main_step env (main_handle (Suc 0) env)) (drop 3 (buildRoute conf))) =
      after_head env conf"
    by (rule ext) (rule vhost_settles)
  moreover have "main_handle 2 env conf = main_run env (main_handle (Suc 0) env) (buildRoute conf)"
    by (rule ext) (simp add: numeral_2_eq_2)
  ultimately show ?thesis by (simp only: run_route)
qed

section \<open>Limits, once and again\<close>

definition body_limit :: "PipelineContext \<Rightarrow> Location \<Rightarrow> size_t" where
  "body_limit ctx loc =
     (if loc_hasMaxRequestBodySize loc then loc_maxRequestBodySize loc else cfg_maxRequestBodySize (cx_conf ctx))"

definition limited :: "Location \<Rightarrow> PipelineContext \<Rightarrow> PipelineContext" where
  "limited loc ctx =
     ctx\<lparr>cx_req := (cx_req ctx)\<lparr>rq_maxBodySize := body_limit ctx loc\<rparr>,
         cx_parser := (cx_parser ctx)\<lparr>rp_bodyParser :=
           setChunkedTimeoutSec (loc_chunkedTimeoutSec loc) (rp_bodyParser (cx_parser ctx))\<rparr>\<rparr>"

definition admitted :: "Location \<Rightarrow> PipelineContext \<Rightarrow> bool" where
  "admitted loc ctx \<longleftrightarrow>
     getLocation (cx_conf ctx) (rq_path (cx_req ctx)) = Inr loc \<and>
     rp_lastHeaderBytes (cx_parser ctx) \<le> unat (cfg_maxRequestHeaderSize (cx_conf ctx)) \<and>
     (rq_hasHeader (cx_req ctx) ''Content-Length'' \<longrightarrow>
        (\<exists>n. decStrToSize (rq_getHeader (cx_req ctx) ''Content-Length'') = Some n \<and> n \<le> body_limit ctx loc))"

lemma limited_headers [simp]:
  "rq_hasHeader (cx_req (limited loc ctx)) k = rq_hasHeader (cx_req ctx) k"
  "rq_getHeader (cx_req (limited loc ctx)) k = rq_getHeader (cx_req ctx) k"
  by (simp_all add: limited_def rq_hasHeader_def rq_getHeader_def)

lemma limits_admitted:
  assumes "\<not> head_pending ctx" "admitted loc ctx"
  shows "limits_mw env next (ctx, w) = next (limited loc ctx, w)"
  using assms limited_headers [of loc ctx]
  by (auto simp: limits_mw_def admitted_def Let_def limited_def body_limit_def split: option.splits)

text \<open>An answer that the pipeline has given, as \<open>HttpConnection\<close> sees it.\<close>

abbreviation answered :: "state \<Rightarrow> bool" where
  "answered s \<equiv> has_answer (fst s)"

lemma fail_answers: "err \<noteq> 0 \<Longrightarrow> fail_with env err s = Some (e, s') \<Longrightarrow> answered s'"
  by (auto simp: fail_with_def setError_def has_answer_def dest: error_mw_ends)

lemma limits_refused:
  assumes "\<not> head_pending ctx" "\<nexists>loc. admitted loc ctx" "limits_mw env next (ctx, w) = Some (None, s')"
  shows "answered s'"
proof (cases "getLocation (cx_conf ctx) (rq_path (cx_req ctx))")
  case (Inl e)
  then show ?thesis using assms by (simp add: limits_mw_def)
next
  case (Inr loc)
  then show ?thesis
    using assms(2,3) limited_headers [of loc ctx] fail_answers [of 431 env] fail_answers [of 400 env] fail_answers [of 413 env]
    by (auto simp: assms(1) limits_mw_def Inr admitted_def Let_def limited_def body_limit_def
        split: option.splits if_splits)
qed

text \<open>A context that has been settled and limited is settled and limited again, with the same
  result, while its body is being read.\<close>

lemma settle_settled:
  assumes "cl_activeVhost (cx_ownerClient X) = vhost_of env X" "cx_conf X = en_vhosts env ! vhost_of env X"
    and "rs_serverName (cx_res X) = httpServerName appInfo" "rs_version (cx_res X) = httpProtocolVersion appInfo"
  shows "settle env X = X\<lparr>cx_req := (cx_req X)\<lparr>rq_maxBodySize := cfg_maxRequestBodySize (cx_conf X)\<rparr>\<rparr>"
proof -
  have "(cx_ownerClient X)\<lparr>cl_activeVhost := vhost_of env X\<rparr> = cx_ownerClient X" using assms(1) by simp
  moreover have "(cx_res X)\<lparr>rs_serverName := httpServerName appInfo, rs_version := httpProtocolVersion appInfo\<rparr> = cx_res X"
    using assms(3,4) by simp
  ultimately show ?thesis unfolding settle_def setConfig_def assms(2) [symmetric] by (simp add: assms(2))
qed

lemma again:
  assumes "X = (limited loc (settle env ctx))\<lparr>cx_req := r, cx_recvBuffer := z, cx_parser := p\<rparr>"
    and "r = (cx_req (limited loc (settle env ctx)))\<lparr>rq_body := d\<rparr>"
    and "p = (cx_parser (limited loc (settle env ctx)))\<lparr>rp_errorCode := e, rp_bodyParser := bp\<rparr>"
    and "bp_chunkedTimeoutSec bp = loc_chunkedTimeoutSec loc" "admitted loc (settle env ctx)"
  shows "vhost_of env X = vhost_of env ctx" "cl_activeVhost (cx_ownerClient X) = vhost_of env ctx"
    "admitted loc (settle env X)" "limited loc (settle env X) = X"
proof -
  have hdr: "rq_headers (cx_req X) = rq_headers (cx_req ctx)" "cl_listenKey (cx_ownerClient X) = cl_listenKey (cx_ownerClient ctx)"
    and a: "cl_activeVhost (cx_ownerClient X) = vhost_of env ctx"
    unfolding assms(1-3) by (simp_all add: limited_def settle_def setConfig_def)
  then show "cl_activeVhost (cx_ownerClient X) = vhost_of env ctx" by simp
  show v: "vhost_of env X = vhost_of env ctx"
    using hdr a by (simp add: vhost_of_def rq_getHeader_def split: option.splits)
  have st: "settle env X = X\<lparr>cx_req := (cx_req X)\<lparr>rq_maxBodySize := cfg_maxRequestBodySize (cx_conf X)\<rparr>\<rparr>"
    by (rule settle_settled, unfold v) (simp_all add: assms(1) limited_def settle_def setConfig_def)
  have c: "cx_conf X = cx_conf (settle env ctx)" "rq_path (cx_req X) = rq_path (cx_req (settle env ctx))"
    "rq_headers (cx_req X) = rq_headers (cx_req (settle env ctx))"
    "rp_lastHeaderBytes (cx_parser X) = rp_lastHeaderBytes (cx_parser (settle env ctx))"
    unfolding assms(1-3) by (simp_all add: limited_def)
  have "body_limit (X\<lparr>cx_req := q\<rparr>) loc = body_limit (settle env ctx) loc" for q
    by (simp add: body_limit_def c)
  then show "admitted loc (settle env X)"
    unfolding st using assms(5) by (simp add: admitted_def c rq_hasHeader_def rq_getHeader_def)
  have t: "setChunkedTimeoutSec (loc_chunkedTimeoutSec loc) bp = bp"
    using assms(4) by (cases bp) (simp add: setChunkedTimeoutSec_def)
  show "limited loc (settle env X) = X"
    unfolding st unfolding limited_def [of loc "X\<lparr>cx_req := _\<rparr>"] using c(1) t unfolding assms(1-3)
    by (simp add: limited_def body_limit_def)
qed

section \<open>Two reads of a body\<close>

definition add_bytes :: "string \<Rightarrow> state \<Rightarrow> state" where
  "add_bytes bytes s = ((fst s)\<lparr>cx_recvBuffer := cx_recvBuffer (fst s) @ bytes\<rparr>, snd s)"

text \<open>Where reading a body fails there is an error code.\<close>

lemma pass_error_code: "chunk_pass err s = Stop PARSE_ERROR e s' \<Longrightarrow> e \<noteq> 0"
  by (cases s) (auto simp: chunk_pass_def andThen_def size_stage_def data_stage_def crlf_stage_def
      Let_def split: outcome.splits option.splits if_splits)

lemma loop_error_code: "chunk_loop clk i err (x, bp, req) = Stop PARSE_ERROR e s \<Longrightarrow> e \<noteq> 0"
proof (induction clk i err "(x, bp, req)" arbitrary: x bp req rule: chunk_loop.induct)
  case (1 clk i err x bp req)
  show ?case
    using 1 pass_error_code [of err "(x, bp, req)" e s]
    by (subst (asm) (2) chunk_loop.simps) (auto split: if_splits outcome.splits)
qed

lemma core_error_code: "body_core clk err (x, bp, req) = Stop PARSE_ERROR e s \<Longrightarrow> e \<noteq> 0"
  using loop_error_code [of clk 1 err x bp req e s]
  by (auto simp: body_core_def parseIdentity_def Let_def split: if_splits)

text \<open>The outcome of reading the body, when it is neither an error nor complete.\<close>

lemma parseBody_incomplete:
  assumes "parseBody clk rp req buffer = Inr (PARSE_INCOMPLETE, rp1, req1, rest)" "rp_state rp = STATE_BODY"
  shows "\<exists>e bp1. parse_body clk (rp_errorCode rp) (buffer, rp_bodyParser rp, req) = Stop PARSE_INCOMPLETE e (rest, bp1, req1) \<and>
    rp1 = rp\<lparr>rp_errorCode := e, rp_bodyParser := bp1\<rparr>"
  using assms parse_body_not_Next [of clk "rp_errorCode rp" buffer "rp_bodyParser rp" req]
  by (auto simp: parseBody_def Let_def split: outcome.splits prod.splits if_splits)

lemma parse_error_code:
  "parse_body clk 0 (x, bp, req) = Stop PARSE_ERROR e s \<Longrightarrow> e \<noteq> 0"
  using parse_body_ready [of bp clk 0 x req] parse_body_init [of bp req 0 _ _ clk x] core_error_code [of clk 0 x _ req e s]
  by (cases "bp_state bp = UNINITIALIZED"; cases "init_body req 0 bp") (auto split: if_splits)

lemma parseBody_error:
  "parseBody clk rp req buffer = Inr (PARSE_ERROR, rp1, req1, rest) \<Longrightarrow> rp_state rp = STATE_BODY \<Longrightarrow> rp_errorCode rp = 0 \<Longrightarrow>
     rp_errorCode rp1 \<noteq> 0"
  using parse_error_code [of clk buffer "rp_bodyParser rp" req] parse_body_not_Next [of clk 0 buffer "rp_bodyParser rp" req]
  by (auto simp: parseBody_def Let_def split: outcome.splits prod.splits if_splits)

text \<open>A middleware that goes on only with a complete request leaves it answered.\<close>

lemma complete_answered: "complete_ctx s \<Longrightarrow> answered s"
  by (simp add: complete_ctx_def has_answer_def isComplete_def)

lemma answer_run_complete:
  assumes "complete_ctx s"
  shows "ends_with complete_ctx (answer_run env c s)"
proof -
  have err: "ends_with complete_ctx (error_mw env s')" if "complete_ctx s'" for s'
    using answer_stages(4) [of returned s' env] that by simp
  have router: "ends_with complete_ctx (router_mw env rs (error_mw env) s')" if "complete_ctx s'" for s' rs
    by (rule answer_stages(3) [OF err that])
  have conn: "ends_with complete_ctx (connection_mw env (router_mw env rs (error_mw env)) s')" if "complete_ctx s'" for s' rs
    by (rule answer_stages(2) [OF router that])
  have "ends_with complete_ctx (redirect_mw env (connection_mw env (router_mw env rs (error_mw env))) s)" for rs
    by (rule answer_stages(1) [OF conn assms])
  then show ?thesis
    by (simp add: answer_run_def buildRoute_def main_step_fun chain_run_Cons)
qed

lemma body_unanswered:
  assumes "body_mw env (answer_run env c) (ctx, w) = Some (None, s')" "\<not> answered s'" "rp_errorCode (cx_parser ctx) = 0"
    "\<not> head_pending ctx"
  shows "\<exists>rp req rest. rp_state (cx_parser ctx) = STATE_BODY \<and>
    parseBody (en_body_clock env) (cx_parser ctx) (cx_req ctx) (cx_recvBuffer ctx) = Inr (PARSE_INCOMPLETE, rp, req, rest) \<and>
    s' = (take_phase (rp, req, rest) ctx, w)"
proof -
  let ?parse = "parseBody (en_body_clock env) (cx_parser ctx) (cx_req ctx) (cx_recvBuffer ctx)"
  have done_: "answered s'" if "complete_ctx s''" "answer_run env c s'' = Some (None, s')" for s''
    using answer_run_complete [OF that(1), of env c] that(2) complete_answered by simp
  have st: "rp_state (cx_parser ctx) = STATE_BODY"
  proof (rule ccontr)
    assume "rp_state (cx_parser ctx) \<noteq> STATE_BODY"
    then show False
      using assms done_ [of "(ctx, w)"]
      by (cases "rp_state (cx_parser ctx)") (auto simp: body_mw_def head_pending_def complete_ctx_def)
  qed
  obtain r rp req rest where p: "?parse = Inr (r, rp, req, rest)"
    using assms(1) st by (cases ?parse) (auto simp: body_mw_def)
  let ?s1 = "(take_phase (rp, req, rest) ctx, w)"
  show ?thesis
  proof (cases r)
    case PARSE_INCOMPLETE
    then show ?thesis using assms(1) st p by (simp add: body_mw_def Let_def)
  next
    case PARSE_ERROR
    then have "fail_with env (rp_errorCode rp) ?s1 = Some (None, s')"
      using assms(1) st p by (simp add: body_mw_def Let_def take_phase_def)
    moreover have "rp_errorCode rp \<noteq> 0" using parseBody_error p PARSE_ERROR st assms(3) by blast
    ultimately show ?thesis using fail_answers assms(2) by blast
  next
    case PARSE_COMPLETE
    then have "rp_state rp = STATE_COMPLETE" using p parseBody_complete by blast
    then have "complete_ctx ?s1" by (simp add: complete_ctx_def take_phase_def)
    then have "answer_run env c ?s1 \<noteq> Some (None, s')" using done_ assms(2) by blast
    then obtain err where "body_check (fst ?s1) = Some err" "fail_with env err ?s1 = Some (None, s')"
      using assms(1) st p PARSE_COMPLETE by (auto simp: body_mw_def Let_def split: option.splits)
    moreover have "err \<noteq> 0"
      using \<open>body_check (fst ?s1) = Some err\<close> by (auto simp: body_check_def Let_def split: if_splits option.splits)
    ultimately show ?thesis using fail_answers assms(2) by blast
  qed
qed

text \<open>The body parser never sees the bytes that a fixed context holds apart from its buffer.\<close>

lemma vhost_buffer: "vhost_of env (ctx\<lparr>cx_recvBuffer := b\<rparr>) = vhost_of env ctx"
  by (simp add: vhost_of_def split: option.splits)

lemma settle_buffer: "settle env (ctx\<lparr>cx_recvBuffer := b\<rparr>) = (settle env ctx)\<lparr>cx_recvBuffer := b\<rparr>"
  unfolding settle_def vhost_buffer by (cases ctx) (simp add: setConfig_def)

lemma limited_buffer:
  "limited loc (ctx\<lparr>cx_recvBuffer := b\<rparr>) = (limited loc ctx)\<lparr>cx_recvBuffer := b\<rparr>"
  "admitted loc (ctx\<lparr>cx_recvBuffer := b\<rparr>) \<longleftrightarrow> admitted loc ctx"
  by (cases ctx; simp add: limited_def admitted_def body_limit_def)+

lemma head_pending_simps [simp]:
  "head_pending (settle env ctx) \<longleftrightarrow> head_pending ctx"
  "head_pending (limited loc ctx) \<longleftrightarrow> head_pending ctx"
  "head_pending (ctx\<lparr>cx_recvBuffer := b\<rparr>) \<longleftrightarrow> head_pending ctx"
  by (simp_all add: head_pending_def settle_def setConfig_def limited_def)

text \<open>Reading a body in two parts, as the middleware does.\<close>

lemma body_mw_split:
  assumes "body_mw env1 (answer_run env1 c1) (ctx, w) = Some (None, s1)" "\<not> answered s1"
    and "rp_errorCode (cx_parser ctx) = 0" "\<not> head_pending ctx" "body_ok (rp_bodyParser (cx_parser ctx))"
    and "en_body_clock env1 = (\<lambda>_. t1)" "en_body_clock env = (\<lambda>_. t)" "b \<noteq> []"
  shows "\<exists>bp d rest. s1 = (ctx\<lparr>cx_req := (cx_req ctx)\<lparr>rq_body := d\<rparr>, cx_recvBuffer := rest,
        cx_parser := (cx_parser ctx)\<lparr>rp_errorCode := 0, rp_bodyParser := bp\<rparr>\<rparr>, w) \<and>
      bp_chunkedTimeoutSec bp = bp_chunkedTimeoutSec (rp_bodyParser (cx_parser ctx)) \<and> body_ok bp \<and>
      rp_state (cx_parser ctx) = STATE_BODY \<and>
      same_result (body_mw env cont (add_bytes b (ctx, w))) (body_mw env cont (add_bytes b s1))"
proof -
  let ?rp = "cx_parser ctx" and ?buf = "cx_recvBuffer ctx"
  obtain rp req rest where st: "rp_state ?rp = STATE_BODY"
    and p: "parseBody (\<lambda>_. t1) ?rp (cx_req ctx) ?buf = Inr (PARSE_INCOMPLETE, rp, req, rest)"
    and s1: "s1 = (take_phase (rp, req, rest) ctx, w)"
    using body_unanswered [OF assms(1-4)] assms(6) by auto
  obtain e bp where pb: "parse_body (\<lambda>_. t1) 0 (?buf, rp_bodyParser ?rp, cx_req ctx) = Stop PARSE_INCOMPLETE e (rest, bp, req)"
    and rp: "rp = ?rp\<lparr>rp_errorCode := e, rp_bodyParser := bp\<rparr>"
    using parseBody_incomplete [OF p st] assms(3) by auto
  from body_split_kept [OF pb assms(5,8), of t] obtain d where k: "e = 0" "body_ok bp"
    "bp_chunkedTimeoutSec bp = bp_chunkedTimeoutSec (rp_bodyParser ?rp)" "req = (cx_req ctx)\<lparr>rq_body := d\<rparr>"
    and same: "parse_body (\<lambda>_. t) 0 (?buf @ b, rp_bodyParser ?rp, cx_req ctx) = parse_body (\<lambda>_. t) 0 (rest @ b, bp, req)"
    by auto
  have s1': "s1 = (ctx\<lparr>cx_req := (cx_req ctx)\<lparr>rq_body := d\<rparr>, cx_recvBuffer := rest,
        cx_parser := ?rp\<lparr>rp_errorCode := 0, rp_bodyParser := bp\<rparr>\<rparr>, w)"
    by (simp add: s1 take_phase_def rp k(1,4))
  let ?joint = "parse_body (\<lambda>_. t) 0 (?buf @ b, rp_bodyParser ?rp, cx_req ctx)"
  have "same_result (body_mw env cont (add_bytes b (ctx, w))) (body_mw env cont (add_bytes b s1))"
  proof (cases ?joint)
    case (Next s)
    then show ?thesis using parse_body_not_Next by blast
  next
    case (Throw x)
    then show ?thesis
      using st assms(3) same by (simp add: s1' add_bytes_def body_mw_def parseBody_def assms(7) k(4))
  next
    case (Stop r e' s')
    obtain rest' bp' req' where s': "s' = (rest', bp', req')" by (cases s')
    let ?X = "ctx\<lparr>cx_parser := ?rp\<lparr>rp_errorCode := e', rp_bodyParser := bp'\<rparr>, cx_req := req'\<rparr>"
    let ?body = "\<lambda>s buf. body_mw env cont s =
        (if r = PARSE_ERROR then fail_with env e' (?X\<lparr>cx_recvBuffer := buf\<rparr>, w)
         else if r = PARSE_INCOMPLETE then returned (?X\<lparr>cx_recvBuffer := rest'\<rparr>, w)
         else
           (let X' = ?X\<lparr>cx_parser := (cx_parser ?X)\<lparr>rp_state := STATE_COMPLETE\<rparr>, cx_recvBuffer := rest'\<rparr>
            in case body_check X' of Some err \<Rightarrow> fail_with env err (X', w) | None \<Rightarrow> cont (X', w)))"
    have "?body (add_bytes b (ctx, w)) (?buf @ b)"
      using st assms(3) Stop s'
      by (cases ctx; cases r)
        (simp_all add: add_bytes_def body_mw_def parseBody_def assms(7) take_phase_def Let_def split: option.splits)
    moreover have "?body (add_bytes b s1) (rest @ b)"
      using st assms(3) Stop [unfolded same k(4)] s' unfolding s1'
      by (cases ctx; cases r)
        (simp_all add: add_bytes_def body_mw_def parseBody_def assms(7) take_phase_def Let_def split: option.splits)
    ultimately show ?thesis
      using same_result_buffer [of env e' "?buf @ b" ?X w "rest @ b"] by (simp split del: if_split) simp
  qed
  then show ?thesis using s1' k st by blast
qed

section \<open>Two reads of a request\<close>

text \<open>What \<open>HttpConnection\<close> runs on the bytes it has received.\<close>

definition run_request :: "Env \<Rightarrow> continuation" where
  "run_request env s = main_handle 2 env (en_vhosts env ! cl_activeVhost (cx_ownerClient (fst s))) s"

lemma run_request_eq:
  "run_request env s = line_mw env (head_mw env (after_head env (en_vhosts env ! cl_activeVhost (cx_ownerClient (fst s))))) s"
  by (simp add: run_request_def run_settles)

lemma body_timeouts:
  assumes "\<And>c l. c \<in> set (en_vhosts env) \<Longrightarrow> l \<in> snd ` set (cfg_locations c) \<Longrightarrow> 0 \<le> sint (loc_chunkedTimeoutSec l)"
    and "cl_activeVhost (cx_ownerClient ctx) < length (en_vhosts env)" "admitted loc (settle env ctx)"
  shows "0 \<le> sint (loc_chunkedTimeoutSec loc)"
proof -
  have "vhost_of env ctx < length (en_vhosts env)"
    using assms(2) find_vhost_bound by (auto simp: vhost_of_def split: option.splits)
  moreover have "getLocation (en_vhosts env ! vhost_of env ctx) (rq_path (cx_req ctx)) = Inr loc"
    using assms(3) by (simp add: admitted_def settle_def setConfig_def)
  then have "loc \<in> snd ` set (cfg_locations (en_vhosts env ! vhost_of env ctx))"
    by (force simp: getLocation_chosen split: option.splits dest: map_of_SomeD)
  ultimately show ?thesis using assms(1) nth_mem by blast
qed

text \<open>A connection between two reads of the same request.\<close>

definition between_reads :: "PipelineContext \<Rightarrow> bool" where
  "between_reads ctx \<longleftrightarrow> rp_errorCode (cx_parser ctx) = 0 \<and>
     (bp_state (rp_bodyParser (cx_parser ctx)) = IDENTITY \<longrightarrow> bp_contentLengthRemaining (rp_bodyParser (cx_parser ctx)) \<noteq> 0)"

definition sound_timeouts :: "Env \<Rightarrow> bool" where
  "sound_timeouts env \<longleftrightarrow>
     (\<forall>c \<in> set (en_vhosts env). \<forall>l \<in> snd ` set (cfg_locations c). 0 \<le> sint (loc_chunkedTimeoutSec l))"

lemma after_head_split:
  assumes "after_head env1 (en_vhosts env ! cl_activeVhost (cx_ownerClient ctx)) (ctx, w) = Some (None, s1)" "\<not> answered s1"
    and "between_reads ctx" "\<not> head_pending ctx"
    and "en_vhosts env1 = en_vhosts env" "en_body_clock env1 = (\<lambda>_. t1)" "en_body_clock env = (\<lambda>_. t)" "b \<noteq> []"
    and "sound_timeouts env" "cl_activeVhost (cx_ownerClient ctx) < length (en_vhosts env)"
  shows "between_reads (fst s1) \<and> rp_state (cx_parser (fst s1)) = STATE_BODY \<and>
    cl_activeVhost (cx_ownerClient (fst s1)) < length (en_vhosts env) \<and>
    same_result (after_head env (en_vhosts env ! cl_activeVhost (cx_ownerClient ctx)) (add_bytes b (ctx, w)))
      (run_request env (add_bytes b s1))"
proof -
  let ?conf = "en_vhosts env ! cl_activeVhost (cx_ownerClient ctx)"
  let ?c = "en_vhosts env ! vhost_of env ctx"
  have v1: "vhost_of env1 ctx = vhost_of env ctx" "settle env1 ctx = settle env ctx"
    by (simp_all add: vhost_of_def settle_def assms(5))
  have conf: "(if vhost_of env ctx = cl_activeVhost (cx_ownerClient ctx) then ?conf else ?c) = ?c" by simp
  have run: "limits_mw env1 (body_mw env1 (answer_run env1 ?c)) (settle env ctx, w) = Some (None, s1)"
    using assms(1,4) unfolding after_head_def prod.case Let_def v1 assms(5) conf by simp
  then obtain loc where loc: "admitted loc (settle env ctx)"
    using limits_refused [of "settle env ctx", OF _ _ run] assms(2,4) by auto
  let ?L = "limited loc (settle env ctx)"
  have body: "body_mw env1 (answer_run env1 ?c) (?L, w) = Some (None, s1)"
    using run loc assms(4) by (simp add: limits_admitted)
  have p: "cx_parser ?L = (cx_parser ctx)\<lparr>rp_bodyParser := setChunkedTimeoutSec (loc_chunkedTimeoutSec loc) (rp_bodyParser (cx_parser ctx))\<rparr>"
    by (simp add: limited_def settle_def setConfig_def)
  have "0 \<le> sint (loc_chunkedTimeoutSec loc)"
    using body_timeouts [OF _ assms(10) loc] assms(9) by (auto simp: sound_timeouts_def)
  then have ok: "rp_errorCode (cx_parser ?L) = 0" "body_ok (rp_bodyParser (cx_parser ?L))"
    using assms(3) by (simp_all add: p between_reads_def body_ok_def setChunkedTimeoutSec_def)
  have "\<not> head_pending ?L" using assms(4) by simp
  from body_mw_split [OF body assms(2) ok(1) this ok(2) assms(6-8), where cont = "answer_run env ?c"]
  obtain bp d rest where s1: "s1 = (?L\<lparr>cx_req := (cx_req ?L)\<lparr>rq_body := d\<rparr>, cx_recvBuffer := rest,
        cx_parser := (cx_parser ?L)\<lparr>rp_errorCode := 0, rp_bodyParser := bp\<rparr>\<rparr>, w)"
    and bp: "bp_chunkedTimeoutSec bp = loc_chunkedTimeoutSec loc" "body_ok bp"
    and st: "rp_state (cx_parser ?L) = STATE_BODY"
    and same: "same_result (body_mw env (answer_run env ?c) (add_bytes b (?L, w))) (body_mw env (answer_run env ?c) (add_bytes b s1))"
    by (auto simp: p setChunkedTimeoutSec_def)
  obtain X where X: "add_bytes b s1 = (X, w)"
    "X = ?L\<lparr>cx_req := (cx_req ?L)\<lparr>rq_body := d\<rparr>, cx_recvBuffer := rest @ b,
        cx_parser := (cx_parser ?L)\<lparr>rp_errorCode := 0, rp_bodyParser := bp\<rparr>\<rparr>"
    using s1 by (cases ?L) (simp add: add_bytes_def)
  note X_again = again [OF X(2) refl refl bp(1) loc]
  have X_st: "rp_state (cx_parser X) = STATE_BODY" using st by (simp add: X(2))
  then have "\<not> head_pending X" by (simp add: head_pending_def)
  then have "run_request env (add_bytes b s1) = body_mw env (answer_run env ?c) (X, w)"
    using X_again X_st
    by (simp add: X(1) run_request_eq line_mw_def head_mw_def after_head_def limits_admitted)
  moreover have "after_head env ?conf (add_bytes b (ctx, w)) = body_mw env (answer_run env ?c) (add_bytes b (?L, w))"
  proof -
    have b: "cx_recvBuffer ?L = cx_recvBuffer ctx" by (simp add: limited_def settle_def setConfig_def)
    have "cl_activeVhost (cx_ownerClient (ctx\<lparr>cx_recvBuffer := z\<rparr>)) = cl_activeVhost (cx_ownerClient ctx)" for z by simp
    then show ?thesis
      using assms(4) loc conf
      by (simp add: add_bytes_def after_head_def settle_buffer vhost_buffer limits_admitted limited_buffer b)
  qed
  ultimately have "same_result (after_head env ?conf (add_bytes b (ctx, w))) (run_request env (add_bytes b s1))"
    using same X(1) by simp
  moreover have "between_reads (fst s1)" "cl_activeVhost (cx_ownerClient (fst s1)) < length (en_vhosts env)"
  proof -
    have f: "cx_parser (fst s1) = (cx_parser ?L)\<lparr>rp_errorCode := 0, rp_bodyParser := bp\<rparr>"
      "cx_ownerClient (fst s1) = cx_ownerClient X" using s1 by (simp_all add: X(2))
    show "between_reads (fst s1)"
      using f(1) bp(2) st by (simp add: between_reads_def body_ok_def)
    have "vhost_of env ctx < length (en_vhosts env)"
      using assms(10) find_vhost_bound by (auto simp: vhost_of_def split: option.splits)
    then show "cl_activeVhost (cx_ownerClient (fst s1)) < length (en_vhosts env)" using f(2) X_again(2) by simp
  qed
  ultimately show ?thesis using s1 st by simp
qed

text \<open>The two phases before: what they take of the first part they take of the whole.\<close>

lemma head_error_code: "parse_head req block = (req1, Some e) \<Longrightarrow> e = 400"
proof -
  have "head_loop ls req = (req1, Some e) \<Longrightarrow> e = 400" for ls
    by (induction ls arbitrary: req)
      (auto simp: parse_head_line_def Let_def split: if_splits option.splits prod.splits)
  then show "parse_head req block = (req1, Some e) \<Longrightarrow> e = 400" by (simp add: parse_head_def)
qed

lemma parseHeaders_error: "parseHeaders rp req buf = (PARSE_ERROR, rp1, req1, rest) \<Longrightarrow> rp_errorCode rp1 \<noteq> 0"
  by (auto simp: parseHeaders_def Let_def dest: head_error_code split: if_splits option.splits prod.splits)

lemma str_find_within: "str_find t pat 0 = Some i \<Longrightarrow> i + length pat \<le> length t"
  using str_find_Some [of t pat 0 i] by simp

lemma parseHeaders_append:
  assumes "parseHeaders rp req buf = (PARSE_COMPLETE, rp1, req1, rest)"
  shows "parseHeaders rp req (buf @ b) = (PARSE_COMPLETE, rp1, req1, rest @ b)"
    and "rp_state rp1 \<in> {STATE_BODY, STATE_COMPLETE}" "rp_errorCode rp1 = rp_errorCode rp"
    and "rp_bodyParser rp1 = rp_bodyParser rp"
proof -
  obtain i where i: "str_find buf (crlf @ crlf) 0 = Some i"
    using assms by (auto simp: parseHeaders_def split: if_splits option.splits)
  have "i + 4 \<le> length buf" using str_find_within [OF i] by simp
  then show "parseHeaders rp req (buf @ b) = (PARSE_COMPLETE, rp1, req1, rest @ b)"
    "rp_state rp1 \<in> {STATE_BODY, STATE_COMPLETE}" "rp_errorCode rp1 = rp_errorCode rp"
    "rp_bodyParser rp1 = rp_bodyParser rp"
    using assms i str_find_append [OF i, of b]
    by (auto simp: parseHeaders_def Let_def split: if_splits option.splits prod.splits)
qed

lemma head_mw_split:
  assumes "head_mw env1 (after_head env1 conf) (ctx, w) = Some (None, s1)" "\<not> answered s1"
    and "conf = en_vhosts env ! cl_activeVhost (cx_ownerClient ctx)"
    and "between_reads ctx" "rp_state (cx_parser ctx) \<noteq> STATE_REQUEST_LINE"
    and "en_vhosts env1 = en_vhosts env" "en_body_clock env1 = (\<lambda>_. t1)" "en_body_clock env = (\<lambda>_. t)" "b \<noteq> []"
    and "sound_timeouts env" "cl_activeVhost (cx_ownerClient ctx) < length (en_vhosts env)"
  shows "between_reads (fst s1) \<and> rp_state (cx_parser (fst s1)) \<noteq> STATE_REQUEST_LINE \<and>
    cl_activeVhost (cx_ownerClient (fst s1)) < length (en_vhosts env) \<and>
    same_result (head_mw env (after_head env conf) (add_bytes b (ctx, w))) (run_request env (add_bytes b s1))"
proof (cases "rp_state (cx_parser ctx) = STATE_HEADERS")
  case False
  then have np: "\<not> head_pending ctx" using assms(5) by (simp add: head_pending_def)
  have run: "after_head env1 (en_vhosts env ! cl_activeVhost (cx_ownerClient ctx)) (ctx, w) = Some (None, s1)"
    using assms(1,3) False by (simp add: head_mw_def)
  from after_head_split [OF run assms(2,4) np assms(6-11)] False show ?thesis
    by (simp add: head_mw_def add_bytes_def assms(3))
next
  case True
  let ?rp = "cx_parser ctx" and ?buf = "cx_recvBuffer ctx"
  obtain r rp req rest where p: "parseHeaders ?rp (cx_req ctx) ?buf = (r, rp, req, rest)" by (metis prod_cases4)
  let ?s = "(take_phase (rp, req, rest) ctx, w)"
  have code: "rp_errorCode ?rp = 0" using assms(4) by (simp add: between_reads_def)
  show ?thesis
  proof (cases r)
    case PARSE_INCOMPLETE
    then have "s1 = ?s" "rp = ?rp" "req = cx_req ctx" "rest = ?buf"
      using p True assms(1) by (auto simp: head_mw_def parseHeaders_def Let_def split: option.splits prod.splits if_splits)
    then have "s1 = (ctx, w)" by (simp add: take_phase_def)
    then show ?thesis
      using True assms(4,11) by (simp add: run_request_eq line_mw_def add_bytes_def assms(3))
  next
    case PARSE_ERROR
    then have "fail_with env1 (rp_errorCode rp) ?s = Some (None, s1)"
      using p True assms(1) by (simp add: head_mw_def take_phase_def Let_def)
    moreover have "rp_errorCode rp \<noteq> 0"
      using parseHeaders_error p PARSE_ERROR by blast
    ultimately show ?thesis using fail_answers assms(2) by blast
  next
    case PARSE_COMPLETE
    then have first: "after_head env1 conf ?s = Some (None, s1)"
      using p True assms(1) by (simp add: head_mw_def Let_def)
    have client: "cx_ownerClient (take_phase (rp, req, rest) ctx) = cx_ownerClient ctx" by (simp add: take_phase_def)
    have run: "after_head env1 (en_vhosts env ! cl_activeVhost (cx_ownerClient (fst ?s))) (fst ?s, w) = Some (None, s1)"
      unfolding fst_conv client assms(3) [symmetric] by (rule first)
    have all: "parseHeaders ?rp (cx_req ctx) (?buf @ b) = (PARSE_COMPLETE, rp, req, rest @ b)"
      and rp: "rp_state rp \<in> {STATE_BODY, STATE_COMPLETE}" "rp_errorCode rp = rp_errorCode ?rp"
        "rp_bodyParser rp = rp_bodyParser ?rp"
      by (rule parseHeaders_append [OF p [unfolded PARSE_COMPLETE]])+
    have ready: "between_reads (fst ?s)" "\<not> head_pending (fst ?s)"
      using rp assms(4) by (auto simp: take_phase_def between_reads_def head_pending_def)
    have "head_mw env (after_head env conf) (add_bytes b (ctx, w)) = after_head env conf (add_bytes b ?s)"
      using True all by (simp add: head_mw_def add_bytes_def take_phase_def Let_def)
    then show ?thesis
      using after_head_split [OF run assms(2) ready assms(6-10)] assms(3,11) client by simp
  qed
qed

text \<open>The line is the only phase that looks at how much has arrived altogether.\<close>

lemma parseRequestLine_append:
  assumes "parseRequestLine rp req buf = Inr (PARSE_COMPLETE, rp1, req1, rest)"
    and "length (buf @ b) \<le> unat (rp_maxHeaderBytes rp)"
  shows "parseRequestLine rp req (buf @ b) = Inr (PARSE_COMPLETE, rp1, req1, rest @ b)"
    and "rp1 = rp\<lparr>rp_state := STATE_HEADERS\<rparr>"
proof -
  obtain i where i: "str_find buf crlf 0 = Some i"
    using assms(1) by (auto simp: parseRequestLine_def split: if_splits option.splits)
  have "i + 2 \<le> length buf" using str_find_within [OF i] by simp
  then show "parseRequestLine rp req (buf @ b) = Inr (PARSE_COMPLETE, rp1, req1, rest @ b)"
    "rp1 = rp\<lparr>rp_state := STATE_HEADERS\<rparr>"
    using assms i str_find_append [OF i, of b]
    by (auto simp: parseRequestLine_def rbind_eq_Inr split: if_splits option.splits prod.splits)
qed

lemma line_error_code: "parse_line req line \<noteq> Inr (req1, Some 0)"
  by (auto simp: parse_line_def Let_def rbind_eq_Inr split: if_splits option.splits)

lemma parseRequestLine_error:
  "parseRequestLine rp req buf = Inr (PARSE_ERROR, rp1, req1, rest) \<Longrightarrow> rp_errorCode rp1 \<noteq> 0"
  by (auto simp: parseRequestLine_def rbind_eq_Inr line_error_code split: if_splits option.splits prod.splits)

lemma parseRequestLine_incomplete:
  "parseRequestLine rp req buf = Inr (PARSE_INCOMPLETE, rp1, req1, rest) \<Longrightarrow> rp1 = rp \<and> req1 = req \<and> rest = buf"
  by (auto simp: parseRequestLine_def rbind_eq_Inr split: if_splits option.splits prod.splits)

lemma two_reads:
  assumes "run_request env1 s = Some (None, s1)" "\<not> answered s1"
    and "between_reads (fst s)" "cl_activeVhost (cx_ownerClient (fst s)) < length (en_vhosts env)"
    and "rp_state (cx_parser (fst s)) = STATE_REQUEST_LINE \<Longrightarrow>
      length (cx_recvBuffer (fst s) @ b) \<le> unat (rp_maxHeaderBytes (cx_parser (fst s)))"
    and "en_vhosts env1 = en_vhosts env" "en_body_clock env1 = (\<lambda>_. t1)" "en_body_clock env = (\<lambda>_. t)" "b \<noteq> []"
    and "sound_timeouts env"
  shows "between_reads (fst s1) \<and> (rp_state (cx_parser (fst s1)) = STATE_REQUEST_LINE \<longrightarrow> s1 = s) \<and>
    cl_activeVhost (cx_ownerClient (fst s1)) < length (en_vhosts env) \<and>
    same_result (run_request env (add_bytes b s)) (run_request env (add_bytes b s1))"
proof -
  obtain ctx w where s: "s = (ctx, w)" by (cases s)
  let ?rp = "cx_parser ctx" and ?buf = "cx_recvBuffer ctx"
  let ?conf = "en_vhosts env ! cl_activeVhost (cx_ownerClient ctx)"
  have first: "line_mw env1 (head_mw env1 (after_head env1 ?conf)) (ctx, w) = Some (None, s1)"
    using assms(1,6) by (simp add: run_request_eq s)
  have joint: "run_request env (add_bytes b s) = line_mw env (head_mw env (after_head env ?conf)) (add_bytes b (ctx, w))"
    by (simp add: run_request_eq s add_bytes_def)
  show ?thesis
  proof (cases "rp_state ?rp = STATE_REQUEST_LINE")
    case False
    then have "head_mw env1 (after_head env1 ?conf) (ctx, w) = Some (None, s1)"
      using first by (simp add: line_mw_def)
    from head_mw_split [OF this assms(2) refl _ False assms(6-10)] assms(3,4) False joint
    show ?thesis by (simp add: s line_mw_def add_bytes_def)
  next
    case True
    obtain r rp req rest where p: "parseRequestLine ?rp (cx_req ctx) ?buf = Inr (r, rp, req, rest)"
      using first True by (cases "parseRequestLine ?rp (cx_req ctx) ?buf") (auto simp: line_mw_def)
    let ?s = "(take_phase (rp, req, rest) ctx, w)"
    show ?thesis
    proof (cases r)
      case PARSE_INCOMPLETE
      then have "s1 = ?s" using first True p by (simp add: line_mw_def Let_def)
      then have "s1 = s" using parseRequestLine_incomplete p PARSE_INCOMPLETE s by (auto simp: take_phase_def)
      then show ?thesis using assms(3,4) by simp
    next
      case PARSE_ERROR
      then have "fail_with env1 (rp_errorCode rp) ?s = Some (None, s1)"
        using p True first by (simp add: line_mw_def take_phase_def Let_def)
      moreover have "rp_errorCode rp \<noteq> 0" using parseRequestLine_error p PARSE_ERROR by blast
      ultimately show ?thesis using fail_answers assms(2) by blast
    next
      case PARSE_COMPLETE
      have "length (?buf @ b) \<le> unat (rp_maxHeaderBytes ?rp)" using assms(5) True by (simp add: s)
      note all = parseRequestLine_append [OF p [unfolded PARSE_COMPLETE] this]
      have run: "head_mw env1 (after_head env1 ?conf) (fst ?s, w) = Some (None, s1)"
        using first True p PARSE_COMPLETE by (simp add: line_mw_def Let_def)
      have c: "?conf = en_vhosts env ! cl_activeVhost (cx_ownerClient (fst ?s))"
        "cl_activeVhost (cx_ownerClient (fst ?s)) < length (en_vhosts env)"
        using assms(4) by (simp_all add: take_phase_def s)
      have ready: "between_reads (fst ?s)" "rp_state (cx_parser (fst ?s)) \<noteq> STATE_REQUEST_LINE"
        using assms(3) by (simp_all add: s all(2) take_phase_def between_reads_def)
      have "run_request env (add_bytes b s) = head_mw env (after_head env ?conf) (add_bytes b ?s)"
        using True all(1) joint by (simp add: line_mw_def add_bytes_def take_phase_def Let_def)
      then show ?thesis using head_mw_split [OF run assms(2) c(1) ready assms(6-10) c(2)] by simp
    qed
  qed
qed

text \<open>
  The reads of a request: each one comes with the system and the clock of its moment, and adds its
  bytes to what the earlier ones left.  They end with the first that is answered.
\<close>

primrec reads :: "(Env \<times> string) list \<Rightarrow> continuation" where
  "reads [] s = returned s"
| "reads (r # rs) s =
     (case run_request (fst r) (add_bytes (snd r) s) of
        Some (None, s1) \<Rightarrow> (if answered s1 then returned s1 else reads rs s1)
      | res \<Rightarrow> res)"

lemma same_result_trans: "same_result r1 r2 \<Longrightarrow> same_result r2 r3 \<Longrightarrow> same_result r1 r3"
  by (cases "(r1, r2)" rule: same_result.cases; cases "(r2, r3)" rule: same_result.cases) auto

lemma add_bytes_twice: "add_bytes b (add_bytes a s) = add_bytes (a @ b) s"
  by (simp add: add_bytes_def)

lemma add_bytes_fields [simp]:
  "cx_parser (fst (add_bytes b s)) = cx_parser (fst s)" "cx_ownerClient (fst (add_bytes b s)) = cx_ownerClient (fst s)"
  "between_reads (fst (add_bytes b s)) = between_reads (fst s)"
  "cx_recvBuffer (fst (add_bytes b s)) = cx_recvBuffer (fst s) @ b"
  by (simp_all add: add_bytes_def between_reads_def)

text \<open>Readings of the clock that do not move during one call, of the same servers.\<close>

definition of_servers :: "Config list \<Rightarrow> Env \<Rightarrow> bool" where
  "of_servers vhosts env \<longleftrightarrow> en_vhosts env = vhosts \<and> (\<exists>t. en_body_clock env = (\<lambda>_. t))"


text \<open>A request that is cut in the middle of the name of a header.\<close>

definition cut_head :: string where
  "cut_head = ''GET / HTTP/1.1'' @ crlf @ ''Ho''"

definition fresh_state :: state where
  "fresh_state = (new_PipelineContext 0 www_config 100 some_client, idle_world)"

definition after_cut :: state where
  "after_cut =
     ((new_PipelineContext 0 www_config 100 some_client)
        \<lparr>cx_recvBuffer := ''Ho'', cx_parser := (new_RequestParser 0 100)\<lparr>rp_state := STATE_HEADERS\<rparr>,
         cx_req := (new_HttpRequest www_config)\<lparr>rq_method := ''GET'', rq_version := ''HTTP/1.1'', rq_path := ''/''\<rparr>\<rparr>,
      idle_world)"

lemma first_cut: "run_request idle_env (add_bytes cut_head fresh_state) = returned after_cut"
proof -
  let ?req = "new_HttpRequest www_config"
  have "parse_line ?req ''GET / HTTP/1.1'' =
      Inr (?req\<lparr>rq_method := ''GET'', rq_version := ''HTTP/1.1'', rq_path := ''/''\<rparr>, None)"
    using parse_line_split [of "''GET''" "''/''" ?req "''HTTP/1.1''"] by (simp add: find_char_absent)
  then have line: "parseRequestLine (new_RequestParser 0 100) ?req cut_head =
      Inr (PARSE_COMPLETE, (new_RequestParser 0 100)\<lparr>rp_state := STATE_HEADERS\<rparr>,
        ?req\<lparr>rq_method := ''GET'', rq_version := ''HTTP/1.1'', rq_path := ''/''\<rparr>, ''Ho'')"
    unfolding cut_head_def by (intro parseRequestLine_complete) (simp_all add: new_RequestParser_def)
  have "str_find ''Ho'' (crlf @ crlf) 0 = None" by (simp add: str_find_def)
  then have head: "parseHeaders ((new_RequestParser 0 100)\<lparr>rp_state := STATE_HEADERS\<rparr>) req ''Ho'' =
      (PARSE_INCOMPLETE, (new_RequestParser 0 100)\<lparr>rp_state := STATE_HEADERS\<rparr>, req, ''Ho'')" for req
    by (simp add: parseHeaders_def new_RequestParser_def)
  have fields: "rp_state (new_RequestParser 0 100) = STATE_REQUEST_LINE" by (simp add: new_RequestParser_def)
  show ?thesis
    using line head fields
    by (simp add: run_request_eq fresh_state_def after_cut_def add_bytes_def new_PipelineContext_def
        line_mw_def head_mw_def take_phase_def Let_def)
qed


end
