(* ===== verification/Serving.thy ===== *)
theory Serving
  imports SplitReads
begin

text \<open>
  One request from its bytes to its answer: the phases of the parser, the selection of the server,
  the limits, the route of its location and the handler put together, up to the send buffer of the connection.
\<close>

section \<open>A request as it is sent\<close>

definition request_text :: "string \<Rightarrow> string \<Rightarrow> (string \<times> string) list \<Rightarrow> string" where
  "request_text m p hs =
     (m @ CHR '' '' # p @ CHR '' '' # ''HTTP/1.1'') @ crlf @ concat (map (\<lambda>h. header_line h @ crlf) hs) @ crlf"

definition headers_of :: "(string \<times> string) list \<Rightarrow> headers" where
  "headers_of hs = fold (\<lambda>h. om_set (toLower (fst h)) [snd h]) hs []"

definition request_of :: "Config \<Rightarrow> string \<Rightarrow> string \<Rightarrow> (string \<times> string) list \<Rightarrow> HttpRequest" where
  "request_of c m p hs =
     (new_HttpRequest c)\<lparr>rq_method := m, rq_version := ''HTTP/1.1'', rq_path := p, rq_headers := headers_of hs\<rparr>"

definition head_size :: "(string \<times> string) list \<Rightarrow> nat" where
  "head_size hs = length (concat (map (\<lambda>h. header_line h @ crlf) hs)) + 2"

text \<open>A request without a body whose parts have no characters that end them.\<close>

definition bodyless :: "string \<Rightarrow> string \<Rightarrow> (string \<times> string) list \<Rightarrow> bool" where
  "bodyless m p hs \<longleftrightarrow>
     list_all (\<lambda>c. c \<noteq> CHR '' '' \<and> c \<noteq> CR) m \<and> list_all (\<lambda>c. c \<notin> {CHR '' '', CHR ''?'', CR}) p \<and>
     hs \<noteq> [] \<and> list_all header_plain hs \<and> distinct (map (\<lambda>h. toLower (fst h)) hs) \<and>
     \<not> has_key (headers_of hs) ''content-length'' \<and> \<not> has_key (headers_of hs) ''transfer-encoding''"

lemma lowered: "toLower ''Transfer-Encoding'' = ''transfer-encoding''" "toLower ''Content-Length'' = ''content-length''"
  "toLower ''connection'' = ''connection''" "toLower ''Host'' = ''host''"
  by code_simp+

definition read_context :: "Config \<Rightarrow> string \<Rightarrow> string \<Rightarrow> (string \<times> string) list \<Rightarrow> PipelineContext \<Rightarrow> PipelineContext" where
  "read_context c m p hs ctx =
     ctx\<lparr>cx_req := request_of c m p hs,
         cx_parser := (cx_parser ctx)\<lparr>rp_lastHeaderBytes := head_size hs, rp_state := STATE_COMPLETE\<rparr>,
         cx_recvBuffer := []\<rparr>"

lemma request_is_read:
  assumes "bodyless m p hs" "length (request_text m p hs) \<le> unat (rp_maxHeaderBytes (cx_parser ctx))"
    and "cx_req ctx = new_HttpRequest c" "rp_state (cx_parser ctx) = STATE_REQUEST_LINE" "cx_recvBuffer ctx = []"
  shows "run_request env (add_bytes (request_text m p hs) (ctx, w)) =
    after_head env (en_vhosts env ! cl_activeVhost (cx_ownerClient ctx)) (read_context c m p hs ctx, w)"
proof -
  let ?line = "m @ CHR '' '' # p @ CHR '' '' # ''HTTP/1.1''"
  let ?block = "concat (map (\<lambda>h. header_line h @ crlf) hs) @ crlf"
  let ?rp = "cx_parser ctx" and ?req = "new_HttpRequest c"
  let ?req1 = "?req\<lparr>rq_method := m, rq_version := ''HTTP/1.1'', rq_path := p\<rparr>"
  have chars: "CHR '' '' \<notin> set m" "CR \<notin> set m" "CHR '' '' \<notin> set p" "CHR ''?'' \<notin> set p" "CR \<notin> set p"
  proof -
    have "list_all (\<lambda>c. c \<noteq> CHR '' '' \<and> c \<noteq> CR) m" "list_all (\<lambda>c. c \<notin> {CHR '' '', CHR ''?'', CR}) p"
      using assms(1) unfolding bodyless_def by blast+
    then show "CHR '' '' \<notin> set m" "CR \<notin> set m" "CHR '' '' \<notin> set p" "CHR ''?'' \<notin> set p" "CR \<notin> set p"
      unfolding list_all_iff by blast+
  qed
  have "parse_line ?req ?line = Inr (?req1, None)"
    unfolding parse_line_split [OF chars(1,3)] find_char_absent [OF chars(4)] Let_def by simp
  then have line: "parseRequestLine ?rp ?req (request_text m p hs) =
      Inr (PARSE_COMPLETE, ?rp\<lparr>rp_state := STATE_HEADERS\<rparr>, ?req1, ?block)"
    using assms(2,4) chars unfolding request_text_def
    by (intro parseRequestLine_complete) simp_all
  have req: "request_of c m p hs = ?req1\<lparr>rq_headers := fold (\<lambda>h. om_set (toLower (fst h)) [snd h]) hs []\<rparr>"
    by (simp add: request_of_def headers_of_def)
  have "\<not> rq_hasHeader (request_of c m p hs) ''Transfer-Encoding'' \<and> \<not> rq_hasHeader (request_of c m p hs) ''Content-Length''"
    using assms(1) by (simp add: bodyless_def rq_hasHeader_def lowered request_of_def)
  moreover have "rq_headers ?req1 = []" by (simp add: new_HttpRequest_def)
  ultimately have head: "parseHeaders (?rp\<lparr>rp_state := STATE_HEADERS\<rparr>) ?req1 ?block =
      (PARSE_COMPLETE, ?rp\<lparr>rp_lastHeaderBytes := head_size hs, rp_state := STATE_COMPLETE\<rparr>, request_of c m p hs, [])"
    using parseHeaders_block [OF _ _ _ _ _ req, of "?rp\<lparr>rp_state := STATE_HEADERS\<rparr>" "[]"] assms(1)
    by (simp add: bodyless_def head_size_def)
  show ?thesis
    using line head assms(3-5)
    by (cases ctx) (simp add: run_request_eq add_bytes_def line_mw_def head_mw_def take_phase_def read_context_def Let_def)
qed

section \<open>A location that only serves files\<close>

definition serves_files :: "string \<Rightarrow> Location \<Rightarrow> bool" where
  "serves_files m loc \<longleftrightarrow>
     \<not> loc_hasRedirect loc \<and> \<not> loc_session loc \<and> loc_cgiConf loc = [] \<and>
     m \<in> set (loc_allowedMethods loc) \<and> m \<in> set VALID_ALLOWED_METHODS"

text \<open>What \<open>ConnectionHeaderMiddleware\<close> makes of the response.\<close>

definition with_connection :: "PipelineContext \<Rightarrow> PipelineContext" where
  "with_connection ctx =
     (if rq_getHeader (cx_req ctx) ''connection'' = ''close'' \<or> rq_version (cx_req ctx) = ''HTTP/1.0''
      then map_res (rs_setHeader ''Connection'' ''close'') ctx else ctx)"

lemma plain_chain: "serves_files m loc \<Longrightarrow> route_chain loc = [HandlerMiddleware (static_handlers loc)]"
proof -
  assume p: "serves_files m loc"
  then have "map_of (static_handlers loc) m \<noteq> None"
    using handler_of_valid [of m] by (simp add: serves_files_def static_handlers_lookup)
  then have "static_handlers loc \<noteq> []" by auto
  then show ?thesis using p by (simp add: route_chain_def serves_files_def)
qed

lemma plain_answer:
  assumes "well_keyed c" "has_default c" "prefix ''/'' (rq_path (cx_req ctx))" "cx_conf ctx = c"
    and "getLocation c (rq_path (cx_req ctx)) = Inr loc" "serves_files (rq_method (cx_req ctx)) loc"
    and "call_handler env (the (handler_of (rq_method (cx_req ctx)))) (with_connection ctx) w = Some ((None, res), w2)"
    and "rs_statusCode res < 400"
  shows "answer_run env c (ctx, w) = returned ((with_connection ctx)\<lparr>cx_res := res\<rparr>, w2)"
proof -
  let ?m = "rq_method (cx_req ctx)"
  have fields: "rq_path (cx_req (with_connection ctx)) = rq_path (cx_req ctx)"
    "rq_method (cx_req (with_connection ctx)) = ?m"
    by (simp_all add: with_connection_def)
  have route: "best_route (build_routes c) (rq_path (cx_req ctx)) = Some (route_chain loc)"
    using router_agrees [of c "rq_path (cx_req ctx)"] assms(1-3,5) by (auto simp: has_default_def)
  have "answer_run env c (ctx, w) = router_mw env (build_routes c) (error_mw env) (with_connection ctx, w)"
    using assms(4-6)
    by (simp add: answer_run_def buildRoute_def main_step_fun chain_run_Cons redirect_mw_def connection_mw_def
        with_connection_def serves_files_def Let_def)
  moreover have "map_of (static_handlers loc) ?m = Some (the (handler_of ?m))"
    using assms(6) handler_of_valid [of ?m] by (auto simp: serves_files_def static_handlers_lookup)
  ultimately show ?thesis
    using assms(7,8) route plain_chain [OF assms(6)] fields
    by (simp add: router_mw_def sub_run_def handler_mw_def Let_def)
qed

lemma complete_admitted:
  assumes "getLocation (cx_conf ctx) (rq_path (cx_req ctx)) = Inr loc"
    and "rp_lastHeaderBytes (cx_parser ctx) \<le> unat (cfg_maxRequestHeaderSize (cx_conf ctx))"
    and "\<not> rq_hasHeader (cx_req ctx) ''Content-Length''"
  shows "admitted loc ctx"
  using assms by (simp add: admitted_def)

text \<open>The whole way of a request without a body to the handler of its method.\<close>

definition at_handler :: "Env \<Rightarrow> Location \<Rightarrow> PipelineContext \<Rightarrow> PipelineContext" where
  "at_handler env loc ctx = with_connection (limited loc (settle env ctx))"

lemma bodyless_answer:
  assumes "bodyless m p hs" "length (request_text m p hs) \<le> unat (rp_maxHeaderBytes (cx_parser ctx))"
    and "cx_req ctx = new_HttpRequest c0" "rp_state (cx_parser ctx) = STATE_REQUEST_LINE" "cx_recvBuffer ctx = []"
    and "X = read_context c0 m p hs ctx" "c = en_vhosts env ! vhost_of env X"
    and "well_keyed c" "has_default c" "prefix ''/'' p" "getLocation c p = Inr loc" "serves_files m loc"
    and "head_size hs \<le> unat (cfg_maxRequestHeaderSize c)"
    and "call_handler env (the (handler_of m)) (at_handler env loc X) w = Some ((None, res), w2)" "rs_statusCode res < 400"
  shows "run_request env (add_bytes (request_text m p hs) (ctx, w)) =
    returned ((at_handler env loc X)\<lparr>cx_res := res\<rparr>, w2)"
proof -
  let ?conf = "en_vhosts env ! cl_activeVhost (cx_ownerClient ctx)"
  let ?L = "limited loc (settle env X)"
  have X: "rp_state (cx_parser X) = STATE_COMPLETE" "cx_ownerClient X = cx_ownerClient ctx" "cx_req X = request_of c0 m p hs"
    "rp_lastHeaderBytes (cx_parser X) = head_size hs"
    by (simp_all add: assms(6) read_context_def)
  have settled: "cx_conf (settle env X) = c" "rq_path (cx_req (settle env X)) = p" "rq_method (cx_req (settle env X)) = m"
    "rq_headers (cx_req (settle env X)) = headers_of hs" "rp_lastHeaderBytes (cx_parser (settle env X)) = head_size hs"
    "rp_state (cx_parser (settle env X)) = STATE_COMPLETE"
    using X by (simp_all add: settle_def setConfig_def assms(7) request_of_def)
  have np: "\<not> head_pending X" using X(1) by (simp add: head_pending_def)
  have adm: "admitted loc (settle env X)"
    using assms(1,11,13) settled by (intro complete_admitted) (simp_all add: bodyless_def rq_hasHeader_def lowered)
  have conf: "(if vhost_of env X = cl_activeVhost (cx_ownerClient X) then ?conf else en_vhosts env ! vhost_of env X) = c"
    by (simp add: assms(7) X(2))
  have "run_request env (add_bytes (request_text m p hs) (ctx, w)) = after_head env ?conf (X, w)"
    unfolding assms(6) by (rule request_is_read [OF assms(1-5)])
  also have "\<dots> = limits_mw env (body_mw env (answer_run env c)) (settle env X, w)"
    using np unfolding after_head_def prod.case Let_def conf by simp
  also have "\<dots> = body_mw env (answer_run env c) (?L, w)"
    using np adm by (simp add: limits_admitted)
  also have "\<dots> = answer_run env c (?L, w)"
    using settled(6) by (simp add: body_mw_def limited_def)
  also have "\<dots> = returned ((at_handler env loc X)\<lparr>cx_res := res\<rparr>, w2)"
    unfolding at_handler_def
  proof (rule plain_answer)
    show "call_handler env (the (handler_of (rq_method (cx_req ?L)))) (with_connection ?L) w = Some ((None, res), w2)"
      using assms(14) settled(3) by (simp add: at_handler_def limited_def)
  qed (use assms settled in \<open>simp_all add: limited_def\<close>)
  finally show ?thesis .
qed

section \<open>A connection that asks for a file\<close>

text \<open>When the pipeline gives an answer that is not a script's, it is put behind what is still to be
  sent, and the socket is watched for writing.\<close>

lemma read_answers:
  assumes "map_of (sv_clients sv) fd = Some cn" "wo_events w = []" "has_key (sv_epoll sv) fd"
    and "run_request env (add_bytes bytes (cn_ctx cn, sv_world sv)) = returned (ctx, w)"
    and "\<not> cx_isCgi ctx" "has_answer ctx"
  shows "\<exists>sv' cn'. handleReadEvent env date now (Received bytes) fd sv = Some (None, sv') \<and>
    map_of (sv_clients sv') fd = Some cn' \<and> cn_sendBuffer cn' = cn_sendBuffer cn @ build date (cx_res ctx) \<and>
    cn_ctx cn' = map_res (complete_headers date) ctx \<and> sv_sent sv' = sv_sent sv \<and>
    map_of (sv_epoll sv') fd = Some (or EPOLLIN EPOLLOUT) \<and> sv_world sv' = w"
proof -
  have w: "w\<lparr>wo_events := []\<rparr> = w" using assms(2) by simp
  have ne: "build date res \<noteq> []" for res by (simp add: build_def Let_def)
  let ?cn = "append_received bytes cn"
  have run: "main_handle 2 env (en_vhosts env ! cl_activeVhost (cx_ownerClient (cn_ctx ?cn))) (cn_ctx ?cn, sv_world sv) =
      returned (ctx, w)"
    using assms(4) by (simp add: run_request_def add_bytes_def append_received_def)
  show ?thesis
    using assms(1,3,5,6) run ne
    by (simp add: handleReadEvent_def handleRequest_def after_pipeline_def assms(2) w set_conn_def generateResponse_def
        modifySocket_def has_key_def updateTimeout_def append_received_def)
qed

text \<open>What is sent of a response that carries a file.\<close>

lemma file_on_the_wire:
  assumes "rs_statusCode res = 200" "rs_version res = ''HTTP/1.1''" "rs_body res = content"
    and "map_of (rs_headers res) ''Content-Type'' = Some [mime]" "\<not> rs_hasHeader res ''Content-Length''"
  shows "\<exists>lines. build date res = ''HTTP/1.1 200 OK'' @ crlf @ header_lines lines @ crlf @ content \<and>
    values_of lines ''Content-Length'' = [show_nat (length content)] \<and> values_of lines ''Content-Type'' = [mime]"
proof -
  have "show_int 200 = ''200''" "getReason 200 = ''OK''" by code_simp+
  then show ?thesis
    using complete_length [OF assms(5), of date] complete_keeps [OF assms(4), of date] assms(1-3)
    by (intro exI [of _ "rs_headers (complete_headers date res)"]) (simp add: build_def Let_def values_of_def)
qed

text \<open>What a connection is between two requests, and what it gets for a file.\<close>

definition idle_conn :: "ListenKey \<Rightarrow> size_t \<Rightarrow> int \<Rightarrow> Server \<Rightarrow> bool" where
  "idle_conn key mh fd sv \<longleftrightarrow>
     (\<exists>cn t0 c0 client sid. map_of (sv_clients sv) fd = Some cn \<and>
        cn_ctx cn = (new_PipelineContext t0 c0 mh client)\<lparr>cx_session := sid\<rparr> \<and>
        cl_listenKey client = key \<and> cn_sendBuffer cn = []) \<and>
     wo_events (sv_world sv) = [] \<and> has_key (sv_epoll sv) fd"

definition carries :: "string \<Rightarrow> string \<Rightarrow> string \<Rightarrow> bool" where
  "carries mime content resp \<longleftrightarrow>
     (\<exists>lines. resp = ''HTTP/1.1 200 OK'' @ crlf @ header_lines lines @ crlf @ content \<and>
        values_of lines ''Content-Length'' = [show_nat (length content)] \<and> values_of lines ''Content-Type'' = [mime])"

text \<open>
  A \<open>GET\<close> for a file: the server of its \<open>Host\<close> has a location for the path that allows \<open>GET\<close> and has no
  redirect, session or script, and the path resolves to a file that can be read.
\<close>

definition asks_for_file :: "Env \<Rightarrow> ListenKey \<Rightarrow> size_t \<Rightarrow> string \<Rightarrow> (string \<times> string) list \<Rightarrow> string \<Rightarrow> string \<Rightarrow> bool" where
  "asks_for_file env key mh p hs mime content \<longleftrightarrow>
     bodyless ''GET'' p hs \<and> length (request_text ''GET'' p hs) \<le> unat mh \<and>
     last_value (headers_of hs) ''connection'' \<noteq> ''close'' \<and> prefix ''/'' p \<and>
     (case find_vhost (en_vhosts env) key (last_value (headers_of hs) ''host'') of
        None \<Rightarrow> False
      | Some i \<Rightarrow>
          (let c = en_vhosts env ! i; f = resolvePath (en_os env) p c False in
           well_keyed c \<and> has_default c \<and> head_size hs \<le> unat (cfg_maxRequestHeaderSize c) \<and>
           (case getLocation c p of Inl e \<Rightarrow> False | Inr loc \<Rightarrow> serves_files ''GET'' loc) \<and>
           f \<noteq> [] \<and> mime = getMimeType f \<and>
           (case os_stat (en_os env) f of
              Some (Regular, n) \<Rightarrow> os_open (en_os env) f n = Inr (Some content) | _ \<Rightarrow> False)))"

lemma file_answer:
  assumes "map_of (sv_clients sv) fd = Some cn" "wo_events (sv_world sv) = []" "has_key (sv_epoll sv) fd"
    and "cn_ctx cn = (new_PipelineContext t0 c0 mh client)\<lparr>cx_session := sid\<rparr>"
    and "asks_for_file env (cl_listenKey client) mh p hs mime content"
  shows "\<exists>sv' cn' resp i. handleReadEvent env date now (Received (request_text ''GET'' p hs)) fd sv = Some (None, sv') \<and>
    map_of (sv_clients sv') fd = Some cn' \<and> cn_sendBuffer cn' = cn_sendBuffer cn @ resp \<and> carries mime content resp \<and>
    rs_getHeader (cx_res (cn_ctx cn')) ''Connection'' = [] \<and>
    rp_maxHeaderBytes (cx_parser (cn_ctx cn')) = mh \<and> cx_ownerClient (cn_ctx cn') = client\<lparr>cl_activeVhost := i\<rparr> \<and>
    sv_sent sv' = sv_sent sv \<and> has_key (sv_epoll sv') fd \<and> sv_world sv' = sv_world sv"
proof -
  let ?ctx = "cn_ctx cn"
  define X where "X = read_context c0 ''GET'' p hs ?ctx"
  obtain i where i: "find_vhost (en_vhosts env) (cl_listenKey client) (last_value (headers_of hs) ''host'') = Some i"
    using assms(5) by (auto simp: asks_for_file_def split: option.splits)
  let ?c = "en_vhosts env ! i" and ?f = "resolvePath (en_os env) p (en_vhosts env ! i) False"
  have ask: "bodyless ''GET'' p hs" "length (request_text ''GET'' p hs) \<le> unat mh"
    "last_value (headers_of hs) ''connection'' \<noteq> ''close''" "prefix ''/'' p"
    "well_keyed ?c" "has_default ?c" "head_size hs \<le> unat (cfg_maxRequestHeaderSize ?c)" "?f \<noteq> []" "mime = getMimeType ?f"
    using assms(5) i by (simp_all add: asks_for_file_def Let_def)
  obtain loc where loc: "getLocation ?c p = Inr loc" "serves_files ''GET'' loc"
    using assms(5) i by (auto simp: asks_for_file_def Let_def split: sum.splits)
  have "case os_stat (en_os env) ?f of
      Some (Regular, n) \<Rightarrow> os_open (en_os env) ?f n = Inr (Some content) | _ \<Rightarrow> False"
    using assms(5) i by (simp add: asks_for_file_def Let_def)
  then obtain n where disk: "os_stat (en_os env) ?f = Some (Regular, n)" "os_open (en_os env) ?f n = Inr (Some content)"
    by (cases "os_stat (en_os env) ?f"; cases "fst (the (os_stat (en_os env) ?f))") auto
  have ctx: "cx_req ?ctx = new_HttpRequest c0" "rp_state (cx_parser ?ctx) = STATE_REQUEST_LINE" "cx_recvBuffer ?ctx = []"
    "rp_maxHeaderBytes (cx_parser ?ctx) = mh"
    by (simp_all add: assms(4) new_PipelineContext_def new_RequestParser_def)
  have X: "cx_ownerClient X = client" "cx_req X = request_of c0 ''GET'' p hs" "cx_res X = new_HttpResponse" "\<not> cx_isCgi X"
    "rp_state (cx_parser X) = STATE_COMPLETE" "rp_maxHeaderBytes (cx_parser X) = mh"
    by (simp_all add: X_def read_context_def assms(4) new_PipelineContext_def new_RequestParser_def)
  have v: "vhost_of env X = i"
    unfolding vhost_of_def X(1,2) rq_getHeader_def lowered using i by (simp add: request_of_def)
  let ?A = "at_handler env loc X"
  have stays: "with_connection (limited loc (settle env X)) = limited loc (settle env X)"
    using ask(3) by (simp add: with_connection_def rq_getHeader_def lowered limited_def settle_def setConfig_def X(2) request_of_def)
  have A: "cx_conf ?A = ?c" "rq_path (cx_req ?A) = p" "rq_method (cx_req ?A) = ''GET''" "\<not> cx_isCgi ?A"
    "rp_state (cx_parser ?A) = STATE_COMPLETE" "rs_version (cx_res ?A) = ''HTTP/1.1''" "rs_headers (cx_res ?A) = []"
    "cx_ownerClient ?A = client\<lparr>cl_activeVhost := i\<rparr>" "rp_maxHeaderBytes (cx_parser ?A) = mh"
    unfolding at_handler_def stays
    by (simp_all add: limited_def settle_def setConfig_def v X request_of_def appInfo_def new_HttpResponse_def)
  define res where "res = (rs_setHeader ''Content-Type'' mime (set_status 200 (cx_res ?A)))\<lparr>rs_body := content\<rparr>"
  have "call_handler env (the (handler_of ''GET'')) ?A (sv_world sv) = Some ((None, res), sv_world sv)"
    using static_file [of "en_os env" "cx_req ?A" ?c ?f n content] disk ask(8,9) A
    by (simp add: handler_of_def call_handler_def res_def Let_def)
  from bodyless_answer [OF ask(1) _ ctx(1-3) X_def _ ask(5,6,4) loc ask(7) this]
  have "run_request env (add_bytes (request_text ''GET'' p hs) (?ctx, sv_world sv)) = returned (?A\<lparr>cx_res := res\<rparr>, sv_world sv)"
    using ask(2) ctx(4) by (simp add: v res_def rs_setHeader_def)
  from read_answers [OF assms(1,2,3) this, of date now] A
  obtain sv' cn' where run: "handleReadEvent env date now (Received (request_text ''GET'' p hs)) fd sv = Some (None, sv')"
    "map_of (sv_clients sv') fd = Some cn'" "cn_sendBuffer cn' = cn_sendBuffer cn @ build date res"
    "cn_ctx cn' = ?A\<lparr>cx_res := complete_headers date res\<rparr>" "sv_sent sv' = sv_sent sv"
    "has_key (sv_epoll sv') fd" "sv_world sv' = sv_world sv"
    by (auto simp: has_answer_def isComplete_def has_key_def)
  have res: "rs_statusCode res = 200" "rs_version res = ''HTTP/1.1''" "rs_body res = content"
    "map_of (rs_headers res) ''Content-Type'' = Some [mime]" "\<not> rs_hasHeader res ''Content-Length''"
    using A(6,7) by (simp_all add: res_def rs_setHeader_def rs_hasHeader_def has_key_def)
  have "rs_getHeaderVector (complete_headers date res) ''Connection'' = []"
    unfolding complete_values using A(7) by (simp add: res_def rs_setHeader_def rs_getHeaderVector_def values_of_def)
  then have "rs_getHeader (cx_res (cn_ctx cn')) ''Connection'' = []"
    by (simp add: run(4) rs_getHeader_def rs_getHeaderVector_def last_value_def values_of_def split: option.splits)
  moreover have "carries mime content (build date res)"
    using file_on_the_wire [OF res, of date] by (simp add: carries_def)
  moreover have "rp_maxHeaderBytes (cx_parser (cn_ctx cn')) = mh" "cx_ownerClient (cn_ctx cn') = client\<lparr>cl_activeVhost := i\<rparr>"
    using A by (simp_all add: run(4))
  ultimately show ?thesis using run by blast
qed

section \<open>A connection that is kept\<close>

text \<open>A response that goes out whole leaves the connection as it was before the request.\<close>

lemma write_resets:
  assumes "map_of (sv_clients sv) fd = Some cn" "cn_sendBuffer cn \<noteq> []" "has_key (sv_epoll sv) fd"
    and "rs_getHeader (cx_res (cn_ctx cn)) ''Connection'' = []"
  shows "\<exists>sv' cn' c. handleWriteEvent env now (Sent (length (cn_sendBuffer cn))) fd sv = (None, sv') \<and>
    map_of (sv_clients sv') fd = Some cn' \<and> cn_ctx cn' = reset_context now c (cn_ctx cn) \<and> cn_sendBuffer cn' = [] \<and>
    sv_sent sv' = sv_sent sv @ [(fd, cn_sendBuffer cn)] \<and> has_key (sv_epoll sv') fd \<and> sv_world sv' = sv_world sv"
  using assms
  by (simp add: handleWriteEvent_def Let_def modifySocket_def set_conn_def updateTimeout_def has_key_def) blast

lemma carries_not_empty: "carries mime content resp \<Longrightarrow> resp \<noteq> []"
  by (auto simp: carries_def)

text \<open>Requests and their answers in turn: each request arrives, and its answer goes out whole.\<close>

fun exchanges :: "int \<Rightarrow> ((Env \<times> string \<times> int) \<times> string) list \<Rightarrow> Server \<Rightarrow> effect option" where
  "exchanges fd [] sv = Some (done_ok sv)"
| "exchanges fd (((env, date, now), bytes) # qs) sv =
     (case handleReadEvent env date now (Received bytes) fd sv of
        Some (None, sv1) \<Rightarrow>
          (case map_of (sv_clients sv1) fd of
             None \<Rightarrow> Some (done_ok sv1)
           | Some cn \<Rightarrow>
               (case handleWriteEvent env now (Sent (length (cn_sendBuffer cn))) fd sv1 of
                  (None, sv2) \<Rightarrow> exchanges fd qs sv2
                | r \<Rightarrow> Some r))
      | r \<Rightarrow> r)"

text \<open>C3: a connection that is kept serves any number of requests: when a client asks for files one
  after another, each in a well-formed \<open>GET\<close> with a \<open>Host\<close>, from a location that allows \<open>GET\<close> and has no redirect, session or
  script, and each answer goes out before the next request, the client is sent, in the order of
  its requests and nothing else, a response with status 200, the length of the file, its MIME type and
  its content; the rest of the world is unchanged, and the connection is ready for the next one.\<close>

theorem files_served_in_order:
  assumes "idle_conn key mh fd sv"
    and "list_all (\<lambda>(at, p, hs, mime, content). asks_for_file (fst at) key mh p hs mime content) qs"
  shows "\<exists>sv' resps. exchanges fd (map (\<lambda>(at, p, hs, _). (at, request_text ''GET'' p hs)) qs) sv = Some (None, sv') \<and>
    sv_sent sv' = sv_sent sv @ map (Pair fd) resps \<and>
    list_all2 (\<lambda>(at, p, hs, mime, content) resp. carries mime content resp) qs resps \<and>
    sv_world sv' = sv_world sv \<and> idle_conn key mh fd sv'"
  using assms
proof (induction qs arbitrary: sv)
  case Nil
  then show ?case by simp
next
  case (Cons q qs)
  obtain at p hs mime content where "q = (at, p, hs, mime, content)" by (cases q)
  moreover obtain env date now where "at = (env, date, now)" by (cases at)
  ultimately have q: "q = ((env, date, now), p, hs, mime, content)" by simp
  from Cons.prems(1) obtain cn t0 c0 client sid where cn: "map_of (sv_clients sv) fd = Some cn"
    "wo_events (sv_world sv) = []" "has_key (sv_epoll sv) fd"
    "cn_ctx cn = (new_PipelineContext t0 c0 mh client)\<lparr>cx_session := sid\<rparr>" "cl_listenKey client = key" "cn_sendBuffer cn = []"
    by (auto simp: idle_conn_def)
  have "asks_for_file env (cl_listenKey client) mh p hs mime content" using Cons.prems(2) q cn(5) by simp
  from file_answer [OF cn(1-4) this, of date now]
  obtain sv1 cn1 resp i where r: "handleReadEvent env date now (Received (request_text ''GET'' p hs)) fd sv = Some (None, sv1)"
    "map_of (sv_clients sv1) fd = Some cn1" "cn_sendBuffer cn1 = resp" "carries mime content resp"
    "rs_getHeader (cx_res (cn_ctx cn1)) ''Connection'' = []" "rp_maxHeaderBytes (cx_parser (cn_ctx cn1)) = mh"
    "cx_ownerClient (cn_ctx cn1) = client\<lparr>cl_activeVhost := i\<rparr>"
    "sv_sent sv1 = sv_sent sv" "has_key (sv_epoll sv1) fd" "sv_world sv1 = sv_world sv"
    using cn(6) by auto
  from write_resets [OF r(2) _ r(9,5), of env now] carries_not_empty [OF r(4)] r(3)
  obtain sv2 cn2 c where w: "handleWriteEvent env now (Sent (length resp)) fd sv1 = (None, sv2)"
    "map_of (sv_clients sv2) fd = Some cn2" "cn_ctx cn2 = reset_context now c (cn_ctx cn1)" "cn_sendBuffer cn2 = []"
    "sv_sent sv2 = sv_sent sv @ [(fd, resp)]" "has_key (sv_epoll sv2) fd" "sv_world sv2 = sv_world sv"
    using r(8,10) by auto
  have "cl_listenKey (cx_ownerClient (cn_ctx cn1)) = key" by (simp add: r(7) cn(5))
  then have "idle_conn key mh fd sv2"
    unfolding idle_conn_def using w cn(2) reset_context_new [of now c "cn_ctx cn1"] r(6) by auto
  from Cons.IH [OF this] Cons.prems(2) obtain sv' resps
    where rest: "exchanges fd (map (\<lambda>(at, p, hs, _). (at, request_text ''GET'' p hs)) qs) sv2 = Some (None, sv')"
      "sv_sent sv' = sv_sent sv2 @ map (Pair fd) resps"
      "list_all2 (\<lambda>(at, p, hs, mime, content) resp. carries mime content resp) qs resps"
      "sv_world sv' = sv_world sv2" "idle_conn key mh fd sv'"
    by auto
  then show ?case
    using r w by (intro exI [of _ sv'] exI [of _ "resp # resps"]) (simp add: q)
qed

text \<open>A server with one file and one client.\<close>

definition file_config :: Config where
  "file_config = www_config\<lparr>cfg_maxRequestHeaderSize := 8192,
     cfg_listens := [\<lparr>lst_host = [], lst_interface = ''127.0.0.1'', lst_port = 8080\<rparr>],
     cfg_locations := [(''/'', new_Location\<lparr>loc_path := ''/'', loc_root := ''./www'', loc_allowedMethods := [''GET'']\<rparr>)]\<rparr>"

definition file_env :: Env where
  "file_env = idle_env\<lparr>en_vhosts := [file_config], en_os := file_os\<rparr>"

definition file_client :: Conn where
  "file_client = \<lparr>cn_addr = 1, cn_ctx = new_PipelineContext 0 file_config 8192 some_client, cn_sendBuffer = []\<rparr>"

definition file_server :: Server where
  "file_server =
     \<lparr>sv_listeners = [], sv_byFd = [], sv_listenHeaderMax = [], sv_world = idle_world, sv_timers = new_TimeoutManager,
      sv_epoll = [(5, EPOLLIN)], sv_em = new_EventManager, sv_clients = [(5, file_client)], sv_sent = [],
      sv_closed = [], sv_next = 2, sv_dangling = False\<rparr>"

lemma file_resolved: "resolvePath file_os ''/a.txt'' file_config False = ''/srv/www/a.txt''"
  by (simp add: resolvePath_def best_root_def best_step_def file_config_def with_slash_def drop_slash_def getAbsolutePath_def
      file_os_def one_os_def Let_def)

lemma file_request_bodyless: "bodyless ''GET'' ''/a.txt'' [(''Host'', ''a'')]"
  by (simp add: bodyless_def headers_of_def has_key_def lowered header_plain_def header_ok_def clean_def trim_def blanks_def)

lemma file_asked: "asks_for_file file_env (ListenKey ''127.0.0.1'' 8080) 8192 ''/a.txt'' [(''Host'', ''a'')] ''text/plain'' ''hello''"
proof -
  let ?loc = "new_Location\<lparr>loc_path := ''/'', loc_root := ''./www'', loc_allowedMethods := [''GET'']\<rparr>"
  have sizes: "length (request_text ''GET'' ''/a.txt'' [(''Host'', ''a'')]) \<le> unat (8192 :: size_t)"
    "head_size [(''Host'', ''a'')] \<le> unat (cfg_maxRequestHeaderSize file_config)"
    by (simp_all add: request_text_def header_line_def head_size_def file_config_def)
  have close: "last_value (headers_of [(''Host'', ''a'')]) ''connection'' \<noteq> ''close''"
    by (simp add: headers_of_def last_value_def lowered)
  have host: "find_vhost [file_config] (ListenKey ''127.0.0.1'' 8080) h = Some 0" for h
    by (simp add: find_vhost_def file_config_def on_key_def extractHostForMatch_def trim_def Let_def)
  have conf: "well_keyed file_config" "has_default file_config" "getLocation file_config ''/a.txt'' = Inr ?loc"
    "serves_files ''GET'' ?loc"
    by (simp_all add: file_config_def well_keyed_def om_ok_def has_default_def getLocation_def
        bestMatchKey_def match_step_def serves_files_def new_Location_def VALID_ALLOWED_METHODS_def)
  have disk: "os_stat file_os ''/srv/www/a.txt'' = Some (Regular, 5)"
    "os_open file_os ''/srv/www/a.txt'' 5 = Inr (Some ''hello'')"
    by (simp_all add: file_os_def)
  have mime: "getMimeType ''/srv/www/a.txt'' = ''text/plain''" by code_simp
  show ?thesis
    unfolding asks_for_file_def file_env_def using sizes close host conf disk mime file_resolved file_request_bodyless
    by simp
qed

theorem files_served_in_order_witness:
  "\<exists>sv' r1 r2.
    exchanges 5 [((file_env, ''now'', 3), ''GET /a.txt HTTP/1.1'' @ crlf @ ''Host: a'' @ crlf @ crlf),
                 ((file_env, ''later'', 4), ''GET /a.txt HTTP/1.1'' @ crlf @ ''Host: a'' @ crlf @ crlf)] file_server =
      Some (None, sv') \<and>
    sv_sent sv' = [(5, r1), (5, r2)] \<and> carries ''text/plain'' ''hello'' r1 \<and> carries ''text/plain'' ''hello'' r2"
proof -
  let ?hs = "[(''Host'', ''a'')]"
  let ?qs = "[((file_env, ''now'', 3), ''/a.txt'', ?hs, ''text/plain'', ''hello''),
    ((file_env, ''later'', 4), ''/a.txt'', ?hs, ''text/plain'', ''hello'')]"
  have bytes: "request_text ''GET'' ''/a.txt'' ?hs = ''GET /a.txt HTTP/1.1'' @ crlf @ ''Host: a'' @ crlf @ crlf"
    by (simp add: request_text_def header_line_def)
  have "cl_listenKey some_client = ListenKey ''127.0.0.1'' 8080" by (simp add: some_client_def)
  moreover have "cn_ctx file_client = (new_PipelineContext 0 file_config 8192 some_client)\<lparr>cx_session := None\<rparr>"
    by (simp add: file_client_def new_PipelineContext_def)
  moreover have "map_of (sv_clients file_server) 5 = Some file_client" "wo_events (sv_world file_server) = []"
    "has_key (sv_epoll file_server) 5" "cn_sendBuffer file_client = []" "sv_sent file_server = []"
    by (simp_all add: file_server_def file_client_def idle_world_def has_key_def)
  ultimately have idle: "idle_conn (ListenKey ''127.0.0.1'' 8080) 8192 5 file_server" and none: "sv_sent file_server = []"
    unfolding idle_conn_def by blast+
  have "list_all (\<lambda>(at, p, hs, mime, content).
      asks_for_file (fst at) (ListenKey ''127.0.0.1'' 8080) 8192 p hs mime content) ?qs"
    using file_asked by simp
  from files_served_in_order [OF idle this] none show ?thesis
    by (auto simp: bytes list_all2_Cons1)
qed

end
