(* ===== verification/ServerLoop.thy ===== *)
theory ServerLoop
  imports Connection
begin

text \<open>
  \<open>src/Server/Server.cpp\<close>: accepting a connection, calling the event that a descriptor waits for,
  and one turn of the event loop; with \<open>src/Server/Client/Events\<close>, the events of the CGI workers
  among them.  What the kernel answers during one event is an argument.
\<close>

section \<open>What the kernel answers\<close>

record Io =
  io_now :: int
  io_date :: string
  io_peek :: bool
  io_recv :: received
  io_send :: sent
  io_accept :: accept_answer
  io_cgi_read :: answer
  io_cgi_write :: written
  io_child_error :: "int option"
  io_children :: "(int \<times> ended \<times> int) list"

section \<open>Accepting\<close>

text \<open>
  The roll-back of a connection whose creation threw: the exception comes from
  \<open>registerSocket\<close>, the only call that throws.
\<close>

definition accept_rollback :: "int \<Rightarrow> nat \<Rightarrow> Server \<Rightarrow> Server" where
  "accept_rollback fd addr sv =
     close_fd fd (unregisterSocket fd (on_em (forgetFd fd)
       (sv\<lparr>sv_timers := remove_timer addr (sv_timers sv)\<rparr>)))"

definition header_limit :: "Config \<Rightarrow> ListenKey \<Rightarrow> Server \<Rightarrow> size_t" where
  "header_limit conf key sv =
     (case map_of (sv_listenHeaderMax sv) (listenKeyToString key) of
        Some n \<Rightarrow> n | None \<Rightarrow> cfg_maxRequestHeaderSize conf)"

definition new_Conn :: "int \<Rightarrow> nat \<Rightarrow> Config \<Rightarrow> size_t \<Rightarrow> AcceptedConn \<Rightarrow> Conn" where
  "new_Conn now addr conf maxHeaderBytes acc =
     \<lparr>cn_addr = addr,
      cn_ctx = new_PipelineContext now conf maxHeaderBytes
        \<lparr>cl_fd = ac_fd acc, cl_ip = ac_ip acc, cl_port = ac_port acc, cl_listenKey = ac_key acc,
         cl_activeVhost = ac_defaultVhostIndex acc\<rparr>,
      cn_sendBuffer = []\<rparr>"

definition enter_client :: "Env \<Rightarrow> int \<Rightarrow> AcceptedConn \<Rightarrow> Server \<Rightarrow> Server" where
  "enter_client env now acc sv =
     (let fd = ac_fd acc; addr = sv_next sv;
          conf = en_vhosts env ! ac_defaultVhostIndex acc;
          c = new_Conn now addr conf (header_limit conf (ac_key acc) sv) acc;
          sv1 = sv\<lparr>sv_next := addr + 1\<rparr>
      in if has_key (sv_epoll sv) fd then accept_rollback fd addr sv1
         else
           (let sv2 = watch True fd EPOLLIN [ReadEvent addr, WriteEvent addr] sv1
            in set_conn fd c
                 (sv2\<lparr>sv_timers := add_timer now addr (calculateTimeout (cn_ctx c)) (sv_timers sv2)\<rparr>)))"

definition handleNewConnection :: "Env \<Rightarrow> int \<Rightarrow> accept_answer \<Rightarrow> int \<Rightarrow> Server \<Rightarrow> Server" where
  "handleNewConnection env now a listenFd sv =
     (case acceptOnce a (sv_byFd sv) (sv_listeners sv) listenFd of
        (acc, closing) \<Rightarrow>
          (let sv1 = (case closing of None \<Rightarrow> sv | Some fd \<Rightarrow> close_fd fd sv) in
           case acc of
             None \<Rightarrow> sv1
           | Some c \<Rightarrow>
               (if ac_fd c < 0 then sv1
                else if length (en_vhosts env) \<le> ac_defaultVhostIndex c then close_fd (ac_fd c) sv1
                else enter_client env now c sv1)))"

section \<open>Events of a worker\<close>

text \<open>The parent's ends that a step of a worker has closed.\<close>

definition closed_pipes :: "CgiWorker \<Rightarrow> CgiWorker \<Rightarrow> int list" where
  "closed_pipes w w1 =
     map fst (filter (\<lambda>(old, new). old \<noteq> -1 \<and> new = -1)
       [(wk_writeFd w, wk_writeFd w1), (wk_readFd w, wk_readFd w1), (wk_errFd w, wk_errFd w1),
        (wk_statusFd w, wk_statusFd w1)])"

text \<open>\<open>CgiHandle\<close>: the time of the last activity is set before the step.\<close>

definition step_worker :: "int \<Rightarrow> (CgiWorker \<Rightarrow> CgiWorker) \<Rightarrow> nat \<Rightarrow> Server \<Rightarrow> Server" where
  "step_worker now f a sv =
     (case map_of (cm_workers (wo_cgi (sv_world sv))) a of
        None \<Rightarrow> sv\<lparr>sv_dangling := True\<rparr>
      | Some w \<Rightarrow>
          (let w1 = f (w\<lparr>wk_lastActivityTime := now\<rparr>)
           in fold close_fd (closed_pipes w w1) (on_cgi (set_worker a w1) sv)))"

definition cgi_read_event :: "Io \<Rightarrow> nat \<Rightarrow> Server \<Rightarrow> Server" where
  "cgi_read_event io a sv =
     (let reaps = (case map_of (cm_workers (wo_cgi (sv_world sv))) a of
                     None \<Rightarrow> False
                   | Some w \<Rightarrow> snd (handleRead (io_now io) (io_cgi_read io) w));
          sv1 = step_worker (io_now io) (\<lambda>w. fst (handleRead (io_now io) (io_cgi_read io) w)) a sv
      in if reaps then on_cgi (cleanupFinishedWorkers (io_children io)) sv1 else sv1)"

text \<open>
  \<open>CgiEndEvent::process\<close>: the bytes of the completion socket are drained; the first time, the
  answer is made, whatever \<open>isCgiComplete\<close> says, and appended to what the client is to be sent.
\<close>

definition cgi_answer :: "Io \<Rightarrow> int \<Rightarrow> Server \<Rightarrow> effect" where
  "cgi_answer io clientFd sv =
     (let w = worker_of_client clientFd sv in
      case isCgiComplete clientFd new_HttpResponse (wo_cgi (sv_world sv)) of
        (complete, cgiRes, m) \<Rightarrow>
          (let sv1 = on_cgi (\<lambda>_. m) sv;
               sv2 = (if complete then destroy_worker True (the w) sv1 else sv1)
           in case map_of (sv_clients sv2) clientFd of
                None \<Rightarrow> done_ok (sv2\<lparr>sv_dangling := True\<rparr>)
              | Some c \<Rightarrow>
                  modifySocket clientFd EPOLLOUT
                    (set_conn clientFd (c\<lparr>cn_sendBuffer := cn_sendBuffer c @ build (io_date io) cgiRes\<rparr>) sv2)))"

definition cgi_end_event :: "Io \<Rightarrow> int \<Rightarrow> int \<Rightarrow> nat \<Rightarrow> Server \<Rightarrow> effect" where
  "cgi_end_event io fd clientFd a sv =
     (case map_of (cm_workers (wo_cgi (sv_world sv))) a of
        None \<Rightarrow> done_ok (sv\<lparr>sv_dangling := True\<rparr>)
      | Some w \<Rightarrow>
          (let w1 = w\<lparr>wk_lastActivityTime := io_now io, wk_completionBytes := 0\<rparr> in
           if wk_completionNotified w then done_ok (on_cgi (set_worker a w1) sv)
           else
             andthen (cgi_answer io clientFd (on_cgi (set_worker a (w1\<lparr>wk_completionNotified := True\<rparr>)) sv))
               (\<lambda>sv1. done_ok (on_em (forgetFd fd) (close_fd fd (unregisterSocket fd sv1))))))"

section \<open>Dispatch\<close>

text \<open>The client an event was made for, when it is still there.\<close>

definition owns :: "nat \<Rightarrow> int \<Rightarrow> Server \<Rightarrow> bool" where
  "owns addr fd sv \<longleftrightarrow> map_option cn_addr (map_of (sv_clients sv) fd) = Some addr"

fun run_event :: "Env \<Rightarrow> Io \<Rightarrow> int \<Rightarrow> event \<Rightarrow> Server \<Rightarrow> effect option" where
  "run_event env io fd NewConnectionEvent sv =
     Some (done_ok (handleNewConnection env (io_now io) (io_accept io) fd sv))"
| "run_event env io fd (ReadEvent addr) sv =
     (if owns addr fd sv then handleReadEvent env (io_date io) (io_now io) (io_recv io) fd sv
      else Some (done_ok (sv\<lparr>sv_dangling := True\<rparr>)))"
| "run_event env io fd (WriteEvent addr) sv =
     Some (if owns addr fd sv then handleWriteEvent env (io_now io) (io_send io) fd sv
           else done_ok (sv\<lparr>sv_dangling := True\<rparr>))"
| "run_event env io fd (CgiEvent (Cgi_read a)) sv = Some (done_ok (cgi_read_event io a sv))"
| "run_event env io fd (CgiEvent (Cgi_write a)) sv =
     Some (done_ok (step_worker (io_now io) (handleWrite (io_now io) (io_cgi_write io)) a sv))"
| "run_event env io fd (CgiEvent (Cgi_error a)) sv =
     Some (done_ok (step_worker (io_now io) (handleReadErr (io_now io) (io_cgi_read io)) a sv))"
| "run_event env io fd (CgiEvent (Cgi_end clientFd a)) sv = Some (cgi_end_event io fd clientFd a sv)"
| "run_event env io fd (CgiEvent (Cgi_error_exit a)) sv =
     Some (done_ok (step_worker (io_now io) (handleErrorExit (io_child_error io)) a sv))"

definition handle_fd :: "Env \<Rightarrow> Io \<Rightarrow> int \<Rightarrow> mask \<Rightarrow> Server \<Rightarrow> effect option" where
  "handle_fd env io fd events sv =
     (case handle_events sv_em (\<lambda>em sv. sv\<lparr>sv_em := em\<rparr>) closeConnection (io_peek io) fd events sv of
        (None, sv1) \<Rightarrow> Some (done_ok sv1)
      | (Some e, sv1) \<Rightarrow> run_event env io fd e sv1)"

fun handle_fds :: "Env \<Rightarrow> (Io \<times> int \<times> mask) list \<Rightarrow> Server \<Rightarrow> effect option" where
  "handle_fds env [] sv = Some (done_ok sv)"
| "handle_fds env ((io, fd, events) # rest) sv =
     (case handle_fd env io fd events sv of
        None \<Rightarrow> None
      | Some (Some e, sv1) \<Rightarrow> Some (Some e, sv1)
      | Some (None, sv1) \<Rightarrow> handle_fds env rest sv1)"

section \<open>One turn of the loop\<close>

definition fd_of_client :: "nat \<Rightarrow> Server \<Rightarrow> int option" where
  "fd_of_client addr sv = map_option fst (find (\<lambda>p. cn_addr (snd p) = addr) (sv_clients sv))"

text \<open>The deadline of a client that is not there any more is a use after it was destroyed.\<close>

definition client_timeout :: "Env \<Rightarrow> string \<Rightarrow> int \<Rightarrow> (int \<Rightarrow> sent) \<Rightarrow> nat \<Rightarrow> effect \<Rightarrow> effect" where
  "client_timeout env date now sends addr r =
     andthen r (\<lambda>sv.
       case fd_of_client addr sv of
         None \<Rightarrow> done_ok (sv\<lparr>sv_dangling := True\<rparr>)
       | Some fd \<Rightarrow> onTimeout env date now (sends fd) fd sv)"

definition check_timeouts :: "Env \<Rightarrow> string \<Rightarrow> int \<Rightarrow> (int \<Rightarrow> sent) \<Rightarrow> Server \<Rightarrow> effect" where
  "check_timeouts env date now sends sv =
     checkAndHandleTimeouts (\<lambda>r. sv_timers (snd r))
       (\<lambda>m r. (fst r, if fst r = None then (snd r)\<lparr>sv_timers := m\<rparr> else snd r))
       (client_timeout env date now sends) now (done_ok sv)"

text \<open>The answers of \<open>epoll_wait\<close>: a signal, which is waited out, an error, or what is ready.\<close>

datatype epoll_answer = Wait_interrupted | Wait_failed | Ready "(Io \<times> int \<times> mask) list"

fun wait_events :: "epoll_answer list \<Rightarrow> (Io \<times> int \<times> mask) list res option" where
  "wait_events [] = None"
| "wait_events (Wait_interrupted # answers) = wait_events answers"
| "wait_events (Wait_failed # answers) = Some (Inl Runtime_error)"
| "wait_events (Ready events # answers) = Some (Inr events)"

text \<open>
  What the kernel and the clock answer during one turn: what \<open>epoll_wait\<close> reports, the time, what
  each client's socket takes of a 408, and the children that have ended.
\<close>

record Turn =
  tu_now :: int
  tu_date :: string
  tu_sends :: "int \<Rightarrow> sent"
  tu_children :: "(int \<times> ended \<times> int) list"
  tu_wait :: "epoll_answer list"

definition clean_sessions :: "int \<Rightarrow> Server \<Rightarrow> Server" where
  "clean_sessions now sv =
     sv\<lparr>sv_world := (sv_world sv)\<lparr>wo_sessions := cleanup now now (wo_sessions (sv_world sv))\<rparr>\<rparr>"

definition ready_turn :: "Env \<Rightarrow> Turn \<Rightarrow> (Io \<times> int \<times> mask) list \<Rightarrow> Server \<Rightarrow> effect option" where
  "ready_turn env t events sv =
     (case check_timeouts env (tu_date t) (tu_now t) (tu_sends t) sv of
        (Some e, sv1) \<Rightarrow> Some (Some e, sv1)
      | (None, sv1) \<Rightarrow>
          (let sv2 = on_cgi (\<lambda>m. cleanupTimedOutWorkers (tu_now t)
                       (cleanupFinishedWorkers (tu_children t) m)) sv1
           in map_option (\<lambda>r. andthen r (\<lambda>sv3. done_ok (clean_sessions (tu_now t) sv3)))
                (handle_fds env events sv2)))"

definition turn :: "Env \<Rightarrow> Turn \<Rightarrow> Server \<Rightarrow> effect option" where
  "turn env t sv =
     (case wait_events (tu_wait t) of
        None \<Rightarrow> None
      | Some (Inl e) \<Rightarrow> Some (Some e, sv)
      | Some (Inr events) \<Rightarrow> ready_turn env t events sv)"

text \<open>The server until it is stopped by an exception or has done the given turns.\<close>

fun run_turns :: "(Env \<times> Turn) list \<Rightarrow> Server \<Rightarrow> effect option" where
  "run_turns [] sv = Some (done_ok sv)"
| "run_turns ((env, t) # ts) sv =
     (case turn env t sv of
        None \<Rightarrow> None
      | Some (Some e, sv1) \<Rightarrow> Some (Some e, sv1)
      | Some (None, sv1) \<Rightarrow> run_turns ts sv1)"

end
