(* ===== verification/Descriptors.thy ===== *)
theory Descriptors
  imports ServerLoop
begin

text \<open>
  Which descriptors the CGI manager holds: the open ends of the socket pairs of its workers, and
  those that a worker has recorded for its events, which it forgets when it is destroyed.  The
  lemmas bound what the pipeline and the events of workers can add to them.
\<close>

section \<open>Descriptors of a worker\<close>

definition held :: "CgiWorker \<Rightarrow> int set" where
  "held w = (set (wk_eventFds w) \<union>
     {wk_writeFd w, wk_readFd w, wk_errFd w, wk_statusFd w, wk_completionOut w, wk_completionIn w}) - {-1}"

definition all_held :: "CgiManager \<Rightarrow> int set" where
  "all_held m = (\<Union>w \<in> snd ` set (cm_workers m). held w)"

fun pipes :: "spawn \<Rightarrow> int set" where
  "pipes No_sockets = {}"
| "pipes (No_process p) = {pf_status p}"
| "pipes (No_nonblocking pid p) = {pf_status p}"
| "pipes (Started pid p) =
     {pf_in p, pf_out p, pf_err p, pf_status p, pf_completeOut p, pf_completeIn p}"

lemma held_simps [simp]:
  "held (w\<lparr>wk_lastActivityTime := t\<rparr>) = held w" "held (w\<lparr>wk_state := st\<rparr>) = held w"
  "held (w\<lparr>wk_completionBytes := n\<rparr>) = held w" "held (w\<lparr>wk_completionNotified := b\<rparr>) = held w"
  "held (setExitStatus status w) = held w" "held (notify w) = held w"
  by (simp_all add: held_def setExitStatus_def notify_def)

lemma held_handleRead: "held (fst (handleRead now a w)) \<subseteq> held w"
proof -
  have eof: "held (w\<lparr>wk_readFd := -1, wk_responseParser := p, wk_state := st, wk_outputComplete := b\<rparr>) \<subseteq> held w"
    and fail: "held (w\<lparr>wk_state := st, wk_readFd := -1, wk_outputComplete := b\<rparr>) \<subseteq> held w"
    and data: "held (w\<lparr>wk_responseBuffer := s\<rparr>) = held w" for p st b s
    by (auto simp: held_def)
  show ?thesis
    by (cases a) (simp_all add: handleRead_def Let_def eof fail data)
qed

lemma held_handleWrite: "held (handleWrite now a w) \<subseteq> held w"
  by (auto simp: held_def handleWrite_def Let_def split: written.splits if_splits)

lemma held_handleReadErr: "held (handleReadErr now a w) \<subseteq> held w"
  by (auto simp: held_def handleReadErr_def split: answer.splits if_splits)

lemma held_handleErrorExit: "held (handleErrorExit e w) \<subseteq> held w"
  by (auto simp: held_def handleErrorExit_def setExitStatus_def notify_def split: option.splits if_splits)

lemma held_reap_worker: "held (reap_worker e status w) = held w"
  by (simp add: reap_worker_def Let_def)

lemma closed_pipes_held: "set (closed_pipes w w1) \<subseteq> held w"
  by (auto simp: closed_pipes_def held_def)

section \<open>The manager\<close>

lemma all_heldI: "map_of (cm_workers m) a = Some w \<Longrightarrow> held w \<subseteq> all_held m"
  by (force simp: all_held_def dest: map_of_SomeD)

lemma all_held_fields [simp]:
  "all_held (m\<lparr>cm_pidToWorker := x\<rparr>) = all_held m" "all_held (m\<lparr>cm_clientFdToWorker := y\<rparr>) = all_held m"
  "all_held (m\<lparr>cm_completedClients := z\<rparr>) = all_held m" "all_held (m\<lparr>cm_next := n\<rparr>) = all_held m"
  by (simp_all add: all_held_def)

lemma all_held_set_worker: "all_held (set_worker a w m) \<subseteq> all_held m \<union> held w"
  by (force simp: all_held_def set_worker_def split: if_splits)

lemma all_held_removeWorker: "all_held (removeWorker a m) \<subseteq> all_held m"
  by (auto simp: removeWorker_def all_held_def split: option.splits)

lemma all_held_replace:
  assumes "map_of (cm_workers m) a = Some w" "held v \<subseteq> held w" "cm_workers m' = cm_workers m"
  shows "all_held (set_worker a v m') \<subseteq> all_held m"
proof -
  have "all_held m' = all_held m" using assms(3) by (simp add: all_held_def)
  then show ?thesis using all_held_set_worker [of a v m'] all_heldI [OF assms(1)] assms(2) by blast
qed

lemma all_held_time_out_worker: "all_held (time_out_worker a m) \<subseteq> all_held m"
proof (cases "map_of (cm_workers m) a")
  case (Some w)
  then show ?thesis
    by (auto simp: time_out_worker_def Let_def dest!: subsetD [OF all_held_replace [OF Some], rotated 2])
qed (simp add: time_out_worker_def)

lemma all_held_reap: "all_held (reap r m) \<subseteq> all_held m"
proof -
  obtain pid e status where r: "r = (pid, e, status)" by (cases r)
  show ?thesis
    by (auto simp: r reap_def held_reap_worker split: option.splits
        dest!: subsetD [OF all_held_replace, rotated 3])
qed

lemma fold_subset: "(\<And>x s. f (g x s) \<subseteq> f s) \<Longrightarrow> f (fold g xs s) \<subseteq> f s"
  by (induction xs arbitrary: s) (auto, blast)

lemma all_held_cleanups:
  "all_held (cleanupTimedOutWorkers now m) \<subseteq> all_held m"
  "all_held (cleanupFinishedWorkers children m) \<subseteq> all_held m"
  unfolding cleanupTimedOutWorkers_def cleanupFinishedWorkers_def
  by (rule fold_subset, simp add: all_held_time_out_worker all_held_reap)+

lemma all_held_abortClient: "all_held (abortClient fd m) \<subseteq> all_held m"
  by (auto simp: abortClient_def split: option.splits dest!: subsetD [OF all_held_removeWorker])

lemma all_held_isCgiComplete:
  "isCgiComplete fd res m = (b, res2, m2) \<Longrightarrow> all_held m2 \<subseteq> all_held m"
  by (auto simp: isCgiComplete_def split: option.splits if_splits dest!: subsetD [OF all_held_removeWorker])

lemma held_execute:
  "held (execute now sp (new_worker now fd conf req s i)) \<subseteq> pipes sp"
  by (cases sp) (auto simp: held_def execute_def new_worker_def set_pipes_def Let_def)

lemma held_register:
  assumes "register_worker meth a w m = (m2, evs)"
  shows "all_held m2 \<subseteq> all_held m \<union> held w" and "fst ` set evs \<subseteq> held w \<union> {-1}"
proof -
  let ?w1 = "w\<lparr>wk_eventFds := [wk_readFd w, if length (worker_events meth a w) = 5 then wk_writeFd w else -1,
                wk_errFd w, wk_statusFd w, wk_completionOut w]\<rparr>"
  have "held ?w1 \<subseteq> held w" by (auto simp: held_def)
  moreover have "all_held m2 = all_held (set_worker a ?w1 m)"
  proof -
    have "m2 = fst (register_worker meth a w m)" using assms by simp
    then show ?thesis by (simp add: register_worker_def Let_def)
  qed
  ultimately show "all_held m2 \<subseteq> all_held m \<union> held w" using all_held_set_worker [of a ?w1 m] by blast
  have "evs = worker_events meth a w" using assms by (auto simp: register_worker_def Let_def split: if_splits)
  then show "fst ` set evs \<subseteq> held w \<union> {-1}" by (auto simp: worker_events_def held_def)
qed

lemma held_createWorker:
  assumes "createWorker os now sp ctx m = (res, m2, evs)"
  shows "all_held m2 \<subseteq> all_held m \<union> pipes sp" and "fst ` set evs \<subseteq> pipes sp \<union> {-1}"
proof -
  have "all_held m2 \<subseteq> all_held m \<union> pipes sp \<and> fst ` set evs \<subseteq> pipes sp \<union> {-1}"
  proof (cases "\<exists>status. cgi_target os ctx = Inr (Inl status) \<or> cm_maxWorkers m \<le> length (cm_workers m)")
    case True
    then show ?thesis using assms by (auto simp: createWorker_def Let_def split: if_splits sum.splits)
  next
    case False
    show ?thesis
    proof (cases "cgi_target os ctx")
      case (Inl e)
      then show ?thesis using assms by (auto simp: createWorker_def Let_def split: if_splits)
    next
      case (Inr t)
      then obtain s i where t: "cgi_target os ctx = Inr (Inr (s, i))" using False by (cases t) auto
      define w where "w = execute now sp (new_worker now (cl_fd (cx_ownerClient ctx)) (cx_conf ctx) (cx_req ctx) s i)"
      let ?m = "m\<lparr>cm_next := cm_next m + 1, cm_workers := cm_workers m @ [(cm_next m, w)]\<rparr>"
      have hw: "held w \<subseteq> pipes sp" by (simp add: w_def held_execute)
      then have hm: "all_held ?m \<subseteq> all_held m \<union> pipes sp" by (auto simp: all_held_def)
      show ?thesis
      proof (cases "wk_state w = CGI_ERROR")
        case True
        then have "m2 = ?m" "evs = []"
          using assms False t by (auto simp: createWorker_def Let_def w_def [symmetric] split: if_splits)
        then show ?thesis using hm by simp
      next
        case st: False
        then have "register_worker (rq_method (cx_req ctx)) (cm_next m) w ?m = (m2, evs)"
          using assms False t by (auto simp: createWorker_def Let_def w_def [symmetric] split: if_splits)
        from held_register [OF this] hw hm show ?thesis by blast
      qed
    qed
  qed
  then show "all_held m2 \<subseteq> all_held m \<union> pipes sp" and "fst ` set evs \<subseteq> pipes sp \<union> {-1}" by blast+
qed

section \<open>The pipeline\<close>

text \<open>What the pipeline may add: descriptors that the kernel has just handed out.\<close>

definition world_within :: "int set \<Rightarrow> World \<Rightarrow> bool" where
  "world_within R w \<longleftrightarrow> all_held (wo_cgi w) \<subseteq> R \<and> fst ` set (wo_events w) \<subseteq> R \<union> {-1}"

abbreviation within :: "int set \<Rightarrow> state \<Rightarrow> bool" where
  "within R s \<equiv> world_within R (snd s)"

lemma world_within_simps [simp]:
  "world_within R (w\<lparr>wo_sessions := m\<rparr>) = world_within R w"
  "world_within R (w\<lparr>wo_random := rd\<rparr>) = world_within R w"
  "world_within R (w\<lparr>wo_sessions := m, wo_random := rd\<rparr>) = world_within R w"
  "world_within R (w\<lparr>wo_effects := fx\<rparr>) = world_within R w"
  "world_within R (w\<lparr>wo_effects := fx, wo_random := rd\<rparr>) = world_within R w"
  by (simp_all add: world_within_def)

lemma within_call_handler:
  "call_handler env h ctx w = Some (r, w') \<Longrightarrow> world_within R w' = world_within R w"
  by (cases h) (auto simp: call_handler_def Let_def split: option.splits prod.splits)

interpretation route_within: chain_contract "sub_handle env" "\<lambda>m. pipes (en_spawn env) \<subseteq> R"
  "within R" "ends_with (within R)" for env R
proof unfold_locales
  fix m and s :: state and "next" :: continuation
  assume "pipes (en_spawn env) \<subseteq> R" and s: "within R s" and n: "\<And>s'. within R s' \<Longrightarrow> ends_with (within R) (next s')"
  obtain ctx w where sw: "s = (ctx, w)" by (cases s)
  have w: "world_within R w" using s by (simp add: sw)
  show "ends_with (within R) (sub_handle env m next s)"
  proof (cases m)
    case SessionMiddleware
    then show ?thesis using w n
      by (auto simp: sw session_mw_def Let_def split: prod.splits option.splits sum.splits if_splits)
  next
    case CgiRouterMiddleware
    have cgi: "world_within R (w\<lparr>wo_cgi := m2, wo_events := wo_events w @ evs\<rparr>)"
      if "createWorker os now (en_spawn env) ctx (wo_cgi w) = (res, m2, evs)" for os now res m2 evs
      using held_createWorker [OF that] w \<open>pipes (en_spawn env) \<subseteq> R\<close>
      by (auto simp: world_within_def)
    show ?thesis using w n cgi CgiRouterMiddleware
      by (auto simp: sw cgi_mw_def Let_def split: prod.splits sum.splits)
  next
    case (HandlerMiddleware hs)
    then show ?thesis using w within_call_handler
      by (auto simp: sw handler_mw_def Let_def split: prod.splits option.splits)
  qed
qed simp

lemma sub_run_within:
  "pipes (en_spawn env) \<subseteq> R \<Longrightarrow> within R s \<Longrightarrow> sub_run env chain s = Some (e, s') \<Longrightarrow> within R s'"
  using route_within.run [of env R chain s] by (simp add: sub_run_def list_all_iff)

lemma body_world:
  assumes "\<And>s'. snd s' = snd s \<Longrightarrow> P s'" "\<And>s'. snd s' = snd s \<Longrightarrow> ends_with P (next s')"
  shows "ends_with P (body_mw env next s)"
proof (cases "head_pending (fst s)")
  case True
  then have "rp_state (cx_parser (fst s)) \<noteq> STATE_BODY" by (auto simp: head_pending_def)
  then show ?thesis using assms(2) by (cases s) (simp add: body_mw_def)
qed (use assms in \<open>auto intro: body_stage\<close>)

lemma other_worlds:
  assumes "\<And>s'. snd s' = snd s \<Longrightarrow> P s'" "\<And>s'. snd s' = snd s \<Longrightarrow> ends_with P (next s')"
  shows "ends_with P (redirect_mw env next s)" "ends_with P (connection_mw env next s)"
  using assms
  by (cases s; auto simp: redirect_mw_def connection_mw_def Let_def split: sum.splits)+

interpretation main_within: chain_contract "main_step env restart"
  "\<lambda>m. pipes (en_spawn env) \<subseteq> R \<and> (\<forall>c s. within R s \<longrightarrow> ends_with (within R) (restart c s))"
  "within R" "ends_with (within R)" for env R restart
proof unfold_locales
  fix m and s :: state and "next" :: continuation
  assume c: "pipes (en_spawn env) \<subseteq> R \<and> (\<forall>c s. within R s \<longrightarrow> ends_with (within R) (restart c s))"
    and s: "within R s" and n: "\<And>s'. within R s' \<Longrightarrow> ends_with (within R) (next s')"
  have same: "within R s'" if "snd s' = snd s" for s' using that s by simp
  have go: "ends_with (within R) (next s')" if "snd s' = snd s" for s' using n same [OF that] .
  show "ends_with (within R) (main_step env restart m next s)"
  proof (cases m)
    case RequestLineParserMiddleware
    then show ?thesis using first_stages(1) [OF same go] by simp
  next
    case RequestHeadParserMiddleware
    then show ?thesis using first_stages(2) [OF same go] by simp
  next
    case VHostSelectMiddleware
    have "ends_with (within R) (vhost_mw env restart next s)"
      by (rule later_stages(1)) (use c s n in auto)
    then show ?thesis using VHostSelectMiddleware by simp
  next
    case RequestLimitsMiddleware
    then show ?thesis using later_stages(2) [OF same go] by simp
  next
    case RequestBodyParserMiddleware
    then show ?thesis using body_world [OF same go] by simp
  next
    case RedirectMiddleware
    then show ?thesis using other_worlds(1) [OF same go] by simp
  next
    case ConnectionHeaderMiddleware
    then show ?thesis using other_worlds(2) [OF same go] by simp
  next
    case (PipelineRouterMiddleware routes)
    obtain ctx w where sw: "s = (ctx, w)" by (cases s)
    have "within R s'" if "sub_run env chain s = Some (e, s')" for chain e s'
      using sub_run_within [OF _ s that] c by blast
    then show ?thesis using PipelineRouterMiddleware s n
      by (auto simp: sw router_mw_def Let_def split: option.splits prod.splits)
  next
    case ErrorHandlerMiddleware
    then show ?thesis using ends_error [OF same] by simp
  qed
qed simp

lemma main_handle_within:
  "pipes (en_spawn env) \<subseteq> R \<Longrightarrow> within R s \<Longrightarrow> ends_with (within R) (main_handle k env conf s)"
proof (induction k arbitrary: conf s)
  case (Suc k)
  then show ?case
    using main_within.run [of env R "main_handle k env" "buildRoute conf" s]
    by (simp add: main_run_def list_all_iff)
qed simp

end
