(* ===== verification/ServerInv.thy ===== *)
theory ServerInv
  imports Descriptors
begin

text \<open>
  The invariant of the server: which connections there are, which deadlines they have and which
  descriptors are watched for them always agree.  Every micro step of the event loop keeps it, as
  long as a descriptor that \<open>accept\<close> returns is not one that a worker still has recorded.
\<close>

section \<open>The invariant\<close>

definition client_addrs :: "event list \<Rightarrow> nat set" where
  "client_addrs es = {addr. ReadEvent addr \<in> set es \<or> WriteEvent addr \<in> set es}"

definition addrs_at :: "Server \<Rightarrow> int \<Rightarrow> nat set" where
  "addrs_at sv fd = client_addrs (events_of fd (sv_em sv))"

abbreviation clients :: "Server \<Rightarrow> int \<Rightarrow> Conn option" where
  "clients sv \<equiv> map_of (sv_clients sv)"

abbreviation kind_at :: "Server \<Rightarrow> int \<Rightarrow> bool option" where
  "kind_at sv \<equiv> kind_of (sv_em sv)"

definition client_ok :: "Server \<Rightarrow> int \<Rightarrow> Conn \<Rightarrow> bool" where
  "client_ok sv fd c \<longleftrightarrow>
     0 < cn_addr c \<and> cn_addr c < sv_next sv \<and> kind_at sv fd = Some True \<and>
     watched (sv_em sv) fd = Some [ReadEvent (cn_addr c), WriteEvent (cn_addr c)] \<and>
     map_of (sv_epoll sv) fd \<noteq> None \<and> fd \<notin> all_held (wo_cgi (sv_world sv)) \<and> fd \<noteq> -1"

text \<open>
  \<open>D\<close> holds the clients whose deadline has been taken out and which are about to be told; between
  two steps of the loop it is empty.
\<close>

definition server_inv :: "nat set \<Rightarrow> Server \<Rightarrow> bool" where
  "server_inv D sv \<longleftrightarrow>
     timers_ok (sv_timers sv) \<and> om_ok (sv_clients sv) \<and> 0 < sv_next sv \<and>
     wo_events (sv_world sv) = [] \<and>
     (\<forall>fd c. clients sv fd = Some c \<longrightarrow> client_ok sv fd c) \<and>
     (\<forall>fd fd' c c'. clients sv fd = Some c \<longrightarrow> clients sv fd' = Some c' \<longrightarrow> cn_addr c = cn_addr c' \<longrightarrow> fd = fd') \<and>
     (\<forall>x. deadlines (sv_timers sv) x \<noteq> None \<longleftrightarrow>
        x \<notin> D \<and> (\<exists>fd c. clients sv fd = Some c \<and> cn_addr c = x)) \<and>
     (\<forall>fd. kind_at sv fd = Some True \<longrightarrow> clients sv fd \<noteq> None) \<and>
     (\<forall>fd. clients sv fd = None \<longrightarrow> addrs_at sv fd = {})"

lemma server_invD:
  assumes "server_inv D sv"
  shows "timers_ok (sv_timers sv)" "om_ok (sv_clients sv)" "0 < sv_next sv"
    "wo_events (sv_world sv) = []"
    "clients sv fd = Some c \<Longrightarrow> client_ok sv fd c"
    "clients sv fd = Some c \<Longrightarrow> clients sv fd' = Some c' \<Longrightarrow> cn_addr c = cn_addr c' \<Longrightarrow> fd = fd'"
    "deadlines (sv_timers sv) x \<noteq> None \<longleftrightarrow> x \<notin> D \<and> (\<exists>fd c. clients sv fd = Some c \<and> cn_addr c = x)"
    "kind_at sv fd = Some True \<Longrightarrow> clients sv fd \<noteq> None"
    "clients sv fd = None \<Longrightarrow> addrs_at sv fd = {}"
  using assms unfolding server_inv_def by blast+

section \<open>Steps beside the clients\<close>

text \<open>A step that changes the tables only for the descriptors in \<open>F\<close>, and makes none of them a
  client's.\<close>

definition beside :: "int set \<Rightarrow> Server \<Rightarrow> Server \<Rightarrow> bool" where
  "beside F sv sv' \<longleftrightarrow>
     sv_clients sv' = sv_clients sv \<and> sv_timers sv' = sv_timers sv \<and> sv_next sv' = sv_next sv \<and>
     wo_events (sv_world sv') = wo_events (sv_world sv) \<and>
     (\<forall>fd. fd \<notin> F \<longrightarrow> watched (sv_em sv') fd = watched (sv_em sv) fd \<and> kind_at sv' fd = kind_at sv fd \<and>
        map_of (sv_epoll sv') fd = map_of (sv_epoll sv) fd) \<and>
     (\<forall>fd. kind_at sv' fd = Some True \<longrightarrow> kind_at sv fd = Some True) \<and>
     (\<forall>fd. addrs_at sv' fd \<subseteq> addrs_at sv fd)"

lemma beside_refl [simp]: "beside F sv sv"
  by (simp add: beside_def)

lemma beside_trans:
  assumes "beside F sv sv'" "beside G sv' sv''"
  shows "beside (F \<union> G) sv sv''"
proof -
  have "addrs_at sv'' fd \<subseteq> addrs_at sv fd" for fd
    using assms by (meson beside_def order_trans)
  then show ?thesis using assms unfolding beside_def by simp
qed

lemma beside_mono: "beside F sv sv' \<Longrightarrow> F \<subseteq> G \<Longrightarrow> beside G sv sv'"
  unfolding beside_def by blast

lemma beside_same: "beside F sv sv' \<Longrightarrow> beside F sv' sv'' \<Longrightarrow> beside F sv sv''"
  using beside_trans by fastforce

lemma addrs_at_None [simp]: "watched (sv_em sv) fd = None \<Longrightarrow> addrs_at sv fd = {}"
  by (simp add: addrs_at_def client_addrs_def events_of_def)

lemma beside_close [simp]: "beside {fd} sv (close_fd fd sv)"
  by (auto simp: beside_def close_fd_def addrs_at_def)

lemma beside_unregister [simp]: "beside {fd} sv (unregisterSocket fd sv)"
  by (auto simp: beside_def unregisterSocket_def addrs_at_def)

lemma beside_forget [simp]: "beside {fd} sv (on_em (forgetFd fd) sv)"
  by (auto simp: beside_def on_em_def table_simps addrs_at_def client_addrs_def events_of_def)

lemma beside_detach [simp]: "beside {fd} sv (detach_fd fd sv)"
  unfolding detach_fd_def by (rule beside_same [OF beside_unregister beside_forget])

lemma beside_on_cgi [simp]: "beside F sv (on_cgi f sv)"
  by (simp add: beside_def on_cgi_def addrs_at_def)

lemma beside_dangling [simp]: "beside F sv (sv\<lparr>sv_dangling := b\<rparr>)"
  by (simp add: beside_def addrs_at_def)

lemma beside_fold:
  "(\<And>x sv. x \<in> set xs \<Longrightarrow> beside F sv (g x sv)) \<Longrightarrow> beside F sv (fold g xs sv)"
  by (induction xs arbitrary: sv) (simp, metis beside_same fold_simps(2) list.set_intros)

lemma beside_destroy: "beside (held w) sv (destroy_worker keep w sv)"
proof -
  have "beside (held w) sv (detachEvents keep w sv)" for sv
    unfolding detachEvents_def
    by (rule beside_fold, rule beside_mono [OF beside_detach]) (auto simp: held_def)
  moreover have "beside (held w) sv (fold closePipe
      ([wk_writeFd w, wk_readFd w, wk_errFd w] @ (if keep then [] else [wk_completionOut w]) @
        [wk_completionIn w, wk_statusFd w]) sv)" for sv
    by (rule beside_fold) (auto simp: held_def closePipe_def intro!: beside_mono [OF beside_close] split: if_splits)
  ultimately show ?thesis unfolding destroy_worker_def by (rule beside_same)
qed

lemma cgi_of_frames [simp]:
  "sv_world (close_fd fd sv) = sv_world sv" "sv_world (detach_fd fd sv) = sv_world sv"
  "sv_world (unregisterSocket fd sv) = sv_world sv" "sv_world (on_em f sv) = sv_world sv"
  "sv_world (set_conn fd c sv) = sv_world sv" "sv_world (closePipe fd sv) = sv_world sv"
  by (simp_all add: close_fd_def detach_fd_def unregisterSocket_def on_em_def set_conn_def closePipe_def)

lemma fold_world: "(\<And>x sv. sv_world (g x sv) = sv_world sv) \<Longrightarrow> sv_world (fold g xs sv) = sv_world sv"
  by (induction xs arbitrary: sv) simp_all

lemma cgi_of_destroy [simp]: "sv_world (destroy_worker keep w sv) = sv_world sv"
  by (simp add: destroy_worker_def detachEvents_def fold_world del: fold_append)

lemma cgi_on_cgi [simp]: "wo_cgi (sv_world (on_cgi f sv)) = f (wo_cgi (sv_world sv))"
  by (simp add: on_cgi_def)

lemma worker_held: "worker_of_client fd sv = Some w \<Longrightarrow> held w \<subseteq> all_held (wo_cgi (sv_world sv))"
  by (auto simp: worker_of_client_def Let_def split: option.splits dest: all_heldI)

lemma beside_abort:
  "beside (all_held (wo_cgi (sv_world sv))) sv (abort_client fd sv)"
  "all_held (wo_cgi (sv_world (abort_client fd sv))) \<subseteq> all_held (wo_cgi (sv_world sv))"
  using beside_same [OF beside_on_cgi beside_mono [OF beside_destroy worker_held]]
  by (auto simp: abort_client_def split: option.splits dest: subsetD [OF all_held_abortClient])

lemma inv_beside:
  assumes "server_inv D sv" "beside F sv sv'" "\<And>fd c. clients sv fd = Some c \<Longrightarrow> fd \<notin> F"
    and "all_held (wo_cgi (sv_world sv')) \<inter> dom (clients sv) = {}"
  shows "server_inv D sv'"
proof -
  note i = server_invD [OF assms(1)] and b = assms(2) [unfolded beside_def]
  have "client_ok sv' fd c" if "clients sv fd = Some c" for fd c
    using i(5) [OF that] assms(3) [OF that] assms(4) b that by (auto simp: client_ok_def)
  then show ?thesis using i b unfolding server_inv_def by simp blast
qed

section \<open>Steps of a client\<close>

lemma addrs_at_fields [simp]:
  "addrs_at (sv\<lparr>sv_clients := x\<rparr>) = addrs_at sv" "addrs_at (sv\<lparr>sv_timers := y\<rparr>) = addrs_at sv"
  "addrs_at (sv\<lparr>sv_epoll := z\<rparr>) = addrs_at sv"
  by (simp_all add: addrs_at_def fun_eq_iff)

lemma inv_set_conn:
  assumes "server_inv D sv" "clients sv fd = Some c" "cn_addr c' = cn_addr c"
  shows "server_inv D (set_conn fd c' sv)"
proof -
  note i = server_invD [OF assms(1)]
  have ok: "client_ok (set_conn fd c' sv) f d" if "clients (set_conn fd c' sv) f = Some d" for f d
    using that i(5) [OF assms(2)] i(5) [of f d] assms(3)
    by (auto simp: client_ok_def set_conn_def split: if_splits)
  have addr: "\<exists>d'. clients sv f = Some d' \<and> cn_addr d' = cn_addr d"
    if "clients (set_conn fd c' sv) f = Some d" for f d
    using that assms(2,3) by (auto simp: set_conn_def split: if_splits)
  have dom: "(\<exists>f d. clients (set_conn fd c' sv) f = Some d \<and> cn_addr d = x) \<longleftrightarrow>
      (\<exists>f d. clients sv f = Some d \<and> cn_addr d = x)" for x
  proof
    assume "\<exists>f d. clients (set_conn fd c' sv) f = Some d \<and> cn_addr d = x"
    then show "\<exists>f d. clients sv f = Some d \<and> cn_addr d = x" using addr by blast
  next
    assume "\<exists>f d. clients sv f = Some d \<and> cn_addr d = x"
    then obtain f d where fd: "clients sv f = Some d" "cn_addr d = x" by blast
    show "\<exists>f d. clients (set_conn fd c' sv) f = Some d \<and> cn_addr d = x"
      using fd assms(2,3) by (cases "f = fd") (auto simp: set_conn_def)
  qed
  have inj: "f = g" if "clients (set_conn fd c' sv) f = Some d" "clients (set_conn fd c' sv) g = Some e"
    "cn_addr d = cn_addr e" for f g d e
    using addr [OF that(1)] addr [OF that(2)] that(3) i(6) by force
  have rest: "sv_timers (set_conn fd c' sv) = sv_timers sv" "sv_next (set_conn fd c' sv) = sv_next sv"
    "sv_em (set_conn fd c' sv) = sv_em sv" "om_ok (sv_clients (set_conn fd c' sv))"
    "clients (set_conn fd c' sv) = (clients sv)(fd \<mapsto> c')"
    using i(2) by (simp_all add: set_conn_def)
  have other: "clients (set_conn fd c' sv) f = None \<longleftrightarrow> clients sv f = None" for f
    using assms(2) by (simp add: rest)
  have ad: "addrs_at (set_conn fd c' sv) = addrs_at sv" by (simp add: set_conn_def)
  show ?thesis
    unfolding server_inv_def dom other ad rest(1-3) cgi_of_frames(5)
    using i(1,3,4,7,8,9) rest(4) ok inj by blast
qed

lemma inv_add_timer:
  assumes "server_inv D sv" "clients sv fd = Some c"
  shows "server_inv (D - {cn_addr c}) (sv\<lparr>sv_timers := add_timer now (cn_addr c) d (sv_timers sv)\<rparr>)"
proof -
  note i = server_invD [OF assms(1)]
  have pos: "cn_addr c \<noteq> 0" using i(5) [OF assms(2)] by (simp add: client_ok_def)
  show ?thesis
    using i assms(2) unfolding server_inv_def
    by (simp add: add_timer_ok deadlines_add pos client_ok_def) blast
qed

lemma modify_client:
  assumes "server_inv D sv" "clients sv fd = Some c"
  shows "\<exists>sv'. modifySocket fd events sv = (None, sv') \<and> server_inv D sv' \<and>
    sv_clients sv' = sv_clients sv \<and> sv_timers sv' = sv_timers sv"
proof -
  note i = server_invD [OF assms(1)]
  have "map_of (sv_epoll sv) fd \<noteq> None" using i(5) [OF assms(2)] by (simp add: client_ok_def)
  moreover have "server_inv D (sv\<lparr>sv_epoll := om_set fd events (sv_epoll sv)\<rparr>)"
    using i unfolding server_inv_def by (simp add: client_ok_def) blast
  ultimately show ?thesis by (simp add: modifySocket_def has_key_def)
qed

lemma inv_abort:
  assumes "server_inv D sv"
  shows "server_inv D (abort_client fd sv)" "sv_clients (abort_client fd sv) = sv_clients sv"
proof -
  note i = server_invD [OF assms]
  have "f \<notin> all_held (wo_cgi (sv_world sv))" if "clients sv f = Some c" for f c
    using i(5) [OF that] by (simp add: client_ok_def)
  then show "server_inv D (abort_client fd sv)"
    by (intro inv_beside [OF assms beside_abort(1)]) (use beside_abort(2) [of fd sv] in auto)
  show "sv_clients (abort_client fd sv) = sv_clients sv"
    using beside_abort(1) [of sv fd] by (simp add: beside_def)
qed

lemma inv_close:
  assumes "server_inv D sv" "clients sv fd = Some c"
  shows "server_inv (D - {cn_addr c}) (closeConnection fd sv)"
    and "clients (closeConnection fd sv) = (clients sv)(fd := None)"
    and "deadlines (sv_timers (closeConnection fd sv)) = (deadlines (sv_timers sv))(cn_addr c := None)"
    and "last (sv_closed (closeConnection fd sv)) = fd"
proof -
  define sv1 where "sv1 = abort_client fd sv"
  have inv1: "server_inv D sv1" and same: "sv_clients sv1 = sv_clients sv"
    using inv_abort [OF assms(1)] by (simp_all add: sv1_def)
  have t1: "sv_timers sv1 = sv_timers sv" using beside_abort(1) [of sv fd] by (simp add: beside_def sv1_def)
  note i = server_invD [OF inv1]
  have c: "clients sv1 fd = Some c" using same assms(2) by simp
  have result: "closeConnection fd sv = sv1\<lparr>sv_em := forgetFd fd (sv_em sv1),
      sv_epoll := om_erase fd (om_erase fd (sv_epoll sv1)), sv_timers := remove_timer (cn_addr c) (sv_timers sv1),
      sv_closed := sv_closed sv1 @ [fd], sv_clients := om_erase fd (sv_clients sv1)\<rparr>"
    using c by (simp add: closeConnection_def Let_def sv1_def [symmetric] on_em_def unregisterSocket_def close_fd_def)
  have inj: "f = fd" if "clients sv1 f = Some d" "cn_addr d = cn_addr c" for f d
    using i(6) [OF that(1) c that(2)] .
  have addrs: "addrs_at (closeConnection fd sv) f = (if f = fd then {} else addrs_at sv1 f)" for f
    by (simp add: result addrs_at_def events_of_watched table_simps client_addrs_def)
  show "clients (closeConnection fd sv) = (clients sv)(fd := None)"
    and d: "deadlines (sv_timers (closeConnection fd sv)) = (deadlines (sv_timers sv))(cn_addr c := None)"
    and "last (sv_closed (closeConnection fd sv)) = fd"
    using deadlines_remove [OF i(1)] by (simp_all add: result same t1)
  have ok: "client_ok (closeConnection fd sv) f e" if "f \<noteq> fd" "clients sv1 f = Some e" for f e
    using i(5) [OF that(2)] that(1) by (simp add: client_ok_def result table_simps)
  have dom: "((deadlines (sv_timers sv))(cn_addr c := None)) x \<noteq> None \<longleftrightarrow>
      x \<notin> D - {cn_addr c} \<and> (\<exists>f e. ((clients sv1)(fd := None)) f = Some e \<and> cn_addr e = x)" for x
  proof (cases "x = cn_addr c")
    case True
    then show ?thesis using inj by auto
  next
    case False
    then have "(\<exists>f e. ((clients sv1)(fd := None)) f = Some e \<and> cn_addr e = x) \<longleftrightarrow>
        (\<exists>f e. clients sv1 f = Some e \<and> cn_addr e = x)"
      using c by (metis fun_upd_apply option.distinct(1) option.inject)
    then show ?thesis using i(7) [of x] False by (simp add: t1)
  qed
  have cl: "clients (closeConnection fd sv) = (clients sv1)(fd := None)" by (simp add: result)
  have kind: "kind_at (closeConnection fd sv) f = Some True \<longleftrightarrow> f \<noteq> fd \<and> kind_at sv1 f = Some True" for f
    by (simp add: result table_simps)
  have rest: "timers_ok (sv_timers (closeConnection fd sv))" "om_ok (sv_clients (closeConnection fd sv))"
    "sv_next (closeConnection fd sv) = sv_next sv1"
    "wo_events (sv_world (closeConnection fd sv)) = wo_events (sv_world sv1)"
    using i(1,2) by (simp_all add: result remove_timer_ok)
  show "server_inv (D - {cn_addr c}) (closeConnection fd sv)"
    unfolding server_inv_def d addrs cl kind dom
    using rest i(3,4,6,8,9) ok by (simp split: if_splits)
qed

section \<open>Requests\<close>

text \<open>The client at \<open>fd\<close> is still the same object, and no other has changed.\<close>

definition keeps_client :: "int \<Rightarrow> Server \<Rightarrow> Server \<Rightarrow> bool" where
  "keeps_client fd sv sv' \<longleftrightarrow>
     (\<exists>c c'. clients sv fd = Some c \<and> cn_addr c' = cn_addr c \<and> clients sv' = (clients sv)(fd \<mapsto> c'))"

lemma keeps_clientD:
  assumes "keeps_client fd sv sv'" "clients sv fd = Some c"
  obtains c' where "clients sv' fd = Some c'" "cn_addr c' = cn_addr c"
  using assms by (auto simp: keeps_client_def)

lemma keeps_client_trans: "keeps_client fd sv sv' \<Longrightarrow> keeps_client fd sv' sv'' \<Longrightarrow> keeps_client fd sv sv''"
  unfolding keeps_client_def by fastforce

lemma keeps_client_same: "clients sv fd = Some c \<Longrightarrow> clients sv' = clients sv \<Longrightarrow> keeps_client fd sv sv'"
  by (auto simp: keeps_client_def fun_upd_idem)

lemma keeps_client_set: "clients sv fd = Some c \<Longrightarrow> cn_addr c' = cn_addr c \<Longrightarrow> keeps_client fd sv (set_conn fd c' sv)"
  by (auto simp: keeps_client_def set_conn_def)

lemma inv_updateTimeout:
  assumes "server_inv D sv" "clients sv fd = Some c"
  shows "server_inv (D - {cn_addr c}) (updateTimeout now fd sv)"
    and "sv_clients (updateTimeout now fd sv) = sv_clients sv"
  using inv_add_timer [OF assms] assms(2) by (simp_all add: updateTimeout_def)

lemma inv_generateResponse:
  assumes "server_inv D sv" "clients sv fd = Some c"
  shows "\<exists>sv'. generateResponse date fd sv = (None, sv') \<and> server_inv D sv' \<and> keeps_client fd sv sv'"
proof (cases "has_answer (cn_ctx c)")
  case False
  then show ?thesis using assms by (simp add: generateResponse_def keeps_client_same)
next
  case True
  define c1 where "c1 = c\<lparr>cn_ctx := map_res (complete_headers date) (cn_ctx c),
      cn_sendBuffer := cn_sendBuffer c @ build date (cx_res (cn_ctx c))\<rparr>"
  have addr: "cn_addr c1 = cn_addr c" by (simp add: c1_def)
  note inv = inv_set_conn [OF assms addr]
  have here: "clients (set_conn fd c1 sv) fd = Some c1" by (simp add: set_conn_def)
  note kc = keeps_client_set [OF assms(2) addr]
  obtain sv' where m: "modifySocket fd (or EPOLLIN EPOLLOUT) (set_conn fd c1 sv) = (None, sv')"
    and "server_inv D sv'" "sv_clients sv' = sv_clients (set_conn fd c1 sv)"
    using modify_client [OF inv here] by blast
  moreover have "keeps_client fd sv sv'"
    using kc keeps_client_same [OF here] \<open>sv_clients sv' = _\<close> keeps_client_trans by metis
  ultimately show ?thesis using True assms(2) inv kc
    by (auto simp: generateResponse_def c1_def [symmetric] Let_def)
qed

lemma beside_watch_cgi: "beside {fst p} sv (watch_cgi p sv)"
proof -
  obtain fd e where p: "p = (fd, e)" by (cases p)
  have "addrs_at (watch_cgi p sv) x \<subseteq> addrs_at sv x" for x
    by (auto simp: p watch_cgi_def watch_def on_em_def addrs_at_def client_addrs_def events_of_watched
        table_simps)
  then show ?thesis by (auto simp: beside_def p watch_cgi_def watch_def on_em_def table_simps)
qed

lemma world_of_watch [simp]: "sv_world (watch_cgi p sv) = sv_world sv"
  by (simp add: watch_cgi_def watch_def on_em_def)

text \<open>The descriptors of a new worker are not those of a client: the kernel has just opened them.\<close>

definition new_pipes :: "Env \<Rightarrow> Server \<Rightarrow> bool" where
  "new_pipes env sv \<longleftrightarrow> pipes (en_spawn env) \<inter> dom (clients sv) = {}"

lemma clients_not_held:
  "server_inv D sv \<Longrightarrow> (all_held (wo_cgi (sv_world sv)) \<union> {-1}) \<inter> dom (clients sv) = {}"
  using server_invD(5) by (fastforce simp: client_ok_def)

lemma inv_after_pipeline:
  assumes "server_inv D sv" "clients sv fd = Some c" "new_pipes env sv"
    and "ends_with (within (all_held (wo_cgi (sv_world sv)) \<union> pipes (en_spawn env))) (Some (e, ctx, w))"
  shows "server_inv D (after_pipeline fd c (ctx, w) sv)" "keeps_client fd sv (after_pipeline fd c (ctx, w) sv)"
    and "clients (after_pipeline fd c (ctx, w) sv) fd = Some (c\<lparr>cn_ctx := ctx\<rparr>)"
proof -
  define sv0 where "sv0 = sv\<lparr>sv_world := w\<lparr>wo_events := []\<rparr>\<rparr>"
  define sv1 where "sv1 = set_conn fd (c\<lparr>cn_ctx := ctx\<rparr>) sv0"
  let ?R = "all_held (wo_cgi (sv_world sv)) \<union> pipes (en_spawn env) \<union> {-1}"
  have free: "?R \<inter> dom (clients sv) = {}"
    using clients_not_held [OF assms(1)] assms(3) by (auto simp: new_pipes_def)
  have w: "all_held (wo_cgi w) \<subseteq> ?R" "fst ` set (wo_events w) \<subseteq> ?R"
    using assms(4) by (auto simp: world_within_def)
  from w(1) free have apart: "all_held (wo_cgi w) \<inter> dom (clients sv) = {}" by blast
  have b0: "beside {} sv sv0"
    using server_invD(4) [OF assms(1)] by (simp add: beside_def sv0_def addrs_at_def)
  have inv0: "server_inv D sv0"
    by (rule inv_beside [OF assms(1) b0]) (use apart in \<open>simp_all add: sv0_def\<close>)
  have c0: "clients sv0 fd = Some c" using assms(2) by (simp add: sv0_def)
  have inv1: "server_inv D sv1" unfolding sv1_def by (rule inv_set_conn [OF inv0 c0]) simp
  have dom1: "dom (clients sv1) = dom (clients sv)" and c1: "clients sv1 fd = Some (c\<lparr>cn_ctx := ctx\<rparr>)"
    using assms(2) by (auto simp: sv1_def sv0_def set_conn_def)
  have result: "after_pipeline fd c (ctx, w) sv = fold watch_cgi (wo_events w) sv1"
    by (simp add: after_pipeline_def sv1_def sv0_def)
  have b: "beside ?R sv1 (fold watch_cgi (wo_events w) sv1)"
    by (rule beside_fold, rule beside_mono [OF beside_watch_cgi]) (use w(2) in auto)
  have world: "sv_world (fold watch_cgi (wo_events w) sv1) = w\<lparr>wo_events := []\<rparr>"
    by (simp add: fold_world) (simp add: sv1_def sv0_def set_conn_def)
  show "server_inv D (after_pipeline fd c (ctx, w) sv)"
    unfolding result
    by (rule inv_beside [OF inv1 b]) (use free dom1 apart world in auto)
  have same: "sv_clients (fold watch_cgi (wo_events w) sv1) = sv_clients sv1" using b by (simp add: beside_def)
  then show "clients (after_pipeline fd c (ctx, w) sv) fd = Some (c\<lparr>cn_ctx := ctx\<rparr>)"
    by (simp add: result c1)
  show "keeps_client fd sv (after_pipeline fd c (ctx, w) sv)"
    unfolding result keeps_client_def using same assms(2)
    by (intro exI [of _ c] exI [of _ "c\<lparr>cn_ctx := ctx\<rparr>"]) (simp add: sv1_def sv0_def set_conn_def)
qed

lemma inv_handleRequest:
  assumes "server_inv D sv" "clients sv fd = Some c" "new_pipes env sv"
    and "handleRequest env date fd sv = Some (e, sv')"
  shows "server_inv D sv'" "keeps_client fd sv sv'"
proof -
  let ?run = "main_handle 2 env (en_vhosts env ! cl_activeVhost (cx_ownerClient (cn_ctx c))) (cn_ctx c, sv_world sv)"
  obtain e1 ctx w where r: "?run = Some (e1, ctx, w)"
    using assms(2,4) by (auto simp: handleRequest_def split: option.splits)
  have "within (all_held (wo_cgi (sv_world sv)) \<union> pipes (en_spawn env)) (cn_ctx c, sv_world sv)"
    using server_invD(4) [OF assms(1)] by (auto simp: world_within_def)
  then have "ends_with (within (all_held (wo_cgi (sv_world sv)) \<union> pipes (en_spawn env))) (Some (e1, ctx, w))"
    using main_handle_within [of env] r by (metis Un_upper2)
  note a = inv_after_pipeline [OF assms(1-3) this]
  let ?sv1 = "after_pipeline fd c (ctx, w) sv"
  have set_ok: "server_inv D (set_conn fd (c\<lparr>cn_ctx := x\<rparr>) ?sv1)"
    "keeps_client fd sv (set_conn fd (c\<lparr>cn_ctx := x\<rparr>) ?sv1)" for x
    using inv_set_conn [OF a(1,3)] keeps_client_trans [OF a(2) keeps_client_set [OF a(3)]] by simp_all
  obtain sv2 where "generateResponse date fd ?sv1 = (None, sv2)" "server_inv D sv2" "keeps_client fd sv sv2"
    using inv_generateResponse [OF a(1,3)] keeps_client_trans [OF a(2)] by blast
  then show "server_inv D sv'" "keeps_client fd sv sv'"
    using assms(2,4) r a set_ok
    by (auto simp: handleRequest_def Let_def split: option.splits if_splits)
qed

section \<open>Removing a descriptor is closing its connection\<close>

lemma om_erase_none: "map_of m k = None \<Longrightarrow> om_erase k m = m"
  by (induction m) (auto simp: om_erase_def split: if_splits)

lemma om_erase_commute: "om_erase j (om_erase k m) = om_erase k (om_erase j m)"
  by (simp add: om_erase_def conj_commute)

lemma om_erase_twice [simp]: "om_erase k (om_erase k m) = om_erase k m"
  by (simp add: om_erase_def)

lemma clearEvents_eq: "clearEvents fd em = em\<lparr>em_eventsTable := om_erase fd (em_eventsTable em)\<rparr>"
  by (simp add: clearEvents_def has_key_def om_erase_none)

lemma forgetFd_eq:
  "forgetFd fd em = em\<lparr>em_eventsTable := om_erase fd (em_eventsTable em),
     em_clientTable := om_erase fd (em_clientTable em)\<rparr>"
  by (simp add: forgetFd_def clearEvents_eq has_key_def om_erase_none Let_def)

abbreviation clear_fd :: "int \<Rightarrow> Server \<Rightarrow> Server" where
  "clear_fd fd \<equiv> on_em (clearEvents fd)"

lemma clear_commutes:
  "clear_fd fd (detach_fd x sv) = detach_fd x (clear_fd fd sv)"
  "clear_fd fd (closePipe x sv) = closePipe x (clear_fd fd sv)"
  by (simp_all add: detach_fd_def unregisterSocket_def on_em_def clearEvents_eq forgetFd_eq
      om_erase_commute closePipe_def close_fd_def)

lemma clear_destroy: "clear_fd fd (destroy_worker keep w sv) = destroy_worker keep w (clear_fd fd sv)"
proof -
  have d: "clear_fd fd (fold detach_fd xs s) = fold detach_fd xs (clear_fd fd s)" for xs s
    by (induction xs arbitrary: s) (simp_all add: clear_commutes)
  have p: "clear_fd fd (fold closePipe xs s) = fold closePipe xs (clear_fd fd s)" for xs s
    by (induction xs arbitrary: s) (simp_all add: clear_commutes)
  show ?thesis unfolding destroy_worker_def detachEvents_def p d ..
qed

lemma clear_abort: "clear_fd fd (abort_client x sv) = abort_client x (clear_fd fd sv)"
proof -
  have "worker_of_client x (clear_fd fd sv) = worker_of_client x sv"
    "clear_fd fd (on_cgi f sv) = on_cgi f (clear_fd fd sv)" for f
    by (simp_all add: worker_of_client_def on_em_def on_cgi_def)
  then show ?thesis by (simp add: abort_client_def clear_destroy split: option.splits)
qed

lemma close_cleared: "closeConnection fd (clear_fd fd sv) = closeConnection fd sv"
proof -
  have "on_em (forgetFd fd) (unregisterSocket fd (clear_fd fd s)) = on_em (forgetFd fd) (unregisterSocket fd s)"
    for s by (simp add: on_em_def unregisterSocket_def clearEvents_eq forgetFd_eq)
  then show ?thesis by (simp add: closeConnection_def flip: clear_abort)
qed

lemma removeClientFd_close:
  assumes "kind_at sv fd = Some True"
  shows "removeClientFd fd sv = closeConnection fd sv"
proof -
  let ?put = "\<lambda>em sv. sv\<lparr>sv_em := em\<rparr>"
  have put: "?put (clearEvents fd (sv_em sv)) sv = clear_fd fd sv" by (simp add: on_em_def)
  have k: "kind_at (clear_fd fd sv) fd = Some True" using assms by (simp add: on_em_def table_simps)
  have "map_of (em_clientTable (sv_em (closeConnection fd sv))) fd = None"
    by (auto simp: closeConnection_def Let_def close_fd_def unregisterSocket_def on_em_def table_simps
        split: option.splits)
  then have "?put ((sv_em (closeConnection fd sv))\<lparr>em_clientTable :=
      om_erase fd (em_clientTable (sv_em (closeConnection fd sv)))\<rparr>) (closeConnection fd sv) = closeConnection fd sv"
    by (simp add: om_erase_none)
  then show ?thesis
    using k by (simp add: removeClientFd_def removeFd_def put Let_def close_cleared)
qed

section \<open>Events of a client\<close>

lemma keeps_clientI:
  "clients sv fd = Some c \<Longrightarrow> cn_addr c' = cn_addr c \<Longrightarrow> clients sv' = (clients sv)(fd \<mapsto> c') \<Longrightarrow>
    keeps_client fd sv sv'"
  unfolding keeps_client_def by blast

text \<open>The client is kept, or its connection is closed.\<close>

definition keeps_or_closes :: "int \<Rightarrow> Server \<Rightarrow> Server \<Rightarrow> bool" where
  "keeps_or_closes fd sv sv' \<longleftrightarrow> keeps_client fd sv sv' \<or> clients sv' = (clients sv)(fd := None)"

lemma keeps_then_closes:
  "keeps_client fd sv sv' \<Longrightarrow> clients sv'' = (clients sv')(fd := None) \<Longrightarrow> clients sv'' = (clients sv)(fd := None)"
  by (auto simp: keeps_client_def)

lemma inv_handleReadEvent:
  assumes "server_inv {} sv" "clients sv fd = Some c" "new_pipes env sv"
    and "handleReadEvent env date now r fd sv = Some (e, sv')"
  shows "server_inv {} sv'" "keeps_or_closes fd sv sv'"
proof -
  have close: "server_inv {} (closeConnection fd sv)" "keeps_or_closes fd sv (closeConnection fd sv)"
    using inv_close [OF assms(1,2)] by (simp_all add: keeps_or_closes_def)
  have same: "keeps_or_closes fd sv sv" using keeps_client_same [OF assms(2)] by (simp add: keeps_or_closes_def)
  have "server_inv {} sv' \<and> keeps_or_closes fd sv sv'"
  proof (cases r)
    case (Received bytes)
    let ?c = "append_received bytes c" and ?sv = "set_conn fd (append_received bytes c) sv"
    have addr: "cn_addr ?c = cn_addr c" by (simp add: append_received_def)
    note inv0 = inv_set_conn [OF assms(1,2) addr]
    have c0: "clients ?sv fd = Some ?c" and p0: "new_pipes env ?sv"
      using assms(2,3) by (auto simp: set_conn_def new_pipes_def)
    obtain e1 sv1 where h: "handleRequest env date fd ?sv = Some (e1, sv1)"
      using assms(2,4) Received by (auto simp: handleReadEvent_def)
    note q = inv_handleRequest [OF inv0 c0 p0 h]
    have k1: "keeps_client fd sv sv1" using keeps_client_trans [OF keeps_client_set [OF assms(2) addr] q(2)] .
    obtain c1 where c1: "clients sv1 fd = Some c1" using k1 assms(2) by (auto elim: keeps_clientD)
    note u = inv_updateTimeout [OF q(1) c1, of now]
    have k2: "keeps_client fd sv (updateTimeout now fd sv1)"
      using k1 u(2) keeps_client_same [OF c1] keeps_client_trans by metis
    show ?thesis
      using assms(2,4) Received h q(1) u(1) k1 k2
      by (cases e1) (auto simp: handleReadEvent_def keeps_or_closes_def)
  qed (use assms(1,2,4) close same in \<open>auto simp: handleReadEvent_def split: if_splits\<close>)
  then show "server_inv {} sv'" "keeps_or_closes fd sv sv'" by simp_all
qed

lemma inv_handleWriteEvent:
  assumes "server_inv D sv" "clients sv fd = Some c"
  shows "\<exists>D' sv'. handleWriteEvent env now s fd sv = (None, sv') \<and> server_inv D' sv' \<and>
    (if clients sv' fd = None then D' = D - {cn_addr c} else D - {cn_addr c} \<subseteq> D' \<and> D' \<subseteq> D) \<and>
    keeps_or_closes fd sv sv'"
proof -
  have close: "server_inv (D - {cn_addr x}) (closeConnection fd sv1)"
    "clients (closeConnection fd sv1) = (clients sv1)(fd := None)"
    if "server_inv D sv1" "clients sv1 fd = Some x" for sv1 x
    using inv_close [OF that] by simp_all
  have kc: "keeps_or_closes fd sv sv'" if "keeps_client fd sv sv'" for sv' using that by (simp add: keeps_or_closes_def)
  show ?thesis
  proof (cases "cn_sendBuffer c = []")
    case True
    obtain sv' where "modifySocket fd EPOLLIN sv = (None, sv')" "server_inv D sv'" "sv_clients sv' = sv_clients sv"
      using modify_client [OF assms] by blast
    then show ?thesis using True assms(2) kc [OF keeps_client_same [OF assms(2)], of sv']
      by (auto simp: handleWriteEvent_def)
  next
    case False
    show ?thesis
    proof (cases s)
      case (Send_failed again)
      then show ?thesis using False assms close [OF assms] kc [OF keeps_client_same [OF assms(2)], of sv]
        by (auto simp: handleWriteEvent_def keeps_or_closes_def)
    next
      case (Sent n)
      let ?c = "c\<lparr>cn_sendBuffer := drop n (cn_sendBuffer c)\<rparr>"
      let ?s0 = "sv\<lparr>sv_sent := sv_sent sv @ [(fd, take n (cn_sendBuffer c))]\<rparr>"
      let ?sv = "set_conn fd ?c ?s0"
      have "server_inv D ?s0"
        by (rule inv_beside [OF assms(1), of "{}"])
          (use clients_not_held [OF assms(1)] in \<open>auto simp: beside_def addrs_at_def\<close>)
      then have inv0: "server_inv D ?sv" using assms(2) by (intro inv_set_conn) auto
      have c0: "clients ?sv fd = Some ?c" by (simp add: set_conn_def)
      have k0: "keeps_client fd sv ?sv" by (rule keeps_clientI [OF assms(2), of ?c]) (simp_all add: set_conn_def)
      obtain sv2 where m: "modifySocket fd EPOLLIN ?sv = (None, sv2)" "server_inv D sv2"
        "sv_clients sv2 = sv_clients ?sv" using modify_client [OF inv0 c0] by blast
      have c2: "clients sv2 fd = Some ?c" using m(3) c0 by simp
      note u = inv_updateTimeout [OF m(2) c2, of now]
      have c3: "clients (updateTimeout now fd sv2) fd = Some ?c" using u(2) c2 by simp
      let ?d = "?c\<lparr>cn_ctx := reset_context now (en_vhosts env ! cl_activeVhost (cx_ownerClient (cn_ctx ?c))) (cn_ctx ?c)\<rparr>"
      have inv4: "server_inv (D - {cn_addr c}) (set_conn fd ?d (updateTimeout now fd sv2))"
        using inv_set_conn [OF u(1) c3, of ?d] by simp
      have k4: "keeps_client fd sv (set_conn fd ?d (updateTimeout now fd sv2))"
        by (rule keeps_clientI [OF assms(2), of ?d]) (simp_all add: set_conn_def u(2) m(3))
      note cl = close [OF inv0 c0]
      have k5: "keeps_or_closes fd sv (closeConnection fd ?sv)"
        using keeps_then_closes [OF k0 cl(2)] by (simp add: keeps_or_closes_def)
      let ?closing = "rs_getHeader (cx_res (cn_ctx c)) ''Connection'' = ''close''"
      let ?sv4 = "set_conn fd ?d (updateTimeout now fd sv2)"
      have result: "handleWriteEvent env now s fd sv = (None,
          if drop n (cn_sendBuffer c) \<noteq> [] then ?sv else if ?closing then closeConnection fd ?sv else ?sv4)"
        using False assms(2) Sent m(1)
        by (cases "length (cn_sendBuffer c) \<le> n") (simp_all add: handleWriteEvent_def Let_def)
      consider "drop n (cn_sendBuffer c) \<noteq> []" | "drop n (cn_sendBuffer c) = []" ?closing
        | "drop n (cn_sendBuffer c) = []" "\<not> ?closing" by blast
      then show ?thesis
      proof cases
        case 1
        then show ?thesis using result inv0 kc [OF k0] c0 by (intro exI [of _ D] exI [of _ ?sv]) simp
      next
        case 2
        then show ?thesis using result cl k5
          by (intro exI [of _ "D - {cn_addr c}"] exI [of _ "closeConnection fd ?sv"]) simp
      next
        case 3
        have "clients ?sv4 fd = Some ?d" by (simp add: set_conn_def)
        with 3 show ?thesis using result inv4 kc [OF k4]
          by (intro exI [of _ "D - {cn_addr c}"] exI [of _ ?sv4]) auto
      qed
    qed
  qed
qed

section \<open>Time-outs\<close>

lemma inv_dangling: "server_inv D sv \<Longrightarrow> server_inv D (sv\<lparr>sv_dangling := b\<rparr>)"
  by (rule inv_beside [of D sv "{}"]) (use clients_not_held in auto)

lemma inv_onTimeout:
  assumes "server_inv D sv" "clients sv fd = Some c"
    and "onTimeout env date now s fd sv = (None, sv')"
  shows "server_inv (D - {cn_addr c}) sv'" "clients sv' = (clients sv)(fd := None)"
proof -
  let ?ctx = "map_res (\<lambda>res. res\<lparr>rs_statusCode := 408\<rparr>) (cn_ctx c)"
  obtain res where res: "error_handle (en_os env) (cx_conf ?ctx) (cx_req ?ctx) (cx_res ?ctx) = (None, res)"
    using assms(2,3) by (auto simp: onTimeout_def Let_def split: prod.splits option.splits)
  define c1 where "c1 = c\<lparr>cn_ctx := ?ctx\<lparr>cx_res := complete_headers date res\<rparr>, cn_sendBuffer := build date res\<rparr>"
  have addr: "cn_addr c1 = cn_addr c" by (simp add: c1_def)
  note inv1 = inv_set_conn [OF assms(1,2) addr]
  have c1: "clients (set_conn fd c1 sv) fd = Some c1" by (simp add: set_conn_def)
  obtain D' sv1 where h: "handleWriteEvent env now s fd (set_conn fd c1 sv) = (None, sv1)"
    and D': "server_inv D' sv1" "if clients sv1 fd = None then D' = D - {cn_addr c1}
      else D - {cn_addr c1} \<subseteq> D' \<and> D' \<subseteq> D" "keeps_or_closes fd (set_conn fd c1 sv) sv1"
    using inv_handleWriteEvent [OF inv1 c1] by blast
  have step: "sv' = (case clients sv1 fd of None \<Rightarrow> sv1\<lparr>sv_dangling := True\<rparr> | Some _ \<Rightarrow> removeClientFd fd sv1)"
    using assms(2,3) res h by (simp add: onTimeout_def Let_def c1_def)
  have upd: "(clients sv1)(fd := None) = (clients sv)(fd := None)"
    using D'(3) by (auto simp: keeps_or_closes_def keeps_client_def set_conn_def)
  show "server_inv (D - {cn_addr c}) sv'" "clients sv' = (clients sv)(fd := None)"
  proof -
    show "server_inv (D - {cn_addr c}) sv'"
    proof (cases "clients sv1 fd")
      case None
      then show ?thesis using D'(1,2) step inv_dangling by (simp add: addr)
    next
      case (Some c2)
      have "cn_addr c2 = cn_addr c"
        using D'(3) Some addr by (auto simp: keeps_or_closes_def keeps_client_def set_conn_def split: if_splits)
      moreover have "kind_at sv1 fd = Some True" using server_invD(5) [OF D'(1) Some] by (simp add: client_ok_def)
      moreover have "D' - {cn_addr c} = D - {cn_addr c}" using D'(2) Some by (auto simp: addr)
      ultimately show ?thesis
        using inv_close(1) [OF D'(1) Some] step Some by (simp add: removeClientFd_close)
    qed
    show "clients sv' = (clients sv)(fd := None)"
    proof (cases "clients sv1 fd")
      case None
      then show ?thesis using step upd by (simp add: fun_upd_idem)
    next
      case (Some c2)
      moreover have "kind_at sv1 fd = Some True" using server_invD(5) [OF D'(1) Some] by (simp add: client_ok_def)
      ultimately show ?thesis
        using inv_close(2) [OF D'(1) Some] step upd by (simp add: removeClientFd_close)
    qed
  qed
qed

lemma find_addr:
  assumes "server_inv D sv" "clients sv fd = Some c" "cn_addr c = x"
  shows "fd_of_client x sv = Some fd"
proof -
  note i = server_invD [OF assms(1)]
  have mem: "(fd, c) \<in> set (sv_clients sv)" using assms(2) by (rule map_of_SomeD)
  then obtain p where p: "find (\<lambda>p. cn_addr (snd p) = x) (sv_clients sv) = Some p"
    using assms(3) by (cases "find (\<lambda>p. cn_addr (snd p) = x) (sv_clients sv)") (auto simp: find_None_iff)
  then have "p \<in> set (sv_clients sv)" "cn_addr (snd p) = x"
    by (auto simp: find_Some_iff)
  moreover have "clients sv (fst p) = Some (snd p)"
    using om_ok_map_of [OF i(2)] calculation(1) by (cases p) simp
  ultimately show ?thesis using i(6) [OF _ assms(2)] assms(3) p by (simp add: fd_of_client_def)
qed

text \<open>What remains to be told, and the state the loop over the expired objects is in.\<close>

definition telling :: "nat list \<Rightarrow> Server \<Rightarrow> bool" where
  "telling xs sv \<longleftrightarrow> server_inv (set xs) sv \<and> distinct xs \<and>
     (\<forall>x \<in> set xs. \<exists>fd c. clients sv fd = Some c \<and> cn_addr c = x)"

lemma stats_inv:
  "server_inv D sv \<Longrightarrow> server_inv D (sv\<lparr>sv_timers := (sv_timers sv)\<lparr>tm_stats := st\<rparr>\<rparr>)"
  unfolding server_inv_def timers_ok_def client_ok_def by (simp add: addrs_at_def)

lemma inv_tell:
  assumes "telling (x # xs) sv" "client_timeout env date now sends x (None, sv) = (None, sv')"
  shows "telling xs sv'" "\<exists>fd c. clients sv fd = Some c \<and> cn_addr c = x \<and> clients sv' = (clients sv)(fd := None)"
proof -
  obtain fd c where c: "clients sv fd = Some c" "cn_addr c = x" using assms(1) by (auto simp: telling_def)
  have inv: "server_inv (set (x # xs)) sv" using assms(1) by (simp add: telling_def)
  have "onTimeout env date now (sends fd) fd sv = (None, sv')"
    using assms(2) find_addr [OF inv c] by (simp add: client_timeout_def)
  note o = inv_onTimeout [OF inv c(1) this]
  have "set (x # xs) - {cn_addr c} = set xs" using assms(1) c(2) by (auto simp: telling_def)
  moreover have "\<exists>f d. clients sv' f = Some d \<and> cn_addr d = y" if y: "y \<in> set xs" for y
  proof -
    obtain f d where d: "clients sv f = Some d" "cn_addr d = y" using assms(1) y by (auto simp: telling_def)
    have "f \<noteq> fd" using d c assms(1) y by (auto simp: telling_def)
    then show ?thesis using d o(2) by auto
  qed
  ultimately show "telling xs sv'" using o(1) assms(1) by (simp add: telling_def)
  show "\<exists>fd c. clients sv fd = Some c \<and> cn_addr c = x \<and> clients sv' = (clients sv)(fd := None)"
    using c o(2) by blast
qed

lemma inv_tell_all:
  assumes "telling xs sv"
    and "fold (\<lambda>x r. client_timeout env date now sends x
        (fst r, if fst r = None then (snd r)\<lparr>sv_timers := (sv_timers (snd r))\<lparr>tm_stats :=
          incrementTimeouts (tm_stats (sv_timers (snd r)))\<rparr>\<rparr> else snd r)) xs (None, sv) = (None, sv')"
  shows "server_inv {} sv' \<and>
    (\<forall>fd c. clients sv' fd = Some c \<longleftrightarrow> clients sv fd = Some c \<and> cn_addr c \<notin> set xs)"
  using assms
proof (induction xs arbitrary: sv)
  case Nil
  then show ?case by (simp add: telling_def)
next
  case (Cons x xs)
  let ?g = "\<lambda>x r. client_timeout env date now sends x
        (fst r, if fst r = None then (snd r)\<lparr>sv_timers := (sv_timers (snd r))\<lparr>tm_stats :=
          incrementTimeouts (tm_stats (sv_timers (snd r)))\<rparr>\<rparr> else snd r)"
  let ?sv = "sv\<lparr>sv_timers := (sv_timers sv)\<lparr>tm_stats := incrementTimeouts (tm_stats (sv_timers sv))\<rparr>\<rparr>"
  obtain e sv1 where r: "client_timeout env date now sends x (None, ?sv) = (e, sv1)"
    by (cases "client_timeout env date now sends x (None, ?sv)")
  have stuck: "fst (fold ?g ys (Some a, s)) = Some a" for ys a s
    by (induction ys arbitrary: s) (auto simp: client_timeout_def)
  have fold1: "fold ?g xs (e, sv1) = (None, sv')" using Cons.prems(2) r by simp
  have e: "e = None"
  proof (cases e)
    case (Some a)
    then show ?thesis using fold1 stuck [of xs a sv1] by simp
  qed simp
  have t0: "telling (x # xs) ?sv" using Cons.prems(1) stats_inv by (simp add: telling_def)
  note t = inv_tell [OF t0 r [unfolded e]]
  obtain fd c where fd: "clients ?sv fd = Some c" "cn_addr c = x" "clients sv1 = (clients ?sv)(fd := None)"
    using t(2) by blast
  have inj: "f = fd" if "clients sv f = Some d" "cn_addr d = x" for f d
    using server_invD(6) [OF t0 [unfolded telling_def, THEN conjunct1], of f d fd c] that fd(1,2) by simp
  from Cons.IH [OF t(1)] fold1 e have "server_inv {} sv'"
    and "\<forall>fd c. clients sv' fd = Some c \<longleftrightarrow> clients sv1 fd = Some c \<and> cn_addr c \<notin> set xs" by simp_all
  moreover have "clients sv1 f = Some d \<longleftrightarrow> clients sv f = Some d \<and> cn_addr d \<noteq> x" for f d
    using fd inj [of f d] by (cases "f = fd") auto
  ultimately show ?case by simp
qed


lemma inv_due:
  assumes "server_inv {} sv" "collect_expired now (sv_timers sv) = (xs, m)"
  shows "telling xs (sv\<lparr>sv_timers := m\<rparr>)"
proof -
  note i = server_invD [OF assms(1)]
  note col = collect_expired [OF i(1) assms(2)]
  have "server_inv (set xs) (sv\<lparr>sv_timers := m\<rparr>)"
    using i col unfolding server_inv_def client_ok_def by (simp add: restrict_map_def)
  moreover have "\<exists>fd c. clients sv fd = Some c \<and> cn_addr c = x" if "x \<in> set xs" for x
    using that col(2) i(7) [of x] by auto
  ultimately show ?thesis using col(1) by (simp add: telling_def)
qed

lemma inv_check_timeouts:
  assumes "server_inv {} sv" "check_timeouts env date now sends sv = (None, sv')"
  shows "server_inv {} sv'"
    and "clients sv' fd = Some c \<longleftrightarrow> clients sv fd = Some c \<and>
      (case deadlines (sv_timers sv) (cn_addr c) of None \<Rightarrow> True | Some t \<Rightarrow> now < t)"
proof -
  obtain xs m where cx: "collect_expired now (sv_timers sv) = (xs, m)"
    by (cases "collect_expired now (sv_timers sv)")
  note col = collect_expired [OF server_invD(1) [OF assms(1)] cx]
  have "fold (\<lambda>x r. client_timeout env date now sends x
        (fst r, if fst r = None then (snd r)\<lparr>sv_timers := (sv_timers (snd r))\<lparr>tm_stats :=
          incrementTimeouts (tm_stats (sv_timers (snd r)))\<rparr>\<rparr> else snd r)) xs (None, sv\<lparr>sv_timers := m\<rparr>) = (None, sv')"
    using assms(2) cx by (simp add: check_timeouts_def checkAndHandleTimeouts_def)
  note a = inv_tell_all [OF inv_due [OF assms(1) cx] this]
  show "server_inv {} sv'" using a by simp
  have due: "cn_addr c \<notin> set xs \<longleftrightarrow> (case deadlines (sv_timers sv) (cn_addr c) of None \<Rightarrow> True | Some t \<Rightarrow> now < t)"
    by (auto simp: col(2) split: option.splits)
  show "clients sv' fd = Some c \<longleftrightarrow> clients sv fd = Some c \<and>
      (case deadlines (sv_timers sv) (cn_addr c) of None \<Rightarrow> True | Some t \<Rightarrow> now < t)"
    using a due by simp
qed

section \<open>Events of the workers\<close>

lemma inv_on_cgi:
  assumes "server_inv D sv" "all_held (f (wo_cgi (sv_world sv))) \<subseteq> all_held (wo_cgi (sv_world sv))"
  shows "server_inv D (on_cgi f sv)"
  by (rule inv_beside [OF assms(1) beside_on_cgi, of "{}"])
    (use assms(2) clients_not_held [OF assms(1)] in auto)

lemma world_fold_close [simp]: "sv_world (fold close_fd fds sv) = sv_world sv"
  by (rule fold_world) simp

lemma inv_step_worker:
  assumes "server_inv D sv" "\<And>w. held (f w) \<subseteq> held w"
  shows "server_inv D (step_worker now f a sv)"
proof (cases "map_of (cm_workers (wo_cgi (sv_world sv))) a")
  case None
  then show ?thesis using inv_dangling [OF assms(1)] by (simp add: step_worker_def)
next
  case (Some w)
  let ?w = "w\<lparr>wk_lastActivityTime := now\<rparr>"
  have "held (f ?w) \<subseteq> held w" using assms(2) [of ?w] by simp
  then have sub: "all_held (set_worker a (f ?w) (wo_cgi (sv_world sv))) \<subseteq> all_held (wo_cgi (sv_world sv))"
    by (rule all_held_replace [OF Some]) simp
  let ?sv1 = "on_cgi (set_worker a (f ?w)) sv"
  have inv1: "server_inv D ?sv1" by (rule inv_on_cgi [where f = "set_worker a (f ?w)", OF assms(1) sub])
  have "beside (held w) ?sv1 (fold close_fd (closed_pipes w (f ?w)) ?sv1)"
    by (rule beside_fold, rule beside_mono [OF beside_close]) (use closed_pipes_held in auto)
  moreover have "held w \<inter> dom (clients sv) = {}"
    using all_heldI [OF Some] clients_not_held [OF assms(1)] by blast
  ultimately have "server_inv D (fold close_fd (closed_pipes w (f ?w)) ?sv1)"
    using clients_not_held [OF inv1] by (intro inv_beside [OF inv1]) (auto simp: on_cgi_def)
  then show ?thesis using Some by (simp add: step_worker_def Let_def)
qed

lemma inv_cgi_read: "server_inv D sv \<Longrightarrow> server_inv D (cgi_read_event io a sv)"
  using inv_step_worker [of D sv "\<lambda>w. fst (handleRead (io_now io) (io_cgi_read io) w)"] held_handleRead
  by (auto simp: cgi_read_event_def Let_def intro!: inv_on_cgi all_held_cleanups)

lemma inv_cgi_answer:
  assumes "server_inv D sv"
  shows "\<exists>sv'. cgi_answer io clientFd sv = (None, sv') \<and> server_inv D sv' \<and> dom (clients sv') = dom (clients sv)"
proof -
  obtain complete cgiRes m where r: "isCgiComplete clientFd new_HttpResponse (wo_cgi (sv_world sv)) = (complete, cgiRes, m)"
    by (cases "isCgiComplete clientFd new_HttpResponse (wo_cgi (sv_world sv))")
  define sv1 where "sv1 = on_cgi (\<lambda>_. m) sv"
  define sv2 where "sv2 = (if complete then destroy_worker True (the (worker_of_client clientFd sv)) sv1 else sv1)"
  have inv1: "server_inv D sv1"
    unfolding sv1_def by (rule inv_on_cgi [OF assms]) (rule all_held_isCgiComplete [OF r])
  have held: "held (the (worker_of_client clientFd sv)) \<subseteq> all_held (wo_cgi (sv_world sv))" if complete
  proof -
    from r that obtain w where "worker_of_client clientFd sv = Some w"
      by (auto simp: isCgiComplete_def worker_of_client_def Let_def split: option.splits if_splits)
    then show ?thesis using worker_held by simp
  qed
  have clients1: "sv_clients sv1 = sv_clients sv" by (simp add: sv1_def on_cgi_def)
  have inv2: "server_inv D sv2"
  proof (cases complete)
    case True
    show ?thesis
      unfolding sv2_def using True
      by (auto intro!: inv_beside [OF inv1 beside_destroy])
        (use held [OF True] clients_not_held [OF assms] clients_not_held [OF inv1] clients1 in auto)
  qed (simp add: sv2_def inv1)
  have clients2: "sv_clients sv2 = sv_clients sv"
    using beside_destroy [of "the (worker_of_client clientFd sv)" sv1 True] clients1
    by (simp add: sv2_def beside_def)
  have step: "cgi_answer io clientFd sv = (case clients sv2 clientFd of
      None \<Rightarrow> done_ok (sv2\<lparr>sv_dangling := True\<rparr>)
    | Some c \<Rightarrow> modifySocket clientFd EPOLLOUT
        (set_conn clientFd (c\<lparr>cn_sendBuffer := cn_sendBuffer c @ build (io_date io) cgiRes\<rparr>) sv2))"
    by (simp add: cgi_answer_def r sv1_def sv2_def Let_def cong: option.case_cong)
  show ?thesis
  proof (cases "clients sv2 clientFd")
    case None
    then show ?thesis using step inv_dangling [OF inv2] clients2 by simp
  next
    case (Some c)
    let ?c = "c\<lparr>cn_sendBuffer := cn_sendBuffer c @ build (io_date io) cgiRes\<rparr>"
    have inv3: "server_inv D (set_conn clientFd ?c sv2)" by (rule inv_set_conn [OF inv2 Some]) simp
    have "clients (set_conn clientFd ?c sv2) clientFd = Some ?c" by (simp add: set_conn_def)
    from modify_client [OF inv3 this, of EPOLLOUT] Some step clients2 show ?thesis
      by (auto simp: set_conn_def)
  qed
qed

lemma inv_cgi_end:
  assumes "server_inv D sv" "clients sv fd = None"
  shows "\<exists>sv'. cgi_end_event io fd clientFd a sv = (None, sv') \<and> server_inv D sv'"
proof (cases "map_of (cm_workers (wo_cgi (sv_world sv))) a")
  case None
  then show ?thesis using inv_dangling [OF assms(1)] by (simp add: cgi_end_event_def)
next
  case (Some w)
  let ?w = "w\<lparr>wk_lastActivityTime := io_now io, wk_completionBytes := 0\<rparr>"
  have worker: "server_inv D (on_cgi (set_worker a v) sv)" if "held v = held w" for v
    using inv_on_cgi [OF assms(1)] all_held_replace [OF Some, of v "wo_cgi (sv_world sv)"] that by simp
  show ?thesis
  proof (cases "wk_completionNotified w")
    case True
    then show ?thesis using Some worker [of ?w] by (simp add: cgi_end_event_def)
  next
    case False
    let ?sv = "on_cgi (set_worker a (?w\<lparr>wk_completionNotified := True\<rparr>)) sv"
    have "server_inv D ?sv" by (rule worker) simp
    from inv_cgi_answer [OF this, of io clientFd] obtain sv1 where
      s1: "cgi_answer io clientFd ?sv = (None, sv1)" "server_inv D sv1"
      "dom (clients sv1) = dom (clients ?sv)" by blast
    have b: "beside {fd} sv1 (on_em (forgetFd fd) (close_fd fd (unregisterSocket fd sv1)))"
      by (intro beside_same [OF beside_same [OF beside_unregister beside_close] beside_forget])
    have "clients sv1 fd = None" using s1(3) assms(2) by (auto simp: on_cgi_def)
    then have "server_inv D (on_em (forgetFd fd) (close_fd fd (unregisterSocket fd sv1)))"
      using clients_not_held [OF s1(2)] by (intro inv_beside [OF s1(2) b]) auto
    then show ?thesis using Some False s1(1) by (simp add: cgi_end_event_def Let_def)
  qed
qed

section \<open>Accepting a connection\<close>

text \<open>
  A descriptor that may become a client's: it is not open, which the kernel guarantees; and no
  running worker has it recorded or still watched, which nothing in the source guarantees.
\<close>

definition unused :: "int \<Rightarrow> Server \<Rightarrow> bool" where
  "unused fd sv \<longleftrightarrow> clients sv fd = None \<and> fd \<notin> all_held (wo_cgi (sv_world sv)) \<and> events_of fd (sv_em sv) = []"

lemma inv_next:
  assumes "server_inv D sv" "sv_next sv \<le> n"
  shows "server_inv D (sv\<lparr>sv_next := n\<rparr>)"
proof -
  note i = server_invD [OF assms(1)]
  have "addrs_at (sv\<lparr>sv_next := n\<rparr>) = addrs_at sv" by (simp add: addrs_at_def fun_eq_iff)
  moreover have "client_ok (sv\<lparr>sv_next := n\<rparr>) fd c" if "clients sv fd = Some c" for fd c
    using i(5) [OF that] assms(2) by (simp add: client_ok_def)
  ultimately show ?thesis
    using i(1-4,6-9) assms(2) unfolding server_inv_def by (simp split del: if_split)
qed

lemma inv_accept_rollback:
  assumes "server_inv D sv" "clients sv fd = None" "sv_next sv = addr" 
  shows "server_inv D (accept_rollback fd addr (sv\<lparr>sv_next := addr + 1\<rparr>))"
proof -
  note i = server_invD [OF assms(1)]
  have "deadlines (sv_timers sv) addr = None"
  proof (rule ccontr)
    assume "deadlines (sv_timers sv) addr \<noteq> None"
    then obtain f c where "clients sv f = Some c" "cn_addr c = addr" using i(7) by blast
    then show False using i(5) [of f c] assms(3) by (simp add: client_ok_def)
  qed
  then have t: "remove_timer addr (sv_timers sv) = sv_timers sv" by (simp add: remove_timer_def)
  let ?sv = "sv\<lparr>sv_next := addr + 1\<rparr>"
  have inv1: "server_inv D ?sv" using assms(3) by (intro inv_next [OF assms(1)]) simp
  have "beside {fd} ?sv (close_fd fd (unregisterSocket fd (on_em (forgetFd fd) ?sv)))"
    by (intro beside_same [OF beside_same [OF beside_forget beside_unregister] beside_close])
  then have "server_inv D (close_fd fd (unregisterSocket fd (on_em (forgetFd fd) ?sv)))"
    using clients_not_held [OF inv1] assms(2) by (intro inv_beside [OF inv1]) auto
  then show ?thesis by (simp add: accept_rollback_def t)
qed

lemma ex_upd:
  assumes "m k = None"
  shows "(\<exists>f d. (m(k \<mapsto> v)) f = Some d \<and> P d) \<longleftrightarrow> P v \<or> (\<exists>f d. m f = Some d \<and> P d)"
  using assms by (metis fun_upd_apply option.distinct(1) option.inject)

lemma inv_enter_client:
  assumes "server_inv {} sv" "unused (ac_fd acc) sv" "0 \<le> ac_fd acc"
  shows "server_inv {} (enter_client env now acc sv)"
proof (cases "has_key (sv_epoll sv) (ac_fd acc)")
  case True
  then show ?thesis using inv_accept_rollback [OF assms(1), of "ac_fd acc"] assms(2)
    by (simp add: enter_client_def Let_def unused_def)
next
  case False
  define fd where "fd = ac_fd acc"
  define addr where "addr = sv_next sv"
  define conf where "conf = en_vhosts env ! ac_defaultVhostIndex acc"
  define c where "c = new_Conn now addr conf (header_limit conf (ac_key acc) sv) acc"
  define sv2 where "sv2 = watch True fd EPOLLIN [ReadEvent addr, WriteEvent addr] (sv\<lparr>sv_next := addr + 1\<rparr>)"
  define sv3 where "sv3 = set_conn fd c (sv2\<lparr>sv_timers := add_timer now addr (calculateTimeout (cn_ctx c)) (sv_timers sv2)\<rparr>)"
  have result: "enter_client env now acc sv = sv3"
    using False by (simp add: enter_client_def Let_def fd_def addr_def conf_def c_def sv2_def sv3_def)
  note i = server_invD [OF assms(1)] and u = assms(2) [unfolded unused_def fd_def [symmetric]]
  have pos: "addr \<noteq> 0" and ca: "cn_addr c = addr" and fd: "0 \<le> fd"
    using i(3) assms(3) by (simp_all add: addr_def c_def new_Conn_def fd_def)
  have cl: "clients sv3 = (clients sv)(fd \<mapsto> c)" by (simp add: sv3_def sv2_def set_conn_def watch_def on_em_def)
  have tm: "sv_timers sv3 = add_timer now addr (calculateTimeout (cn_ctx c)) (sv_timers sv)"
    by (simp add: sv3_def sv2_def set_conn_def watch_def on_em_def)
  have wd: "watched (sv_em sv3) = (watched (sv_em sv))(fd \<mapsto> [ReadEvent addr, WriteEvent addr])"
    using u by (auto simp: sv3_def sv2_def set_conn_def watch_def on_em_def table_simps events_of_watched)
  have kd: "kind_at sv3 = (kind_at sv)(fd \<mapsto> True)"
    by (simp add: sv3_def sv2_def set_conn_def watch_def on_em_def table_simps)
  have ep: "map_of (sv_epoll sv3) = (map_of (sv_epoll sv))(fd \<mapsto> EPOLLIN)"
    by (simp add: sv3_def sv2_def set_conn_def watch_def on_em_def)
  have rest: "sv_next sv3 = addr + 1" "sv_world sv3 = sv_world sv" "om_ok (sv_clients sv3)"
    using i(2) by (simp_all add: sv3_def sv2_def set_conn_def watch_def on_em_def)
  have addrs: "addrs_at sv3 f = addrs_at sv f" if "f \<noteq> fd" for f
    using that by (simp add: addrs_at_def events_of_watched wd)
  have old: "cn_addr d < addr" if "clients sv f = Some d" for f d
    using i(5) [OF that] by (simp add: client_ok_def addr_def)
  have ok: "client_ok sv3 f d" if "clients sv3 f = Some d" for f d
  proof (cases "f = fd")
    case True
    then show ?thesis using that pos ca u fd
      by (simp add: cl client_ok_def rest wd kd ep)
  next
    case False
    then show ?thesis using that i(5) [of f d]
      by (auto simp: cl client_ok_def rest wd kd ep addr_def)
  qed
  have inj: "f = g" if "clients sv3 f = Some d" "clients sv3 g = Some e" "cn_addr d = cn_addr e" for f g d e
  proof -
    have lt: "cn_addr y < cn_addr c" if "clients sv3 h = Some y" "h \<noteq> fd" for h y
      using old [of h y] that ca by (simp add: cl)
    have at: "y = c" if "clients sv3 fd = Some y" for y using that by (simp add: cl)
    show ?thesis
    proof (cases "f = fd \<or> g = fd")
      case True
      then show ?thesis using lt [OF that(1)] lt [OF that(2)] at that by (metis less_irrefl)
    next
      case False
      then show ?thesis using that i(6) [of f d g e] by (simp add: cl)
    qed
  qed
  have dl: "deadlines (sv_timers sv3) x \<noteq> None \<longleftrightarrow> (\<exists>f d. clients sv3 f = Some d \<and> cn_addr d = x)" for x
  proof -
    have "(\<exists>f d. clients sv3 f = Some d \<and> cn_addr d = x) \<longleftrightarrow> x = addr \<or> (\<exists>f d. clients sv f = Some d \<and> cn_addr d = x)"
      unfolding cl using u ca ex_upd [of "clients sv" fd c "\<lambda>d. cn_addr d = x"] by auto
    then show ?thesis using i(7) [of x] pos by (simp add: tm deadlines_add [OF i(1)])
  qed
  have kinds: "clients sv3 f \<noteq> None" if "kind_at sv3 f = Some True" for f
    using that i(8) [of f] by (auto simp: kd cl split: if_splits)
  have none: "addrs_at sv3 f = {}" if "clients sv3 f = None" for f
    using that addrs [of f] i(9) [of f] by (auto simp: cl split: if_splits)
  show ?thesis
    unfolding result server_inv_def
  proof (intro conjI allI impI)
    show "timers_ok (sv_timers sv3)" by (simp add: tm add_timer_ok i(1))
    show "deadlines (sv_timers sv3) x \<noteq> None \<longleftrightarrow> x \<notin> {} \<and> (\<exists>f d. clients sv3 f = Some d \<and> cn_addr d = x)" for x
      using dl [of x] by simp
  qed (use ok inj kinds none rest i(4) in simp_all)
qed

section \<open>Dispatch\<close>

text \<open>What the answers of the kernel during one event must satisfy.\<close>

definition calm :: "Env \<Rightarrow> Io \<Rightarrow> Server \<Rightarrow> bool" where
  "calm env io sv \<longleftrightarrow>
     new_pipes env sv \<and>
     (case io_accept io of
        Accepted fd ip port \<Rightarrow> unused fd sv
      | Accept_blocking fd \<Rightarrow> clients sv fd = None
      | Accept_failed \<Rightarrow> True)"

lemma inv_close_other:
  assumes "server_inv D sv" "clients sv fd = None"
  shows "server_inv D (close_fd fd sv)"
  using clients_not_held [OF assms(1)] assms(2) by (intro inv_beside [OF assms(1) beside_close]) auto

lemma inv_new_connection:
  assumes "server_inv {} sv" "calm env io sv"
  shows "server_inv {} (handleNewConnection env now (io_accept io) listenFd sv)"
proof -
  have reg: "fst (acceptOnce (io_accept io) (sv_byFd sv) (sv_listeners sv) listenFd) = Some acc \<Longrightarrow>
      (\<exists>fd ip port. io_accept io = Accepted fd ip port \<and> ac_fd acc = fd) \<or> ac_fd acc < 0" for acc
    by (auto simp: acceptOnce_def Let_def split: option.splits accept_answer.splits)
  have blocking: "snd (acceptOnce (io_accept io) (sv_byFd sv) (sv_listeners sv) listenFd) = Some fd \<Longrightarrow>
      io_accept io = Accept_blocking fd" for fd
    by (auto simp: acceptOnce_def Let_def split: option.splits accept_answer.splits)
  obtain acc closing where a: "acceptOnce (io_accept io) (sv_byFd sv) (sv_listeners sv) listenFd = (acc, closing)"
    by (cases "acceptOnce (io_accept io) (sv_byFd sv) (sv_listeners sv) listenFd")
  show ?thesis
  proof (cases closing)
    case (Some fd)
    then have io: "io_accept io = Accept_blocking fd" using blocking a by simp
    then have "server_inv {} (close_fd fd sv)" using assms inv_close_other by (simp add: calm_def)
    moreover have "\<forall>c. acc = Some c \<longrightarrow> ac_fd c < 0" using reg a io by fastforce
    ultimately show ?thesis using a Some by (auto simp: handleNewConnection_def Let_def split: option.splits)
  next
    case None
    show ?thesis
    proof (cases acc)
      case None
      then show ?thesis using a \<open>closing = None\<close> assms(1) by (simp add: handleNewConnection_def Let_def)
    next
      case (Some c)
      show ?thesis
      proof (cases "ac_fd c < 0")
        case True
        then show ?thesis using a \<open>closing = None\<close> Some assms(1) by (simp add: handleNewConnection_def Let_def)
      next
        case False
        then have u: "unused (ac_fd c) sv" using reg a Some assms(2) by (auto simp: calm_def)
        then have "clients sv (ac_fd c) = None" by (simp add: unused_def)
        then show ?thesis
          using a \<open>closing = None\<close> Some False inv_enter_client [OF assms(1) u] inv_close_other [OF assms(1)]
          by (simp add: handleNewConnection_def Let_def)
      qed
    qed
  qed
qed

lemma owns_client: "owns addr fd sv \<Longrightarrow> \<exists>c. clients sv fd = Some c \<and> cn_addr c = addr"
  by (auto simp: owns_def)

lemma cgi_fd_no_client:
  assumes "server_inv D sv" "CgiEvent ce \<in> set (events_of fd (sv_em sv))"
  shows "clients sv fd = None"
proof (rule ccontr)
  assume "clients sv fd \<noteq> None"
  then obtain c where "clients sv fd = Some c" by blast
  from server_invD(5) [OF assms(1) this] assms(2) show False by (simp add: client_ok_def events_of_watched)
qed

lemma inv_run_event:
  assumes "server_inv {} sv" "calm env io sv" "e \<in> set (events_of fd (sv_em sv))"
    and "run_event env io fd e sv = Some (x, sv')"
  shows "server_inv {} sv'"
proof (cases e)
  case NewConnectionEvent
  then show ?thesis using assms inv_new_connection by auto
next
  case (ReadEvent addr)
  then show ?thesis
    using assms inv_dangling [OF assms(1)] owns_client [of addr fd sv] inv_handleReadEvent(1) [OF assms(1)]
    by (auto simp: calm_def split: if_splits)
next
  case (WriteEvent addr)
  show ?thesis
  proof (cases "owns addr fd sv")
    case False
    then show ?thesis using assms(4) WriteEvent inv_dangling [OF assms(1)] by auto
  next
    case True
    then obtain c where c: "clients sv fd = Some c" using owns_client by blast
    from inv_handleWriteEvent [OF assms(1) c, of env "io_now io" "io_send io"] True assms(4) WriteEvent
    show ?thesis by (auto split: if_splits)
  qed
next
  case (CgiEvent ce)
  have "clients sv fd = None" using cgi_fd_no_client [OF assms(1)] assms(3) CgiEvent by blast
  then show ?thesis
    using assms(1,4) CgiEvent inv_cgi_read [OF assms(1)] inv_cgi_end [OF assms(1)]
      inv_step_worker [OF assms(1) held_handleWrite] inv_step_worker [OF assms(1) held_handleReadErr]
      inv_step_worker [OF assms(1) held_handleErrorExit]
    by (cases ce) (auto, metis Pair_inject)
qed

abbreviation put_em :: "EventManager \<Rightarrow> Server \<Rightarrow> Server" where
  "put_em em sv \<equiv> sv\<lparr>sv_em := em\<rparr>"

lemma inv_remove:
  assumes "server_inv {} sv"
  shows "server_inv {} (removeClientFd fd sv)"
proof (cases "clients sv fd")
  case (Some c)
  then have "kind_at sv fd = Some True" using server_invD(5) [OF assms] by (simp add: client_ok_def)
  then show ?thesis using inv_close(1) [OF assms Some] by (simp add: removeClientFd_close)
next
  case None
  then have k: "kind_at sv fd \<noteq> Some True" using server_invD(8) [OF assms] by blast
  have "beside {fd} sv (removeClientFd fd sv)"
    using k by (auto simp: removeClientFd_def removeFd_def Let_def table_simps beside_def addrs_at_def
        client_addrs_def events_of_watched split: option.splits)
  moreover have "sv_world (removeClientFd fd sv) = sv_world sv"
    using k by (auto simp: removeClientFd_def removeFd_def Let_def table_simps split: option.splits)
  ultimately show ?thesis using clients_not_held [OF assms] None by (intro inv_beside [OF assms]) auto
qed

lemma inv_touch:
  assumes "server_inv {} sv"
  shows "server_inv {} (put_em (touch_entry fd (sv_em sv)) sv)"
proof -
  have "events_of f (touch_entry fd (sv_em sv)) = events_of f (sv_em sv)" for f
    by (simp add: events_of_watched table_simps)
  then have "beside (if clients sv fd = None then {fd} else {}) sv (put_em (touch_entry fd (sv_em sv)) sv)"
    using server_invD(5) [OF assms, of fd]
    by (auto simp: beside_def addrs_at_def table_simps client_ok_def events_of_watched)
  then show ?thesis using clients_not_held [OF assms] by (intro inv_beside [OF assms]) (auto split: if_splits)
qed

lemma removed_no_events: "events_of fd (sv_em (removeClientFd fd sv)) = []"
proof -
  have "watched (sv_em (closeConnection fd s)) fd = None" for s
    by (auto simp: closeConnection_def Let_def close_fd_def unregisterSocket_def on_em_def table_simps
        split: option.splits)
  then show ?thesis
    by (auto simp: removeClientFd_def removeFd_def Let_def table_simps events_of_watched split: option.splits)
qed

lemma calm_touch: "calm env io (put_em (touch_entry fd (sv_em sv)) sv) = calm env io sv"
proof -
  have "events_of f (touch_entry fd (sv_em sv)) = events_of f (sv_em sv)" for f
    by (simp add: events_of_watched table_simps)
  then show ?thesis by (simp add: calm_def new_pipes_def unused_def split: accept_answer.splits)
qed

lemma dispatch_found: "dispatch fd m em = Some e \<Longrightarrow> e \<in> set (events_of fd em)"
  by (auto simp: dispatch_def find_Some_iff)

lemma removed_no_dispatch: "dispatch fd m (touch_entry fd (sv_em (removeClientFd fd sv))) = None"
  using removed_no_events [of fd sv]
  by (simp add: dispatch_def events_of_watched table_simps find_None_iff split: option.splits)

lemma inv_handle_fd:
  assumes "server_inv {} sv" "calm env io sv" "handle_fd env io fd events sv = Some (x, sv')"
  shows "server_inv {} sv'"
proof -
  let ?touch = "\<lambda>sv. put_em (touch_entry fd (sv_em sv)) sv"
  consider "\<not> has_key (em_eventsTable (sv_em sv)) fd" | "has_key (em_eventsTable (sv_em sv)) fd" "failed events"
    | "has_key (em_eventsTable (sv_em sv)) fd" "\<not> failed events" by blast
  then show ?thesis
  proof cases
    case 1
    then show ?thesis using assms(1,3) by (simp add: handle_fd_def handle_events_def)
  next
    case 2
    then have "sv' = ?touch (removeClientFd fd sv)"
      using assms(3) removed_no_dispatch by (simp add: handle_fd_def handle_events_def Let_def flip: removeClientFd_def)
    then show ?thesis using inv_touch [OF inv_remove [OF assms(1)]] by simp
  next
    case 3
    define m where "m = effective_events (io_peek io) events"
    have step: "handle_fd env io fd events sv = (case dispatch fd m (sv_em (?touch sv)) of
        None \<Rightarrow> Some (done_ok (?touch sv)) | Some e \<Rightarrow> run_event env io fd e (?touch sv))"
      using 3 by (simp add: handle_fd_def handle_events_def Let_def m_def split: option.splits)
    show ?thesis
    proof (cases "dispatch fd m (sv_em (?touch sv))")
      case None
      then show ?thesis using step assms(3) inv_touch [OF assms(1)] by simp
    next
      case (Some e)
      then have "run_event env io fd e (?touch sv) = Some (x, sv')" using step assms(3) by simp
      with inv_run_event [OF inv_touch [OF assms(1)]] assms(2) calm_touch dispatch_found [OF Some]
      show ?thesis by blast
    qed
  qed
qed

section \<open>The server as a transition system\<close>

text \<open>A server that has just been set up.\<close>

definition fresh_server :: "Server \<Rightarrow> bool" where
  "fresh_server sv \<longleftrightarrow>
     sv_clients sv = [] \<and> sv_timers sv = new_TimeoutManager \<and> 0 < sv_next sv \<and>
     wo_events (sv_world sv) = [] \<and> (\<forall>fd. kind_at sv fd \<noteq> Some True \<and> addrs_at sv fd = {})"

inductive serves :: "Server \<Rightarrow> Server \<Rightarrow> bool" where
  event: "handle_fd env io fd events sv = Some (None, sv') \<Longrightarrow> calm env io sv \<Longrightarrow> serves sv sv'"
| timeouts: "check_timeouts env date now sends sv = (None, sv') \<Longrightarrow> serves sv sv'"
| children: "serves sv (on_cgi (cleanupFinishedWorkers children) sv)"
| slow_children: "serves sv (on_cgi (cleanupTimedOutWorkers now) sv)"
| sessions: "serves sv (clean_sessions now sv)"

inductive_cases serves_cases: "serves sv sv'"

lemma inv_start: "fresh_server sv \<Longrightarrow> server_inv {} sv"
  using new_timers_ok by (auto simp: fresh_server_def server_inv_def new_TimeoutManager_def)

lemma inv_serves: "serves sv sv' \<Longrightarrow> server_inv {} sv \<Longrightarrow> server_inv {} sv'"
proof (induction rule: serves.induct)
  case (event env io fd events sv sv')
  then show ?case using inv_handle_fd by blast
next
  case (timeouts env date now sends sv sv')
  then show ?case using inv_check_timeouts(1) by blast
next
  case (children sv cs)
  then show ?case by (rule inv_on_cgi) (rule all_held_cleanups)
next
  case (slow_children sv now)
  then show ?case by (rule inv_on_cgi) (rule all_held_cleanups)
next
  case (sessions sv now)
  have "beside {} sv (clean_sessions now sv)" by (simp add: beside_def clean_sessions_def addrs_at_def)
  then show ?case
    using clients_not_held [OF sessions] by (intro inv_beside [OF sessions]) (auto simp: clean_sessions_def)
qed

lemma inv_serves_all: "serves\<^sup>*\<^sup>* sv sv' \<Longrightarrow> server_inv {} sv \<Longrightarrow> server_inv {} sv'"
  by (induction rule: rtranclp_induct) (auto intro: inv_serves)

lemma inv_run: "serves\<^sup>*\<^sup>* sv sv' \<Longrightarrow> fresh_server sv \<Longrightarrow> server_inv {} sv'"
  by (simp add: inv_serves_all inv_start)

end
