(* ===== verification/Startup.thy ===== *)
theory Startup
  imports ServerInv Bootstrap
begin

text \<open>
  The constructor and the destructor of \<open>src/Server/Server.cpp\<close>: from the configurations to a
  server whose listening sockets are open, and what the destructor undoes.  What the system calls that open a
  listening socket answer is an argument; so are the session manager, which is a singleton of the
  process, and the source of random bytes.
\<close>

section \<open>Start and end\<close>

definition no_registry_yet :: Registry where
  "no_registry_yet =
     \<lparr>rg_listeners = [], rg_byFd = [], rg_em = new_EventManager, rg_epoll = [], rg_closed = []\<rparr>"

definition new_World :: "nat \<Rightarrow> SessionManager \<Rightarrow> Random \<Rightarrow> World" where
  "new_World maxWorkers sessions rd =
     \<lparr>wo_sessions = sessions, wo_random = rd, wo_cgi = new_CgiManager maxWorkers, wo_effects = [],
      wo_events = []\<rparr>"

definition server_of :: "(string, size_t) omap \<Rightarrow> World \<Rightarrow> Registry \<Rightarrow> Server" where
  "server_of headerMax w r =
     \<lparr>sv_listeners = rg_listeners r, sv_byFd = rg_byFd r, sv_listenHeaderMax = headerMax, sv_world = w,
      sv_timers = new_TimeoutManager, sv_epoll = rg_epoll r, sv_em = rg_em r, sv_clients = [],
      sv_sent = [], sv_closed = rg_closed r, sv_next = 1, sv_dangling = False\<rparr>"

definition new_Server ::
  "Config list \<Rightarrow> (ListenKey \<Rightarrow> open_outcome) \<Rightarrow> SessionManager \<Rightarrow> Random \<Rightarrow> Server res" where
  "new_Server configs opens sessions rd =
     rbind (resolveCgiMaxWorkers configs) (\<lambda>maxWorkers.
     rbind (resolveMaxEvents configs) (\<lambda>maxEvents.
     rbind (resolveListenHeaderMax configs) (\<lambda>headerMax.
     rbind (validateListenCompatibility configs) (\<lambda>_.
       case build_registry opens configs no_registry_yet of
         (Some e, r) \<Rightarrow> Inl e
       | (None, r) \<Rightarrow> Inr (server_of headerMax (new_World (unat maxWorkers) sessions rd) r)))))"

definition registry_of :: "Server \<Rightarrow> Registry" where
  "registry_of sv =
     \<lparr>rg_listeners = sv_listeners sv, rg_byFd = sv_byFd sv, rg_em = sv_em sv, rg_epoll = sv_epoll sv,
      rg_closed = sv_closed sv\<rparr>"

text \<open>The destructor destroys the clients, whose descriptors it does not close, and forgets the
  listening sockets.\<close>

definition end_Server :: "Server \<Rightarrow> Server" where
  "end_Server sv =
     (let r = forgetAll (registry_of sv)
      in sv\<lparr>sv_clients := [], sv_listeners := rg_listeners r, sv_byFd := rg_byFd r, sv_em := rg_em r,
            sv_epoll := rg_epoll r, sv_closed := rg_closed r\<rparr>)"

section \<open>A server that has been started\<close>

definition only_listens :: "Registry \<Rightarrow> bool" where
  "only_listens r \<longleftrightarrow> (\<forall>fd. kind_of (rg_em r) fd \<noteq> Some True \<and> client_addrs (events_of fd (rg_em r)) = {})"

lemma register_only_listens: "only_listens r \<Longrightarrow> only_listens (register_listener key fd r)"
  by (auto simp: only_listens_def register_listener_def table_simps events_of_watched client_addrs_def)

lemma open_all_only_listens:
  "open_all opens keys fds r = (None, r') \<Longrightarrow> only_listens r \<Longrightarrow> only_listens r'"
  by (induction opens keys fds r rule: open_all.induct)
    (auto simp: register_only_listens split: open_outcome.splits)

lemma started_server:
  assumes "new_Server configs opens sessions rd = Inr sv"
  shows "\<exists>maxWorkers headerMax r. build_registry opens configs no_registry_yet = (None, r) \<and>
    sv = server_of headerMax (new_World maxWorkers sessions rd) r"
proof -
  obtain e r where b: "build_registry opens configs no_registry_yet = (e, r)"
    by (cases "build_registry opens configs no_registry_yet")
  show ?thesis using assms b by (cases e) (auto simp: new_Server_def res_simps)
qed

lemma start_fresh:
  assumes "new_Server configs opens sessions rd = Inr sv"
  shows "fresh_server sv"
proof -
  obtain maxWorkers headerMax r where r: "build_registry opens configs no_registry_yet = (None, r)"
    and sv: "sv = server_of headerMax (new_World maxWorkers sessions rd) r"
    using started_server [OF assms] by blast
  have "only_listens (no_registry_yet\<lparr>rg_listeners := build_table configs, rg_byFd := []\<rparr>)"
    by (simp add: only_listens_def no_registry_yet_def new_EventManager_def events_of_watched client_addrs_def)
  then have "only_listens r"
    using r open_all_only_listens unfolding build_registry_def openAndRegisterListeners_def by blast
  then show ?thesis
    by (simp add: fresh_server_def sv server_of_def new_World_def only_listens_def addrs_at_def)
qed

end
