(* ===== verification/ServerFacts.thy ===== *)
theory ServerFacts
  imports Startup
begin

text \<open>
  What the invariant of the server gives for the turns of its event loop: no connection is left
  without a deadline or watched for nobody, deadlines are enforced, and bytes are sent in order.
  Two theorems show where the source leaves this: a descriptor that a worker still has recorded,
  and the answer to a client that reads too slowly.
\<close>

section \<open>Turns of the loop\<close>

fun calm_fds :: "Env \<Rightarrow> (Io \<times> int \<times> mask) list \<Rightarrow> Server \<Rightarrow> bool" where
  "calm_fds env [] sv = True"
| "calm_fds env ((io, fd, events) # rest) sv =
     (calm env io sv \<and>
      (case handle_fd env io fd events sv of Some (None, sv1) \<Rightarrow> calm_fds env rest sv1 | _ \<Rightarrow> True))"

definition between :: "Turn \<Rightarrow> Server \<Rightarrow> Server" where
  "between t sv =
     on_cgi (\<lambda>m. cleanupTimedOutWorkers (tu_now t) (cleanupFinishedWorkers (tu_children t) m)) sv"

definition calm_turn :: "Env \<Rightarrow> Turn \<Rightarrow> Server \<Rightarrow> bool" where
  "calm_turn env t sv \<longleftrightarrow>
     (case (wait_events (tu_wait t), check_timeouts env (tu_date t) (tu_now t) (tu_sends t) sv) of
        (Some (Inr events), None, sv1) \<Rightarrow> calm_fds env events (between t sv1) | _ \<Rightarrow> True)"

fun calm_turns :: "(Env \<times> Turn) list \<Rightarrow> Server \<Rightarrow> bool" where
  "calm_turns [] sv = True"
| "calm_turns ((env, t) # ts) sv =
     (calm_turn env t sv \<and>
      (case turn env t sv of Some (None, sv1) \<Rightarrow> calm_turns ts sv1 | _ \<Rightarrow> True))"

lemma handle_fds_serves:
  "handle_fds env evs sv = Some (None, sv') \<Longrightarrow> calm_fds env evs sv \<Longrightarrow> serves\<^sup>*\<^sup>* sv sv'"
proof (induction evs arbitrary: sv)
  case (Cons ev evs)
  obtain io fd events where ev: "ev = (io, fd, events)" by (cases ev)
  from Cons.prems(1) obtain sv1 where one: "handle_fd env io fd events sv = Some (None, sv1)"
    and rest: "handle_fds env evs sv1 = Some (None, sv')"
    by (auto simp: ev split: option.splits prod.splits)
  have "serves sv sv1" using one Cons.prems(2) by (auto simp: ev intro: serves.event)
  moreover have "serves\<^sup>*\<^sup>* sv1 sv'" using Cons.IH [OF rest] Cons.prems(2) one by (simp add: ev)
  ultimately show ?case by (rule converse_rtranclp_into_rtranclp)
qed simp

lemma between_serves: "serves\<^sup>*\<^sup>* sv (between t sv)"
proof -
  have "between t sv = on_cgi (cleanupTimedOutWorkers (tu_now t)) (on_cgi (cleanupFinishedWorkers (tu_children t)) sv)"
    by (simp add: between_def on_cgi_def)
  then show ?thesis
    by (metis rtranclp.rtrancl_into_rtrancl rtranclp.rtrancl_refl serves.children serves.slow_children)
qed

lemma turn_serves:
  assumes "turn env t sv = Some (None, sv')" "calm_turn env t sv"
  shows "serves\<^sup>*\<^sup>* sv sv'"
proof -
  obtain events where w: "wait_events (tu_wait t) = Some (Inr events)"
    and r: "ready_turn env t events sv = Some (None, sv')"
    using assms(1) by (auto simp: turn_def split: option.splits sum.splits)
  obtain sv1 where t: "check_timeouts env (tu_date t) (tu_now t) (tu_sends t) sv = (None, sv1)"
    using r by (auto simp: ready_turn_def split: prod.splits option.splits)
  obtain sv3 where e: "handle_fds env events (between t sv1) = Some (None, sv3)"
    and s: "sv' = clean_sessions (tu_now t) sv3"
    using r t by (auto simp: ready_turn_def between_def Let_def andthen_def split: prod.splits option.splits)
  have "serves\<^sup>*\<^sup>* (between t sv1) sv3"
    using handle_fds_serves [OF e] assms(2) t w by (simp add: calm_turn_def)
  moreover have "serves sv sv1" using t by (rule serves.timeouts)
  moreover have "serves sv3 sv'" unfolding s by (rule serves.sessions)
  ultimately show ?thesis using between_serves [of sv1 t]
    by (meson converse_rtranclp_into_rtranclp rtranclp.rtrancl_into_rtrancl rtranclp_trans)
qed

lemma run_turns_serves:
  "run_turns ts sv = Some (None, sv') \<Longrightarrow> calm_turns ts sv \<Longrightarrow> serves\<^sup>*\<^sup>* sv sv'"
proof (induction ts arbitrary: sv)
  case (Cons et ts)
  obtain env t where et: "et = (env, t)" by (cases et)
  from Cons.prems(1) obtain sv1 where one: "turn env t sv = Some (None, sv1)"
    and rest: "run_turns ts sv1 = Some (None, sv')"
    by (auto simp: et split: option.splits prod.splits)
  have "serves\<^sup>*\<^sup>* sv sv1" using turn_serves [OF one] Cons.prems(2) by (simp add: et)
  moreover have "serves\<^sup>*\<^sup>* sv1 sv'" using Cons.IH [OF rest] Cons.prems(2) one by (simp add: et)
  ultimately show ?case by (rule rtranclp_trans)
qed simp

lemma run_turns_inv:
  "fresh_server sv \<Longrightarrow> calm_turns ts sv \<Longrightarrow> run_turns ts sv = Some (None, sv') \<Longrightarrow> server_inv {} sv'"
  using inv_run run_turns_serves by blast



section \<open>A server that accepts a connection\<close>

definition local_listen :: Listen where
  "local_listen = \<lparr>lst_host = [], lst_interface = ''127.0.0.1'', lst_port = 8080\<rparr>"

definition timed_config :: Config where
  "timed_config = www_config\<lparr>cfg_listens := [local_listen],
     cfg_maxEvents := 64, cfg_requestHeaderTimeoutSec := 10, cfg_maxRequestHeaderSize := 1024\<rparr>"

definition timed_env :: Env where
  "timed_env = idle_env\<lparr>en_vhosts := [timed_config]\<rparr>"

definition one_listener :: Server where
  "one_listener =
     \<lparr>sv_listeners = [(ListenKey ''127.0.0.1'' 8080,
        \<lparr>ls_key = ListenKey ''127.0.0.1'' 8080, ls_fd = 3, ls_vhostIndices = [0], ls_defaultVhostIndex = 0\<rparr>)],
      sv_byFd = [(3, ListenKey ''127.0.0.1'' 8080)], sv_listenHeaderMax = [(''127.0.0.1:8080'', 1024)],
      sv_world = new_World 64 new_SessionManager (wo_random idle_world),
      sv_timers = new_TimeoutManager, sv_epoll = [(3, EPOLLIN)],
      sv_em = addEvent 3 NewConnectionEvent (initFd False 3 new_EventManager),
      sv_clients = [], sv_sent = [], sv_closed = [], sv_next = 1, sv_dangling = False\<rparr>"

definition quiet_io :: Io where
  "quiet_io =
     \<lparr>io_now = 0, io_date = [], io_peek = False, io_recv = Disconnected, io_send = Sent 0,
      io_accept = Accepted 5 ''10.0.0.1'' 4000, io_cgi_read = Again, io_cgi_write = Retry,
      io_child_error = None, io_children = []\<rparr>"

definition accepting_turn :: Turn where
  "accepting_turn =
     \<lparr>tu_now = 0, tu_date = [], tu_sends = (\<lambda>_. Sent 0), tu_children = [],
      tu_wait = [Wait_interrupted, Ready [(quiet_io, 3, EPOLLIN)]]\<rparr>"

lemma no_cleanup [simp]:
  "cleanupFinishedWorkers [] m = m" "cleanupTimedOutWorkers now (new_CgiManager n) = new_CgiManager n"
  by (simp_all add: cleanupFinishedWorkers_def cleanupTimedOutWorkers_def new_CgiManager_def)

lemma no_timeouts:
  "sv_timers sv = new_TimeoutManager \<Longrightarrow> check_timeouts env date now sends sv = (None, sv)"
  by (simp add: check_timeouts_def checkAndHandleTimeouts_def collect_expired_def new_TimeoutManager_def)

lemma one_listener_turn:
  "check_timeouts timed_env date now sends one_listener = (None, one_listener)"
  "between accepting_turn one_listener = one_listener"
  by (rule no_timeouts) (simp_all add: one_listener_def between_def on_cgi_def new_World_def accepting_turn_def)

definition accepted :: AcceptedConn where
  "accepted = \<lparr>ac_fd = 5, ac_ip = ''10.0.0.1'', ac_port = 4000, ac_key = ListenKey ''127.0.0.1'' 8080,
     ac_defaultVhostIndex = 0\<rparr>"

lemma one_listener_event:
  "handle_fd timed_env quiet_io 3 EPOLLIN one_listener =
     Some (None, enter_client timed_env 0 accepted one_listener)"
proof -
  have d: "dispatch 3 (effective_events False EPOLLIN) (touch_entry 3 (sv_em one_listener)) = Some NewConnectionEvent"
    by code_simp
  have f: "failed EPOLLIN = False" by code_simp
  have k: "has_key (em_eventsTable (sv_em one_listener)) 3" by code_simp
  have t: "one_listener\<lparr>sv_em := touch_entry 3 (sv_em one_listener)\<rparr> = one_listener" by code_simp
  have a: "acceptOnce (io_accept quiet_io) (sv_byFd one_listener) (sv_listeners one_listener) 3 =
      (Some accepted, None)" by code_simp
  have io: "io_now quiet_io = 0" "io_peek quiet_io = False" by (simp_all add: quiet_io_def)
  show ?thesis
    unfolding handle_fd_def handle_events_def
    by (simp add: d f k t io Let_def handleNewConnection_def a) (simp add: accepted_def timed_env_def idle_env_def)
qed

definition one_client :: Server where
  "one_client = clean_sessions 0 (enter_client timed_env 0 accepted one_listener)"

lemma one_listener_runs:
  "run_turns [(timed_env, accepting_turn)] one_listener = Some (None, one_client)"
  "calm_turns [(timed_env, accepting_turn)] one_listener"
proof -
  have ev: "wait_events (tu_wait accepting_turn) = Some (Inr [(quiet_io, 3, EPOLLIN)])" "tu_now accepting_turn = 0"
    by (simp_all add: accepting_turn_def)
  have "turn timed_env accepting_turn one_listener = Some (None, one_client)"
    using one_listener_turn(2)
    by (simp add: turn_def ready_turn_def one_listener_turn(1) ev one_listener_event one_client_def between_def)
  moreover have "calm timed_env quiet_io one_listener"
    by (simp add: calm_def new_pipes_def timed_env_def idle_env_def quiet_io_def unused_def one_listener_def
        new_World_def new_CgiManager_def all_held_def events_of_watched table_simps new_EventManager_def)
  ultimately show "run_turns [(timed_env, accepting_turn)] one_listener = Some (None, one_client)"
    "calm_turns [(timed_env, accepting_turn)] one_listener"
    by (simp_all add: calm_turn_def one_listener_turn ev one_listener_event)
qed

lemma one_listener_started:
  "new_Server [timed_config] (\<lambda>_. Listening 3) new_SessionManager (wo_random idle_world) = Inr one_listener"
proof -
  have w: "resolveCgiMaxWorkers [timed_config] = Inr 64" "resolveMaxEvents [timed_config] = Inr 64"
    "validateListenCompatibility [timed_config] = Inr ()" by code_simp+
  have h: "resolveListenHeaderMax [timed_config] = Inr [(''127.0.0.1:8080'', 1024)]"
  proof -
    have "listenToString local_listen = ''127.0.0.1:8080''"
      by (simp add: listenToString_def local_listen_def show_int_def show_nat.simps [of 8080]
          show_nat.simps [of 808] show_nat.simps [of 80] show_nat.simps [of 8] char_of_def bit_0)
    then show ?thesis by (simp add: resolveListenHeaderMax_def header_max_step_def timed_config_def)
  qed
  have "server_of hm w (snd (build_registry (\<lambda>_. Listening 3) [timed_config] no_registry_yet)) =
      one_listener\<lparr>sv_listenHeaderMax := hm, sv_world := w\<rparr>" for hm w by code_simp
  moreover have "fst (build_registry (\<lambda>_. Listening 3) [timed_config] no_registry_yet) = None" by code_simp
  ultimately show ?thesis
    by (simp add: new_Server_def w h split_beta)
      (simp add: one_listener_def)
qed



lemma one_client_deadline:
  "check_timeouts timed_env [] 0 (\<lambda>_. Sent 0) one_client = (None, one_client)"
proof -
  have "sv_timers one_client = add_timer 0 1 (calculateTimeout (cn_ctx (new_Conn 0 1 timed_config
      (header_limit timed_config (ac_key accepted) one_listener) accepted))) new_TimeoutManager"
    by (simp add: one_client_def clean_sessions_def enter_client_def Let_def timed_env_def idle_env_def accepted_def
        one_listener_def set_conn_def watch_def on_em_def has_key_def)
  moreover have "calculateTimeout (cn_ctx (new_Conn 0 1 timed_config h accepted)) = 10" for h
    by (simp add: new_Conn_def new_PipelineContext_def new_RequestParser_def calculateTimeout_def
        timed_config_def www_config_def two_locations_def)
  moreover have "collect_expired 0 (add_timer 0 1 10 new_TimeoutManager) =
      ([], add_timer 0 1 10 new_TimeoutManager)"
    by code_simp
  ultimately have "collect_expired 0 (sv_timers one_client) = ([], sv_timers one_client)" by simp
  then show ?thesis by (simp add: check_timeouts_def checkAndHandleTimeouts_def)
qed


section \<open>The bytes sent to a client\<close>

text \<open>What the socket has taken, followed by what waits in the send buffer.\<close>

definition taken :: "int \<Rightarrow> Server \<Rightarrow> string" where
  "taken fd sv = concat (map snd (filter (\<lambda>p. fst p = fd) (sv_sent sv)))"

definition stream :: "int \<Rightarrow> Server \<Rightarrow> string" where
  "stream fd sv = taken fd sv @ (case map_of (sv_clients sv) fd of None \<Rightarrow> [] | Some c \<Rightarrow> cn_sendBuffer c)"

lemma stream_same:
  "sv_sent sv' = sv_sent sv \<Longrightarrow> map_of (sv_clients sv') fd = map_of (sv_clients sv) fd \<Longrightarrow>
    stream fd sv' = stream fd sv"
  by (simp add: stream_def taken_def)

lemma stream_set_conn:
  "map_of (sv_clients sv) fd = Some c \<Longrightarrow> cn_sendBuffer c' = cn_sendBuffer c @ rest \<Longrightarrow>
    stream fd (set_conn fd c' sv) = stream fd sv @ rest"
  by (simp add: stream_def taken_def set_conn_def)

lemma closed_gone: "map_of (sv_clients (closeConnection fd sv)) fd = None"
  by (simp add: closeConnection_def Let_def close_fd_def split: option.splits)

lemma modifySocket_frame:
  "sv_sent (snd (modifySocket fd m sv)) = sv_sent sv" "sv_clients (snd (modifySocket fd m sv)) = sv_clients sv"
  by (simp_all add: modifySocket_def)

lemma stream_modifySocket [simp]: "modifySocket fd m sv = (e, sv') \<Longrightarrow> stream x sv' = stream x sv"
  by (rule stream_same) (metis modifySocket_frame snd_conv)+

lemma updateTimeout_frame [simp]:
  "sv_sent (updateTimeout now fd sv) = sv_sent sv" "sv_clients (updateTimeout now fd sv) = sv_clients sv"
  by (simp_all add: updateTimeout_def split: option.splits)

lemma watch_cgi_frame [simp]: "sv_sent (watch_cgi p sv) = sv_sent sv" "sv_clients (watch_cgi p sv) = sv_clients sv"
  by (simp_all add: watch_cgi_def watch_def on_em_def)

lemma fold_watch_frame [simp]:
  "sv_sent (fold watch_cgi ps sv) = sv_sent sv" "sv_clients (fold watch_cgi ps sv) = sv_clients sv"
  by (induction ps arbitrary: sv) simp_all

lemma after_pipeline_frame:
  "sv_sent (after_pipeline fd c s sv) = sv_sent sv"
  "map_of (sv_clients (after_pipeline fd c s sv)) fd = Some (c\<lparr>cn_ctx := fst s\<rparr>)"
  by (simp_all add: after_pipeline_def set_conn_def split: prod.splits)

lemma stream_generateResponse:
  assumes "generateResponse date fd sv = (e, sv')"
  shows "prefix (stream fd sv) (stream fd sv')"
proof (cases "map_of (sv_clients sv) fd")
  case None
  then show ?thesis using assms by (auto simp: generateResponse_def stream_def taken_def)
next
  case (Some c)
  let ?c = "c\<lparr>cn_ctx := map_res (complete_headers date) (cn_ctx c),
      cn_sendBuffer := cn_sendBuffer c @ build date (cx_res (cn_ctx c))\<rparr>"
  have "stream fd (set_conn fd ?c sv) = stream fd sv @ build date (cx_res (cn_ctx c))"
    by (rule stream_set_conn [OF Some]) simp
  then show ?thesis
    using assms Some by (auto simp: generateResponse_def Let_def split: if_splits)
qed

lemma stream_handleRequest:
  assumes "handleRequest env date fd sv = Some (e, sv')"
  shows "prefix (stream fd sv) (stream fd sv')"
proof (cases "map_of (sv_clients sv) fd")
  case None
  then show ?thesis using assms by (auto simp: handleRequest_def stream_def taken_def)
next
  case (Some c)
  obtain e1 ctx w where run: "main_handle 2 env (en_vhosts env ! cl_activeVhost (cx_ownerClient (cn_ctx c)))
      (cn_ctx c, sv_world sv) = Some (e1, ctx, w)"
    using assms Some by (auto simp: handleRequest_def split: option.splits)
  let ?sv = "after_pipeline fd c (ctx, w) sv"
  have same: "stream fd ?sv = stream fd sv"
    using Some by (simp add: stream_def taken_def after_pipeline_frame)
  have "stream fd (set_conn fd (c\<lparr>cn_ctx := ctx\<lparr>cx_isCgi := False\<rparr>\<rparr>) ?sv) = stream fd sv"
    using same stream_set_conn [of ?sv fd "c\<lparr>cn_ctx := ctx\<rparr>" "c\<lparr>cn_ctx := ctx\<lparr>cx_isCgi := False\<rparr>\<rparr>" "[]"]
    by (simp add: after_pipeline_frame)
  then show ?thesis
    using assms Some run same stream_generateResponse [of date fd ?sv]
    by (auto simp: handleRequest_def Let_def split: option.splits if_splits)
qed

lemma stream_handleReadEvent:
  assumes "handleReadEvent env date now r fd sv = Some (e, sv')"
    and "map_of (sv_clients sv) fd = Some c" "map_of (sv_clients sv') fd \<noteq> None"
  shows "prefix (stream fd sv) (stream fd sv')"
proof (cases r)
  case (Received bytes)
  let ?sv = "set_conn fd (append_received bytes c) sv"
  have "stream fd ?sv = stream fd sv"
    using stream_set_conn [OF assms(2), of "append_received bytes c" "[]"] by (simp add: append_received_def)
  moreover obtain e1 sv1 where run: "handleRequest env date fd ?sv = Some (e1, sv1)"
    using assms(1,2) Received by (auto simp: handleReadEvent_def)
  moreover have "stream fd (updateTimeout now fd sv1) = stream fd sv1" by (rule stream_same) simp_all
  ultimately show ?thesis
    using stream_handleRequest [OF run] assms(1,2) Received
    by (cases e1) (auto simp: handleReadEvent_def)
qed (use assms closed_gone in \<open>auto simp: handleReadEvent_def split: if_splits\<close>)

lemma stream_handleWriteEvent:
  assumes "handleWriteEvent env now s fd sv = (e, sv')"
    and "map_of (sv_clients sv) fd = Some c" "map_of (sv_clients sv') fd \<noteq> None"
  shows "stream fd sv' = stream fd sv"
proof (cases "cn_sendBuffer c = []")
  case True
  then show ?thesis using assms(1,2) by (simp add: handleWriteEvent_def)
next
  case False
  show ?thesis
  proof (cases s)
    case (Sent n)
    let ?c = "c\<lparr>cn_sendBuffer := drop n (cn_sendBuffer c)\<rparr>"
    let ?sv = "set_conn fd ?c (sv\<lparr>sv_sent := sv_sent sv @ [(fd, take n (cn_sendBuffer c))]\<rparr>)"
    have out: "stream fd ?sv = stream fd sv"
      using assms(2) by (simp add: stream_def taken_def set_conn_def)
    show ?thesis
    proof (cases "drop n (cn_sendBuffer c) = [] \<and> rs_getHeader (cx_res (cn_ctx c)) ''Connection'' \<noteq> ''close''")
      case False
      then show ?thesis
        using assms \<open>cn_sendBuffer c \<noteq> []\<close> Sent out closed_gone [of fd ?sv]
        by (auto simp: handleWriteEvent_def Let_def split: if_splits)
    next
      case True
      obtain e1 sv1 where m: "modifySocket fd EPOLLIN ?sv = (e1, sv1)" by force
      then have sv1: "sv_sent sv1 = sv_sent ?sv" "sv_clients sv1 = sv_clients ?sv"
        by (metis modifySocket_frame snd_conv)+
      have "stream fd (set_conn fd (?c\<lparr>cn_ctx := x\<rparr>) (updateTimeout now fd sv1)) = stream fd sv" for x
        unfolding out [symmetric] using sv1 by (simp add: stream_def taken_def set_conn_def)
      then show ?thesis
        using assms \<open>cn_sendBuffer c \<noteq> []\<close> Sent True m out sv1
        by (cases e1) (auto simp: handleWriteEvent_def Let_def stream_def taken_def)
    qed
  next
    case (Send_failed again)
    then show ?thesis using assms False closed_gone by (auto simp: handleWriteEvent_def split: if_splits)
  qed
qed

text \<open>C16: a client gets its bytes in order, none lost and none twice: an event of the client that
  leaves the connection open adds at the end of what it has been sent and is still to be sent, and
  a write event changes nothing in it.\<close>

theorem bytes_in_order:
  assumes "run_event env io fd e sv = Some (x, sv')"
    and "map_of (sv_clients sv) fd = Some c" "map_of (sv_clients sv') fd = Some c'"
    and "e = ReadEvent (cn_addr c) \<or> e = WriteEvent (cn_addr c)"
  shows "case e of WriteEvent _ \<Rightarrow> stream fd sv' = stream fd sv | _ \<Rightarrow> prefix (stream fd sv) (stream fd sv')"
proof -
  have "owns (cn_addr c) fd sv" using assms(2) by (simp add: owns_def)
  then show ?thesis
    using assms stream_handleReadEvent [of env "io_date io" "io_now io" "io_recv io" fd sv x sv' c]
      stream_handleWriteEvent [of env "io_now io" "io_send io" fd sv x sv' c] by auto
qed


definition waiting_client :: Conn where
  "waiting_client = (new_Conn 0 1 timed_config 1024 accepted)\<lparr>cn_sendBuffer := ''abc''\<rparr>"

theorem bytes_in_order_witness:
  "stream 5 (set_conn 5 (waiting_client\<lparr>cn_sendBuffer := ''c''\<rparr>) (one_listener\<lparr>sv_sent := [(5, ''ab'')]\<rparr>)) =
   stream 5 (set_conn 5 waiting_client one_listener)"
proof -
  let ?io = "quiet_io\<lparr>io_send := Sent 2\<rparr>"
  let ?sv = "set_conn 5 waiting_client one_listener"
  let ?sv' = "set_conn 5 (waiting_client\<lparr>cn_sendBuffer := ''c''\<rparr>) (one_listener\<lparr>sv_sent := [(5, ''ab'')]\<rparr>)"
  have run: "run_event timed_env ?io 5 (WriteEvent 1) ?sv = Some (None, ?sv')"
    by (simp add: owns_def set_conn_def handleWriteEvent_def waiting_client_def new_Conn_def one_listener_def)
  have "cn_addr waiting_client = 1" by (simp add: waiting_client_def new_Conn_def)
  then show ?thesis
    using bytes_in_order [OF run, of waiting_client "waiting_client\<lparr>cn_sendBuffer := ''c''\<rparr>"]
    by (simp add: set_conn_def)
qed

section \<open>Where the tables and the objects part\<close>

definition unseen :: "int \<Rightarrow> Server \<Rightarrow> bool" where
  "unseen fd sv \<longleftrightarrow> watched (sv_em sv) fd = None \<and> map_of (sv_epoll sv) fd = None"

lemma unseen_steps:
  "unseen fd sv \<Longrightarrow> unseen fd (detach_fd x sv)" "unseen fd (detach_fd fd sv)"
  "unseen fd sv \<Longrightarrow> unseen fd (closePipe x sv)" "unseen fd sv \<Longrightarrow> unseen fd (close_fd x sv)"
  "unseen fd sv \<Longrightarrow> unseen fd (on_em (forgetFd x) sv)" "unseen fd sv \<Longrightarrow> unseen fd (unregisterSocket x sv)"
  by (simp_all add: unseen_def detach_fd_def closePipe_def close_fd_def on_em_def unregisterSocket_def table_simps)

lemma unseen_fold: "(\<And>x sv. unseen fd sv \<Longrightarrow> unseen fd (g x sv)) \<Longrightarrow> unseen fd sv \<Longrightarrow> unseen fd (fold g xs sv)"
  by (induction xs arbitrary: sv) simp_all

lemma unseen_detached: "fd \<in> set fds \<Longrightarrow> unseen fd (fold detach_fd fds sv)"
proof (induction fds arbitrary: sv)
  case (Cons x fds)
  then show ?case using unseen_fold [OF unseen_steps(1) unseen_steps(2)] by auto
qed simp

lemma unseen_destroyed: "fd \<in> set (wk_eventFds w) \<Longrightarrow> 0 \<le> fd \<Longrightarrow> unseen fd (destroy_worker False w sv)"
  unfolding destroy_worker_def detachEvents_def
  by (intro unseen_fold unseen_steps(3) unseen_detached) auto

lemma frames [simp]:
  "sv_clients (close_fd x sv) = sv_clients sv" "sv_clients (detach_fd x sv) = sv_clients sv"
  "sv_clients (closePipe x sv) = sv_clients sv" "sv_clients (on_em f sv) = sv_clients sv"
  "sv_clients (unregisterSocket x sv) = sv_clients sv" "sv_clients (on_cgi g sv) = sv_clients sv"
  "sv_sent (close_fd x sv) = sv_sent sv" "sv_sent (detach_fd x sv) = sv_sent sv"
  "sv_sent (closePipe x sv) = sv_sent sv" "sv_sent (on_em f sv) = sv_sent sv"
  "sv_sent (unregisterSocket x sv) = sv_sent sv" "sv_sent (on_cgi g sv) = sv_sent sv"
  by (simp_all add: close_fd_def detach_fd_def closePipe_def on_em_def unregisterSocket_def on_cgi_def)

lemma frame_fold: "(\<And>x sv. get (g x sv) = get sv) \<Longrightarrow> get (fold g xs sv) = get sv"
  by (induction xs arbitrary: sv) simp_all

lemma destroy_frames [simp]:
  "sv_clients (destroy_worker keep w sv) = sv_clients sv" "sv_sent (destroy_worker keep w sv) = sv_sent sv"
  by (simp_all add: destroy_worker_def detachEvents_def frame_fold [of sv_clients] frame_fold [of sv_sent]
      del: fold_append)

text \<open>C35: a worker remembers the descriptors of its pipes after it has closed them.  When one of
  them has become the socket of another client, the end of the worker's client takes that socket
  out of \<open>epoll\<close> and out of the event table: the client is still there, but nothing will ever be
  read from it or written to it.\<close>

theorem stale_descriptor_deafens:
  assumes "map_of (sv_clients sv) fd = Some c" "worker_of_client other sv = Some w"
    and "fd \<in> set (wk_eventFds w)" "0 \<le> fd" "other \<noteq> fd"
  shows "map_of (sv_clients (closeConnection other sv)) fd = Some c \<and>
    watched (sv_em (closeConnection other sv)) fd = None \<and>
    map_of (sv_epoll (closeConnection other sv)) fd = None"
proof -
  define sv1 where "sv1 = on_em (forgetFd other) (unregisterSocket other (abort_client other sv))"
  have "unseen fd sv1" unfolding sv1_def
    using assms(2-4) unseen_destroyed by (simp add: abort_client_def unseen_steps(5,6))
  moreover have "sv_clients sv1 = sv_clients sv" using assms(2) by (simp add: sv1_def abort_client_def)
  ultimately show ?thesis
    using assms(1,5)
    by (auto simp: closeConnection_def Let_def close_fd_def unseen_def simp flip: sv1_def split: option.splits)
qed

section \<open>The answer 408\<close>

lemma close_sent [simp]: "sv_sent (closeConnection fd sv) = sv_sent sv"
  by (simp add: closeConnection_def Let_def close_fd_def abort_client_def split: option.splits)

lemma remove_sent [simp]: "sv_sent (removeClientFd fd sv) = sv_sent sv"
  by (simp add: removeClientFd_def removeFd_def Let_def split: option.splits)

lemma build_not_empty: "build date res \<noteq> []"
  by (simp add: build_def Let_def)

lemma handleWriteEvent_sent:
  assumes "handleWriteEvent env now s fd sv = (None, sv1)"
    and "map_of (sv_clients sv) fd = Some c" "cn_sendBuffer c \<noteq> []"
  shows "case s of
      Sent n \<Rightarrow> sv_sent sv1 = sv_sent sv @ [(fd, take n (cn_sendBuffer c))]
    | Send_failed again \<Rightarrow> sv_sent sv1 = sv_sent sv \<and> (again \<or> map_of (sv_clients sv1) fd = None)"
proof (cases s)
  case (Sent n)
  let ?c = "c\<lparr>cn_sendBuffer := drop n (cn_sendBuffer c)\<rparr>"
  let ?sv = "set_conn fd ?c (sv\<lparr>sv_sent := sv_sent sv @ [(fd, take n (cn_sendBuffer c))]\<rparr>)"
  have "sv_sent (snd (modifySocket fd EPOLLIN ?sv)) = sv_sent sv @ [(fd, take n (cn_sendBuffer c))]"
    by (simp add: modifySocket_frame set_conn_def)
  moreover have "sv_sent (set_conn fd x s1) = sv_sent s1" for x s1 by (simp add: set_conn_def)
  ultimately show ?thesis
    using assms Sent
    by (cases "modifySocket fd EPOLLIN ?sv"; cases "fst (modifySocket fd EPOLLIN ?sv)")
      (auto simp: handleWriteEvent_def Let_def split: if_splits)
qed (use assms closed_gone in \<open>auto simp: handleWriteEvent_def split: if_splits\<close>)

text \<open>The answer to a client that is too slow replaces what was still to be sent to it: if a part of a
  response has been taken, the bytes that follow it are those of the 408.  And when the socket
  fails, the handler uses the client after destroying it.\<close>

theorem timeout_splices_response:
  assumes "map_of (sv_clients sv) fd = Some c"
    and "onTimeout env date now s fd sv = (None, sv')"
  shows "\<exists>res. error_handle (en_os env) (cx_conf (cn_ctx c)) (cx_req (cn_ctx c))
      ((cx_res (cn_ctx c))\<lparr>rs_statusCode := 408\<rparr>) = (None, res) \<and>
    (case s of
       Sent n \<Rightarrow> taken fd sv' = taken fd sv @ take n (build date res)
     | Send_failed again \<Rightarrow> taken fd sv' = taken fd sv \<and> (again \<or> sv_dangling sv'))"
proof -
  let ?ctx = "map_res (\<lambda>res. res\<lparr>rs_statusCode := 408\<rparr>) (cn_ctx c)"
  obtain res where page: "error_handle (en_os env) (cx_conf ?ctx) (cx_req ?ctx) (cx_res ?ctx) = (None, res)"
    using assms by (auto simp: onTimeout_def Let_def split: prod.splits option.splits)
  define c1 where "c1 = c\<lparr>cn_ctx := ?ctx\<lparr>cx_res := complete_headers date res\<rparr>, cn_sendBuffer := build date res\<rparr>"
  obtain sv1 where w: "handleWriteEvent env now s fd (set_conn fd c1 sv) = (None, sv1)"
    and fin: "sv' = (case map_of (sv_clients sv1) fd of
        None \<Rightarrow> sv1\<lparr>sv_dangling := True\<rparr> | Some _ \<Rightarrow> removeClientFd fd sv1)"
    using assms page
    by (cases "handleWriteEvent env now s fd (set_conn fd c1 sv)")
      (auto simp: onTimeout_def Let_def c1_def andthen_def split: option.splits)
  have c1: "map_of (sv_clients (set_conn fd c1 sv)) fd = Some c1" "cn_sendBuffer c1 = build date res"
    "sv_sent (set_conn fd c1 sv) = sv_sent sv"
    by (simp_all add: set_conn_def c1_def)
  have "sv_sent sv' = sv_sent sv1" using fin by (simp split: option.splits)
  then have "case s of
       Sent n \<Rightarrow> taken fd sv' = taken fd sv @ take n (build date res)
     | Send_failed again \<Rightarrow> taken fd sv' = taken fd sv \<and> (again \<or> sv_dangling sv')"
    using handleWriteEvent_sent [OF w c1(1)] fin
    by (cases s) (auto simp: c1 build_not_empty taken_def)
  moreover have "error_handle (en_os env) (cx_conf (cn_ctx c)) (cx_req (cn_ctx c))
      ((cx_res (cn_ctx c))\<lparr>rs_statusCode := 408\<rparr>) = (None, res)"
    using page by simp
  ultimately show ?thesis by blast
qed


theorem timeout_splices_response_witness:
  "\<exists>sv' res. taken 5 sv' = ''ab'' @ take 2 (build [] res)"
proof -
  let ?sv = "set_conn 5 waiting_client (one_listener\<lparr>sv_sent := [(5, ''ab'')]\<rparr>)"
  have c: "map_of (sv_clients ?sv) 5 = Some waiting_client" by (simp add: set_conn_def)
  let ?ctx = "map_res (\<lambda>res. res\<lparr>rs_statusCode := 408\<rparr>) (cn_ctx waiting_client)"
  have "fst (error_handle one_os timed_config (cx_req ?ctx) (cx_res ?ctx)) = None"
    by (simp add: error_handle_def error_uri_def Let_def waiting_client_def new_Conn_def new_PipelineContext_def getErrorPage_def
        timed_config_def www_config_def two_locations_def new_HttpResponse_def)
  moreover have "en_os timed_env = one_os" by (simp add: timed_env_def idle_env_def)
  moreover have "cx_conf (cn_ctx waiting_client) = timed_config"
    by (simp add: waiting_client_def new_Conn_def new_PipelineContext_def)
  moreover have "\<not> length (build [] res) \<le> 2" for res by (simp add: build_def Let_def)
  ultimately have "fst (onTimeout timed_env [] 0 (Sent 2) 5 ?sv) = None" using c
    by (cases "error_handle one_os timed_config (cx_req ?ctx) (cx_res ?ctx)")
      (auto simp: onTimeout_def Let_def andthen_def handleWriteEvent_def set_conn_def build_not_empty)
  then have run: "onTimeout timed_env [] 0 (Sent 2) 5 ?sv = (None, snd (onTimeout timed_env [] 0 (Sent 2) 5 ?sv))"
    by (simp add: prod_eq_iff)
  have "taken 5 ?sv = ''ab''" by (simp add: taken_def set_conn_def)
  then show ?thesis using timeout_splices_response [OF c run] by auto
qed


definition recycled :: Server where
  "recycled = (set_conn 5 waiting_client (set_conn 11 waiting_client one_listener))
     \<lparr>sv_world := idle_world\<lparr>wo_cgi := (new_CgiManager 8)
        \<lparr>cm_workers := [(1, started_worker\<lparr>wk_eventFds := [11, -1, 12, 13, 14]\<rparr>)],
         cm_clientFdToWorker := [(5, 1)]\<rparr>\<rparr>\<rparr>"

theorem stale_descriptor_deafens_witness:
  "map_of (sv_clients (closeConnection 5 recycled)) 11 = Some waiting_client \<and>
    watched (sv_em (closeConnection 5 recycled)) 11 = None \<and>
    map_of (sv_epoll (closeConnection 5 recycled)) 11 = None"
proof (rule stale_descriptor_deafens)
  show "map_of (sv_clients recycled) 11 = Some waiting_client" by (simp add: recycled_def set_conn_def)
  show "worker_of_client 5 recycled = Some (started_worker\<lparr>wk_eventFds := [11, -1, 12, 13, 14]\<rparr>)"
    by (simp add: recycled_def worker_of_client_def)
qed simp_all

end
