(* ===== verification/CgiServed.thy ===== *)
theory CgiServed
  imports ServerFacts
begin

text \<open>
  One script from its first byte of output to the answer of its client: the events of its output
  (\<open>CgiWorker::handleRead\<close>), the end of its process (\<open>CgiManager::cleanupFinishedWorkers\<close>) and the
  event that makes the answer (\<open>CgiEndEvent::process\<close>), dispatched by the event manager.
\<close>

section \<open>What a script prints and what is answered\<close>

text \<open>What the answers of \<open>read\<close> amount to when the last of them is the end of the output.\<close>

fun printed :: "answer list \<Rightarrow> string option" where
  "printed [] = None"
| "printed (Again # as) = printed as"
| "printed (Data bytes # as) = map_option ((@) bytes) (printed as)"
| "printed (Eof # as) = (if as = [] then Some [] else None)"
| "printed (Error # as) = None"

text \<open>The answer that is promised: the response of the script, unless its output has no header
  block or it did not end well and set no status.\<close>

definition script_answer :: "ended \<Rightarrow> string \<Rightarrow> HttpResponse" where
  "script_answer e out =
     (let p = cgi_parse out new_CgiResponse in
      if cr_hasStatusHeader p \<or> cr_headersParsed p \<and> e = Exited 0 then setResponse p new_HttpResponse
      else new_HttpResponse\<lparr>rs_statusCode := 500\<rparr>)"

text \<open>An event is dispatched to a reader.\<close>

definition readable :: "Io \<Rightarrow> mask \<Rightarrow> bool" where
  "readable io m \<longleftrightarrow> \<not> failed m \<and> and (effective_events (io_peek io) m) EPOLLIN \<noteq> 0"

definition readings :: "int \<Rightarrow> (Io \<times> int \<times> mask) list \<Rightarrow> bool" where
  "readings fd evs \<longleftrightarrow> list_all (\<lambda>(io, x, m). x = fd \<and> readable io m) evs"

definition output_answers :: "(Io \<times> int \<times> mask) list \<Rightarrow> answer list" where
  "output_answers evs = map (\<lambda>(io, x, m). io_cgi_read io) evs"

section \<open>A worker and its client in the tables\<close>

definition worker_fds :: "CgiWorker \<Rightarrow> int list" where
  "worker_fds v =
     [wk_writeFd v, wk_readFd v, wk_errFd v, wk_statusFd v, wk_completionOut v, wk_completionIn v] @ wk_eventFds v"

definition scripted :: "int \<Rightarrow> nat \<Rightarrow> CgiWorker \<Rightarrow> Server \<Rightarrow> bool" where
  "scripted client a v sv \<longleftrightarrow>
     map_of (cm_workers (wo_cgi (sv_world sv))) a = Some v \<and>
     map_of (cm_clientFdToWorker (wo_cgi (sv_world sv))) client = Some a \<and> wk_clientFd v = client \<and>
     watched (sv_em sv) (wk_completionOut v) = Some [CgiEvent (Cgi_end client a)] \<and>
     (0 \<le> wk_readFd v \<longrightarrow> watched (sv_em sv) (wk_readFd v) = Some [CgiEvent (Cgi_read a)]) \<and>
     0 \<le> client \<and> has_key (sv_epoll sv) client \<and> client \<notin> set (worker_fds v)"

definition reaped_by :: "nat \<Rightarrow> int \<Rightarrow> CgiManager \<Rightarrow> bool" where
  "reaped_by a pid m \<longleftrightarrow> (\<forall>p. map_of (cm_pidToWorker m) p = Some a \<longleftrightarrow> p = pid)"

text \<open>A worker of which nothing has been read or reported.\<close>

definition fresh_worker :: "CgiWorker \<Rightarrow> bool" where
  "fresh_worker w \<longleftrightarrow> running w \<and> wk_responseBuffer w = [] \<and> wk_responseParser w = new_CgiResponse \<and>
     \<not> wk_completionNotified w"

text \<open>The output that has been read, and how the process ended when it has.\<close>

definition halfway :: "CgiWorker \<Rightarrow> string \<Rightarrow> ended option \<Rightarrow> CgiWorker \<Rightarrow> bool" where
  "halfway w out e v \<longleftrightarrow>
     wk_responseBuffer v = out \<and> wk_responseParser v = new_CgiResponse \<and> 0 \<le> wk_readFd v \<and>
     wk_readFd v = wk_readFd w \<and> wk_completionOut v = wk_completionOut w \<and>
     wk_pid v = wk_pid w \<and> \<not> wk_completionNotified v \<and> \<not> wk_outputComplete v \<and>
     wk_exitStatusSet v = (e \<noteq> None) \<and>
     (case e of None \<Rightarrow> wk_state v = CGI_SENDING_BODY \<or> wk_state v = CGI_RECEIVING
      | Some x \<Rightarrow> wk_state v \<noteq> CGI_TIMEOUT \<and> (wk_state v = CGI_ERROR) = (x \<noteq> Exited 0))"

definition read_out :: "CgiWorker \<Rightarrow> string \<Rightarrow> ended option \<Rightarrow> CgiWorker \<Rightarrow> bool" where
  "read_out w out e v \<longleftrightarrow>
     wk_responseParser v = cgi_parse out new_CgiResponse \<and> wk_completionOut v = wk_completionOut w \<and>
     wk_pid v = wk_pid w \<and> \<not> wk_completionNotified v \<and> wk_outputComplete v \<and>
     wk_exitStatusSet v = (e \<noteq> None) \<and> wk_state v \<noteq> CGI_TIMEOUT \<and>
     (wk_state v = CGI_COMPLETE \<longrightarrow> cr_headersParsed (wk_responseParser v)) \<and>
     (case e of None \<Rightarrow> wk_state v = (if cr_headersParsed (wk_responseParser v) then CGI_COMPLETE else CGI_ERROR)
      | Some x \<Rightarrow> worker_response v new_HttpResponse = script_answer x out)"

section \<open>Steps of the worker\<close>

abbreviation read_step :: "int \<Rightarrow> answer \<Rightarrow> CgiWorker \<Rightarrow> CgiWorker" where
  "read_step now x v \<equiv> fst (handleRead now x (v\<lparr>wk_lastActivityTime := now\<rparr>))"

lemma halfway_goes_on:
  assumes "halfway w out e v" "x = Again \<or> (\<exists>b. x = Data b \<and> length (out @ b) \<le> max_cgi_response)"
  shows "halfway w (out @ (case x of Data b \<Rightarrow> b | _ \<Rightarrow> [])) e (read_step now x v)"
    and "\<not> snd (handleRead now x v)" "worker_fds (read_step now x v) = worker_fds v"
    and "wk_clientFd (read_step now x v) = wk_clientFd v"
  using assms by (auto simp: halfway_def handleRead_def worker_fds_def)

lemma halfway_ends:
  assumes "halfway w out e v"
  shows "read_out w out e (read_step now Eof v)" "\<not> snd (handleRead now Eof v)"
    and "set (worker_fds (read_step now Eof v)) \<subseteq> insert (-1) (set (worker_fds v))"
    and "wk_clientFd (read_step now Eof v) = wk_clientFd v" "wk_readFd (read_step now Eof v) = -1"
    and "closed_pipes v (read_step now Eof v) = [wk_readFd v]"
proof -
  let ?v = "v\<lparr>wk_lastActivityTime := now\<rparr>"
  define p where "p = cgi_parse out new_CgiResponse"
  define u where "u = fst (handleRead now Eof ?v)"
  have none: "\<not> cr_headersParsed p \<Longrightarrow> \<not> cr_hasStatusHeader p"
    unfolding p_def by (rule cgi_parse_no_headers)
  have v: "0 \<le> wk_readFd ?v" "p = cgi_parse (wk_responseBuffer ?v) (wk_responseParser ?v)"
    using assms by (simp_all add: halfway_def p_def)
  note u = eof_fields [OF v u_def]
  have rest: "wk_completionOut u = wk_completionOut v" "wk_pid u = wk_pid v" "wk_clientFd u = wk_clientFd v"
    "wk_completionNotified u = wk_completionNotified v" "wk_readFd u = -1" "wk_writeFd u = wk_writeFd v"
    "wk_errFd u = wk_errFd v" "wk_statusFd u = wk_statusFd v" "wk_completionIn u = wk_completionIn v"
    "wk_eventFds u = wk_eventFds v"
    using v(1) by (simp_all add: u_def handleRead_def Let_def notify_def)
  show "read_out w out e u" unfolding read_out_def p_def [symmetric]
    using assms none by (cases e) (auto simp: halfway_def u rest eof_state_def worker_response_def
        script_answer_def Let_def simp flip: p_def)
  show "\<not> snd (handleRead now Eof v)" by (simp add: handleRead_def Let_def)
  show "set (worker_fds u) \<subseteq> insert (-1) (set (worker_fds v))" by (auto simp: worker_fds_def rest)
  show "wk_clientFd u = wk_clientFd v" "wk_readFd u = -1" by (simp_all add: rest)
  show "closed_pipes v u = [wk_readFd v]" using v(1) by (simp add: closed_pipes_def rest)
qed

lemma reap_fds: "worker_fds (reap_worker e status v) = worker_fds v"
  "wk_clientFd (reap_worker e status v) = wk_clientFd v" "wk_readFd (reap_worker e status v) = wk_readFd v"
  "wk_completionOut (reap_worker e status v) = wk_completionOut v" "wk_pid (reap_worker e status v) = wk_pid v"
  "wk_completionNotified (reap_worker e status v) = wk_completionNotified v"
  by (simp_all add: reap_worker_def Let_def notify_def setExitStatus_def worker_fds_def)

lemma halfway_reaped: "halfway w out None v \<Longrightarrow> halfway w out (Some e) (reap_worker e status v)"
proof -
  assume h: "halfway w out None v"
  note r = reap_fields [OF refl]
  from h show ?thesis
    by (cases e) (auto simp: halfway_def r reap_fds reap_state_def new_CgiResponse_def)
qed

lemma read_out_reaped: "read_out w out None v \<Longrightarrow> read_out w out (Some e) (reap_worker e status v)"
proof -
  assume h: "read_out w out None v"
  note r = reap_fields [OF refl]
  have "\<not> cr_headersParsed (wk_responseParser v) \<Longrightarrow> \<not> cr_hasStatusHeader (wk_responseParser v)"
    using h cgi_parse_no_headers by (simp add: read_out_def)
  with h show ?thesis
    by (cases e) (auto simp: read_out_def r reap_fds reap_state_def worker_response_def script_answer_def Let_def)
qed

section \<open>Steps of the server\<close>

lemma handle_fd_one:
  assumes "watched (sv_em sv) fd = Some [ev]" "readable io m" "expectedEventType ev = EPOLLIN"
  shows "handle_fd env io fd m sv = run_event env io fd ev (on_em (touch_entry fd) sv)"
  using assms
  by (simp add: handle_fd_def handle_events_def has_key_def readable_def dispatch_def isExpectedEventType_def
      events_of_watched table_simps on_em_def Let_def)

text \<open>What the answer of a client depends on, beside the worker.\<close>

definition clients_kept :: "Server \<Rightarrow> Server \<Rightarrow> bool" where
  "clients_kept sv sv2 \<longleftrightarrow> sv_clients sv2 = sv_clients sv \<and> sv_sent sv2 = sv_sent sv"

lemma read_event:
  assumes "scripted client a v sv" "0 \<le> wk_readFd v" "readable io m"
    and "\<not> snd (handleRead (io_now io) (io_cgi_read io) v)"
    and "v2 = read_step (io_now io) (io_cgi_read io) v"
  shows "handle_fd env io (wk_readFd v) m sv =
    Some (None, fold close_fd (closed_pipes v v2) (on_cgi (set_worker a v2) (on_em (touch_entry (wk_readFd v)) sv)))"
proof -
  have "handle_fd env io (wk_readFd v) m sv =
      run_event env io (wk_readFd v) (CgiEvent (Cgi_read a)) (on_em (touch_entry (wk_readFd v)) sv)"
    using assms(1-3) by (intro handle_fd_one) (simp_all add: scripted_def)
  moreover have "map_of (cm_workers (wo_cgi (sv_world (on_em (touch_entry (wk_readFd v)) sv)))) a = Some v"
    using assms(1) by (simp add: scripted_def on_em_def)
  ultimately show ?thesis using assms(4)
    by (simp add: cgi_read_event_def step_worker_def Let_def assms(5) closed_pipes_def)
qed

section \<open>From the first byte to the last event\<close>

text \<open>\<open>rest\<close> is what \<open>read\<close> will still answer, \<open>e\<close> the end of the process when it has been seen.\<close>

definition follows ::
  "int \<Rightarrow> nat \<Rightarrow> CgiWorker \<Rightarrow> string \<Rightarrow> answer list \<Rightarrow> ended option \<Rightarrow> Server \<Rightarrow> Server \<Rightarrow> bool" where
  "follows client a w whole rest e sv0 sv \<longleftrightarrow>
     clients_kept sv0 sv \<and> length whole \<le> max_cgi_response \<and>
     (e = None \<longrightarrow> reaped_by a (wk_pid w) (wo_cgi (sv_world sv))) \<and>
     (\<exists>v. scripted client a v sv \<and>
        ((\<exists>out b. halfway w out e v \<and> printed rest = Some b \<and> whole = out @ b) \<or>
         (rest = [] \<and> read_out w whole e v)))"

lemma follows_reads:
  assumes "follows client a w whole (io_cgi_read io # rest) e sv0 sv" "readable io m"
  shows "\<exists>sv'. handle_fd env io (wk_readFd w) m sv = Some (None, sv') \<and> follows client a w whole rest e sv0 sv'"
proof -
  let ?x = "io_cgi_read io"
  obtain v out b where s: "scripted client a v sv" and h: "halfway w out e v"
    and b: "printed (?x # rest) = Some b" "whole = out @ b" "length whole \<le> max_cgi_response"
    using assms(1) by (auto simp: follows_def)
  have fd: "wk_readFd v = wk_readFd w" "0 \<le> wk_readFd v" "wk_completionOut v = wk_completionOut w"
    using h by (simp_all add: halfway_def)
  define v2 where "v2 = read_step (io_now io) ?x v"
  define sv1 where "sv1 = on_cgi (set_worker a v2) (on_em (touch_entry (wk_readFd v)) sv)"
  have maps: "clients_kept sv sv1" "wo_cgi (sv_world sv1) = set_worker a v2 (wo_cgi (sv_world sv))"
    "watched (sv_em sv1) = watched (sv_em sv)" "sv_epoll sv1 = sv_epoll sv"
    using s fd(2) by (auto simp: clients_kept_def sv1_def on_cgi_def on_em_def table_simps scripted_def events_of_watched)
  have same: "clients_kept sv0 sv1" "e = None \<longrightarrow> reaped_by a (wk_pid w) (wo_cgi (sv_world sv1))"
    using assms(1) maps by (simp_all add: follows_def clients_kept_def reaped_by_def)
  have table: "map_of (cm_workers (wo_cgi (sv_world sv1))) a = Some v2"
    "cm_clientFdToWorker (wo_cgi (sv_world sv1)) = cm_clientFdToWorker (wo_cgi (sv_world sv))"
    using s by (simp_all add: maps set_worker_lookup scripted_def)
  show ?thesis
  proof (cases "?x = Eof")
    case True
    have rest: "rest = []" "b = []" using b(1) True by (auto split: if_splits)
    note f = halfway_ends [OF h, of "io_now io", folded True, folded v2_def]
    define sv2 where "sv2 = close_fd (wk_readFd v) sv1"
    have "handle_fd env io (wk_readFd w) m sv = Some (None, sv2)"
      using read_event [OF s fd(2) assms(2) f(2) v2_def] f(6) by (simp add: fd(1) sv2_def sv1_def)
    moreover have "scripted client a v2 sv2"
    proof -
      have "client \<notin> set (worker_fds v2)" using f(3) s unfolding scripted_def by fastforce
      moreover have "client \<noteq> wk_readFd v" using s by (simp add: scripted_def worker_fds_def)
      moreover have "wk_completionOut v2 = wk_completionOut v" using f(1) fd(3) by (simp add: read_out_def)
      ultimately show ?thesis
        using s f(4,5) table maps(3,4) by (simp add: scripted_def sv2_def close_fd_def has_key_def)
    qed
    moreover have "read_out w whole e v2" using f(1) b(2) rest(2) by simp
    ultimately show ?thesis
      using same b(3) rest(1) by (auto simp: follows_def sv2_def close_fd_def clients_kept_def)
  next
    case False
    define c where "c = (case ?x of Data y \<Rightarrow> y | _ \<Rightarrow> [])"
    obtain b2 where c: "b = c @ b2" "printed rest = Some b2" "?x = Again \<or> (\<exists>y. ?x = Data y)"
      using b(1) False by (cases ?x) (auto simp: c_def)
    have "?x = Again \<or> (\<exists>y. ?x = Data y \<and> length (out @ y) \<le> max_cgi_response)"
      using c b(2,3) by (auto simp: c_def)
    note f = halfway_goes_on [OF h this, of "io_now io", folded c_def, folded v2_def]
    have none: "closed_pipes v v2 = []" using f(3) by (simp add: closed_pipes_def worker_fds_def)
    have "handle_fd env io (wk_readFd w) m sv = Some (None, sv1)"
      using read_event [OF s fd(2) assms(2) f(2) v2_def] none by (simp add: fd(1) sv1_def)
    moreover have "scripted client a v2 sv1"
      using s f(3,4) table maps(3,4) by (simp add: scripted_def worker_fds_def)
    moreover have "halfway w (out @ c) e v2" using f(1) .
    ultimately show ?thesis
      using same b(2,3) c by (auto simp: follows_def intro!: exI [of _ v2])
  qed
qed

lemma follows_all:
  assumes "follows client a w whole (output_answers evs @ rest) e sv0 sv" "readings (wk_readFd w) evs"
  shows "\<exists>sv'. handle_fds env evs sv = Some (None, sv') \<and> follows client a w whole rest e sv0 sv'"
  using assms
proof (induction evs arbitrary: sv)
  case (Cons ev evs)
  obtain io m where ev: "ev = (io, wk_readFd w, m)" "readable io m" and more: "readings (wk_readFd w) evs"
    using Cons.prems(2) by (cases ev) (auto simp: readings_def)
  obtain sv1 where "handle_fd env io (wk_readFd w) m sv = Some (None, sv1)"
    "follows client a w whole (output_answers evs @ rest) e sv0 sv1"
    using follows_reads [OF _ ev(2)] Cons.prems(1) by (force simp: output_answers_def ev)
  then show ?case using Cons.IH more by (simp add: ev)
qed (simp add: output_answers_def)

lemma reap_of_another:
  assumes "reaped_by a pid m" "p \<noteq> pid"
  shows "map_of (cm_workers (reap (p, e, st) m)) a = map_of (cm_workers m) a"
    and "reaped_by a pid (reap (p, e, st) m)"
    and "cm_clientFdToWorker (reap (p, e, st) m) = cm_clientFdToWorker m"
  using assms
  by (auto simp: reap_def reaped_by_def set_worker_lookup split: option.splits)

lemma reaps_before:
  assumes "reaped_by a pid m" "pid \<notin> fst ` set cs"
  shows "map_of (cm_workers (cleanupFinishedWorkers cs m)) a = map_of (cm_workers m) a \<and>
    reaped_by a pid (cleanupFinishedWorkers cs m) \<and>
    cm_clientFdToWorker (cleanupFinishedWorkers cs m) = cm_clientFdToWorker m"
  using assms
proof (induction cs arbitrary: m)
  case (Cons r cs)
  obtain p e st where r: "r = (p, e, st)" by (cases r)
  then have "p \<noteq> pid" using Cons.prems(2) by auto
  then show ?case
    using Cons.IH [of "reap r m"] Cons.prems reap_of_another [of a pid m p] by (simp add: r cleanupFinishedWorkers_def)
qed (simp add: cleanupFinishedWorkers_def)

lemma reap_clients: "cm_clientFdToWorker (cleanupFinishedWorkers cs m) = cm_clientFdToWorker m"
proof (induction cs arbitrary: m)
  case (Cons r cs)
  have "cm_clientFdToWorker (reap r m) = cm_clientFdToWorker m"
    by (cases r) (simp add: reap_def split: option.splits)
  then show ?case using Cons [of "reap r m"] by (simp add: cleanupFinishedWorkers_def)
qed (simp add: cleanupFinishedWorkers_def)

lemma reaps_one:
  assumes "reaped_by a pid m" "pid \<notin> fst ` set cs" "map_of (cm_workers m) a = Some v"
  shows "map_of (cm_workers (cleanupFinishedWorkers (cs @ (pid, e, st) # ds) m)) a = Some (reap_worker e st v)"
proof -
  let ?m = "cleanupFinishedWorkers cs m"
  have m: "map_of (cm_workers ?m) a = Some v" "reaped_by a pid ?m"
    using reaps_before [OF assms(1,2)] assms(3) by simp_all
  have p: "map_of (cm_pidToWorker ?m) x = Some a \<longleftrightarrow> x = pid" for x using m(2) by (simp add: reaped_by_def)
  then have "map_of (cm_pidToWorker ?m) pid = Some a" by simp
  then have "reap (pid, e, st) ?m =
      set_worker a (reap_worker e st v) (?m\<lparr>cm_pidToWorker := om_erase pid (cm_pidToWorker ?m)\<rparr>)"
    using m(1) by (simp add: reap_def)
  then have one: "map_of (cm_workers (reap (pid, e, st) ?m)) a = Some (reap_worker e st v)"
    "\<forall>x. map_of (cm_pidToWorker (reap (pid, e, st) ?m)) x \<noteq> Some a"
    using m(1) p by (simp_all add: set_worker_lookup)
  have "cleanupFinishedWorkers (cs @ (pid, e, st) # ds) m = cleanupFinishedWorkers ds (reap (pid, e, st) ?m)"
    by (simp add: cleanupFinishedWorkers_def)
  then show ?thesis using reaps_other [OF one(2)] one(1) by simp
qed

lemma follows_end_of_process:
  assumes "follows client a w whole rest None sv0 sv" "wk_pid w \<notin> fst ` set cs"
  shows "follows client a w whole rest (Some e) sv0
    (on_cgi (cleanupFinishedWorkers (cs @ (wk_pid w, e, st) # ds)) sv)"
proof -
  let ?sv = "on_cgi (cleanupFinishedWorkers (cs @ (wk_pid w, e, st) # ds)) sv"
  obtain v where v: "scripted client a v sv"
    "(\<exists>out b. halfway w out None v \<and> printed rest = Some b \<and> whole = out @ b) \<or> (rest = [] \<and> read_out w whole None v)"
    and m: "reaped_by a (wk_pid w) (wo_cgi (sv_world sv))"
    using assms(1) by (auto simp: follows_def)
  have "map_of (cm_workers (wo_cgi (sv_world ?sv))) a = Some (reap_worker e st v)"
    using reaps_one [OF m assms(2)] v(1) by (simp add: on_cgi_def scripted_def)
  then have "scripted client a (reap_worker e st v) ?sv"
    using v(1) by (simp add: scripted_def reap_fds reap_clients on_cgi_def)
  moreover have "(\<exists>out b. halfway w out (Some e) (reap_worker e st v) \<and> printed rest = Some b \<and> whole = out @ b) \<or>
      (rest = [] \<and> read_out w whole (Some e) (reap_worker e st v))"
    using v(2) halfway_reaped read_out_reaped by blast
  moreover have "clients_kept sv0 ?sv" using assms(1) by (simp add: follows_def clients_kept_def on_cgi_def)
  ultimately show ?thesis using assms(1) by (auto simp: follows_def)
qed

lemma fold_keeps_epoll:
  "x \<notin> set fds \<Longrightarrow> map_of (sv_epoll (fold detach_fd fds sv)) x = map_of (sv_epoll sv) x"
  "x \<notin> set fds \<Longrightarrow> map_of (sv_epoll (fold closePipe fds sv)) x = map_of (sv_epoll sv) x"
  by (induction fds arbitrary: sv) (simp_all add: detach_fd_def unregisterSocket_def on_em_def closePipe_def close_fd_def)

lemma destroy_keeps_epoll:
  "x \<notin> set (worker_fds v) \<Longrightarrow> map_of (sv_epoll (destroy_worker keep v sv)) x = map_of (sv_epoll sv) x"
proof -
  assume x: "x \<notin> set (worker_fds v)"
  have "map_of (sv_epoll (destroy_worker keep v sv)) x = map_of (sv_epoll (detachEvents keep v sv)) x"
    unfolding destroy_worker_def using x by (intro fold_keeps_epoll(2)) (auto simp: worker_fds_def)
  also have "\<dots> = map_of (sv_epoll sv) x"
    unfolding detachEvents_def using x by (intro fold_keeps_epoll(1)) (auto simp: worker_fds_def)
  finally show ?thesis .
qed

lemma destroy_world: "sv_world (destroy_worker keep v sv) = sv_world sv"
proof -
  have "sv_world (fold detach_fd fds sv) = sv_world sv" "sv_world (fold closePipe fds sv) = sv_world sv" for fds sv
    by (induction fds arbitrary: sv) (simp_all add: detach_fd_def unregisterSocket_def on_em_def closePipe_def close_fd_def)
  then show ?thesis by (simp add: destroy_worker_def detachEvents_def)
qed

section \<open>The answer\<close>

lemma end_event:
  assumes "scripted client a v sv" "read_out w whole (Some e) v" "readable io m"
    and "map_of (sv_clients sv) client = Some c"
  shows "\<exists>sv2. handle_fd env io (wk_completionOut v) m sv = Some (None, sv2) \<and>
    sv_clients sv2 = om_set client
      (c\<lparr>cn_sendBuffer := cn_sendBuffer c @ build (io_date io) (script_answer e whole)\<rparr>) (sv_clients sv) \<and>
    sv_sent sv2 = sv_sent sv \<and> map_of (sv_epoll sv2) client = Some EPOLLOUT \<and>
    map_of (cm_workers (wo_cgi (sv_world sv2))) a = None \<and>
    map_of (cm_clientFdToWorker (wo_cgi (sv_world sv2))) client = None \<and>
    watched (sv_em sv2) (wk_completionOut v) = None"
proof -
  let ?fd = "wk_completionOut v"
  define sv1 where "sv1 = on_em (touch_entry ?fd) sv"
  define w1 where "w1 = v\<lparr>wk_lastActivityTime := io_now io, wk_completionBytes := 0, wk_completionNotified := True\<rparr>"
  define sv3 where "sv3 = on_cgi (set_worker a w1) sv1"
  define sv4 where "sv4 = destroy_worker True w1 (on_cgi (\<lambda>_. removeWorker a (wo_cgi (sv_world sv3))) sv3)"
  define sv5 where "sv5 = set_conn client
    (c\<lparr>cn_sendBuffer := cn_sendBuffer c @ build (io_date io) (script_answer e whole)\<rparr>) sv4"
  have fresh: "client \<notin> set (worker_fds w1)" "client \<noteq> ?fd"
    using assms(1) by (auto simp: scripted_def worker_fds_def w1_def)
  have tables: "map_of (cm_workers (wo_cgi (sv_world sv3))) a = Some w1"
    "map_of (cm_clientFdToWorker (wo_cgi (sv_world sv3))) client = Some a" "wk_clientFd w1 = client"
    using assms(1) by (simp_all add: scripted_def sv3_def sv1_def on_cgi_def on_em_def set_worker_lookup w1_def)
  have answer: "isCgiComplete client new_HttpResponse (wo_cgi (sv_world sv3)) =
      (True, script_answer e whole, removeWorker a (wo_cgi (sv_world sv3)))"
  proof -
    have "worker_response w1 r = worker_response v r" for r by (simp add: worker_response_def w1_def)
    moreover have "worker_response v new_HttpResponse = script_answer e whole" "isFinished w1"
      using assms(2) by (simp_all add: read_out_def isFinished_def w1_def)
    ultimately show ?thesis by (simp add: isCgiComplete_def tables)
  qed
  have epoll: "map_of (sv_epoll sv4) client = map_of (sv_epoll sv) client"
    using destroy_keeps_epoll [OF fresh(1)] by (simp add: sv4_def sv3_def sv1_def on_cgi_def on_em_def)
  have clients: "sv_clients sv4 = sv_clients sv" "sv_sent sv4 = sv_sent sv"
    by (simp_all add: sv4_def sv3_def sv1_def)
  have run: "cgi_answer io client sv3 = modifySocket client EPOLLOUT sv5"
  proof -
    have "sv_clients sv3 = sv_clients sv" by (simp add: sv3_def sv1_def)
    then show ?thesis
      using assms(4) by (simp add: cgi_answer_def answer worker_of_client_def tables Let_def sv5_def sv4_def)
  qed
  define sv6 where "sv6 = sv5\<lparr>sv_epoll := om_set client EPOLLOUT (sv_epoll sv5)\<rparr>"
  define sv2 where "sv2 = on_em (forgetFd ?fd) (close_fd ?fd (unregisterSocket ?fd sv6))"
  have "modifySocket client EPOLLOUT sv5 = (None, sv6)"
    using epoll assms(1) by (simp add: modifySocket_def sv6_def sv5_def set_conn_def has_key_def scripted_def)
  moreover have "handle_fd env io ?fd m sv = Some (cgi_end_event io ?fd client a sv1)"
    using handle_fd_one [OF _ assms(3), of sv ?fd] assms(1) by (simp add: scripted_def sv1_def)
  moreover have "map_of (cm_workers (wo_cgi (sv_world sv1))) a = Some v"
    using assms(1) by (simp add: scripted_def sv1_def on_em_def)
  ultimately have event: "handle_fd env io ?fd m sv = Some (None, sv2)"
    using assms(2) run by (simp add: cgi_end_event_def read_out_def sv2_def sv3_def w1_def Let_def)
  have cgi: "wo_cgi (sv_world sv2) = removeWorker a (wo_cgi (sv_world sv3))"
    by (simp add: sv2_def sv6_def sv5_def sv4_def set_conn_def on_em_def close_fd_def unregisterSocket_def destroy_world on_cgi_def)
  have "map_of (cm_workers (wo_cgi (sv_world sv2))) a = None"
    "map_of (cm_clientFdToWorker (wo_cgi (sv_world sv2))) client = None"
    unfolding cgi removeWorker_def using tables by (auto simp: map_of_eq_None_iff)
  moreover have "sv_clients sv2 = sv_clients sv5" "sv_sent sv2 = sv_sent sv5"
    by (simp_all add: sv2_def sv6_def)
  moreover have "map_of (sv_epoll sv2) client = Some EPOLLOUT"
    using fresh(2) by (simp add: sv2_def sv6_def close_fd_def unregisterSocket_def on_em_def)
  moreover have "watched (sv_em sv2) ?fd = None" by (simp add: sv2_def on_em_def table_simps)
  ultimately show ?thesis using event clients by (auto simp: sv5_def set_conn_def)
qed

lemma handle_fds_append:
  "handle_fds env xs sv = Some (None, sv1) \<Longrightarrow> handle_fds env (xs @ ys) sv = handle_fds env ys sv1"
proof (induction xs arbitrary: sv)
  case (Cons x xs)
  then show ?case by (cases x) (auto split: option.splits prod.splits)
qed simp

lemma script_answered:
  assumes "scripted client a w sv" "fresh_worker w" "reaped_by a (wk_pid w) (wo_cgi (sv_world sv))"
    and "map_of (sv_clients sv) client = Some c"
    and "readings (wk_readFd w) (before @ after)" "printed (output_answers (before @ after)) = Some out"
    and "length out \<le> max_cgi_response" "wk_pid w \<notin> fst ` set cs" "readable io m"
  shows "\<exists>sv1 sv2. handle_fds env before sv = Some (None, sv1) \<and>
    handle_fds env (after @ [(io, wk_completionOut w, m)])
      (on_cgi (cleanupFinishedWorkers (cs @ (wk_pid w, e, st) # ds)) sv1) = Some (None, sv2) \<and>
    sv_clients sv2 = om_set client
      (c\<lparr>cn_sendBuffer := cn_sendBuffer c @ build (io_date io) (script_answer e out)\<rparr>) (sv_clients sv) \<and>
    sv_sent sv2 = sv_sent sv \<and> map_of (sv_epoll sv2) client = Some EPOLLOUT \<and>
    map_of (cm_workers (wo_cgi (sv_world sv2))) a = None \<and>
    map_of (cm_clientFdToWorker (wo_cgi (sv_world sv2))) client = None \<and>
    watched (sv_em sv2) (wk_completionOut w) = None"
proof -
  let ?reap = "on_cgi (cleanupFinishedWorkers (cs @ (wk_pid w, e, st) # ds))"
  have "halfway w [] None w" using assms(2) by (auto simp: fresh_worker_def halfway_def running_def)
  then have "follows client a w out (output_answers before @ output_answers after) None sv sv"
    using assms(1,3,6,7) by (auto simp: follows_def clients_kept_def output_answers_def intro!: exI [of _ w] exI [of _ "[]"])
  moreover have fds: "readings (wk_readFd w) before" "readings (wk_readFd w) after"
    using assms(5) by (simp_all add: readings_def)
  ultimately obtain sv1 where one: "handle_fds env before sv = Some (None, sv1)"
    "follows client a w out (output_answers after) None sv sv1"
    using follows_all by blast
  have "follows client a w out (output_answers after @ []) (Some e) sv (?reap sv1)"
    using follows_end_of_process [OF one(2) assms(8)] by simp
  then obtain sv2 where two: "handle_fds env after (?reap sv1) = Some (None, sv2)"
    "follows client a w out [] (Some e) sv sv2"
    using follows_all fds(2) by blast
  then obtain v where v: "scripted client a v sv2" "read_out w out (Some e) v"
    and same: "sv_clients sv2 = sv_clients sv" "sv_sent sv2 = sv_sent sv"
    by (auto simp: follows_def clients_kept_def)
  have fd: "wk_completionOut v = wk_completionOut w" using v(2) by (simp add: read_out_def)
  from end_event [OF v assms(9), of c] assms(4) same fd obtain sv3 where
    "handle_fd env io (wk_completionOut w) m sv2 = Some (None, sv3)" and rest:
    "sv_clients sv3 = om_set client
      (c\<lparr>cn_sendBuffer := cn_sendBuffer c @ build (io_date io) (script_answer e out)\<rparr>) (sv_clients sv)"
    "sv_sent sv3 = sv_sent sv" "map_of (sv_epoll sv3) client = Some EPOLLOUT"
    "map_of (cm_workers (wo_cgi (sv_world sv3))) a = None"
    "map_of (cm_clientFdToWorker (wo_cgi (sv_world sv3))) client = None"
    "watched (sv_em sv3) (wk_completionOut w) = None"
    by auto
  then have "handle_fds env (after @ [(io, wk_completionOut w, m)]) (?reap sv1) = Some (None, sv3)"
    using handle_fds_append [OF two(1)] by simp
  with one(1) rest show ?thesis by blast
qed

section \<open>The start\<close>

text \<open>The kernel hands out descriptors that are not in use: \<open>em\<close> watches none of them.\<close>

definition unused_pipes :: "PipeFds \<Rightarrow> int \<Rightarrow> EventManager \<Rightarrow> bool" where
  "unused_pipes p client em \<longleftrightarrow>
     (let fds = [pf_in p, pf_out p, pf_err p, pf_status p, pf_completeOut p, pf_completeIn p]
      in distinct fds \<and> list_all (\<lambda>fd. 0 \<le> fd \<and> fd \<noteq> client \<and> watched em fd = None) fds)"

text \<open>An address that no worker has.\<close>

definition next_free :: "CgiManager \<Rightarrow> bool" where
  "next_free m \<longleftrightarrow> map_of (cm_workers m) (cm_next m) = None \<and> cm_next m \<notin> snd ` set (cm_pidToWorker m)"

lemma watch_cgi_watched:
  "watched (sv_em (watch_cgi (fd, e) sv)) =
     (watched (sv_em sv))(fd \<mapsto> events_of fd (sv_em sv) @ [CgiEvent e])"
  by (auto simp: watch_cgi_def watch_def on_em_def table_simps events_of_watched)

lemma fold_watch_other: "fd \<notin> fst ` set evs \<Longrightarrow> watched (sv_em (fold watch_cgi evs sv)) fd = watched (sv_em sv) fd"
proof (induction evs arbitrary: sv)
  case (Cons ev evs)
  then show ?case by (cases ev) (simp add: watch_cgi_watched)
qed simp

lemma fold_watch_all:
  assumes "distinct (map fst evs)" "list_all (\<lambda>(fd, e). watched (sv_em sv) fd = None) evs" "(fd, e) \<in> set evs"
  shows "watched (sv_em (fold watch_cgi evs sv)) fd = Some [CgiEvent e]"
  using assms
proof (induction evs arbitrary: sv)
  case (Cons ev evs)
  obtain x d where ev: "ev = (x, d)" by (cases ev)
  have "list_all (\<lambda>(fd, e). watched (sv_em (watch_cgi ev sv)) fd = None) evs"
    using Cons.prems(1,2) by (force simp: list_all_iff ev watch_cgi_watched)
  then show ?case
    using Cons.IH [of "watch_cgi ev sv"] Cons.prems fold_watch_other [of x evs]
    by (auto simp: ev watch_cgi_watched events_of_watched)
qed simp

lemma fold_watch_rest:
  "map_of (sv_epoll sv) x \<noteq> None \<Longrightarrow> map_of (sv_epoll (fold watch_cgi evs sv)) x \<noteq> None"
proof (induction evs arbitrary: sv)
  case (Cons ev evs)
  then show ?case using Cons.IH [of "watch_cgi ev sv"] by (simp add: watch_cgi_def watch_def on_em_def)
qed simp

lemma fold_watch_world: "sv_world (fold watch_cgi evs sv) = sv_world sv"
  by (rule frame_fold) (simp add: watch_cgi_def watch_def on_em_def)

text \<open>What \<open>createWorker\<close> leaves when it could start the script.\<close>

lemma started_fields:
  assumes "createWorker os now (Started pid p) ctx m = (res, m2, evs)" "evs \<noteq> []" "next_free m"
    and "0 \<le> pf_out p" "0 \<le> pf_completeIn p"
  shows "\<exists>w meth. evs = worker_events meth (cm_next m) w \<and> map_of (cm_workers m2) (cm_next m) = Some w \<and>
    cm_clientFdToWorker m2 = om_set (cl_fd (cx_ownerClient ctx)) (cm_next m) (cm_clientFdToWorker m) \<and>
    cm_pidToWorker m2 = om_set pid (cm_next m) (cm_pidToWorker m) \<and>
    fresh_worker w \<and> wk_pid w = pid \<and> wk_clientFd w = cl_fd (cx_ownerClient ctx) \<and>
    wk_readFd w = pf_out p \<and> wk_errFd w = pf_err p \<and> wk_statusFd w = pf_status p \<and>
    wk_completionOut w = pf_completeOut p \<and> wk_completionIn w = pf_completeIn p \<and>
    wk_writeFd w \<in> {-1, pf_in p} \<and> set (wk_eventFds w) \<subseteq> {-1, pf_in p, pf_out p, pf_err p, pf_status p, pf_completeOut p}"
proof -
  let ?a = "cm_next m" and ?meth = "rq_method (cx_req ctx)"
  obtain s i where target: "cgi_target os ctx = Inr (Inr (s, i))"
    using assms(1,2) by (auto simp: createWorker_def Let_def split: if_splits sum.splits)
  define w0 where "w0 = execute now (Started pid p)
    (new_worker now (cl_fd (cx_ownerClient ctx)) (cx_conf ctx) (cx_req ctx) s i)"
  define m1 where "m1 = m\<lparr>cm_next := ?a + 1, cm_workers := cm_workers m @ [(?a, w0)]\<rparr>"
  have w0: "wk_state w0 = CGI_RECEIVING \<or> wk_state w0 = CGI_SENDING_BODY" "wk_pid w0 = pid"
    "wk_clientFd w0 = cl_fd (cx_ownerClient ctx)" "wk_readFd w0 = pf_out p" "wk_errFd w0 = pf_err p"
    "wk_statusFd w0 = pf_status p" "wk_completionOut w0 = pf_completeOut p" "wk_completionIn w0 = pf_completeIn p"
    "wk_writeFd w0 \<in> {-1, pf_in p}" "\<not> wk_outputComplete w0" "\<not> wk_exitStatusSet w0" "wk_responseBuffer w0 = []"
    "wk_responseParser w0 = new_CgiResponse" "\<not> wk_completionNotified w0" "wk_completionBytes w0 = 0"
    by (simp_all add: w0_def execute_def Let_def set_pipes_def new_worker_def)
  have reg: "register_worker ?meth ?a w0 m1 = (m2, evs)"
    using assms(1,2) w0(1) target by (auto simp: createWorker_def Let_def m1_def simp flip: w0_def split: if_splits)
  define w where "w = w0\<lparr>wk_eventFds := [wk_readFd w0, if length evs = 5 then wk_writeFd w0 else -1,
    wk_errFd w0, wk_statusFd w0, wk_completionOut w0]\<rparr>"
  have evs: "evs = worker_events ?meth ?a w0" using reg by (auto simp: register_worker_def Let_def split: if_splits)
  have "\<not> isFinished w" using w0 by (auto simp: isFinished_def w_def)
  then have m2: "m2 = (set_worker ?a w m1)
      \<lparr>cm_clientFdToWorker := om_set (wk_clientFd w0) ?a (cm_clientFdToWorker m1),
       cm_pidToWorker := om_set (wk_pid w0) ?a (cm_pidToWorker m1)\<rparr>"
    using reg evs by (auto simp: register_worker_def Let_def w_def split: if_splits)
  have "evs = worker_events ?meth ?a w" by (simp add: evs worker_events_def w_def)
  moreover have "map_of (cm_workers m2) ?a = Some w"
    using assms(3) set_worker_lookup [of ?a w m1 ?a] by (auto simp: m2 m1_def next_free_def map_of_append)
  moreover have "fresh_worker w"
    using w0 assms(4,5) by (auto simp: fresh_worker_def running_def w_def new_CgiResponse_def)
  moreover have "set (wk_eventFds w) \<subseteq> {-1, pf_in p, pf_out p, pf_err p, pf_status p, pf_completeOut p}"
    using w0 by (auto simp: w_def)
  ultimately show ?thesis
    using w0 by (intro exI [of _ w] exI [of _ ?meth]) (simp add: m2 m1_def w_def)
qed

lemma script_started:
  assumes "createWorker os now (Started pid p) ctx (wo_cgi (sv_world sv)) = (res, m, evs)" "evs \<noteq> []"
    and "next_free (wo_cgi (sv_world sv))" "unused_pipes p client (sv_em sv)" "client = cl_fd (cx_ownerClient ctx)"
    and "0 \<le> client" "map_of (sv_epoll sv) client \<noteq> None"
  shows "\<exists>w. scripted client (cm_next (wo_cgi (sv_world sv))) w (fold watch_cgi evs (on_cgi (\<lambda>_. m) sv)) \<and>
    fresh_worker w \<and> reaped_by (cm_next (wo_cgi (sv_world sv))) pid m \<and> wk_pid w = pid \<and>
    wk_readFd w = pf_out p \<and> wk_completionOut w = pf_completeOut p"
proof -
  let ?m0 = "wo_cgi (sv_world sv)" and ?sv = "fold watch_cgi evs (on_cgi (\<lambda>_. m) sv)"
  let ?a = "cm_next ?m0"
  have pipes: "distinct [pf_in p, pf_out p, pf_err p, pf_status p, pf_completeOut p, pf_completeIn p]"
    "0 \<le> pf_out p" "0 \<le> pf_completeIn p" "pf_in p \<noteq> -1"
    and free: "\<And>fd. fd \<in> {pf_in p, pf_out p, pf_err p, pf_status p, pf_completeOut p, pf_completeIn p} \<Longrightarrow>
      fd \<noteq> client \<and> watched (sv_em sv) fd = None"
    using assms(4) by (auto simp: unused_pipes_def Let_def)
  obtain w meth where evs: "evs = worker_events meth ?a w" and w: "map_of (cm_workers m) ?a = Some w"
      "fresh_worker w" "wk_pid w = pid" "wk_clientFd w = client" "wk_readFd w = pf_out p" "wk_errFd w = pf_err p"
      "wk_statusFd w = pf_status p" "wk_completionOut w = pf_completeOut p" "wk_completionIn w = pf_completeIn p"
    and wr: "wk_writeFd w \<in> {-1, pf_in p}"
    and ev: "set (wk_eventFds w) \<subseteq> {-1, pf_in p, pf_out p, pf_err p, pf_status p, pf_completeOut p}"
    and maps: "cm_clientFdToWorker m = om_set client ?a (cm_clientFdToWorker ?m0)"
      "cm_pidToWorker m = om_set pid ?a (cm_pidToWorker ?m0)"
    using started_fields [OF assms(1-3) pipes(2,3)] assms(5) by auto
  have "distinct (map fst evs)" using pipes wr by (auto simp: evs worker_events_def w)
  moreover have "list_all (\<lambda>(fd, e). watched (sv_em (on_cgi (\<lambda>_. m) sv)) fd = None) evs"
    using free wr by (auto simp: evs worker_events_def w on_cgi_def)
  ultimately have watch: "(fd, e) \<in> set evs \<Longrightarrow> watched (sv_em ?sv) fd = Some [CgiEvent e]" for fd e
    by (rule fold_watch_all)
  have "watched (sv_em ?sv) (pf_out p) = Some [CgiEvent (Cgi_read ?a)]"
    "watched (sv_em ?sv) (pf_completeOut p) = Some [CgiEvent (Cgi_end client ?a)]"
    by (rule watch; simp add: evs worker_events_def w)+
  moreover have "client \<notin> set (worker_fds w)"
  proof -
    have "set (worker_fds w) \<subseteq> insert (-1) {pf_in p, pf_out p, pf_err p, pf_status p, pf_completeOut p, pf_completeIn p}"
      unfolding worker_fds_def w(5-9) using wr ev by (simp only: set_append list.set) blast
    moreover have "client \<notin> {pf_in p, pf_out p, pf_err p, pf_status p, pf_completeOut p, pf_completeIn p}"
      using free by metis
    moreover have "client \<noteq> -1" using assms(6) by simp
    ultimately show ?thesis by (meson insertE subsetD)
  qed
  moreover have "map_of (sv_epoll ?sv) client \<noteq> None"
    using fold_watch_rest [of "on_cgi (\<lambda>_. m) sv" client evs] assms(7) by (simp add: on_cgi_def)
  moreover have "wo_cgi (sv_world ?sv) = m" by (simp add: fold_watch_world on_cgi_def)
  ultimately have "scripted client ?a w ?sv"
    using w assms(6) by (simp add: scripted_def maps has_key_def)
  moreover have "map_of (cm_pidToWorker ?m0) x \<noteq> Some ?a" for x
    using assms(3) map_of_SomeD [of "cm_pidToWorker ?m0" x ?a] by (force simp: next_free_def)
  then have "reaped_by ?a pid m" by (simp add: reaped_by_def maps)
  ultimately show ?thesis using w by blast
qed


definition script_pipes :: PipeFds where
  "script_pipes = \<lparr>pf_in = 10, pf_out = 11, pf_err = 12, pf_status = 13, pf_completeOut = 14, pf_completeIn = 15\<rparr>"

definition asked_server :: Server where
  "asked_server = (set_conn 5 waiting_client one_listener)\<lparr>sv_epoll := [(3, EPOLLIN), (5, EPOLLIN)]\<rparr>"

definition script_reads :: "(Io \<times> int \<times> mask) list" where
  "script_reads =
     [(quiet_io\<lparr>io_cgi_read := Data (''Status: 404'' @ [LF])\<rparr>, 11, EPOLLIN),
      (quiet_io, 11, EPOLLIN),
      (quiet_io\<lparr>io_cgi_read := Data (LF # ''no'')\<rparr>, 11, or EPOLLIN EPOLLHUP),
      (quiet_io\<lparr>io_cgi_read := Eof\<rparr>, 11, or EPOLLIN EPOLLHUP)]"


end
