(* ===== verification/Yaml.thy ===== *)
theory Yaml
  imports StringOps
begin

text \<open>
  \<open>src/Lib/MyYAML\<close>: the reader of the configuration file, a subset of YAML.  A line makes a
  node, which is appended to the node on the top of a stack; the indentation says how the stack
  grows and shrinks.  A pointer into the tree is the path from the root.  The theorem describes the trees
  that are accepted; two lemmas show documents that the reader loses or refuses.
\<close>

section \<open>Nodes\<close>

datatype NodeType = NODE_MAP | NODE_SEQ | NODE_VAL | NODE_NULL

datatype Node =
  Node (nd_type: NodeType) (nd_childType: NodeType) (nd_key: string) (nd_value: string)
    (nd_seq: "Node list") (nd_map: "(string, Node) omap")

definition new_Node :: "NodeType \<Rightarrow> string \<Rightarrow> string \<Rightarrow> Node res" where
  "new_Node t key value =
     (if t = NODE_SEQ \<and> key = [] \<and> value = [] then Inl Invalid_argument
      else if t = NODE_MAP \<and> key = [] then Inl Invalid_argument
      else if t = NODE_VAL \<and> value = [] then Inl Invalid_argument
      else Inr (Node t NODE_NULL key value [] []))"

definition push_node :: "Node \<Rightarrow> Node \<Rightarrow> Node res" where
  "push_node n parent =
     (let ct = (if nd_childType parent = NODE_NULL then nd_type n else nd_childType parent) in
      case ct of
        NODE_VAL \<Rightarrow> Inl Runtime_error
      | NODE_SEQ \<Rightarrow>
          if nd_type n \<noteq> NODE_SEQ then Inl Runtime_error
          else Inr (Node (nd_type parent) ct (nd_key parent) (nd_value parent) (nd_seq parent @ [n]) (nd_map parent))
      | NODE_MAP \<Rightarrow>
          if nd_type n \<noteq> NODE_MAP \<or> map_of (nd_map parent) (nd_key n) \<noteq> None then Inl Runtime_error
          else Inr (Node (nd_type parent) ct (nd_key parent) (nd_value parent) (nd_seq parent)
                      (om_set (nd_key n) n (nd_map parent)))
      | NODE_NULL \<Rightarrow> Inr parent)"

fun setTypeValue :: "Node \<Rightarrow> Node" where
  "setTypeValue (Node t ct key value seq m) = Node NODE_VAL NODE_VAL key value seq m"

fun terminateNode :: "Node \<Rightarrow> Node" where
  "terminateNode (Node t ct key value seq m) =
     (case ct of
        NODE_SEQ \<Rightarrow> Node t ct key value (map setTypeValue seq) m
      | NODE_MAP \<Rightarrow> Node t ct key value seq (map (\<lambda>p. (fst p, setTypeValue (snd p))) m)
      | _ \<Rightarrow> Node t ct key value seq m)"

fun fixNode :: "Node \<Rightarrow> Node" where
  "fixNode (Node t ct key value seq m) =
     (if seq = [] \<and> m = [] then Node NODE_VAL NODE_VAL key value seq m
      else
        (case ct of
           NODE_SEQ \<Rightarrow> Node t ct key value (map fixNode seq) m
         | NODE_MAP \<Rightarrow> Node t ct key value seq (map (\<lambda>p. (fst p, fixNode (snd p))) m)
         | _ \<Rightarrow> Node t ct key value seq m))"

fun isValidNode :: "Node \<Rightarrow> bool" where
  "isValidNode (Node t ct key value seq m) =
     (case t of
        NODE_VAL \<Rightarrow> value \<noteq> []
      | NODE_NULL \<Rightarrow> False
      | _ \<Rightarrow>
          (case ct of
             NODE_SEQ \<Rightarrow> list_all (\<lambda>c. \<not> (nd_key c = [] \<and> nd_value c = []) \<and> isValidNode c) seq
           | NODE_MAP \<Rightarrow> list_all (\<lambda>p. nd_key (snd p) \<noteq> [] \<and> isValidNode (snd p)) m
           | _ \<Rightarrow> True))"

definition getSeq :: "Node \<Rightarrow> Node list res" where
  "getSeq n = (if nd_childType n \<noteq> NODE_SEQ then Inl Invalid_argument else Inr (nd_seq n))"

definition getMapNode :: "string \<Rightarrow> Node \<Rightarrow> Node option res" where
  "getMapNode key n =
     (if nd_childType n \<noteq> NODE_MAP then Inl Invalid_argument else Inr (map_of (nd_map n) key))"

definition getKeys :: "Node \<Rightarrow> string list" where
  "getKeys n = (if nd_childType n = NODE_MAP then map fst (nd_map n) else [])"

definition node_size :: "Node \<Rightarrow> nat" where
  "node_size n =
     (case nd_childType n of
        NODE_MAP \<Rightarrow> length (nd_map n) | NODE_SEQ \<Rightarrow> length (nd_seq n) | NODE_VAL \<Rightarrow> 1 | NODE_NULL \<Rightarrow> 0)"

section \<open>Pointers\<close>

text \<open>A child is named by its position in the sequence or by its key, which no later step of the
  reader changes.\<close>

datatype step = Item nat | Key string

fun edit :: "step list \<Rightarrow> (Node \<Rightarrow> Node res) \<Rightarrow> Node \<Rightarrow> Node res" where
  "edit [] f n = f n"
| "edit (Item i # p) f (Node t ct key value seq m) =
     (if i < length seq
      then rbind (edit p f (seq ! i)) (\<lambda>c. Inr (Node t ct key value (seq[i := c]) m))
      else Inr (Node t ct key value seq m))"
| "edit (Key k # p) f (Node t ct key value seq m) =
     (case map_of m k of
        None \<Rightarrow> Inr (Node t ct key value seq m)
      | Some c \<Rightarrow> rbind (edit p f c) (\<lambda>c1. Inr (Node t ct key value seq (om_set k c1 m))))"

fun node_at :: "step list \<Rightarrow> Node \<Rightarrow> Node option" where
  "node_at [] n = Some n"
| "node_at (Item i # p) n = (if i < length (nd_seq n) then node_at p (nd_seq n ! i) else None)"
| "node_at (Key k # p) n = (case map_of (nd_map n) k of None \<Rightarrow> None | Some c \<Rightarrow> node_at p c)"

section \<open>Lines\<close>

definition extractKey :: "string \<Rightarrow> string res" where
  "extractKey line =
     (let trimmedLine = trim '' '' line in
      if trimmedLine = [] then Inr []
      else if hd trimmedLine = CHR '':'' then Inl Runtime_error
      else
        (case idx_of (\<lambda>c. c = CHR '':'') trimmedLine of
           None \<Rightarrow> Inr [] | Some pos \<Rightarrow> Inr (trim '' '' (take pos trimmedLine))))"

definition extractValue :: "string \<Rightarrow> string" where
  "extractValue line =
     (let trimmedLine = trim '' '' line in
      case idx_of (\<lambda>c. c = CHR '':'') trimmedLine of
        None \<Rightarrow> trimmedLine | Some pos \<Rightarrow> trim '' '' (drop (pos + 1) trimmedLine))"

definition isEndSeparator :: "string \<Rightarrow> bool" where
  "isEndSeparator line =
     (let trimmedLine = trim '' '' line in
      case idx_of (\<lambda>c. c = CHR '':'') trimmedLine of
        None \<Rightarrow> False | Some pos \<Rightarrow> pos = length trimmedLine - 1)"

definition extractListValue :: "string \<Rightarrow> string res" where
  "extractListValue line =
     (let tmp = trim '' '' line in
      if length tmp < 2 then Inl Runtime_error
      else if tmp ! 0 = CHR ''-'' \<and> tmp ! 1 = CHR '' '' then Inr (drop 2 tmp)
      else Inl Runtime_error)"

definition yaml_lines :: "string \<Rightarrow> string list" where
  "yaml_lines buf = butlast (split1 LF (if last buf \<noteq> LF then buf @ [LF] else buf))"

section \<open>The reader\<close>

datatype YamlState = State_NONE | State_SEQ | State_MAP

text \<open>The three stacks, their tops first, and the root.\<close>

record Reader =
  yr_prevIndent :: "int list"
  yr_prevStates :: "YamlState list"
  yr_nodeChain :: "step list list"
  yr_root :: "Node option"

definition new_Reader :: Reader where
  "new_Reader = \<lparr>yr_prevIndent = [-1], yr_prevStates = [State_NONE], yr_nodeChain = [], yr_root = None\<rparr>"

text \<open>\<open>None\<close>: the top of an empty stack is used or removed, which C++ leaves undefined.\<close>

type_synonym 'a run = "'a res option"

definition ybind :: "'a run \<Rightarrow> ('a \<Rightarrow> 'b run) \<Rightarrow> 'b run" where
  "ybind m f = (case m of None \<Rightarrow> None | Some (Inl e) \<Rightarrow> Some (Inl e) | Some (Inr a) \<Rightarrow> f a)"

lemma ybind_simps [simp]:
  "ybind None f = None" "ybind (Some (Inl e)) f = Some (Inl e)" "ybind (Some (Inr a)) f = f a"
  by (simp_all add: ybind_def)

lemma ybind_Inr: "ybind m f = Some (Inr b) \<longleftrightarrow> (\<exists>a. m = Some (Inr a) \<and> f a = Some (Inr b))"
  by (simp add: ybind_def split: option.splits sum.splits)

text \<open>The loop that pops until the indentation is not deeper; it stops at the sentinel.\<close>

fun pop_deeper :: "int \<Rightarrow> int list \<Rightarrow> YamlState list \<Rightarrow> step list list \<Rightarrow>
    (int list \<times> YamlState list \<times> step list list) option" where
  "pop_deeper now (i # j # is) (s # ss) chain =
     (if now < i then (case chain of [] \<Rightarrow> None | p # ps \<Rightarrow> pop_deeper now (j # is) ss ps)
      else Some (i # j # is, s # ss, chain))"
| "pop_deeper now is ss chain = Some (is, ss, chain)"

definition edit_root :: "step list \<Rightarrow> (Node \<Rightarrow> Node res) \<Rightarrow> Reader \<Rightarrow> Reader run" where
  "edit_root p f r =
     (case yr_root r of
        None \<Rightarrow> None
      | Some root \<Rightarrow> Some (rbind (edit p f root) (\<lambda>n. Inr (r\<lparr>yr_root := Some n\<rparr>))))"

definition indent_step :: "int \<Rightarrow> YamlState \<Rightarrow> Reader \<Rightarrow> Reader run" where
  "indent_step nowIndent nowState r =
     (if hd (yr_prevIndent r) = nowIndent then
        (if hd (yr_prevStates r) \<noteq> nowState then Some (Inl Runtime_error) else Some (Inr r))
      else if hd (yr_prevIndent r) < nowIndent then
        Some (Inr (r\<lparr>yr_prevIndent := nowIndent # yr_prevIndent r, yr_prevStates := nowState # yr_prevStates r\<rparr>))
      else
        (case yr_nodeChain r of
           [] \<Rightarrow> None
         | cur # _ \<Rightarrow>
             ybind (edit_root cur (\<lambda>n. Inr (terminateNode n)) r) (\<lambda>r1.
               case pop_deeper nowIndent (yr_prevIndent r1) (yr_prevStates r1) (yr_nodeChain r1) of
                 None \<Rightarrow> None
               | Some (is, ss, chain) \<Rightarrow>
                   (if hd is \<noteq> nowIndent \<or> hd ss \<noteq> nowState then Some (Inl Runtime_error)
                    else Some (Inr (r1\<lparr>yr_prevIndent := is, yr_prevStates := ss, yr_nodeChain := chain\<rparr>))))))"

text \<open>
  The new node is pushed to the top of the chain, after a root has been made when the chain is
  empty; the second component is the path of the new node.
\<close>

definition start_chain :: "NodeType \<Rightarrow> Reader \<Rightarrow> Reader run" where
  "start_chain t r =
     (case yr_nodeChain r of
        [] \<Rightarrow> Some (rbind (new_Node t ''root'' []) (\<lambda>root. Inr (r\<lparr>yr_nodeChain := [[]], yr_root := Some root\<rparr>)))
      | _ \<Rightarrow> Some (Inr r))"

definition last_step :: "NodeType \<Rightarrow> string \<Rightarrow> step list \<Rightarrow> Reader \<Rightarrow> step" where
  "last_step t key cur r =
     (if t = NODE_SEQ
      then Item (case yr_root r of None \<Rightarrow> 0 | Some root \<Rightarrow>
        (case node_at cur root of None \<Rightarrow> 0 | Some n \<Rightarrow> length (nd_seq n)))
      else Key key)"

definition append_line :: "NodeType \<Rightarrow> string \<Rightarrow> string \<Rightarrow> Reader \<Rightarrow> (step list \<times> Reader) run" where
  "append_line t key value r =
     ybind (Some (new_Node t key value)) (\<lambda>n.
       ybind (start_chain t r) (\<lambda>r1.
         let cur = hd (yr_nodeChain r1) in
         ybind (edit_root cur (push_node n) r1) (\<lambda>r2. Some (Inr (cur @ [last_step t key cur r1], r2)))))"

definition read_line :: "string \<Rightarrow> nat option \<Rightarrow> Reader \<Rightarrow> Reader run" where
  "read_line line nextIndent r =
     (if line = [] \<or> isOnlyCharLine line ''#'' then Some (Inr r)
      else
        (let nowIndent = startCharCount line '' '';
             isItem = isOnlyCharLine line ''-'';
             nowState = (if isItem then State_SEQ else State_MAP)
         in
         ybind (Some (if isItem then extractListValue line else Inr line)) (\<lambda>text.
         ybind (Some (extractKey text)) (\<lambda>key.
         ybind (indent_step (int nowIndent) nowState r) (\<lambda>r1.
         ybind (append_line (if isItem then NODE_SEQ else NODE_MAP) key (extractValue text) r1) (\<lambda>(path, r2).
           case nextIndent of
             None \<Rightarrow> Some (Inr r2)
           | Some next \<Rightarrow>
               (if nowIndent < next then
                  (if \<not> isEndSeparator text then Some (Inl Runtime_error)
                   else Some (Inr (r2\<lparr>yr_nodeChain := path # yr_nodeChain r2\<rparr>)))
                else Some (Inr r2))))))))"

fun read_lines :: "string list \<Rightarrow> Reader \<Rightarrow> Reader run" where
  "read_lines [] r = Some (Inr r)"
| "read_lines (line # rest) r =
     ybind (read_line line (case rest of [] \<Rightarrow> None | l # _ \<Rightarrow> Some (startCharCount l '' '')) r)
       (read_lines rest)"

definition parseYaml :: "string \<Rightarrow> Node option run" where
  "parseYaml buf =
     (if buf = [] then Some (Inr None)
      else
        ybind (read_lines (yaml_lines buf) new_Reader) (\<lambda>r.
          case yr_root r of
            None \<Rightarrow> Some (Inr None)
          | Some root \<Rightarrow>
              (let root1 = fixNode root in
               if isValidNode root1 then Some (Inr (Some root1)) else Some (Inl Runtime_error))))"

text \<open>The constructor and \<open>getData\<close>; \<open>read\<close> gives the contents of a file.\<close>

definition load_yaml :: "(string \<Rightarrow> string option) \<Rightarrow> string \<Rightarrow> Node run" where
  "load_yaml read filepath =
     (if \<not> endsWith filepath ''.yaml'' then Some (Inl Invalid_argument)
      else
        (case read filepath of
           None \<Rightarrow> Some (Inl Runtime_error)
         | Some buf \<Rightarrow>
             ybind (parseYaml buf) (\<lambda>data.
               case data of None \<Rightarrow> Some (Inl Invalid_argument) | Some n \<Rightarrow> Some (Inr n))))"

section \<open>Trees under construction\<close>

fun raw :: "Node \<Rightarrow> bool" where
  "raw (Node t ct key value seq m) \<longleftrightarrow>
     t \<noteq> NODE_NULL \<and> (t = NODE_VAL \<longleftrightarrow> ct = NODE_VAL) \<and>
     (ct = NODE_NULL \<longrightarrow> seq = [] \<and> m = []) \<and> (ct = NODE_SEQ \<longrightarrow> m = []) \<and> (ct = NODE_MAP \<longrightarrow> seq = []) \<and>
     (seq \<noteq> [] \<or> m \<noteq> [] \<longrightarrow> value = []) \<and> om_ok m \<and>
     list_all raw seq \<and> list_all (\<lambda>p. nd_key (snd p) = fst p \<and> raw (snd p)) m"

text \<open>An accepted tree: a leaf has a value and no children; any other node has no value and children of
  one kind, under distinct keys in a map.\<close>

fun tidy :: "Node \<Rightarrow> bool" where
  "tidy (Node t ct key value seq m) \<longleftrightarrow>
     (if seq = [] \<and> m = [] then t = NODE_VAL \<and> ct = NODE_VAL \<and> value \<noteq> []
      else t \<in> {NODE_SEQ, NODE_MAP} \<and> value = [] \<and>
        (if ct = NODE_SEQ then m = [] else ct = NODE_MAP \<and> seq = []) \<and>
        om_ok m \<and> list_all tidy seq \<and> list_all (\<lambda>p. nd_key (snd p) = fst p \<and> tidy (snd p)) m)"

lemma nd_key_fix [simp]: "nd_key (fixNode n) = nd_key n" "nd_value (fixNode n) = nd_value n"
  by ((cases n; simp split: NodeType.splits)+)

lemma raw_tidy: "raw n \<Longrightarrow> isValidNode (fixNode n) \<Longrightarrow> tidy (fixNode n)"
proof (induction n rule: fixNode.induct)
  case (1 t ct key v seq m)
  show ?case
  proof (cases "seq = [] \<and> m = []")
    case True
    then show ?thesis using 1 by simp
  next
    case False
    consider "ct = NODE_SEQ" | "ct = NODE_MAP" | "ct = NODE_VAL" using 1(3) False by (cases ct) auto
    then show ?thesis
    proof cases
      case 1
      have "tidy (fixNode c)" if "c \<in> set seq" for c
        using "1.IH"(2) [OF False 1 that] "1.prems" False 1 that by (cases t) (auto simp: list_all_iff)
      then have "list_all tidy (map fixNode seq)" by (simp add: list_all_iff)
      then show ?thesis using 1 False "1.prems" by (cases t) auto
    next
      case 2
      have "tidy (fixNode (snd p)) \<and> nd_key (snd p) = fst p" if "p \<in> set m" for p
        using "1.IH"(1) [OF False 2 that] "1.prems" False 2 that by (cases t) (auto simp: list_all_iff)
      then have "list_all (\<lambda>p. nd_key (snd p) = fst p \<and> tidy (snd p)) (map (\<lambda>p. (fst p, fixNode (snd p))) m)"
        by (simp add: list_all_iff)
      moreover have "om_ok (map (\<lambda>p. (fst p, fixNode (snd p))) m)" 
        using "1.prems"(1) by (simp add: om_ok_def comp_def)
      ultimately show ?thesis using 2 False "1.prems" by (cases t) auto
    next
      case 3
      then show ?thesis using False "1.prems" by (cases t) auto
    qed
  qed
qed

lemma raw_setTypeValue [simp]: "raw n \<Longrightarrow> raw (setTypeValue n)"
  by (cases n) auto

lemma setTypeValue_fields [simp]: "nd_key (setTypeValue n) = nd_key n" "nd_value (setTypeValue n) = nd_value n"
  "nd_seq (setTypeValue n) = nd_seq n" "nd_map (setTypeValue n) = nd_map n"
  by ((cases n; simp)+)

lemma terminateNode_fields [simp]: "nd_key (terminateNode n) = nd_key n" "nd_value (terminateNode n) = nd_value n"
  by ((cases n; simp split: NodeType.splits)+)

lemma raw_terminateNode: "raw n \<Longrightarrow> raw (terminateNode n)"
  by (cases n) (auto simp: list_all_iff om_ok_def comp_def split_def split: NodeType.splits)


text \<open>What a step may change of a tree: a pointer into it still points to a node, with the same value.\<close>

definition keeps :: "Node \<Rightarrow> Node \<Rightarrow> bool" where
  "keeps n n1 \<longleftrightarrow> nd_key n1 = nd_key n \<and> nd_value n1 = nd_value n \<and>
     (\<forall>p x. node_at p n = Some x \<longrightarrow> (\<exists>y. node_at p n1 = Some y \<and> nd_value y = nd_value x))"

lemma keeps_refl [simp]: "keeps n n"
  by (simp add: keeps_def)

lemma keepsI:
  assumes "nd_key n1 = nd_key n" "nd_value n1 = nd_value n"
    and "\<And>i. i < length (nd_seq n) \<Longrightarrow> i < length (nd_seq n1) \<and> keeps (nd_seq n ! i) (nd_seq n1 ! i)"
    and "\<And>k c. map_of (nd_map n) k = Some c \<Longrightarrow> \<exists>c1. map_of (nd_map n1) k = Some c1 \<and> keeps c c1"
  shows "keeps n n1"
  unfolding keeps_def
proof (intro conjI allI impI)
  fix p x assume at: "node_at p n = Some x"
  show "\<exists>y. node_at p n1 = Some y \<and> nd_value y = nd_value x"
  proof (cases p)
    case Nil
    then show ?thesis using at assms(2) by simp
  next
    case (Cons s q)
    show ?thesis
    proof (cases s)
      case (Item i)
      then show ?thesis using at Cons assms(3) [of i] by (auto simp: keeps_def split: if_splits)
    next
      case (Key k)
      with at Cons obtain c where "map_of (nd_map n) k = Some c" "node_at q c = Some x"
        by (auto split: option.splits)
      with assms(4) [of k c] show ?thesis using Key Cons by (auto simp: keeps_def)
    qed
  qed
qed (use assms in auto)

lemma keeps_setTypeValue: "keeps n (setTypeValue n)"
  by (rule keepsI) simp_all

lemma map_of_snd: "map_of (map (\<lambda>p. (fst p, f (snd p))) m) k = map_option f (map_of m k)"
  by (induction m) auto

lemma set_om_set_subset: "set (om_set k v m) \<subseteq> insert (k, v) (set m)"
  by (induction m) auto

lemma keeps_terminateNode: "keeps n (terminateNode n)"
  by (cases n; rule keepsI)
    (auto simp: keeps_setTypeValue map_of_snd split: NodeType.splits)

lemma edit_raw:
  assumes "raw n" "node_at p n = Some x" "f x = Inr y" "raw y" "keeps x y"
  shows "\<exists>n1. edit p f n = Inr n1 \<and> raw n1 \<and> keeps n n1 \<and> node_at p n1 = Some y"
  using assms
proof (induction p f n rule: edit.induct)
  case (1 f n)
  then show ?case by auto
next
  case (2 i p f t ct key v seq m)
  then have i: "i < length seq" and at: "node_at p (seq ! i) = Some x" by (simp_all split: if_splits)
  with 2 obtain c where c: "edit p f (seq ! i) = Inr c" "raw c" "keeps (seq ! i) c" "node_at p c = Some y"
    by (auto simp: list_all_length)
  have "keeps (Node t ct key v seq m) (Node t ct key v (seq[i := c]) m)"
    by (rule keepsI) (use c(3) i in \<open>auto simp: nth_list_update\<close>)
  then show ?case using 2 i c by (auto simp: list_all_iff dest!: set_update_subset_insert [THEN subsetD])
next
  case (3 k p f t ct key v seq m)
  then obtain c where m: "map_of m k = Some c" and at: "node_at p c = Some x" by (auto split: option.splits)
  then have "raw c" "nd_key c = k" using 3(2) by (auto simp: list_all_iff dest!: map_of_SomeD)
  with 3 m at obtain c1 where c: "edit p f c = Inr c1" "raw c1" "keeps c c1" "node_at p c1 = Some y" by blast
  have "keeps (Node t ct key v seq m) (Node t ct key v seq (om_set k c1 m))"
    by (rule keepsI) (use c(3) m in auto)
  moreover have "raw (Node t ct key v seq (om_set k c1 m))"
    using 3(2) c(2,3) \<open>nd_key c = k\<close> m set_om_set_subset [of k c1 m]
    by (auto simp: list_all_iff keeps_def)
  ultimately show ?case using m c by auto
qed

lemma edit_Inr: "edit p f n = Inr n1 \<Longrightarrow> node_at p n = Some x \<Longrightarrow> \<exists>y. f x = Inr y"
  by (induction p f n arbitrary: n1 rule: edit.induct)
    (auto simp: res_simps split: if_splits option.splits)

lemma new_Node_raw: "new_Node t key v = Inr n \<Longrightarrow> t = NODE_SEQ \<or> t = NODE_MAP \<Longrightarrow> raw n \<and> nd_value n = v"
  by (auto simp: new_Node_def om_ok_def split: if_splits)

lemma push_raw:
  assumes "push_node n parent = Inr y" "raw parent" "nd_value parent = []"
    and "new_Node t key v = Inr n" "t = NODE_SEQ \<or> t = NODE_MAP"
  shows "raw y \<and> keeps parent y \<and>
    node_at [if t = NODE_SEQ then Item (length (nd_seq parent)) else Key key] y = Some n"
proof -
  obtain pt ct pk pv seq m where p: "parent = Node pt ct pk pv seq m" by (cases parent)
  have n: "n = Node t NODE_NULL key v [] []" using assms(4) by (auto simp: new_Node_def split: if_splits)
  have rn: "raw n" using new_Node_raw [OF assms(4,5)] by simp
  show ?thesis
  proof (cases "t = NODE_SEQ")
    case True
    then have y: "y = Node pt NODE_SEQ pk pv (seq @ [n]) m" and ct: "ct \<in> {NODE_NULL, NODE_SEQ}"
      using assms(1) by (auto simp: push_node_def p n Let_def split: NodeType.splits if_splits)
    have "keeps parent y" by (rule keepsI) (auto simp: p y nth_append)
    then show ?thesis using assms(2,3) rn ct by (cases pt) (auto simp: p y True om_ok_def)
  next
    case False
    then have t: "t = NODE_MAP" using assms(5) by simp
    then have y: "y = Node pt NODE_MAP pk pv seq (om_set key n m)" and ct: "ct \<in> {NODE_NULL, NODE_MAP}"
      and fresh: "map_of m key = None"
      using assms(1) by (auto simp: push_node_def p n Let_def split: NodeType.splits if_splits)
    have k: "keeps parent y" by (rule keepsI) (use fresh in \<open>auto simp: p y\<close>)
    have "om_set key n m \<noteq> []" by (cases m) auto
    then have "raw y"
      using assms(2,3) rn ct set_om_set_subset [of key n m]
      by (cases pt) (auto simp: p y n list_all_iff)
    then show ?thesis using k by (simp add: y t)
  qed
qed

section \<open>The reader keeps its tree\<close>

definition reader_ok :: "Reader \<Rightarrow> bool" where
  "reader_ok r \<longleftrightarrow>
     (case yr_root r of
        None \<Rightarrow> yr_nodeChain r = []
      | Some root \<Rightarrow> raw root \<and> (\<forall>p \<in> set (yr_nodeChain r). \<exists>x. node_at p root = Some x \<and> nd_value x = []))"

lemma raw_node_at: "raw n \<Longrightarrow> node_at p n = Some x \<Longrightarrow> raw x"
proof (induction p n rule: node_at.induct)
  case (2 i p n)
  then show ?case by (cases n) (auto simp: list_all_length split: if_splits)
next
  case (3 k p n)
  then show ?case by (cases n) (auto simp: list_all_iff dest!: map_of_SomeD split: option.splits)
qed simp

lemma edit_root_ok:
  assumes "reader_ok r" "edit_root p f r = Some (Inr r1)" "yr_root r = Some root" "node_at p root = Some x"
    and "\<And>y. raw x \<Longrightarrow> f x = Inr y \<Longrightarrow> raw y \<and> keeps x y"
  obtains y root1 where "f x = Inr y" "r1 = r\<lparr>yr_root := Some root1\<rparr>" "node_at p root1 = Some y" "reader_ok r1"
proof -
  obtain root1 where e: "edit p f root = Inr root1" and r1: "r1 = r\<lparr>yr_root := Some root1\<rparr>"
    using assms(2,3) by (auto simp: edit_root_def res_simps)
  obtain y where y: "f x = Inr y" using edit_Inr [OF e assms(4)] by blast
  have "raw root" using assms(1,3) by (simp add: reader_ok_def)
  note y1 = assms(5) [OF raw_node_at [OF this assms(4)] y]
  from edit_raw [where f = f, OF \<open>raw root\<close> assms(4) y] y1 e
  have new: "raw root1" "keeps root root1" "node_at p root1 = Some y" by auto
  then have "reader_ok r1" using assms(1,3) unfolding r1 reader_ok_def keeps_def by simp metis
  with y r1 new(3) show thesis by (rule that)
qed

lemma pop_deeper_subset: "pop_deeper now is ss chain = Some (is1, ss1, chain1) \<Longrightarrow> set chain1 \<subseteq> set chain"
  by (induction now "is" ss chain rule: pop_deeper.induct) (auto split: if_splits list.splits)

lemma indent_step_ok:
  assumes "reader_ok r" "indent_step now s r = Some (Inr r1)"
  shows "reader_ok r1"
proof -
  consider "hd (yr_prevIndent r) \<le> now" | "now < hd (yr_prevIndent r)" by linarith
  then show ?thesis
  proof cases
    case 1
    then have "yr_root r1 = yr_root r" "yr_nodeChain r1 = yr_nodeChain r"
      using assms(2) by (auto simp: indent_step_def split: if_splits)
    then show ?thesis using assms(1) by (simp add: reader_ok_def cong: option.case_cong)
  next
    case 2
    then obtain p ps where chain: "yr_nodeChain r = p # ps"
      using assms(2) by (auto simp: indent_step_def split: list.splits)
    with assms(1) obtain root x where root: "yr_root r = Some root" "node_at p root = Some x" "raw root"
      by (auto simp: reader_ok_def split: option.splits)
    obtain r2 where e: "edit_root p (\<lambda>n. Inr (terminateNode n)) r = Some (Inr r2)"
      and rest: "(case pop_deeper now (yr_prevIndent r2) (yr_prevStates r2) (yr_nodeChain r2) of
          None \<Rightarrow> None
        | Some (is, ss, chain) \<Rightarrow>
            (if hd is \<noteq> now \<or> hd ss \<noteq> s then Some (Inl Runtime_error)
             else Some (Inr (r2\<lparr>yr_prevIndent := is, yr_prevStates := ss, yr_nodeChain := chain\<rparr>)))) =
        Some (Inr r1)"
      using assms(2) 2 chain by (auto simp: indent_step_def ybind_Inr)
    obtain ins ss chain1
      where pop: "pop_deeper now (yr_prevIndent r2) (yr_prevStates r2) (yr_nodeChain r2) = Some (ins, ss, chain1)"
        and r1: "r1 = r2\<lparr>yr_prevIndent := ins, yr_prevStates := ss, yr_nodeChain := chain1\<rparr>"
      using rest by (cases "pop_deeper now (yr_prevIndent r2) (yr_prevStates r2) (yr_nodeChain r2)")
        (auto split: if_splits)
    obtain root1 where "r2 = r\<lparr>yr_root := Some root1\<rparr>" "reader_ok r2"
      by (rule edit_root_ok [OF assms(1) e root(1,2)])
        (use raw_terminateNode keeps_terminateNode in blast)+
    then show ?thesis using pop_deeper_subset [OF pop] by (auto simp: r1 reader_ok_def)
  qed
qed


lemma start_chain_ok:
  assumes "reader_ok r" "start_chain t r = Some (Inr r1)" "t = NODE_SEQ \<or> t = NODE_MAP"
  shows "reader_ok r1" "yr_nodeChain r1 \<noteq> []" "yr_root r1 \<noteq> None"
  using assms new_Node_raw [of t "''root''" "[]"]
  by (auto simp: start_chain_def reader_ok_def res_simps split: list.splits option.splits)

lemma append_line_ok:
  assumes "reader_ok r" "append_line t key v r = Some (Inr (path, r1))" "t = NODE_SEQ \<or> t = NODE_MAP"
  shows "reader_ok r1 \<and> (\<exists>root n. yr_root r1 = Some root \<and> node_at path root = Some n \<and> nd_value n = v)"
proof -
  obtain n r2 where n: "new_Node t key v = Inr n" and s: "start_chain t r = Some (Inr r2)"
    and e: "edit_root (hd (yr_nodeChain r2)) (push_node n) r2 = Some (Inr r1)"
    and path: "path = hd (yr_nodeChain r2) @ [last_step t key (hd (yr_nodeChain r2)) r2]"
    using assms(2) by (auto simp: append_line_def ybind_Inr Let_def)
  note ok = start_chain_ok [OF assms(1) s assms(3)]
  let ?p = "hd (yr_nodeChain r2)"
  obtain root x where root: "yr_root r2 = Some root" "node_at ?p root = Some x" "nd_value x = []"
    using ok by (auto simp: reader_ok_def split: option.splits) (metis list.set_sel(1))
  obtain y root1 where y: "push_node n x = Inr y" "r1 = r2\<lparr>yr_root := Some root1\<rparr>"
    "node_at ?p root1 = Some y" "reader_ok r1"
    by (rule edit_root_ok [OF ok(1) e root(1,2)]) (use push_raw [OF _ _ root(3) n assms(3)] in blast)+
  have "raw x" using ok(1) root raw_node_at by (auto simp: reader_ok_def)
  from push_raw [OF y(1) this root(3) n assms(3)]
  have "node_at [if t = NODE_SEQ then Item (length (nd_seq x)) else Key key] y = Some n" by simp
  moreover have "last_step t key ?p r2 = (if t = NODE_SEQ then Item (length (nd_seq x)) else Key key)"
    using root by (simp add: last_step_def)
  moreover have "node_at (p @ q) m = (case node_at p m of None \<Rightarrow> None | Some z \<Rightarrow> node_at q z)" for p q m
    by (induction p m rule: node_at.induct) (auto split: option.splits)
  ultimately have "node_at path root1 = Some n" using y(3) by (simp add: path)
  then show ?thesis using y new_Node_raw [OF n assms(3)] by auto
qed

lemma isEndSeparator_value: "isEndSeparator text \<Longrightarrow> extractValue text = []"
proof -
  assume e: "isEndSeparator text"
  define l where "l = trim '' '' text"
  obtain pos where pos: "idx_of (\<lambda>c. c = CHR '':'') l = Some pos" "pos = length l - 1"
    using e by (auto simp: isEndSeparator_def Let_def simp flip: l_def split: option.splits)
  then have "drop (pos + 1) l = []" by simp
  moreover have "extractValue text = trim '' '' (drop (pos + 1) l)"
    by (simp add: extractValue_def Let_def pos(1) flip: l_def)
  ultimately show ?thesis by (simp add: trim_def)
qed

lemma read_line_ok:
  assumes "reader_ok r" "read_line line nxt r = Some (Inr r1)"
  shows "reader_ok r1"
proof (cases "line = [] \<or> isOnlyCharLine line ''#''")
  case True
  then show ?thesis using assms by (simp add: read_line_def)
next
  case False
  let ?isItem = "isOnlyCharLine line ''-''"
  let ?t = "if ?isItem then NODE_SEQ else NODE_MAP"
  obtain body key r2 path r3 where i: "indent_step (int (startCharCount line '' ''))
        (if ?isItem then State_SEQ else State_MAP) r = Some (Inr r2)"
    and a: "append_line ?t key (extractValue body) r2 = Some (Inr (path, r3))"
    and r1: "r1 = r3 \<or> r1 = r3\<lparr>yr_nodeChain := path # yr_nodeChain r3\<rparr> \<and> isEndSeparator body"
    using assms(2) False by (auto simp: read_line_def Let_def ybind_Inr split: option.splits if_splits)
  have "?t = NODE_SEQ \<or> ?t = NODE_MAP" by simp
  from append_line_ok [OF indent_step_ok [OF assms(1) i] a this]
  show ?thesis using r1 isEndSeparator_value [of body] by (auto simp: reader_ok_def split: option.splits)
qed

lemma read_lines_ok: "reader_ok r \<Longrightarrow> read_lines ls r = Some (Inr r1) \<Longrightarrow> reader_ok r1"
  by (induction ls arbitrary: r) (auto simp: ybind_Inr dest: read_line_ok)

text \<open>C17: the trees that the reader of the configuration file accepts: a node without children is a
  value and has a text; any other node has no text, and either a sequence or a map of children, whose
  keys are distinct, sorted and those of the children.\<close>

theorem yaml_well_typed:
  assumes "parseYaml buf = Some (Inr (Some root))"
  shows "tidy root"
proof -
  obtain r root1 where "read_lines (yaml_lines buf) new_Reader = Some (Inr r)" "yr_root r = Some root1"
    "isValidNode (fixNode root1)" "root = fixNode root1"
    using assms by (auto simp: parseYaml_def ybind_Inr Let_def split: if_splits option.splits)
  moreover have "reader_ok new_Reader" by (simp add: reader_ok_def new_Reader_def)
  ultimately have "raw root1" using read_lines_ok [of new_Reader _ r] by (simp add: reader_ok_def)
  then show ?thesis using raw_tidy \<open>isValidNode _\<close> \<open>root = _\<close> by blast
qed

definition doc :: "string list \<Rightarrow> string" where
  "doc ls = concat (map (\<lambda>l. l @ [LF]) ls)"

theorem yaml_well_typed_witness:
  "tidy (Node NODE_MAP NODE_MAP ''root'' [] [] [(''a'', Node NODE_MAP NODE_SEQ ''a'' []
     [Node NODE_VAL NODE_VAL [] ''x'' [] []] []), (''b'', Node NODE_VAL NODE_VAL ''b'' ''1'' [] [])])"
proof -
  have "parseYaml (doc [''a:'', ''  - x'', ''b: 1'']) =
      Some (Inr (Some (Node NODE_MAP NODE_MAP ''root'' [] [] [(''a'', Node NODE_MAP NODE_SEQ ''a'' []
        [Node NODE_VAL NODE_VAL [] ''x'' [] []] []), (''b'', Node NODE_VAL NODE_VAL ''b'' ''1'' [] [])])))"
    by code_simp
  then show ?thesis by (rule yaml_well_typed)
qed

section \<open>Documents that are not read\<close>

text \<open>A blank line between a key and its block: the block is not nested under the key, and at the next
  dedent everything read so far is lost.\<close>

lemma yaml_blank_line_loses:
  "parseYaml (doc [''a:'', [], ''  b: 1'', ''c: 2'']) =
   Some (Inr (Some (Node NODE_MAP NODE_MAP ''root'' [] [] [(''c'', Node NODE_VAL NODE_VAL ''c'' ''2'' [] [])])))"
  by code_simp

text \<open>With two of them the reader takes a node from an empty stack.\<close>

lemma yaml_blank_lines_undefined:
  "parseYaml (doc [''a:'', [], ''  b:'', [], ''    c: 1'', ''d: 2'']) = None"
  by code_simp

text \<open>A comment that is indented more deeply than what follows takes what follows as its block.\<close>

lemma yaml_comment_nests:
  "parseYaml (doc [''a:'', ''    # x'', ''b: 1'']) =
   Some (Inr (Some (Node NODE_MAP NODE_MAP ''root'' [] []
     [(''a'', Node NODE_MAP NODE_MAP ''a'' [] [] [(''b'', Node NODE_VAL NODE_VAL ''b'' ''1'' [] [])])])))"
  by code_simp

text \<open>A block that is followed by a sibling is refused as soon as the indentation returns: the children of
  the node that ends, blocks among them, are made values.\<close>

lemma yaml_block_before_sibling_refused:
  "parseYaml (doc [''a:'', ''  b:'', ''    c: 1'', ''  d: 2'', ''e: 3'']) = Some (Inl Runtime_error)"
  "parseYaml (doc [''a:'', ''  d: 2'', ''  b:'', ''    c: 1'', ''e: 3'']) \<noteq> Some (Inl Runtime_error)"
  by code_simp+

end
