(* ===== verification/ConfigBuild.thy ===== *)
theory ConfigBuild
  imports Config HttpCore Yaml
begin

text \<open>
  \<open>src/Config/ConfigBuilder.cpp\<close>, \<open>ConfigParser.cpp\<close>, \<open>ConfigLocationParser.cpp\<close> and
  \<open>ConfigLogParser.cpp\<close>: from the tree of the configuration file to the configurations of the
  servers.  The parsers write into a builder, which holds the fields of a configuration; what
  \<open>getaddrinfo\<close> takes for a numeric address is an argument.
\<close>

section \<open>The builder\<close>

record ConfigBuilder = Config +
  cb_defaultLocationKey :: string

definition default_location :: Location where
  "default_location =
     new_Location\<lparr>loc_path := ''/'', loc_root := ''./www'', loc_uploadStore := ''./www/uploads'',
       loc_index := ''index.html'', loc_noIndex := False, loc_directoryError := [], loc_autoindex := True,
       loc_allowedMethods := [''DELETE'', ''GET'', ''HEAD'', ''POST''], loc_session := True,
       loc_hasChunkedTimeoutSec := True, loc_chunkedTimeoutSec := 10\<rparr>"

definition initDefaults :: ConfigBuilder where
  "initDefaults =
     \<lparr>cfg_listens = [], cfg_locations = [(''/'', default_location)],
      cfg_accessLogs = [new_AccessLog], cfg_errorLogs = [new_ErrorLog], cfg_errorPages = [],
      cfg_maxRequestBodySize = 1024 * 1024, cfg_hasBiggestMaxRequestBodySize = False,
      cfg_biggestMaxRequestBodySize = 0, cfg_timeoutSec = 60, cfg_maxEvents = 1024,
      cfg_requestHeaderTimeoutSec = 20, cfg_requestBodyTimeoutSec = 30, cfg_sessionTimeoutSec = 1800,
      cfg_maxRequestHeaderSize = 8192, cb_defaultLocationKey = ''/''\<rparr>"

definition build_config :: "ConfigBuilder \<Rightarrow> Config" where
  "build_config b = Config.truncate b"

definition setMaxRequestBodySize :: "size_t \<Rightarrow> ConfigBuilder \<Rightarrow> ConfigBuilder" where
  "setMaxRequestBodySize n b = b\<lparr>cfg_maxRequestBodySize := n\<rparr>"

definition setBiggestRequestBodySize :: "bool \<Rightarrow> size_t \<Rightarrow> ConfigBuilder \<Rightarrow> ConfigBuilder" where
  "setBiggestRequestBodySize hasValue n b =
     b\<lparr>cfg_hasBiggestMaxRequestBodySize := hasValue, cfg_biggestMaxRequestBodySize := n\<rparr>"

definition setTimeoutSec :: "size_t \<Rightarrow> ConfigBuilder \<Rightarrow> ConfigBuilder" where
  "setTimeoutSec sec b = b\<lparr>cfg_timeoutSec := sec\<rparr>"

definition setMaxEvents :: "size_t \<Rightarrow> ConfigBuilder \<Rightarrow> ConfigBuilder" where
  "setMaxEvents maxEvents b = b\<lparr>cfg_maxEvents := maxEvents\<rparr>"

definition setListens :: "Listen list \<Rightarrow> ConfigBuilder \<Rightarrow> ConfigBuilder" where
  "setListens ls b = b\<lparr>cfg_listens := ls\<rparr>"

definition setAccessLogs :: "AccessLog list \<Rightarrow> ConfigBuilder \<Rightarrow> ConfigBuilder" where
  "setAccessLogs logs b = b\<lparr>cfg_accessLogs := logs\<rparr>"

definition setErrorLogs :: "ErrorLog list \<Rightarrow> ConfigBuilder \<Rightarrow> ConfigBuilder" where
  "setErrorLogs logs b = b\<lparr>cfg_errorLogs := logs\<rparr>"

definition setErrorPage :: "int \<Rightarrow> string \<Rightarrow> ConfigBuilder \<Rightarrow> ConfigBuilder" where
  "setErrorPage errcode uri b = b\<lparr>cfg_errorPages := om_set errcode uri (cfg_errorPages b)\<rparr>"

definition setLocations :: "(string, Location) omap \<Rightarrow> ConfigBuilder \<Rightarrow> ConfigBuilder" where
  "setLocations locations b = b\<lparr>cfg_locations := locations\<rparr>"

definition setSessionTimeoutSec :: "size_t \<Rightarrow> ConfigBuilder \<Rightarrow> ConfigBuilder" where
  "setSessionTimeoutSec sec b = b\<lparr>cfg_sessionTimeoutSec := sec\<rparr>"

definition setRequestHeaderTimeoutSec :: "size_t \<Rightarrow> ConfigBuilder \<Rightarrow> ConfigBuilder" where
  "setRequestHeaderTimeoutSec sec b = b\<lparr>cfg_requestHeaderTimeoutSec := sec\<rparr>"

definition setRequestBodyTimeoutSec :: "size_t \<Rightarrow> ConfigBuilder \<Rightarrow> ConfigBuilder" where
  "setRequestBodyTimeoutSec sec b = b\<lparr>cfg_requestBodyTimeoutSec := sec\<rparr>"

definition setMaxRequestHeaderSize :: "size_t \<Rightarrow> ConfigBuilder \<Rightarrow> ConfigBuilder" where
  "setMaxRequestHeaderSize n b = b\<lparr>cfg_maxRequestHeaderSize := n\<rparr>"

subsection \<open>The default location\<close>

text \<open>\<open>_locations[_defaultLocationKey]\<close>, which makes the entry when there is none.\<close>

definition the_default :: "ConfigBuilder \<Rightarrow> Location" where
  "the_default b =
     (case map_of (cfg_locations b) (cb_defaultLocationKey b) of None \<Rightarrow> new_Location | Some l \<Rightarrow> l)"

definition on_default :: "(Location \<Rightarrow> Location) \<Rightarrow> ConfigBuilder \<Rightarrow> ConfigBuilder" where
  "on_default f b =
     b\<lparr>cfg_locations := om_set (cb_defaultLocationKey b) (f (the_default b)) (cfg_locations b)\<rparr>"

definition setServerDefaultRoot :: "string \<Rightarrow> ConfigBuilder \<Rightarrow> ConfigBuilder" where
  "setServerDefaultRoot root = on_default (\<lambda>l. l\<lparr>loc_root := root\<rparr>)"

definition setServerDefaultAutoindex :: "bool \<Rightarrow> ConfigBuilder \<Rightarrow> ConfigBuilder" where
  "setServerDefaultAutoindex autoindex = on_default (\<lambda>l. l\<lparr>loc_autoindex := autoindex\<rparr>)"

definition setServerDefaultIndex :: "string \<Rightarrow> ConfigBuilder \<Rightarrow> ConfigBuilder" where
  "setServerDefaultIndex index = on_default (\<lambda>l. l\<lparr>loc_index := index\<rparr>)"

definition setServerDefaultUploadStore :: "string \<Rightarrow> ConfigBuilder \<Rightarrow> ConfigBuilder" where
  "setServerDefaultUploadStore uploadStore = on_default (\<lambda>l. l\<lparr>loc_uploadStore := uploadStore\<rparr>)"

definition setServerDefaultCgiConf :: "string \<Rightarrow> string \<Rightarrow> ConfigBuilder \<Rightarrow> ConfigBuilder" where
  "setServerDefaultCgiConf extension interpreterPath =
     on_default (\<lambda>l. l\<lparr>loc_cgiConf := om_set extension interpreterPath (loc_cgiConf l)\<rparr>)"

text \<open>The four switches for one method each.\<close>

definition allow_method :: "string \<Rightarrow> bool \<Rightarrow> ConfigBuilder \<Rightarrow> ConfigBuilder" where
  "allow_method meth allow =
     on_default (\<lambda>l. l\<lparr>loc_allowedMethods :=
       (if allow then insort_insert meth (loc_allowedMethods l) else remove1 meth (loc_allowedMethods l))\<rparr>)"

definition setServerDefaultIsAllowGet :: "bool \<Rightarrow> ConfigBuilder \<Rightarrow> ConfigBuilder" where
  "setServerDefaultIsAllowGet = allow_method ''GET''"

definition setServerDefaultIsAllowHead :: "bool \<Rightarrow> ConfigBuilder \<Rightarrow> ConfigBuilder" where
  "setServerDefaultIsAllowHead = allow_method ''HEAD''"

definition setServerDefaultIsAllowPost :: "bool \<Rightarrow> ConfigBuilder \<Rightarrow> ConfigBuilder" where
  "setServerDefaultIsAllowPost = allow_method ''POST''"

definition setServerDefaultIsAllowDelete :: "bool \<Rightarrow> ConfigBuilder \<Rightarrow> ConfigBuilder" where
  "setServerDefaultIsAllowDelete = allow_method ''DELETE''"

definition setServerDefaultAllowedMethods :: "string list \<Rightarrow> ConfigBuilder \<Rightarrow> ConfigBuilder" where
  "setServerDefaultAllowedMethods methods = on_default (\<lambda>l. l\<lparr>loc_allowedMethods := methods\<rparr>)"

definition setServerDefaultSession :: "bool \<Rightarrow> ConfigBuilder \<Rightarrow> ConfigBuilder" where
  "setServerDefaultSession enable = on_default (\<lambda>l. l\<lparr>loc_session := enable\<rparr>)"

definition setServerDefaultChunkedTimeoutSec :: "size_t \<Rightarrow> ConfigBuilder \<Rightarrow> ConfigBuilder" where
  "setServerDefaultChunkedTimeoutSec sec = on_default (\<lambda>l. l\<lparr>loc_chunkedTimeoutSec := sec\<rparr>)"

text \<open>\<open>std::istream >> word\<close>, and the loop over all words of a text.\<close>

definition next_word :: "string \<Rightarrow> string \<times> string" where
  "next_word s =
     (let t = dropWhile isspace s
      in (takeWhile (\<lambda>c. \<not> isspace c) t, dropWhile (\<lambda>c. \<not> isspace c) t))"

lemma next_word_shorter: "next_word s = (w, rest) \<Longrightarrow> w \<noteq> [] \<Longrightarrow> length rest < length s"
proof -
  assume n: "next_word s = (w, rest)" "w \<noteq> []"
  then have "length w + length rest = length (dropWhile isspace s)"
    by (auto simp: next_word_def Let_def simp flip: length_append)
  moreover have "length (dropWhile isspace s) \<le> length s" by (rule length_dropWhile_le)
  ultimately show ?thesis using n(2) by (cases w) auto
qed

function words :: "string \<Rightarrow> string list" where
  "words s = (case next_word s of (w, rest) \<Rightarrow> if w = [] then [] else w # words rest)"
  by pat_completeness auto
termination
  by (relation "measure length") (auto intro: next_word_shorter [OF sym])

definition setServerDefaultAllowedMethods_text :: "string \<Rightarrow> ConfigBuilder \<Rightarrow> ConfigBuilder" where
  "setServerDefaultAllowedMethods_text methods =
     setServerDefaultAllowedMethods (fold insort_insert (words methods) [])"

subsection \<open>A location block\<close>

definition inherit_cgi :: "(string, string) omap \<Rightarrow> (string, string) omap \<Rightarrow> (string, string) omap" where
  "inherit_cgi defaults conf =
     fold (\<lambda>p conf. case map_of conf (fst p) of
         Some (c # cs) \<Rightarrow> conf | _ \<Rightarrow> om_set (fst p) (snd p) conf) defaults conf"

definition inherit :: "Location \<Rightarrow> Location \<Rightarrow> Location" where
  "inherit def l =
     l\<lparr>loc_root := (if loc_root l = [] then loc_root def else loc_root l),
       loc_allowedMethods := (if loc_allowedMethods l = [] then loc_allowedMethods def else loc_allowedMethods l),
       loc_index := (if loc_index l = [] then loc_index def else loc_index l),
       loc_cgiConf := inherit_cgi (loc_cgiConf def) (loc_cgiConf l),
       loc_chunkedTimeoutSec :=
         (if loc_hasChunkedTimeoutSec l then loc_chunkedTimeoutSec l else loc_chunkedTimeoutSec def),
       loc_hasChunkedTimeoutSec := True\<rparr>"

definition setLocation :: "Location \<Rightarrow> ConfigBuilder \<Rightarrow> ConfigBuilder res" where
  "setLocation location b =
     (let def = the_default b; new = inherit def location in
      if list_ex (\<lambda>ext. endsWith (loc_index new) ext) (map fst (loc_cgiConf location) @ map fst (loc_cgiConf def))
      then Inl Runtime_error
      else Inr (b\<lparr>cfg_locations := om_set (loc_path new) new (om_set (cb_defaultLocationKey b) def (cfg_locations b))\<rparr>))"

end
