(* ===== verification/ConfigParse.thy ===== *)
theory ConfigParse
  imports ConfigBuild
begin

text \<open>
  \<open>src/Config/ConfigParser.cpp\<close>, \<open>ConfigLocationParser.cpp\<close> and \<open>ConfigLogParser.cpp\<close>: the
  blocks of the configuration file, each checked and written into the builder, and
  \<open>ConfigBuilder::import\<close>, which builds one configuration for every server.  The theorems say
  what every imported configuration satisfies and what is refused.
\<close>

section \<open>Keys\<close>

definition VALID_SERVER_KEYS :: "string list" where
  "VALID_SERVER_KEYS =
     [''listens'', ''locations'', ''access_logs'', ''error_logs'', ''error_pages'', ''maxRequestBodySize'',
      ''timeoutSec'', ''requestHeaderTimeoutSec'', ''requestBodyTimeoutSec'', ''maxEvents'', ''root'',
      ''allowedMethods'', ''autoindex'', ''index'', ''uploadStore'', ''interpreterPath'', ''session'',
      ''sessionTimeoutSec'', ''maxRequestHeaderSize'', ''chunkedTimeoutSec'']"

definition VALID_LISTEN_KEYS :: "string list" where
  "VALID_LISTEN_KEYS = [''host'', ''interface'', ''port'']"

definition VALID_LOCATION_KEYS :: "string list" where
  "VALID_LOCATION_KEYS =
     [''path'', ''root'', ''allowedMethods'', ''autoindex'', ''index'', ''noIndex'', ''uploadStore'',
      ''interpreterPath'', ''return'', ''session'', ''maxRequestBodySize'', ''directoryError'',
      ''chunkedTimeoutSec'']"

definition VALID_ACCESS_LOG_KEYS :: "string list" where
  "VALID_ACCESS_LOG_KEYS =
     [''disable'', ''sink'', ''filename'', ''logDir'', ''format'', ''maxSize'', ''maxBackup'']"

definition VALID_ERROR_LOG_KEYS :: "string list" where
  "VALID_ERROR_LOG_KEYS =
     [''disable'', ''sink'', ''filename'', ''logDir'', ''format'', ''level'', ''mode'', ''maxSize'', ''maxBackup'']"

definition VALID_DISABLED_ACCESS_LOG_KEYS :: "string list" where
  "VALID_DISABLED_ACCESS_LOG_KEYS = [''disable'']"

definition VALID_DISABLED_ERROR_LOG_KEYS :: "string list" where
  "VALID_DISABLED_ERROR_LOG_KEYS = [''disable'']"

definition validateKeys :: "Node \<Rightarrow> string list \<Rightarrow> unit res" where
  "validateKeys node validKeys =
     (if list_all (\<lambda>k. k \<in> set validKeys) (getKeys node) then Inr () else Inl Runtime_error)"

text \<open>The comparison of a \<open>time_t\<close> with its own maximum.\<close>

definition validateConvertTimeout :: "string \<Rightarrow> size_t res" where
  "validateConvertTimeout s =
     rbind (toSizeT s) (\<lambda>n.
       let timeoutAsTimeT = sint n in
       if 2 ^ 63 - 1 < timeoutAsTimeT then Inl Runtime_error else Inr (of_int timeoutAsTimeT))"

section \<open>Steps of the parsers\<close>

text \<open>\<open>if (const Node *n = node->getMapNode(key)) ...\<close>, and a loop whose body may throw.\<close>

definition with_node :: "string \<Rightarrow> Node \<Rightarrow> (Node \<Rightarrow> 'b \<Rightarrow> 'b res) \<Rightarrow> 'b \<Rightarrow> 'b res" where
  "with_node key node f b =
     rbind (getMapNode key node) (\<lambda>o1. case o1 of None \<Rightarrow> Inr b | Some n \<Rightarrow> f n b)"

definition set_text :: "(string \<Rightarrow> 'b \<Rightarrow> 'b) \<Rightarrow> Node \<Rightarrow> 'b \<Rightarrow> 'b res" where
  "set_text store n b = Inr (store (nd_value n) b)"

definition set_num :: "(string \<Rightarrow> 'a res) \<Rightarrow> ('a \<Rightarrow> 'b \<Rightarrow> 'b) \<Rightarrow> Node \<Rightarrow> 'b \<Rightarrow> 'b res" where
  "set_num conv store n b = rbind (conv (nd_value n)) (\<lambda>v. Inr (store v b))"

fun steps :: "('b \<Rightarrow> 'b res) list \<Rightarrow> 'b \<Rightarrow> 'b res" where
  "steps [] b = Inr b"
| "steps (f # fs) b = rbind (f b) (steps fs)"

abbreviation each :: "('a \<Rightarrow> 'b \<Rightarrow> 'b res) \<Rightarrow> 'a list \<Rightarrow> 'b \<Rightarrow> 'b res" where
  "each f xs \<equiv> steps (map f xs)"

section \<open>Listens\<close>

definition parse_listen :: "(string \<Rightarrow> bool) \<Rightarrow> Node \<Rightarrow> Listen res" where
  "parse_listen numeric_host node =
     (if nd_key node \<noteq> ''listen'' then Inl Runtime_error
      else
        rbind (validateKeys node VALID_LISTEN_KEYS) (\<lambda>_.
        rbind (getMapNode ''host'' node) (\<lambda>hostNode.
        rbind (getMapNode ''interface'' node) (\<lambda>interfaceNode.
        rbind (getMapNode ''port'' node) (\<lambda>portNode.
          let host = (case hostNode of None \<Rightarrow> [] | Some n \<Rightarrow> nd_value n);
              interface = (case interfaceNode of None \<Rightarrow> ''0.0.0.0'' | Some n \<Rightarrow> nd_value n)
          in case portNode of
               None \<Rightarrow> Inl Runtime_error
             | Some n \<Rightarrow>
                 rbind (stringToInt (nd_value n)) (\<lambda>port.
                   if port < 1 \<or> 65535 < port then Inl Runtime_error
                   else if \<not> numeric_host interface then Inl Runtime_error
                   else Inr \<lparr>lst_host = host, lst_interface = interface, lst_port = port\<rparr>))))))"

definition parseListens :: "(string \<Rightarrow> bool) \<Rightarrow> Node option \<Rightarrow> ConfigBuilder \<Rightarrow> ConfigBuilder res" where
  "parseListens numeric_host node b =
     (case node of
        None \<Rightarrow> Inl Runtime_error
      | Some n \<Rightarrow>
          rbind (getSeq n) (\<lambda>listensNodes.
            if listensNodes = [] then Inl Runtime_error
            else
              rbind (each (\<lambda>l_node ls. rbind (parse_listen numeric_host l_node) (\<lambda>l. Inr (ls @ [l])))
                       listensNodes []) (\<lambda>listens. Inr (setListens listens b))))"

section \<open>Error pages\<close>

definition parse_error_page :: "Node \<Rightarrow> string \<Rightarrow> ConfigBuilder \<Rightarrow> ConfigBuilder res" where
  "parse_error_page node key b =
     rbind (stringToInt key) (\<lambda>errcode.
       if \<not> isValidStatusCode errcode 400 600 then Inl Runtime_error
       else
         rbind (getMapNode key node) (\<lambda>uriNode.
           case uriNode of
             None \<Rightarrow> Inl Runtime_error | Some n \<Rightarrow> Inr (setErrorPage errcode (nd_value n) b)))"

definition parseErrorPages :: "Node \<Rightarrow> ConfigBuilder \<Rightarrow> ConfigBuilder res" where
  "parseErrorPages node = each (parse_error_page node) (getKeys node)"

section \<open>Logs\<close>

text \<open>The template of the two kinds of logs; \<open>specifics\<close> is the part of one of them.\<close>

definition parse_sink :: "Node \<Rightarrow> 'a AccessLog_scheme \<Rightarrow> 'a AccessLog_scheme res" where
  "parse_sink logNode log =
     rbind (getMapNode ''sink'' logNode) (\<lambda>sinkNode.
       case sinkNode of
         None \<Rightarrow> Inl Runtime_error
       | Some n \<Rightarrow>
           if toUpper (nd_value n) = ''FILE'' then Inr (log\<lparr>lg_sink := File\<rparr>)
           else if toUpper (nd_value n) = ''CONSOLE'' then Inr (log\<lparr>lg_sink := Console\<rparr>)
           else Inl Runtime_error)"

definition parse_format :: "Node \<Rightarrow> 'a AccessLog_scheme \<Rightarrow> 'a AccessLog_scheme res" where
  "parse_format logNode =
     with_node ''format'' logNode (\<lambda>n log.
       if toUpper (nd_value n) = ''JSON'' then Inr (log\<lparr>lg_format := JSON\<rparr>)
       else if toUpper (nd_value n) = ''ELF'' then Inr (log\<lparr>lg_format := ELF\<rparr>)
       else Inl Runtime_error)"

definition forbid :: "string \<Rightarrow> Node \<Rightarrow> 'b \<Rightarrow> 'b res" where
  "forbid key logNode = with_node key logNode (\<lambda>_ _. Inl Runtime_error)"

definition parse_sink_options :: "Node \<Rightarrow> 'a AccessLog_scheme \<Rightarrow> 'a AccessLog_scheme res" where
  "parse_sink_options logNode log =
     (if lg_sink log = File
      then steps
        [with_node ''filename'' logNode (set_text (\<lambda>v l. l\<lparr>lg_filename := v\<rparr>)),
         with_node ''logDir'' logNode (set_text (\<lambda>v l. l\<lparr>lg_logDir := v\<rparr>)),
         with_node ''maxSize'' logNode (set_num sizeByteStrToSizeT (\<lambda>v l. l\<lparr>lg_maxFileSize := v\<rparr>)),
         with_node ''maxBackup'' logNode (set_num toSizeT (\<lambda>v l. l\<lparr>lg_maxBackupFiles := v\<rparr>))] log
      else each (\<lambda>key. forbid key logNode) [''filename'', ''logDir'', ''maxSize'', ''maxBackup''] log)"

definition is_disabled :: "Node \<Rightarrow> bool res" where
  "is_disabled logNode =
     rbind (getMapNode ''disable'' logNode) (\<lambda>disableNode.
       Inr (case disableNode of None \<Rightarrow> False | Some n \<Rightarrow> equalsIgnoreCase (nd_value n) ''true''))"

definition parse_log ::
  "string \<Rightarrow> string list \<Rightarrow> (Node \<Rightarrow> 'a AccessLog_scheme \<Rightarrow> 'a AccessLog_scheme res) \<Rightarrow>
     'a AccessLog_scheme \<Rightarrow> Node \<Rightarrow> 'a AccessLog_scheme res" where
  "parse_log logKey validKeys specifics newLog logNode =
     (if nd_key logNode \<noteq> logKey then Inl Runtime_error
      else
        rbind (is_disabled logNode) (\<lambda>disabled.
          if disabled then
            rbind (validateKeys logNode
                (if logKey = ''access_log'' then VALID_DISABLED_ACCESS_LOG_KEYS
                 else VALID_DISABLED_ERROR_LOG_KEYS)) (\<lambda>_. Inr (newLog\<lparr>lg_isDisable := True\<rparr>))
          else
            rbind (validateKeys logNode validKeys) (\<lambda>_.
              steps [parse_sink logNode, parse_format logNode, parse_sink_options logNode, specifics logNode]
                (newLog\<lparr>lg_isDisable := False\<rparr>))))"

definition parseLogs ::
  "string \<Rightarrow> string list \<Rightarrow> (Node \<Rightarrow> 'a AccessLog_scheme \<Rightarrow> 'a AccessLog_scheme res) \<Rightarrow>
     'a AccessLog_scheme \<Rightarrow> Node \<Rightarrow> 'a AccessLog_scheme list res" where
  "parseLogs logKey validKeys specifics newLog node =
     rbind (getSeq node) (\<lambda>logs.
       rbind (each (\<lambda>n ls. rbind (parse_log logKey validKeys specifics newLog n) (\<lambda>l. Inr (ls @ [l]))) logs [])
         (\<lambda>configured.
           if list_ex lg_isDisable configured \<and> list_ex (\<lambda>l. \<not> lg_isDisable l) configured
           then Inl Runtime_error else Inr configured))"

definition error_log_specifics :: "Node \<Rightarrow> ErrorLog \<Rightarrow> ErrorLog res" where
  "error_log_specifics logNode =
     steps
       [with_node ''level'' logNode (\<lambda>n log.
          let v = toUpper (nd_value n) in
          if v = ''DEBUG'' then Inr (log\<lparr>el_level := DEBUG\<rparr>)
          else if v = ''INFO'' then Inr (log\<lparr>el_level := INFO\<rparr>)
          else if v = ''WARNING'' then Inr (log\<lparr>el_level := WARNING\<rparr>)
          else if v = ''ERROR'' then Inr (log\<lparr>el_level := ERROR\<rparr>)
          else if v = ''FATAL'' then Inr (log\<lparr>el_level := FATAL\<rparr>)
          else Inl Runtime_error),
        with_node ''mode'' logNode (\<lambda>n log.
          let v = toUpper (nd_value n) in
          if v = ''GREATER_OR_EQUAL'' then Inr (log\<lparr>el_filterMode := GREATER_OR_EQUAL\<rparr>)
          else if v = ''EXACT'' then Inr (log\<lparr>el_filterMode := EXACT\<rparr>)
          else Inl Runtime_error)]"

definition parseAccessLogs :: "Node \<Rightarrow> ConfigBuilder \<Rightarrow> ConfigBuilder res" where
  "parseAccessLogs node b =
     rbind (parseLogs ''access_log'' VALID_ACCESS_LOG_KEYS (\<lambda>_ log. Inr log) new_AccessLog node)
       (\<lambda>logs. Inr (if logs \<noteq> [] then setAccessLogs logs b else b))"

definition parseErrorLogs :: "Node \<Rightarrow> ConfigBuilder \<Rightarrow> ConfigBuilder res" where
  "parseErrorLogs node b =
     rbind (parseLogs ''error_log'' VALID_ERROR_LOG_KEYS error_log_specifics new_ErrorLog node)
       (\<lambda>logs. Inr (if logs \<noteq> [] then setErrorLogs logs b else b))"

section \<open>Locations\<close>

definition VALID_BOOL_VALUES :: "string list" where
  "VALID_BOOL_VALUES = [''true'', ''false'', ''on'', ''off'', ''yes'', ''no'']"

text \<open>\<open>isValidBoolString\<close> and the comparison that follows each of its calls.\<close>

definition bool_string :: "string \<Rightarrow> bool res" where
  "bool_string v =
     (if v \<notin> set VALID_BOOL_VALUES then Inl Runtime_error else Inr (v \<in> {''true'', ''on'', ''yes''}))"

definition parse_method :: "Node \<Rightarrow> string list \<Rightarrow> string list res" where
  "parse_method node methods =
     (if nd_value node \<notin> set VALID_ALLOWED_METHODS then Inl Runtime_error
      else Inr (insort_insert (nd_value node) methods))"

definition parse_methods :: "Node \<Rightarrow> string list res" where
  "parse_methods node = rbind (getSeq node) (\<lambda>methods. each parse_method methods [])"

definition parse_return :: "Node \<Rightarrow> Location \<Rightarrow> Location res" where
  "parse_return node loc =
     (case next_word (nd_value node) of
        (codeStr, rest) \<Rightarrow>
          (case next_word rest of
             (urlStr, _) \<Rightarrow>
               if codeStr = [] \<or> urlStr = [] then Inl Runtime_error
               else
                 rbind (stringToInt codeStr) (\<lambda>redirectCode.
                   if \<not> isValidStatusCode redirectCode 300 400 then Inl Runtime_error
                   else Inr (loc\<lparr>loc_hasRedirect := True, loc_redirectCode := redirectCode,
                                 loc_redirectUrl := urlStr\<rparr>))))"

text \<open>One key of \<open>interpreterPath\<close>: \<open>store\<close> keeps the path under the extension; a key without a node
  is an error in a server and skipped in a location.\<close>

definition parse_interpreter ::
  "('b \<Rightarrow> 'b res) \<Rightarrow> (string \<Rightarrow> string \<Rightarrow> 'b \<Rightarrow> 'b) \<Rightarrow> Node \<Rightarrow> string \<Rightarrow> 'b \<Rightarrow> 'b res" where
  "parse_interpreter missing store node ext b =
     rbind (getMapNode ext node) (\<lambda>pathNode.
       case pathNode of
         None \<Rightarrow> missing b
       | Some n \<Rightarrow>
           if ext = [] \<or> hd ext \<noteq> CHR ''.'' then Inl Runtime_error else Inr (store ext (nd_value n) b))"

text \<open>The keys of a location block in the order they are read.\<close>

definition location_steps :: "Node \<Rightarrow> (Location \<Rightarrow> Location res) list" where
  "location_steps node =
     [with_node ''root'' node (set_text (\<lambda>v l. l\<lparr>loc_root := v\<rparr>)),
      with_node ''uploadStore'' node (set_text (\<lambda>v l. l\<lparr>loc_uploadStore := v\<rparr>)),
      with_node ''index'' node (set_text (\<lambda>v l. l\<lparr>loc_index := v\<rparr>)),
      with_node ''noIndex'' node (set_num bool_string (\<lambda>v l. l\<lparr>loc_noIndex := v\<rparr>)),
      with_node ''directoryError'' node (set_text (\<lambda>v l. l\<lparr>loc_directoryError := v\<rparr>)),
      with_node ''autoindex'' node (set_num bool_string (\<lambda>v l. l\<lparr>loc_autoindex := v\<rparr>)),
      with_node ''return'' node parse_return,
      with_node ''maxRequestBodySize'' node
        (set_num sizeByteStrToSizeT
          (\<lambda>v l. l\<lparr>loc_hasMaxRequestBodySize := True, loc_maxRequestBodySize := v\<rparr>)),
      (\<lambda>l. Inr (l\<lparr>loc_allowedMethods := VALID_ALLOWED_METHODS\<rparr>)),
      with_node ''session'' node (set_num bool_string (\<lambda>v l. l\<lparr>loc_session := v\<rparr>)),
      with_node ''allowedMethods'' node
        (\<lambda>n l. rbind (parse_methods n) (\<lambda>ms. Inr (l\<lparr>loc_allowedMethods := ms\<rparr>))),
      with_node ''interpreterPath'' node
        (\<lambda>n. each (parse_interpreter Inr (\<lambda>k v l. l\<lparr>loc_cgiConf := om_set k v (loc_cgiConf l)\<rparr>) n) (getKeys n)),
      with_node ''chunkedTimeoutSec'' node
        (set_num validateConvertTimeout
          (\<lambda>v l. l\<lparr>loc_chunkedTimeoutSec := v, loc_hasChunkedTimeoutSec := True\<rparr>))]"

definition parse_location :: "Node \<Rightarrow> Location res" where
  "parse_location node =
     rbind (validateKeys node VALID_LOCATION_KEYS) (\<lambda>_.
     rbind (getMapNode ''path'' node) (\<lambda>pathNode.
       case pathNode of
         None \<Rightarrow> Inl Runtime_error
       | Some p \<Rightarrow> steps (location_steps node) (new_Location\<lparr>loc_path := nd_value p\<rparr>)))"

text \<open>The biggest body size of any location, kept beside the builder while the blocks are read.\<close>

definition biggest_step :: "Location \<Rightarrow> bool \<times> size_t \<Rightarrow> bool \<times> size_t" where
  "biggest_step loc big =
     (if loc_hasMaxRequestBodySize loc \<and> (\<not> fst big \<or> snd big < loc_maxRequestBodySize loc)
      then (True, loc_maxRequestBodySize loc) else big)"

definition parse_location_block :: "Node \<Rightarrow> ConfigBuilder \<times> bool \<times> size_t \<Rightarrow> (ConfigBuilder \<times> bool \<times> size_t) res" where
  "parse_location_block node s =
     (if nd_key node \<noteq> ''location'' then Inr s
      else
        rbind (parse_location node) (\<lambda>loc.
          rbind (setLocation loc (fst s)) (\<lambda>b. Inr (b, biggest_step loc (snd s)))))"

definition parseLocations :: "Node \<Rightarrow> ConfigBuilder \<Rightarrow> ConfigBuilder res" where
  "parseLocations node b =
     rbind (getSeq node) (\<lambda>locations.
       rbind (each parse_location_block locations (b, False, 0)) (\<lambda>(b1, has, big).
         Inr (setBiggestRequestBodySize has big b1)))"

section \<open>A server\<close>

text \<open>The keys that may be there, in the order they are read.\<close>

definition server_steps :: "Node \<Rightarrow> (ConfigBuilder \<Rightarrow> ConfigBuilder res) list" where
  "server_steps node =
     [with_node ''error_pages'' node parseErrorPages,
      with_node ''access_logs'' node parseAccessLogs,
      with_node ''error_logs'' node parseErrorLogs,
      with_node ''root'' node (set_text setServerDefaultRoot),
      with_node ''allowedMethods'' node
        (\<lambda>n b. rbind (parse_methods n) (\<lambda>ms. Inr (setServerDefaultAllowedMethods ms b))),
      with_node ''autoindex'' node (set_text (\<lambda>v. setServerDefaultAutoindex (v = ''true''))),
      with_node ''index'' node (set_text setServerDefaultIndex),
      with_node ''uploadStore'' node (set_text setServerDefaultUploadStore),
      with_node ''interpreterPath'' node (\<lambda>n. each (parse_interpreter (\<lambda>_. Inl Runtime_error) setServerDefaultCgiConf n) (getKeys n)),
      with_node ''session'' node (set_text (\<lambda>v. setServerDefaultSession (v = ''true''))),
      with_node ''maxRequestBodySize'' node (set_num sizeByteStrToSizeT setMaxRequestBodySize),
      with_node ''timeoutSec'' node (set_num validateConvertTimeout setTimeoutSec),
      with_node ''requestHeaderTimeoutSec'' node (set_num validateConvertTimeout setRequestHeaderTimeoutSec),
      with_node ''requestBodyTimeoutSec'' node (set_num validateConvertTimeout setRequestBodyTimeoutSec),
      with_node ''maxEvents'' node (set_num stringToInt (\<lambda>v. setMaxEvents (of_int v))),
      with_node ''sessionTimeoutSec'' node (set_num validateConvertTimeout setSessionTimeoutSec),
      with_node ''maxRequestHeaderSize'' node (set_num sizeByteStrToSizeT setMaxRequestHeaderSize),
      with_node ''chunkedTimeoutSec'' node (set_num validateConvertTimeout setServerDefaultChunkedTimeoutSec),
      with_node ''locations'' node parseLocations]"

definition parseServer :: "(string \<Rightarrow> bool) \<Rightarrow> Node \<Rightarrow> ConfigBuilder \<Rightarrow> ConfigBuilder res" where
  "parseServer numeric_host node b =
     rbind (validateKeys node VALID_SERVER_KEYS) (\<lambda>_.
     rbind (getMapNode ''listens'' node) (\<lambda>n.
     rbind (parseListens numeric_host n b) (steps (server_steps node))))"

section \<open>The file\<close>

definition server_list :: "Node \<Rightarrow> Node list res" where
  "server_list data =
     rbind (getMapNode ''servers'' data) (\<lambda>serversNode.
       case serversNode of
         None \<Rightarrow> Inl Runtime_error
       | Some n \<Rightarrow> rbind (getSeq n) (\<lambda>serverList. if serverList = [] then Inl Runtime_error else Inr serverList))"

text \<open>\<open>ConfigBuilder(configFile, serverIndex)\<close>, which reads the file, and \<open>import\<close>.\<close>

definition setup_builder ::
  "(string \<Rightarrow> string option) \<Rightarrow> (string \<Rightarrow> bool) \<Rightarrow> string \<Rightarrow> nat \<Rightarrow> ConfigBuilder \<Rightarrow> ConfigBuilder run" where
  "setup_builder read numeric_host configFile serverIndex b =
     ybind (load_yaml read configFile) (\<lambda>data.
       Some (rbind (server_list data) (\<lambda>serverList.
         if length serverList \<le> serverIndex then Inl Runtime_error
         else
           (let serverNode = serverList ! serverIndex in
            if nd_key serverNode \<noteq> ''server'' then Inl Runtime_error
            else parseServer numeric_host serverNode b))))"

definition new_ConfigBuilder ::
  "(string \<Rightarrow> string option) \<Rightarrow> (string \<Rightarrow> bool) \<Rightarrow> string \<Rightarrow> nat \<Rightarrow> ConfigBuilder run" where
  "new_ConfigBuilder read numeric_host configFile serverIndex =
     setup_builder read numeric_host configFile serverIndex initDefaults"

fun build_all :: "(nat \<Rightarrow> ConfigBuilder run) \<Rightarrow> nat list \<Rightarrow> Config list run" where
  "build_all builder [] = Some (Inr [])"
| "build_all builder (i # is) =
     ybind (builder i) (\<lambda>b. ybind (build_all builder is) (\<lambda>cs. Some (Inr (build_config b # cs))))"

definition import_configs :: "(string \<Rightarrow> string option) \<Rightarrow> (string \<Rightarrow> bool) \<Rightarrow> string \<Rightarrow> Config list run" where
  "import_configs read numeric_host configFile =
     ybind (load_yaml read configFile) (\<lambda>data.
       ybind (Some (server_list data)) (\<lambda>serverList.
         build_all (new_ConfigBuilder read numeric_host configFile) [0..<length serverList]))"

end
