(* ===== verification/ConfigFacts.thy ===== *)
theory ConfigFacts
  imports ConfigParse
begin

text \<open>
  What every configuration that \<open>ConfigBuilder::import\<close> returns satisfies, whatever the file
  says, and which of the checks of the parsers have no effect.
\<close>

section \<open>Steps that preserve a property\<close>

definition preserves :: "('b \<Rightarrow> bool) \<Rightarrow> ('b \<Rightarrow> 'b res) \<Rightarrow> bool" where
  "preserves P f \<longleftrightarrow> (\<forall>b c. P b \<longrightarrow> f b = Inr c \<longrightarrow> P c)"

named_theorems keeping \<open>rules for the steps of the parsers\<close>

lemma preservesI: "(\<And>b c. P b \<Longrightarrow> f b = Inr c \<Longrightarrow> P c) \<Longrightarrow> preserves P f"
  by (auto simp: preserves_def)

lemma preservesD: "preserves P f \<Longrightarrow> P b \<Longrightarrow> f b = Inr c \<Longrightarrow> P c"
  by (auto simp: preserves_def)

lemma steps_preserves: "(\<And>f. f \<in> set fs \<Longrightarrow> preserves P f) \<Longrightarrow> preserves P (steps fs)"
proof (induction fs)
  case Nil
  then show ?case by (auto simp: preserves_def)
next
  case (Cons f fs)
  then have "preserves P f" "preserves P (steps fs)" by simp_all
  then show ?case
    by (intro preservesI) (metis preservesD rbind_eq_Inr steps.simps(2))
qed

lemma steps_keep: "(\<And>f. f \<in> set fs \<Longrightarrow> preserves P f) \<Longrightarrow> P b \<Longrightarrow> steps fs b = Inr c \<Longrightarrow> P c"
  by (rule preservesD [OF steps_preserves])

lemma preserves_with_node [keeping]:
  "(\<And>n. preserves P (f n)) \<Longrightarrow> preserves P (with_node key node f)"
  by (rule preservesI) (auto simp: with_node_def res_simps split: option.splits dest: preservesD)

lemma preserves_set_text [keeping]:
  "(\<And>v b. P b \<Longrightarrow> P (store v b)) \<Longrightarrow> preserves P (set_text store n)"
  by (auto simp: preserves_def set_text_def)

lemma preserves_set_num [keeping]:
  "(\<And>v b. P b \<Longrightarrow> P (store v b)) \<Longrightarrow> preserves P (set_num conv store n)"
  by (auto simp: preserves_def set_num_def res_simps)

lemma preserves_Inr [keeping]: "(\<And>b. P b \<Longrightarrow> P (f b)) \<Longrightarrow> preserves P (\<lambda>b. Inr (f b))"
  by (auto simp: preserves_def)

lemma preserves_each [keeping]: "(\<And>x. preserves P (f x)) \<Longrightarrow> preserves P (each f xs)"
  by (rule steps_preserves) auto

section \<open>Well-formed configurations\<close>

definition listen_ok :: "(string \<Rightarrow> bool) \<Rightarrow> Listen \<Rightarrow> bool" where
  "listen_ok numeric_host l \<longleftrightarrow> 1 \<le> lst_port l \<and> lst_port l \<le> 65535 \<and> numeric_host (lst_interface l)"

definition fields_ok :: "Location \<Rightarrow> bool" where
  "fields_ok l \<longleftrightarrow>
     (loc_hasRedirect l \<longrightarrow> 300 \<le> loc_redirectCode l \<and> loc_redirectCode l < 400) \<and>
     set (loc_allowedMethods l) \<subseteq> set VALID_ALLOWED_METHODS \<and>
     (\<forall>e \<in> fst ` set (loc_cgiConf l). e \<noteq> [] \<and> hd e = CHR ''.'')"

text \<open>The index file of a location block is never one of its scripts; for the default location
  nothing checks this.\<close>

definition location_ok :: "string \<Rightarrow> Location \<Rightarrow> bool" where
  "location_ok k l \<longleftrightarrow>
     loc_path l = k \<and> fields_ok l \<and> loc_hasChunkedTimeoutSec l \<and>
     (k \<noteq> ''/'' \<longrightarrow> (\<forall>e \<in> fst ` set (loc_cgiConf l). \<not> endsWith (loc_index l) e))"

definition config_ok :: "(string \<Rightarrow> bool) \<Rightarrow> 'a Config_scheme \<Rightarrow> bool" where
  "config_ok numeric_host c \<longleftrightarrow>
     list_all (listen_ok numeric_host) (cfg_listens c) \<and>
     om_ok (cfg_locations c) \<and> ''/'' \<in> fst ` set (cfg_locations c) \<and>
     (\<forall>(k, l) \<in> set (cfg_locations c). location_ok k l) \<and>
     (\<forall>e \<in> fst ` set (cfg_errorPages c). 400 \<le> e \<and> e < 600)"

definition builder_ok :: "(string \<Rightarrow> bool) \<Rightarrow> ConfigBuilder \<Rightarrow> bool" where
  "builder_ok numeric_host b \<longleftrightarrow> cb_defaultLocationKey b = ''/'' \<and> config_ok numeric_host b"

lemma om_set_entry: "p \<in> set (om_set k v m) \<Longrightarrow> p = (k, v) \<or> p \<in> set m"
  using set_om_set_subset [of k v m] by blast

lemma default_ok:
  assumes "builder_ok h b"
  shows "location_ok ''/'' (the_default b)"
proof -
  obtain l where "map_of (cfg_locations b) ''/'' = Some l"
    using assms by (auto simp: builder_ok_def config_ok_def dest!: weak_map_of_SomeI)
  then show ?thesis using assms by (auto simp: builder_ok_def config_ok_def the_default_def dest!: map_of_SomeD)
qed

lemma builder_ok_set_location:
  assumes "builder_ok h b" "location_ok k l"
  shows "builder_ok h (b\<lparr>cfg_locations := om_set k l (cfg_locations b)\<rparr>)"
  using assms by (auto simp: builder_ok_def config_ok_def dest!: om_set_entry)

lemma on_default_ok:
  "builder_ok h b \<Longrightarrow> (\<And>l. location_ok ''/'' l \<Longrightarrow> location_ok ''/'' (f l)) \<Longrightarrow> builder_ok h (on_default f b)"
  using default_ok [of h b] builder_ok_set_location [of h b "''/''" "f (the_default b)"]
  by (simp add: on_default_def builder_ok_def)

lemma setters_ok [simp]:
  "builder_ok h b \<Longrightarrow> builder_ok h (setMaxRequestBodySize n b)"
  "builder_ok h b \<Longrightarrow> builder_ok h (setBiggestRequestBodySize x n b)"
  "builder_ok h b \<Longrightarrow> builder_ok h (setTimeoutSec n b)"
  "builder_ok h b \<Longrightarrow> builder_ok h (setMaxEvents n b)"
  "builder_ok h b \<Longrightarrow> builder_ok h (setAccessLogs al b)"
  "builder_ok h b \<Longrightarrow> builder_ok h (setErrorLogs el b)"
  "builder_ok h b \<Longrightarrow> builder_ok h (setSessionTimeoutSec n b)"
  "builder_ok h b \<Longrightarrow> builder_ok h (setRequestHeaderTimeoutSec n b)"
  "builder_ok h b \<Longrightarrow> builder_ok h (setRequestBodyTimeoutSec n b)"
  "builder_ok h b \<Longrightarrow> builder_ok h (setMaxRequestHeaderSize n b)"
  "list_all (listen_ok h) ls \<Longrightarrow> builder_ok h b \<Longrightarrow> builder_ok h (setListens ls b)"
  "400 \<le> e \<Longrightarrow> e < 600 \<Longrightarrow> builder_ok h b \<Longrightarrow> builder_ok h (setErrorPage e uri b)"
  by (auto simp: builder_ok_def config_ok_def setMaxRequestBodySize_def setBiggestRequestBodySize_def
      setTimeoutSec_def setMaxEvents_def setAccessLogs_def setErrorLogs_def setSessionTimeoutSec_def
      setRequestHeaderTimeoutSec_def setRequestBodyTimeoutSec_def setMaxRequestHeaderSize_def setListens_def
      setErrorPage_def)

lemma default_setters_ok [simp]:
  "builder_ok h b \<Longrightarrow> builder_ok h (setServerDefaultRoot v b)"
  "builder_ok h b \<Longrightarrow> builder_ok h (setServerDefaultAutoindex x b)"
  "builder_ok h b \<Longrightarrow> builder_ok h (setServerDefaultIndex v b)"
  "builder_ok h b \<Longrightarrow> builder_ok h (setServerDefaultUploadStore v b)"
  "builder_ok h b \<Longrightarrow> builder_ok h (setServerDefaultSession x b)"
  "builder_ok h b \<Longrightarrow> builder_ok h (setServerDefaultChunkedTimeoutSec n b)"
  "set ms \<subseteq> set VALID_ALLOWED_METHODS \<Longrightarrow> builder_ok h b \<Longrightarrow> builder_ok h (setServerDefaultAllowedMethods ms b)"
  "e \<noteq> [] \<Longrightarrow> hd e = CHR ''.'' \<Longrightarrow> builder_ok h b \<Longrightarrow> builder_ok h (setServerDefaultCgiConf e v b)"
  by (auto simp: setServerDefaultRoot_def setServerDefaultAutoindex_def setServerDefaultIndex_def
      setServerDefaultUploadStore_def setServerDefaultSession_def setServerDefaultChunkedTimeoutSec_def
      setServerDefaultAllowedMethods_def setServerDefaultCgiConf_def location_ok_def fields_ok_def
      intro!: on_default_ok dest!: om_set_entry)


section \<open>The parsers preserve it\<close>

lemma each_collects:
  "each (\<lambda>x ls. rbind (f x) (\<lambda>l. Inr (ls @ [l]))) xs acc = Inr ls \<Longrightarrow> (\<And>x l. f x = Inr l \<Longrightarrow> P l) \<Longrightarrow>
    list_all P acc \<Longrightarrow> list_all P ls \<and> length ls = length acc + length xs"
  by (induction xs arbitrary: acc) (auto simp: res_simps)

lemma parse_listen_ok: "parse_listen h n = Inr l \<Longrightarrow> listen_ok h l"
  by (auto simp: parse_listen_def res_simps Let_def listen_ok_def split: if_splits option.splits)

lemma parseListens_ok:
  assumes "parseListens h n b = Inr c" "builder_ok h b"
  shows "builder_ok h c" "cfg_listens c \<noteq> []"
proof -
  obtain nodes ls where nodes: "nodes \<noteq> []"
    and ls: "each (\<lambda>x ls. rbind (parse_listen h x) (\<lambda>l. Inr (ls @ [l]))) nodes [] = Inr ls"
    and c: "c = setListens ls b"
    using assms(1) by (auto simp: parseListens_def res_simps split: option.splits if_splits)
  have "list_all (listen_ok h) ls \<and> length ls = length [] + length nodes"
    using each_collects [OF ls, of "listen_ok h"] parse_listen_ok by simp
  then show "builder_ok h c" "cfg_listens c \<noteq> []" using assms(2) nodes by (simp_all add: c) (auto simp: setListens_def)
qed

lemma preserves_error_pages [keeping]: "preserves (builder_ok h) (parseErrorPages n)"
  unfolding parseErrorPages_def
  by (intro keeping, rule preservesI)
    (auto simp: parse_error_page_def res_simps isValidStatusCode_def Let_def split: option.splits if_splits)

lemma preserves_logs [keeping]:
  "preserves (builder_ok h) (parseAccessLogs n)" "preserves (builder_ok h) (parseErrorLogs n)"
  by (rule preservesI, auto simp: parseAccessLogs_def parseErrorLogs_def res_simps)+

lemma parse_methods_ok: "parse_methods n = Inr ms \<Longrightarrow> set ms \<subseteq> set VALID_ALLOWED_METHODS"
proof -
  assume "parse_methods n = Inr ms"
  then obtain nodes where "each parse_method nodes [] = Inr ms" by (auto simp: parse_methods_def res_simps)
  moreover have "preserves (\<lambda>ms. set ms \<subseteq> set VALID_ALLOWED_METHODS) (each parse_method nodes)"
    by (intro keeping, rule preservesI) (auto simp: parse_method_def set_insort_insert split: if_splits)
  ultimately show ?thesis using preservesD [of _ "each parse_method nodes" "[]" ms] by force
qed

lemma preserves_interpreter:
  assumes "\<And>b. P b \<Longrightarrow> missing b = Inr b \<or> (\<exists>e. missing b = Inl e)"
    and "\<And>k v b. k \<noteq> [] \<Longrightarrow> hd k = CHR ''.'' \<Longrightarrow> P b \<Longrightarrow> P (store k v b)"
  shows "preserves P (parse_interpreter missing store n k)"
proof (rule preservesI)
  fix b c assume b: "P b" and c: "parse_interpreter missing store n k b = Inr c"
  then consider "missing b = Inr c" | v where "k \<noteq> []" "hd k = CHR ''.''" "c = store k v b"
    by (auto simp: parse_interpreter_def res_simps split: option.splits if_splits)
  then show "P c" using b assms by cases (metis sum.distinct(1) sum.inject(2), simp)
qed

lemma parse_return_ok: "preserves fields_ok (parse_return n)"
  by (rule preservesI)
    (auto simp: parse_return_def res_simps fields_ok_def isValidStatusCode_def Let_def
      split: prod.splits if_splits)

lemma parse_location_ok:
  assumes "parse_location n = Inr l"
  shows "fields_ok l"
proof -
  have new: "fields_ok (new_Location\<lparr>loc_path := p\<rparr>)" for p
    by (simp add: fields_ok_def new_Location_def)
  have upd: "fields_ok l \<Longrightarrow> fields_ok (l\<lparr>loc_root := v\<rparr>)" "fields_ok l \<Longrightarrow> fields_ok (l\<lparr>loc_uploadStore := v\<rparr>)"
    "fields_ok l \<Longrightarrow> fields_ok (l\<lparr>loc_index := v\<rparr>)" "fields_ok l \<Longrightarrow> fields_ok (l\<lparr>loc_noIndex := x\<rparr>)"
    "fields_ok l \<Longrightarrow> fields_ok (l\<lparr>loc_directoryError := v\<rparr>)" "fields_ok l \<Longrightarrow> fields_ok (l\<lparr>loc_autoindex := x\<rparr>)"
    "fields_ok l \<Longrightarrow> fields_ok (l\<lparr>loc_hasMaxRequestBodySize := x, loc_maxRequestBodySize := m\<rparr>)"
    "fields_ok l \<Longrightarrow> fields_ok (l\<lparr>loc_session := x\<rparr>)"
    "set ms \<subseteq> set VALID_ALLOWED_METHODS \<Longrightarrow> fields_ok l \<Longrightarrow> fields_ok (l\<lparr>loc_allowedMethods := ms\<rparr>)"
    "fields_ok l \<Longrightarrow> fields_ok (l\<lparr>loc_chunkedTimeoutSec := m, loc_hasChunkedTimeoutSec := x\<rparr>)"
    "e \<noteq> [] \<Longrightarrow> hd e = CHR ''.'' \<Longrightarrow> fields_ok l \<Longrightarrow> fields_ok (l\<lparr>loc_cgiConf := om_set e v (loc_cgiConf l)\<rparr>)"
    for l v x ms e m
    by (simp_all add: fields_ok_def)
  have methods: "preserves fields_ok (\<lambda>l. rbind (parse_methods n) (\<lambda>ms. Inr (l\<lparr>loc_allowedMethods := ms\<rparr>)))" for n
    by (rule preservesI) (auto simp: res_simps upd dest: parse_methods_ok)
  have cgi: "preserves fields_ok
      (each (parse_interpreter Inr (\<lambda>k v l. l\<lparr>loc_cgiConf := om_set k v (loc_cgiConf l)\<rparr>) n) ks)" for n ks
    by (intro keeping preserves_interpreter) (simp_all add: upd)
  obtain p where run: "steps (location_steps n) (new_Location\<lparr>loc_path := p\<rparr>) = Inr l"
    using assms unfolding parse_location_def res_simps by (auto split: option.splits)
  have "preserves fields_ok f" if "f \<in> set (location_steps n)" for f
    using that by (auto simp: location_steps_def upd intro!: keeping methods cgi parse_return_ok)
  then show ?thesis by (rule steps_keep [where P = fields_ok, OF _ new run])
qed

lemma inherit_cgi_keys: "fst ` set (inherit_cgi defaults conf) \<subseteq> fst ` set defaults \<union> fst ` set conf"
proof (induction defaults arbitrary: conf)
  case (Cons p defaults)
  have "fst ` set (inherit_cgi (p # defaults) conf) \<subseteq>
      fst ` set defaults \<union> fst ` set (case map_of conf (fst p) of Some (c # cs) \<Rightarrow> conf | _ \<Rightarrow> om_set (fst p) (snd p) conf)"
    using Cons.IH by (simp add: inherit_cgi_def)
  also have "\<dots> \<subseteq> fst ` set (p # defaults) \<union> fst ` set conf"
    by (auto split: option.splits list.splits)
  finally show ?case .
qed (simp add: inherit_cgi_def)

lemma setLocation_ok:
  assumes "setLocation l b = Inr c" "fields_ok l" "builder_ok h b"
  shows "builder_ok h c"
proof -
  define def where "def = the_default b"
  define new where "new = inherit def l"
  have no_cgi: "\<not> endsWith (loc_index new) e" if "e \<in> fst ` set (loc_cgiConf l) \<union> fst ` set (loc_cgiConf def)" for e
    using assms(1) that by (auto simp: setLocation_def Let_def new_def def_def list_ex_iff split: if_splits)
  have c: "c = b\<lparr>cfg_locations := om_set (loc_path new) new (om_set (cb_defaultLocationKey b) def (cfg_locations b))\<rparr>"
    using assms(1) by (auto simp: setLocation_def Let_def new_def def_def split: if_splits)
  have d: "location_ok ''/'' def" using default_ok [OF assms(3)] by (simp add: def_def)
  have keys: "fst ` set (loc_cgiConf new) \<subseteq> fst ` set (loc_cgiConf def) \<union> fst ` set (loc_cgiConf l)"
    using inherit_cgi_keys by (simp add: new_def inherit_def)
  have "fields_ok new"
  proof -
    have "\<forall>e \<in> fst ` set (loc_cgiConf new). e \<noteq> [] \<and> hd e = CHR ''.''"
    proof
      fix e assume "e \<in> fst ` set (loc_cgiConf new)"
      then have "e \<in> fst ` set (loc_cgiConf def) \<or> e \<in> fst ` set (loc_cgiConf l)" using keys by blast
      moreover have "\<forall>e \<in> fst ` set (loc_cgiConf l). e \<noteq> [] \<and> hd e = CHR ''.''"
        "\<forall>e \<in> fst ` set (loc_cgiConf def). e \<noteq> [] \<and> hd e = CHR ''.''"
        using assms(2) d by (simp_all add: fields_ok_def location_ok_def)
      ultimately show "e \<noteq> [] \<and> hd e = CHR ''.''" by metis
    qed
    moreover have "set (loc_allowedMethods new) \<subseteq> set VALID_ALLOWED_METHODS"
      using assms(2) d by (simp add: fields_ok_def location_ok_def new_def inherit_def)
    moreover have "loc_hasRedirect new = loc_hasRedirect l" "loc_redirectCode new = loc_redirectCode l"
      by (simp_all add: new_def inherit_def)
    ultimately show ?thesis using assms(2) by (simp add: fields_ok_def)
  qed
  moreover have "loc_hasChunkedTimeoutSec new" by (simp add: new_def inherit_def)
  ultimately have "location_ok (loc_path new) new"
    using no_cgi keys unfolding location_ok_def by blast
  moreover have "builder_ok h (b\<lparr>cfg_locations := om_set (cb_defaultLocationKey b) def (cfg_locations b)\<rparr>)"
    using builder_ok_set_location [OF assms(3) d] assms(3) by (simp add: builder_ok_def)
  ultimately show ?thesis
    using builder_ok_set_location [of h "b\<lparr>cfg_locations := om_set (cb_defaultLocationKey b) def (cfg_locations b)\<rparr>"
        "loc_path new" new] by (simp add: c)
qed

lemma preserves_locations [keeping]: "preserves (builder_ok h) (parseLocations n)"
proof (rule preservesI)
  fix b c assume b: "builder_ok h b" and c: "parseLocations n b = Inr c"
  then obtain nodes b1 has big where run: "each parse_location_block nodes (b, False, 0) = Inr (b1, has, big)"
    and c1: "c = setBiggestRequestBodySize has big b1"
    by (auto simp: parseLocations_def res_simps split: prod.splits)
  have "preserves (\<lambda>s. builder_ok h (fst s)) (each parse_location_block nodes)"
    by (intro keeping, rule preservesI)
      (auto simp: parse_location_block_def res_simps dest: parse_location_ok setLocation_ok split: if_splits)
  from preservesD [OF this _ run] b show "builder_ok h c" by (simp add: c1)
qed

lemma preserves_server_steps: "f \<in> set (server_steps n) \<Longrightarrow> preserves (builder_ok h) f"
proof -
  have methods: "preserves (builder_ok h) (\<lambda>b. rbind (parse_methods n) (\<lambda>ms. Inr (setServerDefaultAllowedMethods ms b)))" for n
    by (rule preservesI) (auto simp: res_simps dest: parse_methods_ok)
  have cgi: "preserves (builder_ok h) (each (parse_interpreter (\<lambda>_. Inl Runtime_error) setServerDefaultCgiConf n) ks)" for n ks
    by (intro keeping preserves_interpreter) simp_all
  show "f \<in> set (server_steps n) \<Longrightarrow> preserves (builder_ok h) f"
    by (auto simp: server_steps_def intro!: keeping methods cgi)
qed


lemma setters_listens [simp]:
  "cfg_listens (setErrorPage e uri b) = cfg_listens b" "cfg_listens (setAccessLogs al b) = cfg_listens b"
  "cfg_listens (setErrorLogs el b) = cfg_listens b" "cfg_listens (on_default f b) = cfg_listens b"
  "cfg_listens (setBiggestRequestBodySize x n b) = cfg_listens b"
  by (simp_all add: setErrorPage_def setAccessLogs_def setErrorLogs_def on_default_def setBiggestRequestBodySize_def)

lemma preserves_listens: "f \<in> set (server_steps n) \<Longrightarrow> preserves (\<lambda>b. cfg_listens b = ls) f"
proof -
  have pages: "preserves (\<lambda>b. cfg_listens b = ls) (parseErrorPages n)" for n
    unfolding parseErrorPages_def
    by (intro keeping, rule preservesI)
      (auto simp: parse_error_page_def res_simps split: option.splits if_splits)
  have logs: "preserves (\<lambda>b. cfg_listens b = ls) (parseAccessLogs n)"
    "preserves (\<lambda>b. cfg_listens b = ls) (parseErrorLogs n)" for n
    by (rule preservesI, auto simp: parseAccessLogs_def parseErrorLogs_def res_simps)+
  have methods: "preserves (\<lambda>b. cfg_listens b = ls)
      (\<lambda>b. rbind (parse_methods n) (\<lambda>ms. Inr (setServerDefaultAllowedMethods ms b)))" for n
    by (rule preservesI) (auto simp: res_simps setServerDefaultAllowedMethods_def)
  have cgi: "preserves (\<lambda>b. cfg_listens b = ls)
      (each (parse_interpreter (\<lambda>_. Inl Runtime_error) setServerDefaultCgiConf n) ks)" for n ks
    by (intro keeping preserves_interpreter) (simp_all add: setServerDefaultCgiConf_def)
  have locations: "preserves (\<lambda>b. cfg_listens b = ls) (parseLocations n)" for n
  proof (rule preservesI)
    fix b c assume b: "cfg_listens b = ls" and c: "parseLocations n b = Inr c"
    then obtain nodes b1 has big where run: "each parse_location_block nodes (b, False, 0) = Inr (b1, has, big)"
      and c1: "c = setBiggestRequestBodySize has big b1"
      by (auto simp: parseLocations_def res_simps split: prod.splits)
    have "preserves (\<lambda>s. cfg_listens (fst s) = ls) (each parse_location_block nodes)"
      by (intro keeping, rule preservesI)
        (auto simp: parse_location_block_def res_simps setLocation_def Let_def split: if_splits)
    from preservesD [OF this _ run] b show "cfg_listens c = ls" by (simp add: c1)
  qed
  show "f \<in> set (server_steps n) \<Longrightarrow> preserves (\<lambda>b. cfg_listens b = ls) f"
    by (auto simp: server_steps_def setServerDefaultRoot_def setServerDefaultAutoindex_def
        setServerDefaultIndex_def setServerDefaultUploadStore_def setServerDefaultSession_def
        setServerDefaultChunkedTimeoutSec_def setMaxRequestBodySize_def setTimeoutSec_def setMaxEvents_def
        setSessionTimeoutSec_def setRequestHeaderTimeoutSec_def setRequestBodyTimeoutSec_def
        setMaxRequestHeaderSize_def intro!: keeping pages logs methods cgi locations)
qed

lemma default_location_ok: "location_ok ''/'' default_location"
  by (simp add: location_ok_def fields_ok_def default_location_def new_Location_def VALID_ALLOWED_METHODS_def)

lemma initDefaults_ok: "builder_ok h initDefaults"
  using default_location_ok
  by (simp add: builder_ok_def config_ok_def initDefaults_def om_ok_def)

lemma parseServer_ok:
  assumes "parseServer h node initDefaults = Inr b"
  shows "builder_ok h b \<and> cfg_listens b \<noteq> []"
proof -
  obtain n b1 where l: "parseListens h n initDefaults = Inr b1" and s: "steps (server_steps node) b1 = Inr b"
    using assms by (auto simp: parseServer_def res_simps)
  note ok = parseListens_ok [OF l initDefaults_ok]
  have "builder_ok h b" by (rule steps_keep [OF preserves_server_steps ok(1) s])
  moreover have "cfg_listens b = cfg_listens b1"
    by (rule steps_keep [OF preserves_listens refl s])
  ultimately show ?thesis using ok(2) by simp
qed

lemma setup_builder_server:
  assumes "setup_builder read h file i b = Some (Inr c)"
  shows "\<exists>node. parseServer h node b = Inr c"
proof -
  obtain data where "rbind (server_list data) (\<lambda>serverList.
         if length serverList \<le> i then Inl Runtime_error
         else
           (let serverNode = serverList ! i in
            if nd_key serverNode \<noteq> ''server'' then Inl Runtime_error else parseServer h serverNode b)) = Inr c"
    using assms unfolding setup_builder_def ybind_Inr by blast
  then show ?thesis unfolding rbind_eq_Inr Let_def by (metis sum.distinct(1))
qed

lemma build_all_ok:
  "build_all builder is = Some (Inr cs) \<Longrightarrow> length cs = length is \<and>
    (\<forall>c \<in> set cs. \<exists>i \<in> set is. \<exists>b. builder i = Some (Inr b) \<and> c = build_config b)"
proof (induction "is" arbitrary: cs)
  case (Cons i js)
  then obtain b ds where "builder i = Some (Inr b)" "build_all builder js = Some (Inr ds)" "cs = build_config b # ds"
    by (auto simp: ybind_Inr)
  with Cons.IH [of ds] show ?case by (metis length_Cons list.set_intros set_ConsD)
qed simp

lemma config_ok_build: "config_ok h (build_config b) = config_ok h b"
  "cfg_listens (build_config b) = cfg_listens b"
  by (simp_all add: build_config_def Config.truncate_def config_ok_def)

lemma imported_ok:
  assumes "import_configs read numeric_host configFile = Some (Inr configs)"
  shows "configs \<noteq> [] \<and>
    list_all (\<lambda>c. config_ok numeric_host c \<and> cfg_listens c \<noteq> [] \<and> (\<forall>path. \<exists>l. getLocation c path = Inr l)) configs"
proof -
  obtain servers data where s: "server_list data = Inr servers"
    and all: "build_all (new_ConfigBuilder read numeric_host configFile) [0..<length servers] = Some (Inr configs)"
    using assms by (auto simp: import_configs_def ybind_Inr)
  have "servers \<noteq> []" using s by (auto simp: server_list_def res_simps split: option.splits if_splits)
  then have "configs \<noteq> []" using build_all_ok [OF all] by auto
  moreover have "config_ok numeric_host c \<and> cfg_listens c \<noteq> [] \<and> (\<forall>path. \<exists>l. getLocation c path = Inr l)"
    if c: "c \<in> set configs" for c
  proof -
    obtain i b where b: "new_ConfigBuilder read numeric_host configFile i = Some (Inr b)" "c = build_config b"
      using bspec [OF conjunct2 [OF build_all_ok [OF all]] c] by metis
    then obtain node where "parseServer numeric_host node initDefaults = Inr b"
      using setup_builder_server unfolding new_ConfigBuilder_def by blast
    then have ok: "builder_ok numeric_host b" "cfg_listens b \<noteq> []" using parseServer_ok by blast+
    then have ok_c: "config_ok numeric_host c" "cfg_listens c \<noteq> []" by (simp_all add: b builder_ok_def config_ok_build)
    then have "''/'' \<in> fst ` set (cfg_locations c)" by (simp add: config_ok_def)
    with ok_c show ?thesis using getLocation_total by blast
  qed
  ultimately show ?thesis by (simp add: list_all_iff)
qed

text \<open>C9: every configuration that is imported is usable, whatever the file says: there is at least one, each has at
  least one address to listen on, with a valid port and a numeric interface, and a location for
  every path; each location lies under its own path, its redirect code is 3xx, its methods are
  known ones, its script extensions start with a dot and its index is no script; the error pages are for 4xx and 5xx.\<close>

theorem import_well_formed:
  assumes "import_configs read numeric_host configFile = Some (Inr configs)"
  shows "configs \<noteq> [] \<and>
    list_all (\<lambda>c. config_ok numeric_host c \<and> cfg_listens c \<noteq> [] \<and> (\<forall>path. \<exists>l. getLocation c path = Inr l)) configs"
  by (rule imported_ok [OF assms])

definition small_file :: string where
  "small_file = doc [''servers:'', ''  - server:'', ''      listens:'', ''        - listen:'', ''            port: 8080'']"

definition any_file :: "string \<Rightarrow> string option" where
  "any_file path = Some small_file"

definition any_host :: "string \<Rightarrow> bool" where
  "any_host interface \<longleftrightarrow> interface = ''0.0.0.0''"

lemma small_file_tree: "load_yaml any_file ''a.yaml'' =
  Some (Inr (Node NODE_MAP NODE_MAP ''root'' [] [] [(''servers'', Node NODE_MAP NODE_SEQ ''servers'' []
    [Node NODE_SEQ NODE_MAP ''server'' [] [] [(''listens'', Node NODE_MAP NODE_SEQ ''listens'' []
       [Node NODE_SEQ NODE_MAP ''listen'' [] [] [(''port'', Node NODE_VAL NODE_VAL ''port'' ''8080'' [] [])]] [])]] [])]))"
  by code_simp


definition small_config :: Config where
  "small_config = build_config (setListens [\<lparr>lst_host = [], lst_interface = ''0.0.0.0'', lst_port = 8080\<rparr>] initDefaults)"

lemma small_import: "import_configs any_file any_host ''a.yaml'' = Some (Inr [small_config])"
proof -
  have "stringToInt ''8080'' = Inr 8080" by code_simp
  then show ?thesis
    by (simp add: import_configs_def new_ConfigBuilder_def setup_builder_def small_file_tree server_list_def
        getMapNode_def getSeq_def parseServer_def validateKeys_def getKeys_def VALID_SERVER_KEYS_def
        parseListens_def parse_listen_def VALID_LISTEN_KEYS_def any_host_def server_steps_def with_node_def
        small_config_def)
qed

theorem import_well_formed_witness:
  "[small_config] \<noteq> [] \<and>
    list_all (\<lambda>c. config_ok any_host c \<and> cfg_listens c \<noteq> [] \<and> (\<forall>path. \<exists>l. getLocation c path = Inr l))
      [small_config]"
  by (rule import_well_formed [OF small_import])

section \<open>Checks without effect\<close>

text \<open>The check that a time-out fits in \<open>time_t\<close> compares a \<open>time_t\<close> with its own maximum and refuses
  nothing: \<open>18446744073709551615\<close> is taken for a time-out, which is \<open>-1\<close> as a \<open>time_t\<close>.\<close>

theorem timeout_check_dead: "validateConvertTimeout s = toSizeT s"
proof -
  have "sint n < 2 ^ 63" for n :: size_t using sint_lt [of n] by simp
  then have "\<not> 2 ^ 63 - 1 < sint n" for n :: size_t by (metis zle_diff1_eq not_less)
  then show ?thesis
    by (cases "toSizeT s") (simp_all add: validateConvertTimeout_def Let_def)
qed

lemma steps_append: "steps (fs @ gs) b = rbind (steps fs b) (steps gs)"
  by (induction fs arbitrary: b) (simp_all add: rbind_def split: sum.splits)

lemma default_methods:
  assumes "steps (location_steps n) l = Inr m" "getMapNode ''allowedMethods'' n = Inr None"
  shows "loc_allowedMethods m = VALID_ALLOWED_METHODS"
proof -
  let ?set = "\<lambda>l. l\<lparr>loc_allowedMethods := VALID_ALLOWED_METHODS\<rparr>"
  obtain fs gs where fs: "location_steps n = fs @ (\<lambda>l. Inr (?set l)) # gs" "fs = take 8 (location_steps n)"
    "gs = drop 9 (location_steps n)"
    by (simp add: location_steps_def)
  obtain k where k: "steps gs (?set k) = Inr m" using assms(1) by (auto simp: fs(1) steps_append res_simps)
  have "preserves (\<lambda>l. loc_allowedMethods l = VALID_ALLOWED_METHODS) f" if "f \<in> set gs" for f
  proof -
    have none: "preserves P (with_node ''allowedMethods'' n g)" for P and g :: "Node \<Rightarrow> Location \<Rightarrow> Location res"
      by (rule preservesI) (simp add: with_node_def assms(2))
    have cgi: "preserves (\<lambda>l. loc_allowedMethods l = VALID_ALLOWED_METHODS)
      (each (parse_interpreter Inr (\<lambda>k v l. l\<lparr>loc_cgiConf := om_set k v (loc_cgiConf l)\<rparr>) n) ks)" for n ks
      by (intro keeping preserves_interpreter) simp_all
    show ?thesis using that unfolding fs(3) by (auto simp: location_steps_def intro!: keeping none cgi)
  qed
  from steps_keep [OF this _ k] show ?thesis by simp
qed

text \<open>The methods that a server allows are not inherited by its locations: a location block
  that does not list its methods gets all five, \<open>PUT\<close> and \<open>DELETE\<close> among them, whatever
  \<open>allowedMethods\<close> says in the server block.\<close>

theorem location_methods_not_inherited:
  assumes "parse_location node = Inr l" "getMapNode ''allowedMethods'' node = Inr None"
    and "setLocation l b = Inr c"
  shows "map_option loc_allowedMethods (map_of (cfg_locations c) (loc_path l)) = Some VALID_ALLOWED_METHODS"
proof -
  have "loc_allowedMethods l = VALID_ALLOWED_METHODS"
    using assms(1,2) default_methods by (auto simp: parse_location_def res_simps split: option.splits)
  then show ?thesis using assms(3)
    by (auto simp: setLocation_def Let_def inherit_def VALID_ALLOWED_METHODS_def split: if_splits)
qed


definition plain_location :: Node where
  "plain_location = Node NODE_SEQ NODE_MAP ''location'' [] []
     [(''path'', Node NODE_VAL NODE_VAL ''path'' ''/a'' [] [])]"

theorem location_methods_not_inherited_witness:
  "map_option loc_allowedMethods (map_of (cfg_locations (projr (setLocation
      (new_Location\<lparr>loc_path := ''/a'', loc_allowedMethods := VALID_ALLOWED_METHODS\<rparr>)
      (setServerDefaultAllowedMethods [''GET''] initDefaults)))) ''/a'') = Some VALID_ALLOWED_METHODS"
proof -
  let ?l = "new_Location\<lparr>loc_path := ''/a'', loc_allowedMethods := VALID_ALLOWED_METHODS\<rparr>"
  let ?b = "setServerDefaultAllowedMethods [''GET''] initDefaults"
  have l: "parse_location plain_location = Inr ?l"
    by (simp add: parse_location_def plain_location_def validateKeys_def getKeys_def VALID_LOCATION_KEYS_def
        getMapNode_def location_steps_def with_node_def)
  have a: "getMapNode ''allowedMethods'' plain_location = Inr None"
    by (simp add: getMapNode_def plain_location_def)
  have "setLocation ?l ?b = Inr (projr (setLocation ?l ?b))"
    by (simp add: setLocation_def Let_def the_default_def setServerDefaultAllowedMethods_def on_default_def
        initDefaults_def default_location_def new_Location_def inherit_def)
  from location_methods_not_inherited [OF l a this] show ?thesis by simp
qed

section \<open>The biggest body size\<close>

definition no_limits :: "ConfigBuilder \<Rightarrow> bool" where
  "no_limits b \<longleftrightarrow> (\<forall>p \<in> set (cfg_locations b). \<not> loc_hasMaxRequestBodySize (snd p))"

definition covered :: "bool \<times> size_t \<Rightarrow> 'a Config_scheme \<Rightarrow> bool" where
  "covered big c \<longleftrightarrow> (\<forall>p \<in> set (cfg_locations c). loc_hasMaxRequestBodySize (snd p) \<longrightarrow>
     fst big \<and> loc_maxRequestBodySize (snd p) \<le> snd big)"

lemma covered_biggest: "covered (cfg_hasBiggestMaxRequestBodySize c, cfg_biggestMaxRequestBodySize c) c \<longleftrightarrow>
    list_all (\<lambda>(k, l). loc_hasMaxRequestBodySize l \<longrightarrow>
      cfg_hasBiggestMaxRequestBodySize c \<and> loc_maxRequestBodySize l \<le> cfg_biggestMaxRequestBodySize c) (cfg_locations c)"
  by (auto simp: covered_def list_all_iff)

lemma default_no_limit: "no_limits b \<Longrightarrow> \<not> loc_hasMaxRequestBodySize (the_default b)"
  by (force simp: no_limits_def the_default_def new_Location_def dest: map_of_SomeD split: option.splits)

lemma no_limits_on_default:
  "no_limits b \<Longrightarrow> (\<And>l. loc_hasMaxRequestBodySize (f l) = loc_hasMaxRequestBodySize l) \<Longrightarrow>
    no_limits (on_default f b)"
  using default_no_limit [of b] by (auto simp: no_limits_def on_default_def dest!: om_set_entry)

lemma no_limits_setters [simp]:
  "no_limits (b\<lparr>cfg_maxRequestBodySize := n\<rparr>) = no_limits b" "no_limits (b\<lparr>cfg_timeoutSec := n\<rparr>) = no_limits b"
  "no_limits (b\<lparr>cfg_maxEvents := n\<rparr>) = no_limits b" "no_limits (b\<lparr>cfg_listens := ls\<rparr>) = no_limits b"
  "no_limits (b\<lparr>cfg_accessLogs := al\<rparr>) = no_limits b" "no_limits (b\<lparr>cfg_errorLogs := el\<rparr>) = no_limits b"
  "no_limits (b\<lparr>cfg_errorPages := ep\<rparr>) = no_limits b" "no_limits (b\<lparr>cfg_sessionTimeoutSec := n\<rparr>) = no_limits b"
  "no_limits (b\<lparr>cfg_requestHeaderTimeoutSec := n\<rparr>) = no_limits b"
  "no_limits (b\<lparr>cfg_requestBodyTimeoutSec := n\<rparr>) = no_limits b"
  "no_limits (b\<lparr>cfg_maxRequestHeaderSize := n\<rparr>) = no_limits b"
  by (simp_all add: no_limits_def)

lemma no_limits_server_steps: "f \<in> set (butlast (server_steps n)) \<Longrightarrow> preserves no_limits f"
proof -
  have pages: "preserves no_limits (parseErrorPages n)" for n
    unfolding parseErrorPages_def
    by (intro keeping, rule preservesI)
      (auto simp: parse_error_page_def res_simps setErrorPage_def split: option.splits if_splits)
  have logs: "preserves no_limits (parseAccessLogs n)" "preserves no_limits (parseErrorLogs n)" for n
    by (rule preservesI, auto simp: parseAccessLogs_def parseErrorLogs_def res_simps setAccessLogs_def setErrorLogs_def)+
  have methods: "preserves no_limits (\<lambda>b. rbind (parse_methods n) (\<lambda>ms. Inr (setServerDefaultAllowedMethods ms b)))" for n
    by (rule preservesI) (auto simp: res_simps setServerDefaultAllowedMethods_def intro: no_limits_on_default)
  have cgi: "preserves no_limits
      (each (parse_interpreter (\<lambda>_. Inl Runtime_error) setServerDefaultCgiConf n) ks)" for n ks
    by (intro keeping preserves_interpreter) (auto simp: setServerDefaultCgiConf_def intro: no_limits_on_default)
  show "f \<in> set (butlast (server_steps n)) \<Longrightarrow> preserves no_limits f"
    by (auto simp: server_steps_def setServerDefaultRoot_def setServerDefaultAutoindex_def
        setServerDefaultIndex_def setServerDefaultUploadStore_def setServerDefaultSession_def
        setServerDefaultChunkedTimeoutSec_def setMaxRequestBodySize_def setTimeoutSec_def setMaxEvents_def
        setSessionTimeoutSec_def setRequestHeaderTimeoutSec_def setRequestBodyTimeoutSec_def
        setMaxRequestHeaderSize_def intro!: keeping pages logs methods cgi no_limits_on_default)
qed

lemma biggest_step_grows:
  "fst big \<Longrightarrow> fst (biggest_step l big) \<and> snd big \<le> snd (biggest_step l big)"
  "loc_hasMaxRequestBodySize l \<Longrightarrow> fst (biggest_step l big) \<and> loc_maxRequestBodySize l \<le> snd (biggest_step l big)"
  by (auto simp: biggest_step_def)

lemma covered_setLocation:
  assumes "setLocation l b = Inr c" "covered big b" "cb_defaultLocationKey b \<in> fst ` set (cfg_locations b)"
  shows "covered (biggest_step l big) c" "cb_defaultLocationKey c \<in> fst ` set (cfg_locations c)"
proof -
  define def where "def = the_default b"
  define new where "new = inherit def l"
  have c: "c = b\<lparr>cfg_locations := om_set (loc_path new) new (om_set (cb_defaultLocationKey b) def (cfg_locations b))\<rparr>"
    using assms(1) by (auto simp: setLocation_def Let_def new_def def_def split: if_splits)
  obtain d where "map_of (cfg_locations b) (cb_defaultLocationKey b) = Some d"
    using assms(3) by (auto dest!: weak_map_of_SomeI)
  then have "(cb_defaultLocationKey b, def) \<in> set (cfg_locations b)"
    by (simp add: def_def the_default_def map_of_SomeD)
  then have "p = (loc_path new, new) \<or> p \<in> set (cfg_locations b)" if "p \<in> set (cfg_locations c)" for p
    using that by (auto simp: c dest!: om_set_entry)
  moreover have "loc_hasMaxRequestBodySize new = loc_hasMaxRequestBodySize l"
    "loc_maxRequestBodySize new = loc_maxRequestBodySize l"
    by (simp_all add: new_def inherit_def)
  moreover have "fst (biggest_step l big) \<and> m \<le> snd (biggest_step l big)" if "fst big" "m \<le> snd big" for m
    using biggest_step_grows(1) [OF that(1)] that(2) by (meson order.trans)
  ultimately show "covered (biggest_step l big) c"
    using assms(2) biggest_step_grows(2) [of l big] unfolding covered_def by (metis snd_conv)
  show "cb_defaultLocationKey c \<in> fst ` set (cfg_locations c)" by (simp add: c)
qed

lemma parseLocations_covered:
  assumes "parseLocations n b = Inr c" "no_limits b" "cb_defaultLocationKey b \<in> fst ` set (cfg_locations b)"
  shows "covered (cfg_hasBiggestMaxRequestBodySize c, cfg_biggestMaxRequestBodySize c) c"
proof -
  obtain nodes b1 has big where run: "each parse_location_block nodes (b, False, 0) = Inr (b1, has, big)"
    and c1: "c = setBiggestRequestBodySize has big b1"
    using assms(1) by (auto simp: parseLocations_def res_simps split: prod.splits)
  let ?P = "\<lambda>s. covered (snd s) (fst s) \<and> cb_defaultLocationKey (fst s) \<in> fst ` set (cfg_locations (fst s))"
  have "preserves ?P (parse_location_block n)" for n
  proof (rule preservesI)
    fix s t assume s: "?P s" and t: "parse_location_block n s = Inr t"
    from t consider "t = s" | l b1 where "setLocation l (fst s) = Inr b1" "t = (b1, biggest_step l (snd s))"
    proof (cases "nd_key n = ''location''")
      case True
      then show ?thesis using t that(2) unfolding parse_location_block_def
        by (simp only: rbind_eq_Inr if_True not_True_eq_False if_False simp_thms sum.inject) metis
    next
      case False
      then show ?thesis using t that(1) by (simp add: parse_location_block_def)
    qed
    then show "?P t"
    proof cases
      case 1
      then show ?thesis using s by simp
    next
      case 2
      then show ?thesis using s covered_setLocation [OF 2(1), of "snd s"] by simp
    qed
  qed
  then have "preserves ?P (each parse_location_block nodes)" by (intro keeping)
  moreover have "?P (b, False, 0)" using assms(2,3) by (simp add: covered_def no_limits_def)
  ultimately have "?P (b1, has, big)" using run by (rule preservesD)
  then show ?thesis by (simp add: c1 setBiggestRequestBodySize_def covered_def)
qed

text \<open>The biggest body size that a configuration records covers every location: it is set as soon as a
  location limits its bodies, and no location allows more.  (No other part of the program reads it.)\<close>

theorem biggest_limit_covers:
  assumes "import_configs read numeric_host configFile = Some (Inr configs)"
  shows "list_all (\<lambda>c. list_all (\<lambda>(k, l). loc_hasMaxRequestBodySize l \<longrightarrow>
      cfg_hasBiggestMaxRequestBodySize c \<and> loc_maxRequestBodySize l \<le> cfg_biggestMaxRequestBodySize c)
    (cfg_locations c)) configs"
proof -
  obtain servers :: "Node list" where
    all: "build_all (new_ConfigBuilder read numeric_host configFile) [0..<length servers] = Some (Inr configs)"
    using assms by (auto simp: import_configs_def ybind_Inr)
  have "covered (cfg_hasBiggestMaxRequestBodySize c, cfg_biggestMaxRequestBodySize c) c" if c: "c \<in> set configs" for c
  proof -
    obtain i b where b: "new_ConfigBuilder read numeric_host configFile i = Some (Inr b)" "c = build_config b"
      using bspec [OF conjunct2 [OF build_all_ok [OF all]] c] by metis
    then obtain node where p: "parseServer numeric_host node initDefaults = Inr b"
      using setup_builder_server unfolding new_ConfigBuilder_def by blast
    then obtain n b1 where l: "parseListens numeric_host n initDefaults = Inr b1"
      and s: "steps (server_steps node) b1 = Inr b"
      using p unfolding parseServer_def rbind_eq_Inr by blast
    have split: "server_steps node = butlast (server_steps node) @ [with_node ''locations'' node parseLocations]"
      by (simp add: server_steps_def)
    have "steps (butlast (server_steps node) @ [with_node ''locations'' node parseLocations]) b1 = Inr b"
      using s split by (rule back_subst [of "\<lambda>fs. steps fs b1 = Inr b"])
    then obtain b2 where s2: "steps (butlast (server_steps node)) b1 = Inr b2"
      and w: "with_node ''locations'' node parseLocations b2 = Inr b"
      unfolding steps_append rbind_eq_Inr steps.simps by blast
    have "no_limits b1" using l
      by (auto simp: parseListens_def res_simps setListens_def initDefaults_def no_limits_def
          default_location_def new_Location_def split: option.splits if_splits)
    from steps_keep [OF no_limits_server_steps this s2] have none: "no_limits b2" .
    have "builder_ok numeric_host b2"
      by (rule steps_keep [OF preserves_server_steps parseListens_ok(1) [OF l initDefaults_ok] s2])
        (rule in_set_butlastD)
    then have key: "cb_defaultLocationKey b2 \<in> fst ` set (cfg_locations b2)"
      by (simp add: builder_ok_def config_ok_def)
    consider "b = b2" | m where "parseLocations m b2 = Inr b"
      using w by (auto simp: with_node_def res_simps split: option.splits)
    then have "covered (cfg_hasBiggestMaxRequestBodySize b, cfg_biggestMaxRequestBodySize b) b"
    proof cases
      case 1
      then show ?thesis using none by (simp add: covered_def no_limits_def)
    next
      case 2
      then show ?thesis using parseLocations_covered none key by blast
    qed
    then show ?thesis by (simp add: b build_config_def Config.truncate_def covered_def)
  qed
  then show ?thesis unfolding covered_biggest by (simp add: list_all_iff)
qed

theorem biggest_limit_covers_witness:
  "list_all (\<lambda>c. list_all (\<lambda>(k, l). loc_hasMaxRequestBodySize l \<longrightarrow>
      cfg_hasBiggestMaxRequestBodySize c \<and> loc_maxRequestBodySize l \<le> cfg_biggestMaxRequestBodySize c)
    (cfg_locations c)) [small_config]"
  by (rule biggest_limit_covers [OF small_import])

end
