(* ===== verification/Survival.thy ===== *)
theory Survival
  imports ServerFacts ConfigFacts
begin

text \<open>
  What stops the server.  Every connection has a configuration that can look up every path, and every
  step of the loop keeps that; so, while the random source gives bytes, the only exception that
  leaves the loop is that of a request that cannot be read.
\<close>


section \<open>Connections that can be served\<close>

definition conn_able :: "Config list \<Rightarrow> Conn \<Rightarrow> bool" where
  "conn_able vhosts c \<longleftrightarrow>
     has_default (cx_conf (cn_ctx c)) \<and> cl_activeVhost (cx_ownerClient (cn_ctx c)) < length vhosts"

definition server_able :: "Config list \<Rightarrow> Server \<Rightarrow> bool" where
  "server_able vhosts sv \<longleftrightarrow>
     steady (wo_random (sv_world sv)) \<and> (\<forall>fd c. clients sv fd = Some c \<longrightarrow> conn_able vhosts c)"

lemma able_conn:
  "able False env (ctx, w) \<longleftrightarrow> conn_able (en_vhosts env) (c\<lparr>cn_ctx := ctx\<rparr>) \<and> steady (wo_random w)"
  by (auto simp: able_def serving_def conn_able_def)

lemma conn_able_fields [simp]:
  "conn_able vs (c\<lparr>cn_sendBuffer := b\<rparr>) = conn_able vs c"
  "conn_able vs (c\<lparr>cn_ctx := (cn_ctx c)\<lparr>cx_res := r\<rparr>\<rparr>) = conn_able vs c"
  "conn_able vs (append_received bytes c) = conn_able vs c"
  by (simp_all add: conn_able_def append_received_def)

text \<open>A step that adds no connection, changes none and draws no random bytes.\<close>

definition spares :: "Server \<Rightarrow> Server \<Rightarrow> bool" where
  "spares sv sv' \<longleftrightarrow>
     wo_random (sv_world sv') = wo_random (sv_world sv) \<and> clients sv' \<subseteq>\<^sub>m clients sv"

lemma able_spares: "spares sv sv' \<Longrightarrow> server_able vs sv \<Longrightarrow> server_able vs sv'"
  unfolding spares_def server_able_def map_le_def by (metis domI)

lemma spares_same:
  "sv_clients sv' = sv_clients sv \<Longrightarrow> wo_random (sv_world sv') = wo_random (sv_world sv) \<Longrightarrow> spares sv sv'"
  by (simp add: spares_def)

lemma spares_trans: "spares sv sv1 \<Longrightarrow> spares sv1 sv2 \<Longrightarrow> spares sv sv2"
  unfolding spares_def by (metis map_le_trans)

lemma random_on_cgi [simp]: "wo_random (sv_world (on_cgi f sv)) = wo_random (sv_world sv)"
  by (simp add: on_cgi_def)

lemma fold_close_clients [simp]: "sv_clients (fold close_fd fds sv) = sv_clients sv"
  by (rule frame_fold) simp

lemma abort_frame [simp]:
  "sv_clients (abort_client fd sv) = sv_clients sv"
  "wo_random (sv_world (abort_client fd sv)) = wo_random (sv_world sv)"
  by (simp_all add: abort_client_def split: option.splits)

lemma close_frame:
  "clients (closeConnection fd sv) = (clients sv)(fd := None)"
  "wo_random (sv_world (closeConnection fd sv)) = wo_random (sv_world sv)"
  by (auto simp: closeConnection_def Let_def fun_eq_iff split: option.splits)

lemma spares_close: "spares sv (closeConnection fd sv)"
  by (simp add: spares_def close_frame map_le_def)

lemma spares_remove: "spares sv (removeClientFd fd sv)"
  using spares_close [of "put_em (clearEvents fd (sv_em sv)) sv" fd]
  by (auto simp: removeClientFd_def removeFd_def Let_def spares_def split: option.splits)

lemma spares_step_worker: "spares sv (step_worker now f a sv)"
  by (rule spares_same) (auto simp: step_worker_def Let_def split: option.splits)

lemma spares_cgi_read: "spares sv (cgi_read_event io a sv)"
  by (auto simp: cgi_read_event_def Let_def intro: spares_step_worker spares_trans [OF spares_step_worker spares_same])

lemma able_set_conn:
  "server_able vs sv \<Longrightarrow> conn_able vs c \<Longrightarrow> server_able vs (set_conn fd c sv)"
  by (auto simp: server_able_def set_conn_def split: if_splits)

lemma able_modify: "server_able vs sv \<Longrightarrow> modifySocket fd m sv = (e, sv') \<Longrightarrow> server_able vs sv'"
  by (rule able_spares [OF spares_same]) (auto simp: modifySocket_def split: if_splits)

lemma able_modify_conn:
  "modifySocket fd m (set_conn f c sv) = (e, sv') \<Longrightarrow> server_able vs sv \<Longrightarrow> conn_able vs c \<Longrightarrow> server_able vs sv'"
  using able_modify able_set_conn by blast

lemma able_updateTimeout: "server_able vs sv \<Longrightarrow> server_able vs (updateTimeout now fd sv)"
  by (rule able_spares [OF spares_same]) (auto simp: updateTimeout_def split: option.splits)

lemma able_cgi_end:
  assumes "server_able vs sv" "cgi_end_event io fd clientFd a sv = (e, sv')"
  shows "server_able vs sv'"
proof -
  have step: "server_able vs (on_cgi f sv)" for f by (rule able_spares [OF spares_same assms(1)]) simp_all
  have answer: "server_able vs sv2" if "cgi_answer io clientFd s = (x, sv2)" "server_able vs s" for s x sv2
  proof -
    obtain complete cgiRes m where r: "isCgiComplete clientFd new_HttpResponse (wo_cgi (sv_world s)) = (complete, cgiRes, m)"
      by (cases "isCgiComplete clientFd new_HttpResponse (wo_cgi (sv_world s))")
    define s2 where "s2 = (if complete then destroy_worker True (the (worker_of_client clientFd s)) (on_cgi (\<lambda>_. m) s)
      else on_cgi (\<lambda>_. m) s)"
    have s2: "server_able vs s2" by (rule able_spares [OF spares_same that(2)]) (simp_all add: s2_def)
    have "server_able vs (s2\<lparr>sv_dangling := True\<rparr>)" by (rule able_spares [OF spares_same s2]) simp_all
    moreover have "conn_able vs c" if "clients s2 clientFd = Some c" for c
      using s2 that by (simp add: server_able_def)
    ultimately show ?thesis
      using that(1) unfolding cgi_answer_def r Let_def prod.case s2_def [symmetric]
      by (auto split: option.splits dest!: able_modify_conn [OF _ s2])
  qed
  have close: "server_able vs (on_em (forgetFd fd) (close_fd fd (unregisterSocket fd s)))" if "server_able vs s" for s
    by (rule able_spares [OF spares_same that]) simp_all
  have "server_able vs (sv\<lparr>sv_dangling := True\<rparr>)" by (rule able_spares [OF spares_same assms(1)]) simp_all
  then show ?thesis
    using assms(2) step close answer [OF _ step]
    by (auto simp: cgi_end_event_def Let_def andthen_def split: option.splits if_splits prod.splits)
qed

lemma able_new_connection:
  assumes "server_able (en_vhosts env) sv" "sound_servers env"
  shows "server_able (en_vhosts env) (handleNewConnection env now a listenFd sv)"
proof -
  let ?vs = "en_vhosts env"
  have close: "server_able ?vs (close_fd fd sv)" for fd by (rule able_spares [OF spares_same assms(1)]) simp_all
  have enter: "server_able ?vs (enter_client env now acc s)"
    if s: "server_able ?vs s" and i: "ac_defaultVhostIndex acc < length ?vs" for acc s
  proof -
    have c: "conn_able ?vs (new_Conn now addr (?vs ! ac_defaultVhostIndex acc) h acc)" for addr h
      using i assms(2) by (simp add: conn_able_def new_Conn_def new_PipelineContext_def sound_servers_def)
    have w: "server_able ?vs ((watch True fd m es t)\<lparr>sv_timers := x\<rparr>)" if "server_able ?vs t" for fd m es t x
      by (rule able_spares [OF spares_same that]) (simp_all add: watch_def)
    have n: "server_able ?vs (s\<lparr>sv_next := n\<rparr>)" for n by (rule able_spares [OF spares_same s]) simp_all
    have r: "server_able ?vs (accept_rollback fd addr t)" if "server_able ?vs t" for fd addr t
      by (rule able_spares [OF spares_same that]) (simp_all add: accept_rollback_def)
    show ?thesis unfolding enter_client_def Let_def using r [OF n] able_set_conn [OF w [OF n] c] by simp
  qed
  have close2: "server_able ?vs (close_fd fd (close_fd x sv))" for fd x
    by (rule able_spares [OF spares_same assms(1)]) simp_all
  show ?thesis
    using close enter assms(1) enter [OF close] close2
    by (auto simp: handleNewConnection_def Let_def split: prod.splits option.splits)
qed


section \<open>What stops the server\<close>

text \<open>An exception leaves a step only where a client's request cannot be read.\<close>

definition only_unread :: "Env \<Rightarrow> effect option \<Rightarrow> bool" where
  "only_unread env r \<longleftrightarrow>
     (\<forall>e sv. r = Some (e, sv) \<longrightarrow> server_able (en_vhosts env) sv \<and>
        (e \<noteq> None \<longrightarrow> (\<exists>fd c. clients sv fd = Some c \<and> fails_to_read env (cn_ctx c))))"

lemma only_unread_simps [simp]:
  "only_unread env None" "only_unread env (Some (None, sv)) \<longleftrightarrow> server_able (en_vhosts env) sv"
  by (simp_all add: only_unread_def)

lemma only_unread_handleRequest:
  assumes "server_inv D sv" "clients sv fd = Some c" "new_pipes env sv"
    and "sound_servers env" "server_able (en_vhosts env) sv"
  shows "only_unread env (handleRequest env date fd sv)"
proof -
  let ?vs = "en_vhosts env"
  let ?run = "main_handle 2 env (?vs ! cl_activeVhost (cx_ownerClient (cn_ctx c))) (cn_ctx c, sv_world sv)"
  have "conn_able ?vs c \<and> steady (wo_random (sv_world sv))" using assms(2,5) by (simp add: server_able_def)
  then have "able False env (cn_ctx c, sv_world sv)" by (simp add: able_def serving_def conn_able_def)
  from pipeline_only_reading [OF assms(4) this] have reading: "only_reading False env ?run" .
  show ?thesis
  proof (cases ?run)
    case None
    then show ?thesis using assms(2) by (simp add: handleRequest_def)
  next
    case (Some r)
    obtain e ctx w where r: "r = (e, ctx, w)" by (cases r)
    let ?sv1 = "after_pipeline fd c (ctx, w) sv"
    have ctx: "conn_able ?vs (d\<lparr>cn_ctx := ctx\<rparr>)" "steady (wo_random w)" and e: "e \<noteq> None \<Longrightarrow> fails_to_read env ctx" for d
      using reading Some r able_conn [of env ctx w] by (auto simp: only_reading_def)
    have "within (all_held (wo_cgi (sv_world sv)) \<union> pipes (en_spawn env)) (cn_ctx c, sv_world sv)"
      using server_invD(4) [OF assms(1)] by (auto simp: world_within_def)
    then have "ends_with (within (all_held (wo_cgi (sv_world sv)) \<union> pipes (en_spawn env))) (Some (e, ctx, w))"
      using main_handle_within [of env] Some r by (metis Un_upper2)
    note a = inv_after_pipeline [OF assms(1-3) this]
    have world: "sv_world ?sv1 = w\<lparr>wo_events := []\<rparr>"
      by (simp add: after_pipeline_def fold_world set_conn_def)
    have "clients ?sv1 = (clients sv)(fd \<mapsto> c\<lparr>cn_ctx := ctx\<rparr>)"
      using a(2,3) by (auto simp: keeps_client_def)
    then have able1: "server_able ?vs ?sv1"
      using assms(5) ctx world by (auto simp: server_able_def split: if_splits)
    have cgi: "server_able ?vs (set_conn fd (c\<lparr>cn_ctx := ctx\<lparr>cx_isCgi := b\<rparr>\<rparr>) ?sv1)" for b
      using ctx(1) [of c] by (intro able_set_conn [OF able1]) (simp add: conn_able_def)
    have answer: "only_unread env (Some (generateResponse date fd ?sv1))"
    proof -
      obtain sv2 where g: "generateResponse date fd ?sv1 = (None, sv2)"
        using inv_generateResponse [OF a(1,3)] by blast
      moreover have "server_able ?vs sv2"
        using g a(3) able1 ctx(1) [of c]
        by (auto simp: generateResponse_def Let_def conn_able_def split: if_splits
            intro!: able_set_conn dest!: able_modify_conn)
      ultimately show ?thesis by simp
    qed
    have "\<exists>f d. clients ?sv1 f = Some d \<and> fails_to_read env (cn_ctx d)" if "e \<noteq> None"
      using a(3) e [OF that] by (intro exI [of _ fd] exI [of _ "c\<lparr>cn_ctx := ctx\<rparr>"]) simp
    then show ?thesis
      using assms(2) Some r able1 cgi answer
      by (cases e) (auto simp: handleRequest_def only_unread_def Let_def)
  qed
qed


lemma only_unread_handleReadEvent:
  assumes "server_inv {} sv" "clients sv fd = Some c" "new_pipes env sv"
    and "sound_servers env" "server_able (en_vhosts env) sv"
  shows "only_unread env (handleReadEvent env date now r fd sv)"
proof (cases r)
  case (Received bytes)
  let ?sv = "set_conn fd (append_received bytes c) sv"
  have addr: "cn_addr (append_received bytes c) = cn_addr c" by (simp add: append_received_def)
  have c: "conn_able (en_vhosts env) (append_received bytes c)" using assms(2,5) by (simp add: server_able_def)
  have p: "new_pipes env ?sv" "clients ?sv fd = Some (append_received bytes c)"
    using assms(2,3) by (auto simp: set_conn_def new_pipes_def)
  have h: "only_unread env (handleRequest env date fd ?sv)"
    by (rule only_unread_handleRequest [OF inv_set_conn [OF assms(1,2) addr] p(2,1) assms(4) able_set_conn [OF assms(5) c]])
  show ?thesis
  proof (cases "handleRequest env date fd ?sv")
    case (Some x)
    obtain e sv1 where "x = (e, sv1)" by (cases x)
    then show ?thesis
      using h Some assms(2) Received able_updateTimeout
      by (cases e) (auto simp: handleReadEvent_def only_unread_def)
  qed (use assms(2) Received in \<open>simp add: handleReadEvent_def\<close>)
qed (use assms(2,5) able_spares [OF spares_close] in \<open>simp_all add: handleReadEvent_def\<close>)

lemma able_handleWriteEvent:
  assumes "server_inv D sv" "clients sv fd = Some c" "server_able (en_vhosts env) sv" "sound_servers env"
    and "handleWriteEvent env now s fd sv = (e, sv')"
  shows "e = None \<and> server_able (en_vhosts env) sv'"
proof -
  let ?vs = "en_vhosts env"
  obtain sv1 where h: "handleWriteEvent env now s fd sv = (None, sv1)"
    using inv_handleWriteEvent [OF assms(1,2)] by blast
  have c: "conn_able ?vs c" using assms(2,3) by (simp add: server_able_def)
  have sent: "server_able ?vs (sv\<lparr>sv_sent := x\<rparr>)" for x by (rule able_spares [OF spares_same assms(3)]) simp_all
  have c1: "conn_able ?vs (c\<lparr>cn_sendBuffer := b\<rparr>)" for b using c by simp
  have again: "conn_able ?vs (c\<lparr>cn_sendBuffer := b,
      cn_ctx := reset_context now (?vs ! cl_activeVhost (cx_ownerClient (cn_ctx c))) (cn_ctx c)\<rparr>)" for b
    using c assms(4) by (simp add: conn_able_def reset_context_def sound_servers_def)
  have next_request: "server_able ?vs (set_conn fd (c\<lparr>cn_sendBuffer := b,
      cn_ctx := reset_context now (?vs ! cl_activeVhost (cx_ownerClient (cn_ctx c))) (cn_ctx c)\<rparr>) (updateTimeout now fd t))"
    if "server_able ?vs t" for b t
    by (rule able_set_conn [OF able_updateTimeout [OF that] again])
  show ?thesis
  proof (cases s)
    case (Send_failed b)
    then show ?thesis
      using h assms(2,3,5) able_spares [OF spares_close assms(3)] able_modify [OF assms(3)]
      by (auto simp: handleWriteEvent_def split: if_splits)
  next
    case (Sent n)
    let ?sv = "set_conn fd (c\<lparr>cn_sendBuffer := drop n (cn_sendBuffer c)\<rparr>)
      (sv\<lparr>sv_sent := sv_sent sv @ [(fd, take n (cn_sendBuffer c))]\<rparr>)"
    have s0: "server_able ?vs ?sv" by (rule able_set_conn [OF sent c1])
    obtain e2 sv2 where m: "modifySocket fd EPOLLIN ?sv = (e2, sv2)" by force
    show ?thesis
      using h assms(2,3,5) Sent s0 able_spares [OF spares_close s0] able_modify [OF assms(3)] m
        next_request [OF able_modify [OF s0 m]]
      by (cases e2) (auto simp: handleWriteEvent_def Let_def split: if_splits)
  qed
qed

lemma able_onTimeout:
  assumes "server_inv D sv" "clients sv fd = Some c" "server_able (en_vhosts env) sv" "sound_servers env"
    and "onTimeout env date now s fd sv = (e, sv')"
  shows "e = None \<and> server_able (en_vhosts env) sv'"
proof -
  let ?vs = "en_vhosts env" and ?ctx = "map_res (\<lambda>res. res\<lparr>rs_statusCode := 408\<rparr>) (cn_ctx c)"
  have c: "conn_able ?vs c" using assms(2,3) by (simp add: server_able_def)
  obtain res where res: "error_handle (en_os env) (cx_conf ?ctx) (cx_req ?ctx) (cx_res ?ctx) = (None, res)"
    using error_handle_no_throw [of "cx_conf (cn_ctx c)"] c unfolding conn_able_def
    by (metis PipelineContext.select_convs(1) PipelineContext.surjective PipelineContext.update_convs(3) prod.collapse)
  define c1 where "c1 = c\<lparr>cn_ctx := ?ctx\<lparr>cx_res := complete_headers date res\<rparr>, cn_sendBuffer := build date res\<rparr>"
  have c1: "conn_able ?vs c1" using c by (simp add: c1_def conn_able_def)
  have addr: "cn_addr c1 = cn_addr c" and at: "clients (set_conn fd c1 sv) fd = Some c1"
    by (simp_all add: c1_def set_conn_def)
  obtain e1 sv1 where h: "handleWriteEvent env now s fd (set_conn fd c1 sv) = (e1, sv1)" by force
  note w = able_handleWriteEvent [OF inv_set_conn [OF assms(1,2) addr] at able_set_conn [OF assms(3) c1] assms(4) h]
  then have w1: "e1 = None" "server_able ?vs sv1" by simp_all
  have "server_able ?vs (sv1\<lparr>sv_dangling := True\<rparr>)" by (rule able_spares [OF spares_same w1(2)]) simp_all
  then show ?thesis
    using assms(2,5) res h w1 able_spares [OF spares_remove w1(2)]
    by (auto simp: onTimeout_def Let_def c1_def split: option.splits)
qed


section \<open>Whole turns\<close>

lemma only_unread_run_event:
  assumes "server_inv {} sv" "calm env io sv" "e \<in> set (events_of fd (sv_em sv))"
    and "sound_servers env" "server_able (en_vhosts env) sv"
  shows "only_unread env (run_event env io fd e sv)"
proof -
  let ?vs = "en_vhosts env"
  have dangling: "server_able ?vs (sv\<lparr>sv_dangling := True\<rparr>)" by (rule able_spares [OF spares_same assms(5)]) simp_all
  have pipes: "new_pipes env sv" using assms(2) by (simp add: calm_def)
  show ?thesis
  proof (cases e)
    case NewConnectionEvent
    then show ?thesis using able_new_connection [OF assms(5,4)] by simp
  next
    case (ReadEvent addr)
    then show ?thesis
      using dangling owns_client [of addr fd sv] only_unread_handleReadEvent [OF assms(1) _ pipes assms(4,5)] by auto
  next
    case (WriteEvent addr)
    show ?thesis
    proof (cases "owns addr fd sv")
      case True
      then obtain c where c: "clients sv fd = Some c" using owns_client by blast
      obtain x sv' where h: "handleWriteEvent env (io_now io) (io_send io) fd sv = (x, sv')" by force
      from able_handleWriteEvent [OF assms(1) c assms(5,4) h] show ?thesis using True WriteEvent h by simp
    qed (use dangling WriteEvent in simp)
  next
    case (CgiEvent ce)
    have "clients sv fd = None" using cgi_fd_no_client [OF assms(1)] assms(3) CgiEvent by blast
    then have cgi_end: "only_unread env (Some (cgi_end_event io fd clientFd a sv))" for clientFd a
      using inv_cgi_end [OF assms(1), of fd io clientFd a] able_cgi_end [OF assms(5), of io fd clientFd a] by auto
    have "server_able ?vs (cgi_read_event io a sv)" "server_able ?vs (step_worker now f a sv)" for a now f
      using able_spares [OF spares_cgi_read assms(5)] able_spares [OF spares_step_worker assms(5)] by blast+
    then show ?thesis using CgiEvent cgi_end by (cases ce) simp_all
  qed
qed

lemma only_unread_handle_fd:
  assumes "server_inv {} sv" "calm env io sv" "sound_servers env" "server_able (en_vhosts env) sv"
  shows "only_unread env (handle_fd env io fd events sv)"
proof -
  let ?vs = "en_vhosts env" and ?touch = "\<lambda>sv. put_em (touch_entry fd (sv_em sv)) sv"
  have touch: "server_able ?vs (?touch s)" if "server_able ?vs s" for s
    by (rule able_spares [OF spares_same that]) simp_all
  have run: "only_unread env (run_event env io fd e (?touch sv))" if "dispatch fd m (sv_em (?touch sv)) = Some e" for e m
    using only_unread_run_event [OF inv_touch [OF assms(1)] _ dispatch_found [OF that] assms(3) touch [OF assms(4)]]
      assms(2) calm_touch by blast
  show ?thesis
    using touch [OF assms(4)] touch [OF able_spares [OF spares_remove assms(4)]] assms(4) removed_no_dispatch run
    by (auto simp: handle_fd_def handle_events_def Let_def split: option.splits simp flip: removeClientFd_def)
qed

lemma only_unread_handle_fds:
  assumes "server_inv {} sv" "calm_fds env evs sv" "sound_servers env" "server_able (en_vhosts env) sv"
  shows "only_unread env (handle_fds env evs sv)"
  using assms(1,2,4)
proof (induction evs arbitrary: sv)
  case (Cons ev evs)
  obtain io fd events where ev: "ev = (io, fd, events)" by (cases ev)
  have calm: "calm env io sv" using Cons.prems(2) by (simp add: ev)
  note u = only_unread_handle_fd [OF Cons.prems(1) calm assms(3) Cons.prems(3), of fd events]
  show ?case
  proof (cases "handle_fd env io fd events sv")
    case (Some r)
    obtain e sv1 where r: "r = (e, sv1)" by (cases r)
    then show ?thesis
      using u Some Cons.IH [of sv1] Cons.prems(2) inv_handle_fd [OF Cons.prems(1) calm]
      by (cases e) (simp_all add: ev)
  qed (simp add: ev)
qed simp

lemma able_tell_all:
  assumes "telling xs sv" "server_able (en_vhosts env) sv" "sound_servers env"
    and "fold (\<lambda>x r. client_timeout env date now sends x
        (fst r, if fst r = None then (snd r)\<lparr>sv_timers := (sv_timers (snd r))\<lparr>tm_stats :=
          incrementTimeouts (tm_stats (sv_timers (snd r)))\<rparr>\<rparr> else snd r)) xs (None, sv) = (e, sv')"
  shows "e = None \<and> server_able (en_vhosts env) sv'"
  using assms(1,2,4)
proof (induction xs arbitrary: sv)
  case (Cons x xs)
  let ?sv = "sv\<lparr>sv_timers := (sv_timers sv)\<lparr>tm_stats := incrementTimeouts (tm_stats (sv_timers sv))\<rparr>\<rparr>"
  have t: "telling (x # xs) ?sv" using Cons.prems(1) stats_inv by (simp add: telling_def)
  have a: "server_able (en_vhosts env) ?sv" by (rule able_spares [OF spares_same Cons.prems(2)]) simp_all
  obtain fd c where c: "clients ?sv fd = Some c" "cn_addr c = x" using t by (auto simp: telling_def)
  have inv: "server_inv (set (x # xs)) ?sv" using t by (simp add: telling_def)
  obtain e1 sv1 where o: "onTimeout env date now (sends fd) fd ?sv = (e1, sv1)" by force
  from able_onTimeout [OF inv c(1) a assms(3) o] have e1: "e1 = None" "server_able (en_vhosts env) sv1" by simp_all
  then have step: "client_timeout env date now sends x (None, ?sv) = (None, sv1)"
    using o find_addr [OF inv c] by (simp add: client_timeout_def)
  from Cons.IH [OF inv_tell(1) [OF t step] e1(2)] Cons.prems(3) step show ?case by simp
qed simp

lemma able_check_timeouts:
  assumes "server_inv {} sv" "server_able (en_vhosts env) sv" "sound_servers env"
    and "check_timeouts env date now sends sv = (e, sv')"
  shows "e = None \<and> server_able (en_vhosts env) sv'"
proof -
  obtain xs m where cx: "collect_expired now (sv_timers sv) = (xs, m)"
    by (cases "collect_expired now (sv_timers sv)")
  have "server_able (en_vhosts env) (sv\<lparr>sv_timers := m\<rparr>)" by (rule able_spares [OF spares_same assms(2)]) simp_all
  from able_tell_all [OF inv_due [OF assms(1) cx] this assms(3)] assms(4) cx show ?thesis
    by (simp add: check_timeouts_def checkAndHandleTimeouts_def)
qed


lemma only_unread_turn:
  assumes "server_inv {} sv" "calm_turn env t sv" "sound_servers env" "server_able (en_vhosts env) sv"
    and "wait_events (tu_wait t) = Some (Inr events)"
  shows "only_unread env (ready_turn env t events sv)"
proof -
  obtain e sv1 where c: "check_timeouts env (tu_date t) (tu_now t) (tu_sends t) sv = (e, sv1)" by force
  from able_check_timeouts [OF assms(1,4,3) c] have e: "e = None" "server_able (en_vhosts env) sv1" by simp_all
  have "server_inv {} sv1" using inv_check_timeouts(1) [OF assms(1)] c e by simp
  then have inv: "server_inv {} (between t sv1)"
    using between_serves [of sv1 t] inv_serves_all by blast
  have able: "server_able (en_vhosts env) (between t sv1)"
    by (rule able_spares [OF spares_same e(2)]) (simp_all add: between_def)
  have "only_unread env (handle_fds env events (between t sv1))"
    using only_unread_handle_fds [OF inv _ assms(3) able] assms(2,5) c e by (simp add: calm_turn_def)
  moreover have "server_able (en_vhosts env) (clean_sessions n s)" if "server_able (en_vhosts env) s" for n s
    by (rule able_spares [OF spares_same that]) (simp_all add: clean_sessions_def)
  ultimately show ?thesis
    using c e by (auto simp: ready_turn_def between_def [symmetric] Let_def only_unread_def andthen_def
        split: option.splits prod.splits)
qed

text \<open>The turns of a server, as far as they go, with what stops it: a request that cannot be read, or
  an error of \<open>epoll_wait\<close>.\<close>

definition stopped_by :: "(Env \<times> Turn) list \<Rightarrow> exn \<Rightarrow> Server \<Rightarrow> bool" where
  "stopped_by ts e sv \<longleftrightarrow>
     (\<exists>(env, t) \<in> set ts. wait_events (tu_wait t) = Some (Inl e) \<or>
        (\<exists>fd c. clients sv fd = Some c \<and> fails_to_read env (cn_ctx c)))"

lemma turns_stopped:
  assumes "server_inv {} sv" "calm_turns ts sv" "server_able vs sv" "\<And>c. c \<in> set vs \<Longrightarrow> has_default c"
    and "list_all (\<lambda>(env, t). en_vhosts env = vs) ts"
    and "run_turns ts sv = Some (e, sv')"
  shows "server_able vs sv' \<and> (\<forall>x. e = Some x \<longrightarrow> stopped_by ts x sv')"
  using assms(1-3,5,6)
proof (induction ts arbitrary: sv)
  case (Cons et ts)
  obtain env t where et: "et = (env, t)" by (cases et)
  then have vs: "en_vhosts env = vs" using Cons.prems(4) by simp
  have sound: "sound_servers env" "calm_turn env t sv"
    using assms(4) Cons.prems(2) vs by (simp_all add: sound_servers_def et)
  obtain e1 sv1 where one: "turn env t sv = Some (e1, sv1)"
    using Cons.prems(5) by (auto simp: et split: option.splits)
  have u: "server_able vs sv1 \<and> (\<forall>x. e1 = Some x \<longrightarrow> stopped_by [et] x sv1)"
  proof (cases "wait_events (tu_wait t)")
    case (Some w)
    show ?thesis
    proof (cases w)
      case (Inl x)
      then show ?thesis using one Some Cons.prems(3) by (auto simp: turn_def stopped_by_def et)
    next
      case (Inr events)
      have "only_unread env (ready_turn env t events sv)"
        using only_unread_turn [OF Cons.prems(1) sound(2,1)] Cons.prems(3) Some Inr vs by simp
      then show ?thesis using one Some Inr vs by (auto simp: turn_def only_unread_def stopped_by_def et)
    qed
  qed (use one in \<open>simp add: turn_def\<close>)
  show ?case
  proof (cases e1)
    case None
    have "server_inv {} sv1" using turn_serves [OF one [unfolded None] sound(2)] Cons.prems(1) inv_serves_all by blast
    then show ?thesis
      using Cons.IH [of sv1] Cons.prems one u None by (auto simp: et stopped_by_def)
  next
    case (Some x)
    then show ?thesis using Cons.prems(5) one u by (auto simp: et stopped_by_def)
  qed
qed simp

section \<open>A server that is stopped\<close>

text \<open>The server of a small file accepts a connection and reads a query that ends in a percent sign.\<close>

definition small_env :: Env where "small_env = idle_env\<lparr>en_vhosts := [small_config]\<rparr>"

definition small_server :: Server where
  "small_server =
     one_listener
       \<lparr>sv_listeners := [(ListenKey ''0.0.0.0'' 8080,
          \<lparr>ls_key = ListenKey ''0.0.0.0'' 8080, ls_fd = 3, ls_vhostIndices = [0], ls_defaultVhostIndex = 0\<rparr>)],
        sv_byFd := [(3, ListenKey ''0.0.0.0'' 8080)], sv_listenHeaderMax := [(''0.0.0.0:8080'', 8192)],
        sv_world := new_World 256 new_SessionManager (wo_random idle_world)\<rparr>"

lemma small_header: "cfg_maxRequestHeaderSize small_config = 8192"
  by code_simp

lemma small_started: "new_Server [small_config] (\<lambda>_. Listening 3) new_SessionManager (wo_random idle_world) = Inr small_server"
proof -
  have w: "resolveCgiMaxWorkers [small_config] = Inr 256" "resolveMaxEvents [small_config] = Inr 1024"
    "validateListenCompatibility [small_config] = Inr ()" by code_simp+
  have h: "resolveListenHeaderMax [small_config] = Inr [(''0.0.0.0:8080'', 8192)]"
  proof -
    have "listenToString \<lparr>lst_host = [], lst_interface = ''0.0.0.0'', lst_port = 8080\<rparr> = ''0.0.0.0:8080''"
      by (simp add: listenToString_def show_int_def show_nat.simps [of 8080]
          show_nat.simps [of 808] show_nat.simps [of 80] show_nat.simps [of 8] char_of_def bit_0)
    moreover have "cfg_listens small_config = [\<lparr>lst_host = [], lst_interface = ''0.0.0.0'', lst_port = 8080\<rparr>]"
      by code_simp
    ultimately show ?thesis by (simp add: resolveListenHeaderMax_def header_max_step_def small_header)
  qed
  have "server_of hm w (snd (build_registry (\<lambda>_. Listening 3) [small_config] no_registry_yet)) =
      small_server\<lparr>sv_listenHeaderMax := hm, sv_world := w\<rparr>" for hm w by code_simp
  moreover have "fst (build_registry (\<lambda>_. Listening 3) [small_config] no_registry_yet) = None" by code_simp
  ultimately show ?thesis
    by (simp add: new_Server_def w h split_beta)
      (simp add: small_server_def one_listener_def)
qed


definition small_accepted :: AcceptedConn where
  "small_accepted = accepted\<lparr>ac_key := ListenKey ''0.0.0.0'' 8080\<rparr>"

definition malformed_bytes :: string where
  "malformed_bytes = ''GET /?a=% HTTP/1.1'' @ crlf"

definition malformed_io :: Io where
  "malformed_io = quiet_io\<lparr>io_recv := Received malformed_bytes, io_accept := Accept_failed\<rparr>"

definition malformed_turn :: Turn where
  "malformed_turn = accepting_turn\<lparr>tu_wait := [Ready [(quiet_io, 3, EPOLLIN), (malformed_io, 5, EPOLLIN)]]\<rparr>"

definition small_client :: Server where
  "small_client = enter_client small_env 0 small_accepted small_server"

lemma small_accepts: "handle_fd small_env quiet_io 3 EPOLLIN small_server = Some (None, small_client)"
proof -
  have d: "dispatch 3 (effective_events False EPOLLIN) (touch_entry 3 (sv_em small_server)) = Some NewConnectionEvent"
    by code_simp
  have f: "failed EPOLLIN = False" by code_simp
  have k: "has_key (em_eventsTable (sv_em small_server)) 3" by code_simp
  have t: "small_server\<lparr>sv_em := touch_entry 3 (sv_em small_server)\<rparr> = small_server" by code_simp
  have a: "acceptOnce (io_accept quiet_io) (sv_byFd small_server) (sv_listeners small_server) 3 =
      (Some small_accepted, None)" by code_simp
  have io: "io_now quiet_io = 0" "io_peek quiet_io = False" by (simp_all add: quiet_io_def)
  show ?thesis
    unfolding handle_fd_def handle_events_def small_client_def
    by (simp add: d f k t io Let_def handleNewConnection_def a)
      (simp add: small_accepted_def accepted_def small_env_def idle_env_def)
qed

definition small_conn :: Conn where
  "small_conn = append_received malformed_bytes (new_Conn 0 1 small_config 8192 small_accepted)"

definition small_stopped :: Server where
  "small_stopped = set_conn 5 small_conn small_client"

lemma small_stops: "handle_fd small_env malformed_io 5 EPOLLIN small_client = Some (Some Invalid_argument, small_stopped)"
proof -
  have em: "sv_em small_client = fold (addEvent 5) [ReadEvent 1, WriteEvent 1] (initFd True 5 (sv_em small_server))"
    by (simp add: small_client_def enter_client_def small_server_def one_listener_def Let_def small_accepted_def
        accepted_def watch_def on_em_def set_conn_def has_key_def)
  have client: "sv_clients small_client = [(5, new_Conn 0 1 small_config 8192 small_accepted)]"
    and world: "sv_world small_client = sv_world small_server"
    by (simp_all add: small_client_def enter_client_def small_server_def one_listener_def Let_def small_accepted_def
        accepted_def watch_def on_em_def set_conn_def has_key_def small_env_def header_limit_def small_header)
  have d: "dispatch 5 (effective_events False EPOLLIN) (touch_entry 5 (sv_em small_client)) = Some (ReadEvent 1)"
    unfolding em by code_simp
  have k: "has_key (em_eventsTable (sv_em small_client)) 5" unfolding em by code_simp
  have t: "small_client\<lparr>sv_em := touch_entry 5 (sv_em small_client)\<rparr> = small_client"
  proof -
    have "touch_entry 5 (sv_em small_client) = sv_em small_client" unfolding em by code_simp
    then show ?thesis by simp
  qed
  have f: "failed EPOLLIN = False" by code_simp
  have io: "io_peek malformed_io = False" "io_now malformed_io = 0" "io_date malformed_io = []"
    by (simp_all add: malformed_io_def quiet_io_def)
  let ?vs = "en_vhosts small_env"
  have run: "main_handle 2 small_env (?vs ! 0) (cn_ctx small_conn, sv_world small_client) =
      throws Invalid_argument (cn_ctx small_conn, sv_world small_client)"
  proof -
    have ctx: "rp_state (cx_parser (cn_ctx small_conn)) = STATE_REQUEST_LINE"
      "cx_recvBuffer (cn_ctx small_conn) = (''GET'' @ CHR '' '' # ''/'' @ CHR ''?'' # (''a'' @ ''=%'') @ CHR '' '' # ''HTTP/1.1'') @ crlf @ []"
      "rp_maxHeaderBytes (cx_parser (cn_ctx small_conn)) = 8192"
      by (simp_all add: small_conn_def append_received_def new_Conn_def new_PipelineContext_def new_RequestParser_def
          malformed_bytes_def)
    have "length (cx_recvBuffer (cn_ctx small_conn)) \<le> unat (rp_maxHeaderBytes (cx_parser (cn_ctx small_conn)))"
      unfolding ctx by simp
    from malformed_query_throws [OF ctx(1,2) this, of 1] show ?thesis by (simp add: numeral_2_eq_2)
  qed
  have after: "after_pipeline 5 small_conn (cn_ctx small_conn, sv_world small_client) (set_conn 5 small_conn small_client) =
      small_stopped"
  proof -
    have "(sv_world small_client)\<lparr>wo_events := []\<rparr> = sv_world small_client" "wo_events (sv_world small_client) = []"
      by (simp_all add: world small_server_def new_World_def)
    moreover have "sv\<lparr>sv_world := sv_world sv, sv_clients := x\<rparr> = sv\<lparr>sv_clients := x\<rparr>" for sv :: Server and x
      by (cases sv) simp
    ultimately show ?thesis
      by (simp add: after_pipeline_def small_stopped_def set_conn_def client)
  qed
  have v: "cl_activeVhost (cx_ownerClient (cn_ctx small_conn)) = 0"
    by (simp add: small_conn_def append_received_def new_Conn_def new_PipelineContext_def small_accepted_def accepted_def)
  have "handleReadEvent small_env [] 0 (io_recv malformed_io) 5 small_client = Some (Some Invalid_argument, small_stopped)"
  proof -
    have "handleRequest small_env [] 5 (set_conn 5 small_conn small_client) = Some (Some Invalid_argument, small_stopped)"
    proof -
      have "map_of (sv_clients (set_conn 5 small_conn small_client)) 5 = Some small_conn"
        "sv_world (set_conn 5 small_conn small_client) = sv_world small_client"
        by (simp_all add: set_conn_def)
      then show ?thesis by (simp add: handleRequest_def v run after)
    qed
    then show ?thesis
      by (simp add: handleReadEvent_def client malformed_io_def small_conn_def [symmetric] del: One_nat_def)
  qed
  then show ?thesis
    unfolding handle_fd_def handle_events_def
    by (simp add: d f k t io Let_def owns_def client) (simp add: new_Conn_def)
qed


lemma small_runs:
  "run_turns [(small_env, malformed_turn)] small_server = Some (Some Invalid_argument, small_stopped)"
  "calm_turns [(small_env, malformed_turn)] small_server"
proof -
  have time: "check_timeouts small_env date now sends small_server = (None, small_server)" for date now sends
    by (rule no_timeouts) (simp add: small_server_def one_listener_def)
  have b: "between malformed_turn small_server = small_server"
    by (simp add: between_def on_cgi_def small_server_def new_World_def malformed_turn_def accepting_turn_def)
  have ev: "wait_events (tu_wait malformed_turn) = Some (Inr [(quiet_io, 3, EPOLLIN), (malformed_io, 5, EPOLLIN)])"
    by (simp add: malformed_turn_def)
  have "turn small_env malformed_turn small_server = Some (Some Invalid_argument, small_stopped)"
    using b by (simp add: turn_def ready_turn_def time ev small_accepts small_stops between_def)
  moreover have "calm small_env quiet_io small_server" "calm small_env malformed_io small_client"
    by (simp_all add: calm_def new_pipes_def small_env_def idle_env_def quiet_io_def malformed_io_def unused_def
        small_server_def one_listener_def new_World_def new_CgiManager_def all_held_def events_of_watched table_simps
        new_EventManager_def)
  ultimately show "run_turns [(small_env, malformed_turn)] small_server = Some (Some Invalid_argument, small_stopped)"
    "calm_turns [(small_env, malformed_turn)] small_server"
    by (simp_all add: calm_turn_def time b ev small_accepts small_stops)
qed

end
