(* ===== verification/Hazards.thy ===== *)
theory Hazards
  imports Survival SplitReads
begin

text \<open>
  Where the source uses objects after it has destroyed them, and what leads there: a time-out whose
  answer cannot be sent, and a client that sends more while its request is being answered, which
  runs the request again and can start a second script.
\<close>

section \<open>A client that is told of its time-out\<close>

text \<open>The client is told of its time-out by way of its socket.  When the peer has reset the
  connection, the \<open>send\<close> fails, which closes the connection and destroys the client; the next
  statement asks the destroyed client for its descriptor.\<close>

theorem timeout_uses_destroyed:
  assumes "map_of (sv_clients sv) fd = Some c" "has_default (cx_conf (cn_ctx c))"
  shows "sv_dangling (snd (onTimeout env date now (Send_failed False) fd sv))"
proof -
  let ?ctx = "map_res (\<lambda>res. res\<lparr>rs_statusCode := 408\<rparr>) (cn_ctx c)"
  have "fst (error_handle (en_os env) (cx_conf ?ctx) (cx_req ?ctx) (cx_res ?ctx)) = None"
    using error_handle_no_throw [of "cx_conf ?ctx"] assms(2) by simp
  then obtain res where res: "error_handle (en_os env) (cx_conf ?ctx) (cx_req ?ctx) (cx_res ?ctx) = (None, res)"
    by (metis prod.collapse)
  let ?c = "c\<lparr>cn_ctx := ?ctx\<lparr>cx_res := complete_headers date res\<rparr>, cn_sendBuffer := build date res\<rparr>"
  have "map_of (sv_clients (set_conn fd ?c sv)) fd = Some ?c" by (simp add: set_conn_def)
  then have "handleWriteEvent env now (Send_failed False) fd (set_conn fd ?c sv) =
      (None, closeConnection fd (set_conn fd ?c sv))"
    by (simp add: handleWriteEvent_def build_not_empty)
  then show ?thesis using assms(1) res by (simp add: onTimeout_def Let_def close_frame)
qed

section \<open>Bytes after a complete request\<close>

text \<open>The bytes are put in last.\<close>

lemma buffer_last [simp]:
  "c\<lparr>cx_recvBuffer := b, cx_conf := conf\<rparr> = c\<lparr>cx_conf := conf, cx_recvBuffer := b\<rparr>"
  "c\<lparr>cx_recvBuffer := b, cx_req := req\<rparr> = c\<lparr>cx_req := req, cx_recvBuffer := b\<rparr>"
  "c\<lparr>cx_recvBuffer := b, cx_res := res\<rparr> = c\<lparr>cx_res := res, cx_recvBuffer := b\<rparr>"
  "c\<lparr>cx_recvBuffer := b, cx_session := x\<rparr> = c\<lparr>cx_session := x, cx_recvBuffer := b\<rparr>"
  "c\<lparr>cx_recvBuffer := b, cx_ownerClient := client\<rparr> = c\<lparr>cx_ownerClient := client, cx_recvBuffer := b\<rparr>"
  "c\<lparr>cx_recvBuffer := b, cx_isCgi := y\<rparr> = c\<lparr>cx_isCgi := y, cx_recvBuffer := b\<rparr>"
  "c\<lparr>cx_recvBuffer := b, cx_parser := p\<rparr> = c\<lparr>cx_parser := p, cx_recvBuffer := b\<rparr>"
  by (cases c; simp)+

lemma cgi_target_buffer [simp]: "cgi_target os (ctx\<lparr>cx_recvBuffer := b\<rparr>) = cgi_target os ctx"
  by (simp add: cgi_target_def cong: option.case_cong)

lemma createWorker_buffer: "createWorker os now sp (ctx\<lparr>cx_recvBuffer := b\<rparr>) m = createWorker os now sp ctx m"
  by (simp add: createWorker_def Let_def split: sum.splits prod.splits)

lemma sub_handle_buffer:
  assumes "\<And>s. next (with_buffer b s) = same_but_buffer b (next s)"
  shows "sub_handle env m next (with_buffer b s) = same_but_buffer b (sub_handle env m next s)"
proof -
  obtain ctx w where s: "s = (ctx, w)" by (cases s)
  have n: "next (c\<lparr>cx_recvBuffer := b\<rparr>, v) = same_but_buffer b (next (c, v))" for c v
    using assms [of "(c, v)"] by (simp add: with_buffer_def)
  show ?thesis
  proof (cases m)
    case SessionMiddleware
    show ?thesis
      by (simp add: SessionMiddleware s with_buffer_def session_mw_def Let_def n split: prod.splits option.splits sum.splits)
  next
    case CgiRouterMiddleware
    show ?thesis
      by (simp add: CgiRouterMiddleware s with_buffer_def cgi_mw_def Let_def n createWorker_buffer isCgiRequest_def setError_def
          split: prod.splits option.splits sum.splits)
  next
    case (HandlerMiddleware hs)
    show ?thesis
      by (simp add: HandlerMiddleware s with_buffer_def handler_mw_def call_handler_def Let_def n setError_def
          split: prod.splits option.splits sum.splits ISubHandler.splits)
  qed
qed


lemma sub_run_buffer: "sub_run env chain (with_buffer b s) = same_but_buffer b (sub_run env chain s)"
  unfolding sub_run_def
proof (induction chain arbitrary: s)
  case Nil
  show ?case by (cases s) (simp add: with_buffer_def)
next
  case (Cons m chain)
  then show ?case by (simp add: sub_handle_buffer)
qed

lemma main_step_buffer:
  assumes "complete_ctx s" "\<And>s. complete_ctx s \<Longrightarrow> next (with_buffer b s) = same_but_buffer b (next s)"
    and "\<And>c s. complete_ctx s \<Longrightarrow> restart c (with_buffer b s) = same_but_buffer b (restart c s)"
  shows "main_step env restart m next (with_buffer b s) = same_but_buffer b (main_step env restart m next s)"
proof -
  obtain ctx w where s: "s = (ctx, w)" by (cases s)
  have st: "rp_state (cx_parser ctx) = STATE_COMPLETE" using assms(1) by (simp add: complete_ctx_def s)
  have n: "next (c\<lparr>cx_recvBuffer := b\<rparr>, v) = same_but_buffer b (next (c, v))"
    if "rp_state (cx_parser c) = STATE_COMPLETE" for c v
    using assms(2) [of "(c, v)"] that by (simp add: with_buffer_def complete_ctx_def)
  have r: "restart conf (c\<lparr>cx_recvBuffer := b\<rparr>, v) = same_but_buffer b (restart conf (c, v))"
    if "rp_state (cx_parser c) = STATE_COMPLETE" for conf c v
    using assms(3) [of "(c, v)"] that by (simp add: with_buffer_def complete_ctx_def)
  have f: "fail_with env err (c\<lparr>cx_recvBuffer := b\<rparr>, v) = same_but_buffer b (fail_with env err (c, v))" for err c v
    using fail_with_buffer [of env err b "(c, v)"] by (simp add: with_buffer_def)
  show ?thesis
  proof (cases m)
    case VHostSelectMiddleware
    show ?thesis
      by (simp add: VHostSelectMiddleware s st with_buffer_def vhost_mw_def head_pending_def Let_def setConfig_def n r
          split: option.splits)
  next
    case RequestLimitsMiddleware
    show ?thesis
      by (simp add: RequestLimitsMiddleware s st with_buffer_def limits_mw_def head_pending_def Let_def n f
          split: option.splits sum.splits)
  next
    case (PipelineRouterMiddleware rs)
    have sub: "sub_run env chain (ctx\<lparr>cx_recvBuffer := b\<rparr>, w) = same_but_buffer b (sub_run env chain (ctx, w))" for chain
      using sub_run_buffer [of env chain b "(ctx, w)"] by (simp add: with_buffer_def)
    have keep: "rp_state (cx_parser c) = STATE_COMPLETE" if "sub_run env chain (ctx, w) = Some (e, c, v)" for chain e c v
      using sub_run_keeps [OF that] st by (simp add: fixed_part_def)
    show ?thesis
    proof (cases "best_route rs (rq_path (cx_req ctx))")
      case None
      then show ?thesis by (simp add: PipelineRouterMiddleware s st with_buffer_def router_mw_def n setError_def)
    next
      case (Some chain)
      then show ?thesis
        using keep [of chain]
        by (cases "sub_run env chain (ctx, w)")
          (auto simp: PipelineRouterMiddleware s with_buffer_def router_mw_def sub n split: option.splits)
    qed
  qed (simp_all add: s st with_buffer_def line_mw_def head_mw_def body_mw_def redirect_mw_def connection_mw_def n
      error_mw_buffer [of env b "(ctx, w)", unfolded with_buffer_def, simplified] Let_def split: sum.splits)
qed

text \<open>Bytes that come after a complete request, before its answer has gone out, are neither kept
  for the request they begin nor ignored: the complete request is run again, exactly as the first
  time, whatever the bytes are.\<close>

theorem complete_runs_again:
  assumes "complete_ctx s"
  shows "main_handle k env conf (with_buffer b s) = same_but_buffer b (main_handle k env conf s)"
  using assms
proof (induction k arbitrary: conf s)
  case (Suc k)
  have "chain_run (main_step env (main_handle k env)) ms (with_buffer b s) =
      same_but_buffer b (chain_run (main_step env (main_handle k env)) ms s)" if "complete_ctx s" for ms s
    using that
  proof (induction ms arbitrary: s)
    case Nil
    show ?case by (cases s) (simp add: with_buffer_def)
  next
    case (Cons m ms)
    then show ?case using main_step_buffer Suc.IH by simp
  qed
  then show ?case using Suc.prems by (simp add: main_run_def)
qed simp

section \<open>A client that sends more while its script runs\<close>

lemma execute_client: "wk_clientFd (execute now sp (new_worker now fd conf req script interpreter)) = fd"
  by (cases sp) (auto simp: execute_def set_pipes_def Let_def new_worker_def)

lemma createWorker_started:
  assumes "createWorker os now sp ctx m = (res, m2, evs)" "evs \<noteq> []"
  shows "\<exists>w. wk_clientFd w = cl_fd (cx_ownerClient ctx) \<and>
    register_worker (rq_method (cx_req ctx)) (cm_next m) w
      (m\<lparr>cm_next := cm_next m + 1, cm_workers := cm_workers m @ [(cm_next m, w)]\<rparr>) = (m2, evs)"
  using assms
  by (auto simp: createWorker_def Let_def execute_client split: if_splits sum.splits prod.splits
      intro!: exI [where x = "execute _ _ (new_worker _ _ _ _ _ _)"])

lemma removeWorker_other: "a \<noteq> b \<Longrightarrow> map_of (cm_workers (removeWorker b m)) a = map_of (cm_workers m) a"
proof -
  have "map_of (filter (\<lambda>p. fst p \<noteq> b) xs) a = map_of xs a" if "a \<noteq> b" for xs :: "(nat \<times> CgiWorker) list"
    using that by (induction xs) auto
  then show "a \<noteq> b \<Longrightarrow> ?thesis" by (simp add: removeWorker_def split: option.splits)
qed

text \<open>As the request is run again, a client can have two workers; the table knows only the second, and the first is lost: no operation of the manager ever removes
  it again.\<close>

theorem second_start_loses:
  assumes "map_of (cm_clientFdToWorker m) (cl_fd (cx_ownerClient ctx)) = Some a"
    and "a \<in> fst ` set (cm_workers m)" "a < cm_next m" "om_ok (cm_clientFdToWorker m)"
    and "\<And>fd. map_of (cm_clientFdToWorker m) fd = Some a \<Longrightarrow> fd = cl_fd (cx_ownerClient ctx)"
    and "createWorker os now sp ctx m = (res, m2, evs)" "evs \<noteq> []" "manager_step\<^sup>*\<^sup>* m2 m3"
  shows "a \<in> fst ` set (cm_workers m3)"
proof -
  obtain w where w: "wk_clientFd w = cl_fd (cx_ownerClient ctx)"
    and reg: "register_worker (rq_method (cx_req ctx)) (cm_next m) w
      (m\<lparr>cm_next := cm_next m + 1, cm_workers := cm_workers m @ [(cm_next m, w)]\<rparr>) = (m2, evs)"
    using createWorker_started [OF assms(6,7)] by blast
  note m2 = register_worker_fields [OF reg]
  have "map_of (cm_clientFdToWorker m2) fd \<noteq> Some a" for fd using m2(3) w assms(3,5) by auto
  moreover have "om_ok (cm_clientFdToWorker m2)" using m2(3) assms(4) by simp
  ultimately have "a \<notin> snd ` set (cm_clientFdToWorker m2)" using om_ok_map_of by force
  then have "lost a m2" using m2(1,2) assms(2,3) by (auto simp: lost_def)
  with assms(8) have "lost a m3" by (induction rule: rtranclp_induct) (auto simp: lost_step)
  then show ?thesis by (simp add: lost_def)
qed

text \<open>When the client goes, only the second worker is aborted.  The event of the first one's end stays
  registered, and makes the answer for a client that has been destroyed.\<close>

theorem lost_worker_uses_destroyed:
  assumes "worker_of_client fd sv = Some w2" "map_of (cm_clientFdToWorker (wo_cgi (sv_world sv))) fd = Some b"
    and "map_of (cm_workers (wo_cgi (sv_world sv))) a = Some w" "a \<noteq> b" "\<not> wk_completionNotified w"
    and "x \<notin> held w2" "x \<noteq> fd"
  shows "watched (sv_em (closeConnection fd sv)) x = watched (sv_em sv) x \<and>
    sv_dangling (snd (cgi_end_event io x fd a (closeConnection fd sv)))"
proof -
  let ?sv = "closeConnection fd sv"
  have "beside (held w2) sv (abort_client fd sv)"
    using beside_same [OF beside_on_cgi beside_destroy [of w2]] assms(1) by (simp add: abort_client_def)
  then have "watched (sv_em (abort_client fd sv)) x = watched (sv_em sv) x"
    using assms(6) by (simp add: beside_def)
  then have seen: "watched (sv_em ?sv) x = watched (sv_em sv) x"
    using assms(7) by (auto simp: closeConnection_def Let_def on_em_def unregisterSocket_def close_fd_def
        table_simps split: option.splits)
  have w: "map_of (cm_workers (wo_cgi (sv_world ?sv))) a = Some w"
  proof -
    have "sv_world ?sv = sv_world (abort_client fd sv)"
      by (simp add: closeConnection_def Let_def split: option.splits)
    moreover have "map_of (cm_workers (abortClient fd (wo_cgi (sv_world sv)))) a = Some w"
      using assms(2-4) by (simp add: abortClient_def removeWorker_other split: option.splits)
    ultimately show ?thesis using assms(1) by (simp add: abort_client_def)
  qed
  have "\<exists>t'. cgi_answer io fd t = (None, t') \<and> sv_dangling t'" if "map_of (sv_clients t) fd = None" for t
  proof -
    obtain complete cgiRes m where "isCgiComplete fd new_HttpResponse (wo_cgi (sv_world t)) = (complete, cgiRes, m)"
      by (cases "isCgiComplete fd new_HttpResponse (wo_cgi (sv_world t))")
    then show ?thesis using that by (cases complete) (simp_all add: cgi_answer_def Let_def)
  qed
  moreover have "map_of (sv_clients (on_cgi f ?sv)) fd = None" for f by (simp add: close_frame)
  ultimately obtain t where "cgi_answer io fd (on_cgi (set_worker a
      (w\<lparr>wk_lastActivityTime := io_now io, wk_completionBytes := 0, wk_completionNotified := True\<rparr>)) ?sv) = (None, t)"
    "sv_dangling t" by blast
  with seen w show ?thesis
    using assms(5) by (simp add: cgi_end_event_def Let_def on_em_def close_fd_def unregisterSocket_def)
qed

end
