(* ===== verification/LogForms.thy ===== *)
theory LogForms
  imports HttpCore StringOps
begin

text \<open>
  What a log line looks like: \<open>src/Lib/Logger/Form\<close> (\<open>LogForm\<close>, \<open>ElfForm\<close>, \<open>JsonForm\<close>) and the
  structures of \<open>AccessLog/AccessLogStructure.hpp\<close> and \<open>ErrorLog/LogStructure.hpp\<close>, with the times
  of \<open>src/Lib/Time\<close> (\<open>TimeFormatter\<close>, \<open>TimeCache\<close>) that are printed in it.

  A formatter writes to a stream; here it returns what it writes.  \<open>ElfForm\<close> keeps one flag, which
  is passed in and returned.  \<open>std::gmtime\<close> and \<open>std::localtime\<close> are arguments, their answers
  \<open>struct tm\<close> values or the null pointer.

  The facts: a JSON line is read back, field by field, by a reader of JSON objects, whatever bytes
  the client has sent; the quoting of ELF keeps two texts apart except the empty one and a dash;
  the fields that ELF does not quote let a request write lines of its own; the cache of formatted
  times never shows another second than the current one.
\<close>

section \<open>What is logged\<close>

record LogMessage =
  lm_localDate :: string
  lm_localTime :: string
  lm_level :: LogLevel
  lm_message :: string
  lm_file :: string
  lm_line :: int
  lm_function :: string
  lm_attributes :: "(string, string) omap"

record AccessLogContext =
  al_utcTimestamp :: string
  al_isoTimestamp :: string
  al_request :: "HttpRequest option"
  al_response :: "HttpResponse option"
  al_remote_addr :: string
  al_client_port :: int
  al_session_id :: string

definition levelToString :: "LogLevel \<Rightarrow> string" where
  "levelToString level =
     (case level of DEBUG \<Rightarrow> ''DEBUG'' | INFO \<Rightarrow> ''INFO'' | WARNING \<Rightarrow> ''WARNING''
      | ERROR \<Rightarrow> ''ERROR'' | FATAL \<Rightarrow> ''FATAL'')"

section \<open>The extended log format\<close>

definition sanitize :: "string \<Rightarrow> string" where
  "sanitize s =
     (if s = [] then ''-''
      else if CHR '' '' \<notin> set s \<and> DQ \<notin> set s then s
      else [DQ] @ concat (map (\<lambda>c. if c = DQ then [DQ, DQ] else [c]) s) @ [DQ])"

text \<open>The state of an \<open>ElfForm\<close> is \<open>_headerWritten\<close>; both headers set it.\<close>

definition getErrorHeader :: string where
  "getErrorHeader = ''#Fields: date time level function file:line message attributes'' @ [LF]"

definition getAccessHeader :: "string \<Rightarrow> string" where
  "getAccessHeader timeStr =
     ''#Date: '' @ timeStr @ [LF] @
     ''#Fields: date time c-ip c-port cs-method cs-uri-stem cs-uri-query '' @
     ''sc-status sc-bytes cs-version cs(User-Agent) cs(Referer) '' @ ''x-session-id'' @ [LF]"

definition elf_line :: "LogMessage \<Rightarrow> string" where
  "elf_line msg =
     lm_localDate msg @ '' '' @ lm_localTime msg @ '' '' @ levelToString (lm_level msg) @ '' '' @
     lm_function msg @ '' '' @ lm_file msg @ '':'' @ show_int (lm_line msg) @ '' '' @
     sanitize (lm_message msg) @ '' '' @
     (if lm_attributes msg = [] then ''-''
      else join '';'' (map (\<lambda>(k, v). sanitize k @ ''='' @ sanitize v) (lm_attributes msg)))"

definition elf_format :: "LogMessage \<Rightarrow> bool \<Rightarrow> string \<times> bool" where
  "elf_format msg headerWritten =
     ((if headerWritten then [] else getErrorHeader) @ elf_line msg, True)"

definition query_string :: "(string, string) omap \<Rightarrow> string" where
  "query_string qs = join ''&'' (map (\<lambda>(k, v). k @ ''='' @ v) qs)"

definition or_dash :: "string \<Rightarrow> string" where
  "or_dash s = (if s = [] then ''-'' else s)"

definition elf_access_line :: "AccessLogContext \<Rightarrow> HttpRequest \<Rightarrow> HttpResponse \<Rightarrow> string" where
  "elf_access_line ctx req res =
     al_utcTimestamp ctx @ '' '' @ or_dash (al_remote_addr ctx) @ '' '' @
     show_int (al_client_port ctx) @ '' '' @ or_dash (rq_method req) @ '' '' @
     or_dash (rq_path req) @ '' '' @
     (if rq_query req = [] then ''- '' else query_string (rq_query req) @ '' '') @
     show_int (rs_statusCode res) @ '' '' @ show_nat (length (rs_body res)) @ '' '' @
     or_dash (rq_version req) @ '' '' @
     sanitize (rq_getHeader req ''User-Agent'') @ '' '' @
     sanitize (rq_getHeader req ''Referer'') @ '' '' @
     (if al_session_id ctx = [] then ''-'' else sanitize (al_session_id ctx))"

definition elf_formatAccess :: "string \<Rightarrow> AccessLogContext \<Rightarrow> bool \<Rightarrow> string \<times> bool" where
  "elf_formatAccess timeStr ctx headerWritten =
     (case (al_request ctx, al_response ctx) of
        (Some req, Some res) \<Rightarrow>
          ((if headerWritten then [] else getAccessHeader timeStr) @ elf_access_line ctx req res, True)
      | _ \<Rightarrow> ([], headerWritten))"

section \<open>JSON\<close>

definition escape_char :: "char \<Rightarrow> string" where
  "escape_char c =
     (if c = DQ then [BSL, DQ] else if c = BSL then [BSL, BSL]
      else if c = CHR 0x08 then BSL # ''b'' else if c = CHR 0x0C then BSL # ''f''
      else if c = LF then BSL # ''n'' else if c = CR then BSL # ''r''
      else if c = TAB then BSL # ''t'' else [c])"

definition escapeJson :: "string \<Rightarrow> string" where
  "escapeJson s = concat (map escape_char s)"

definition quoted :: "string \<Rightarrow> string" where
  "quoted s = [DQ] @ s @ [DQ]"

definition json_format :: "LogMessage \<Rightarrow> string" where
  "json_format msg =
     ''{'' @ quoted ''timestamp'' @ '':'' @ quoted (lm_localDate msg @ ''T'' @ lm_localTime msg) @ '','' @
     quoted ''level'' @ '':'' @ quoted (levelToString (lm_level msg)) @ '','' @
     quoted ''message'' @ '':'' @ quoted (escapeJson (lm_message msg)) @ '','' @
     quoted ''source'' @ '':'' @ quoted (lm_file msg @ '':'' @ show_int (lm_line msg)) @
     '','' @ quoted ''function'' @ '':'' @ quoted (lm_function msg) @
     (if lm_attributes msg = [] then []
      else '','' @ quoted ''attributes'' @ '':{'' @
        join '','' (map (\<lambda>(k, v). quoted k @ '':'' @ quoted (escapeJson v)) (lm_attributes msg)) @ ''}'') @
     ''}''"

definition logged_uri :: "HttpRequest \<Rightarrow> string" where
  "logged_uri req =
     rq_path req @ (if rq_query req = [] then [] else ''?'' @ query_string (rq_query req))"

definition json_access_line :: "AccessLogContext \<Rightarrow> HttpRequest \<Rightarrow> HttpResponse \<Rightarrow> string" where
  "json_access_line ctx req res =
     ''{'' @ quoted ''timestamp'' @ '':'' @ quoted (al_isoTimestamp ctx) @ '','' @
     quoted ''remote_addr'' @ '':'' @ quoted (escapeJson (al_remote_addr ctx)) @ '','' @
     quoted ''remote_port'' @ '':'' @ show_int (al_client_port ctx) @ '','' @
     quoted ''method'' @ '':'' @ quoted (escapeJson (rq_method req)) @ '','' @
     quoted ''uri'' @ '':'' @ quoted (escapeJson (logged_uri req)) @ '','' @
     quoted ''version'' @ '':'' @ quoted (escapeJson (rq_version req)) @ '','' @
     quoted ''status'' @ '':'' @ show_int (rs_statusCode res) @ '','' @
     quoted ''bytes_sent'' @ '':'' @ show_nat (length (rs_body res)) @ '','' @
     quoted ''referer'' @ '':'' @
       quoted (let r = rq_getHeader req ''Referer'' in if r = [] then ''-'' else escapeJson r) @ '','' @
     quoted ''user_agent'' @ '':'' @
       quoted (let u = rq_getHeader req ''User-Agent'' in if u = [] then ''-'' else escapeJson u) @ '','' @
     quoted ''session_id'' @ '':'' @
       quoted (if al_session_id ctx = [] then ''-'' else escapeJson (al_session_id ctx)) @
     ''}''"

definition json_formatAccess :: "AccessLogContext \<Rightarrow> string" where
  "json_formatAccess ctx =
     (case (al_request ctx, al_response ctx) of
        (Some req, Some res) \<Rightarrow> json_access_line ctx req res | _ \<Rightarrow> [])"

section \<open>A form\<close>

text \<open>A \<open>LogForm\<close> object; \<open>timeStr\<close> is what \<open>TimeCache::getUtcTimestamp\<close> answers.\<close>

datatype LogForm = ElfForm bool | JsonForm

definition new_form :: "LogFormat \<Rightarrow> LogForm" where
  "new_form eFormat = (if eFormat = JSON then JsonForm else ElfForm False)"

fun form_format :: "LogMessage \<Rightarrow> LogForm \<Rightarrow> string \<times> LogForm" where
  "form_format msg (ElfForm h) = (case elf_format msg h of (s, h') \<Rightarrow> (s, ElfForm h'))"
| "form_format msg JsonForm = (json_format msg, JsonForm)"

fun form_formatAccess :: "string \<Rightarrow> AccessLogContext \<Rightarrow> LogForm \<Rightarrow> string \<times> LogForm" where
  "form_formatAccess timeStr ctx (ElfForm h) =
     (case elf_formatAccess timeStr ctx h of (s, h') \<Rightarrow> (s, ElfForm h'))"
| "form_formatAccess timeStr ctx JsonForm = (json_formatAccess ctx, JsonForm)"

section \<open>A reader of JSON\<close>

text \<open>RFC 8259 as far as the lines need it: strings with the two-character escapes, numbers without
  fraction, and objects.  A character below \<open>0x20\<close> must not stand bare in a string.  The first
  argument bounds the nesting and the number of members.\<close>

datatype json = JStr string | JNum string | JObj "(string \<times> json) list"

definition unescape :: "char \<Rightarrow> char option" where
  "unescape c =
     map_of [(DQ, DQ), (BSL, BSL), (CHR ''/'', CHR ''/''), (CHR ''b'', CHR 0x08), (CHR ''f'', CHR 0x0C),
       (CHR ''n'', LF), (CHR ''r'', CR), (CHR ''t'', TAB)] c"

fun read_str :: "string \<Rightarrow> (string \<times> string) option" where
  "read_str [] = None"
| "read_str (c # s) =
     (if c = DQ then Some ([], s)
      else if c = BSL then
        (case s of [] \<Rightarrow> None
         | d # s' \<Rightarrow> (case unescape d of None \<Rightarrow> None
            | Some e \<Rightarrow> map_option (\<lambda>(t, r). (e # t, r)) (read_str s')))
      else if code c < 32 then None
      else map_option (\<lambda>(t, r). (c # t, r)) (read_str s))"

definition numeric :: "char \<Rightarrow> bool" where
  "numeric c \<longleftrightarrow> isdigit c \<or> c = CHR ''-''"

fun read_value :: "nat \<Rightarrow> string \<Rightarrow> (json \<times> string) option"
  and read_members :: "nat \<Rightarrow> string \<Rightarrow> ((string \<times> json) list \<times> string) option" where
  "read_value 0 s = None"
| "read_value (Suc n) s =
     (case s of [] \<Rightarrow> None
      | c # s' \<Rightarrow>
          if c = DQ then map_option (\<lambda>(t, r). (JStr t, r)) (read_str s')
          else if c = CHR ''{'' then map_option (\<lambda>(ms, r). (JObj ms, r)) (read_members n s')
          else if numeric c then Some (JNum (takeWhile numeric s), dropWhile numeric s)
          else None)"
| "read_members 0 s = None"
| "read_members (Suc n) s =
     (case s of [] \<Rightarrow> None
      | c # s' \<Rightarrow>
          if c \<noteq> DQ then None
          else case read_str s' of None \<Rightarrow> None
          | Some (k, r) \<Rightarrow>
             (case r of [] \<Rightarrow> None
              | d # r' \<Rightarrow>
                  if d \<noteq> CHR '':'' then None
                  else case read_value n r' of None \<Rightarrow> None
                  | Some (v, r'') \<Rightarrow>
                     (case r'' of [] \<Rightarrow> None
                      | e # r3 \<Rightarrow>
                          if e = CHR ''}'' then Some ([(k, v)], r3)
                          else if e = CHR '','' then
                            map_option (\<lambda>(ms, r). ((k, v) # ms, r)) (read_members n r3)
                          else None)))"

definition read_json :: "string \<Rightarrow> (json \<times> string) option" where
  "read_json s = read_value (length s) s"

text \<open>Texts that survive: no bare control character but those \<open>escapeJson\<close> knows; texts that the
  formatter writes as they are must not hold a quote or a backslash either.\<close>

definition printable :: "string \<Rightarrow> bool" where
  "printable s \<longleftrightarrow> list_all (\<lambda>c. 32 \<le> code c \<or> c \<in> {CHR 0x08, TAB, LF, CHR 0x0C, CR}) s"

definition verbatim :: "string \<Rightarrow> bool" where
  "verbatim s \<longleftrightarrow> list_all (\<lambda>c. 32 \<le> code c \<and> c \<noteq> DQ \<and> c \<noteq> BSL) s"

lemma escapeJson_simps [simp]:
  "escapeJson [] = []" "escapeJson (c # s) = escape_char c @ escapeJson s"
  by (simp_all add: escapeJson_def)

lemma read_str_escapeJson:
  "read_str (escapeJson s @ DQ # rest) = (if printable s then Some (s, rest) else None)"
proof (induction s)
  case (Cons c s)
  then show ?case
    by (auto simp: escape_char_def unescape_def printable_def code_def)
qed (simp add: printable_def)

lemma read_str_verbatim: "verbatim s \<Longrightarrow> read_str (s @ DQ # rest) = Some (s, rest)"
  by (induction s) (auto simp: verbatim_def)

text \<open>What follows a value: nothing that could belong to a number.\<close>

definition stops :: "string \<Rightarrow> bool" where
  "stops r \<longleftrightarrow> (case r of [] \<Rightarrow> True | c # _ \<Rightarrow> \<not> numeric c)"

lemma read_value_string: "printable s \<Longrightarrow> read_value (Suc n) (quoted (escapeJson s) @ r) = Some (JStr s, r)"
  by (simp add: quoted_def read_str_escapeJson)

lemma read_value_verbatim: "verbatim s \<Longrightarrow> read_value (Suc n) (quoted s @ r) = Some (JStr s, r)"
  by (simp add: quoted_def read_str_verbatim)

lemma read_value_number:
  assumes "stops r" "s \<noteq> []" "list_all numeric s"
  shows "read_value (Suc n) (s @ r) = Some (JNum s, r)"
proof -
  from assms(2) obtain c s' where s: "s = c # s'" by (cases s) auto
  have "takeWhile numeric (s @ r) = s" "dropWhile numeric (s @ r) = r"
    using assms(1,3) by (auto simp: list_all_iff stops_def takeWhile_append dropWhile_append split: list.splits)
  moreover have "c \<noteq> DQ" "c \<noteq> CHR ''{''" "numeric c"
    using assms(3) by (auto simp: s numeric_def isdigit_def code_def)
  ultimately show ?thesis using s by simp
qed

lemma show_nat_numeric: "list_all numeric (show_nat n)"
  by (auto simp: list_all_iff numeric_def dest: show_nat_digits)

lemma show_int_numeric: "show_int i \<noteq> []" "list_all numeric (show_int i)"
  using show_nat_numeric by (auto simp: show_int_def numeric_def)


text \<open>A member reads back when its key is plain and its value reads back with enough fuel.\<close>

definition member_text :: "string \<times> string \<Rightarrow> string" where
  "member_text m = quoted (fst m) @ '':'' @ snd m"

definition object_text :: "(string \<times> string) list \<Rightarrow> string" where
  "object_text ms = ''{'' @ join '','' (map member_text ms) @ ''}''"

definition reads :: "nat \<Rightarrow> string \<Rightarrow> json \<Rightarrow> bool" where
  "reads d p v \<longleftrightarrow> (\<forall>n r. d < n \<longrightarrow> stops r \<longrightarrow> read_value n (p @ r) = Some (v, r))"

definition member_reads :: "nat \<Rightarrow> string \<times> string \<Rightarrow> string \<times> json \<Rightarrow> bool" where
  "member_reads d m m' \<longleftrightarrow> fst m = fst m' \<and> verbatim (fst m) \<and> reads d (snd m) (snd m')"

lemma read_members_join:
  assumes "list_all2 (member_reads d) ps ms" "ps \<noteq> []" "d + length ps < n"
  shows "read_members n (join '','' (map member_text ps) @ CHR ''}'' # r) = Some (ms, r)"
  using assms
proof (induction ps ms arbitrary: n rule: list_all2_induct)
  case (Cons m ps m' ms)
  from Cons.prems obtain n' where n: "n = Suc n'" by (cases n) auto
  obtain k p where m: "m = (k, p)" by (cases m)
  obtain v where m': "m' = (k, v)" and k: "verbatim k" and v: "reads d p v"
    using Cons.hyps(1) m by (cases m') (auto simp: member_reads_def)
  show ?case
  proof (cases ps)
    case Nil
    then have "ms = []" using Cons.hyps(2) by simp
    moreover have "read_value n' (p @ CHR ''}'' # r) = Some (v, CHR ''}'' # r)"
      using v Cons.prems(2) n by (auto simp: reads_def stops_def numeric_def isdigit_def code_def)
    ultimately show ?thesis using Nil k m m' n
      by (simp add: member_text_def quoted_def read_str_verbatim)
  next
    case (Cons p2 ps2)
    define rest where "rest = join '','' (map member_text ps) @ CHR ''}'' # r"
    have "read_value n' (p @ CHR '','' # rest) = Some (v, CHR '','' # rest)"
      using v Cons.prems(2) n by (auto simp: reads_def stops_def numeric_def isdigit_def code_def)
    moreover have "read_members n' rest = Some (ms, r)"
      unfolding rest_def using Cons.IH Cons.prems(2) Cons n by simp
    moreover have "join '','' (map member_text (m # ps)) @ CHR ''}'' # r =
        DQ # k @ DQ # CHR '':'' # p @ CHR '','' # rest"
      using Cons m by (simp add: member_text_def quoted_def rest_def)
    ultimately show ?thesis using k m' n by (simp add: read_str_verbatim)
  qed
qed simp

lemma reads_object:
  assumes "list_all2 (member_reads d) ps ms" "ps \<noteq> []"
  shows "reads (d + length ps + 1) (object_text ps) (JObj ms)"
  unfolding reads_def
proof (intro allI impI)
  fix n r assume "d + length ps + 1 < n"
  then obtain n' where "n = Suc n'" "d + length ps < n'" by (cases n) auto
  then show "read_value n (object_text ps @ r) = Some (JObj ms, r)"
    using read_members_join [OF assms, of n' r] by (simp add: object_text_def)
qed

lemma reads_string: "printable s \<Longrightarrow> reads 0 (quoted (escapeJson s)) (JStr s)"
  by (auto simp del: read_value.simps simp: reads_def gr0_conv_Suc read_value_string)

lemma reads_verbatim: "verbatim s \<Longrightarrow> reads 0 (quoted s) (JStr s)"
  by (auto simp del: read_value.simps simp: reads_def gr0_conv_Suc read_value_verbatim)

lemma reads_number: "s \<noteq> [] \<Longrightarrow> list_all numeric s \<Longrightarrow> reads 0 s (JNum s)"
  by (auto simp del: read_value.simps simp: reads_def gr0_conv_Suc read_value_number)

lemma reads_json:
  assumes "reads d s v" "d < length s"
  shows "read_json s = Some (v, [])"
  using assms(1)[unfolded reads_def, rule_format, OF assms(2), of "[]"] by (simp add: read_json_def stops_def)

lemma length_join: "sum_list (map length xs) \<le> length (join d xs)"
  by (induction d xs rule: join.induct) auto

lemma length_object: "2 + 3 * length ps + sum_list (map (length \<circ> snd) ps) \<le> length (object_text ps)"
proof -
  have "3 * length ps + sum_list (map (length \<circ> snd) ps) \<le> sum_list (map length (map member_text ps))"
    by (induction ps) (auto simp: member_text_def quoted_def)
  also have "\<dots> \<le> length (join '','' (map member_text ps))" by (rule length_join)
  finally show ?thesis by (simp add: object_text_def)
qed

section \<open>Lines that are read back\<close>

lemma verbatim_simps [simp]:
  "verbatim []" "verbatim (c # s) \<longleftrightarrow> 32 \<le> code c \<and> c \<noteq> DQ \<and> c \<noteq> BSL \<and> verbatim s"
  "verbatim (s @ t) \<longleftrightarrow> verbatim s \<and> verbatim t"
  by (auto simp: verbatim_def)

lemma show_nat_verbatim: "verbatim (show_nat n)"
  by (auto simp: verbatim_def list_all_iff isdigit_def code_def dest!: show_nat_digits)

lemma show_int_verbatim: "verbatim (show_int i)"
  using show_nat_verbatim by (simp add: show_int_def code_def)

lemma levelToString_verbatim: "verbatim (levelToString l)"
  by (cases l) (simp_all add: levelToString_def code_def)

lemma reads_optional: "printable s \<Longrightarrow> reads 0 (quoted (if s = [] then ''-'' else escapeJson s)) (JStr (or_dash s))"
  using reads_verbatim [of "''-''"] reads_string [of s] by (simp add: or_dash_def code_def)

definition access_fields :: "AccessLogContext \<Rightarrow> HttpRequest \<Rightarrow> HttpResponse \<Rightarrow> (string \<times> json) list" where
  "access_fields ctx req res =
     [(''timestamp'', JStr (al_isoTimestamp ctx)),
      (''remote_addr'', JStr (al_remote_addr ctx)),
      (''remote_port'', JNum (show_int (al_client_port ctx))),
      (''method'', JStr (rq_method req)),
      (''uri'', JStr (logged_uri req)),
      (''version'', JStr (rq_version req)),
      (''status'', JNum (show_int (rs_statusCode res))),
      (''bytes_sent'', JNum (show_nat (length (rs_body res)))),
      (''referer'', JStr (or_dash (rq_getHeader req ''Referer''))),
      (''user_agent'', JStr (or_dash (rq_getHeader req ''User-Agent''))),
      (''session_id'', JStr (or_dash (al_session_id ctx)))]"

text \<open>C24: an access line in JSON is one object from which a JSON reader recovers every field, the
  address, the method, the address asked for, both headers and the session, byte for byte,
  whatever quotes, backslashes and line ends the client has put in them, as long as it sends no
  other control character.\<close>

theorem json_access_readable:
  assumes "al_request ctx = Some req" "al_response ctx = Some res" "verbatim (al_isoTimestamp ctx)"
    and "list_all printable [al_remote_addr ctx, rq_method req, logged_uri req, rq_version req,
      rq_getHeader req ''Referer'', rq_getHeader req ''User-Agent'', al_session_id ctx]"
  shows "read_json (json_formatAccess ctx) = Some (JObj (access_fields ctx req res), [])"
proof -
  let ?ps = "[(''timestamp'', quoted (al_isoTimestamp ctx)),
      (''remote_addr'', quoted (escapeJson (al_remote_addr ctx))),
      (''remote_port'', show_int (al_client_port ctx)),
      (''method'', quoted (escapeJson (rq_method req))),
      (''uri'', quoted (escapeJson (logged_uri req))),
      (''version'', quoted (escapeJson (rq_version req))),
      (''status'', show_int (rs_statusCode res)),
      (''bytes_sent'', show_nat (length (rs_body res))),
      (''referer'', quoted (if rq_getHeader req ''Referer'' = [] then ''-'' else escapeJson (rq_getHeader req ''Referer''))),
      (''user_agent'', quoted (if rq_getHeader req ''User-Agent'' = [] then ''-'' else escapeJson (rq_getHeader req ''User-Agent''))),
      (''session_id'', quoted (if al_session_id ctx = [] then ''-'' else escapeJson (al_session_id ctx)))]"
  have "json_formatAccess ctx = object_text ?ps"
    using assms(1,2) by (simp add: json_formatAccess_def json_access_line_def object_text_def member_text_def)
  moreover have "list_all2 (member_reads 0) ?ps (access_fields ctx req res)"
    using assms(3,4)
    by (simp add: access_fields_def member_reads_def code_def reads_string reads_optional reads_verbatim
        reads_number show_nat_numeric show_int_numeric)
  from reads_object [OF this] have "reads (0 + length ?ps + 1) (object_text ?ps) (JObj (access_fields ctx req res))"
    by simp
  ultimately show ?thesis using reads_json length_object [of ?ps] by simp
qed


definition attributes_field :: "LogMessage \<Rightarrow> (string \<times> json) list" where
  "attributes_field msg =
     (if lm_attributes msg = [] then []
      else [(''attributes'', JObj (map (\<lambda>(k, v). (k, JStr v)) (lm_attributes msg)))])"

definition message_fields :: "LogMessage \<Rightarrow> (string \<times> json) list" where
  "message_fields msg =
     [(''timestamp'', JStr (lm_localDate msg @ ''T'' @ lm_localTime msg)),
      (''level'', JStr (levelToString (lm_level msg))),
      (''message'', JStr (lm_message msg)),
      (''source'', JStr (lm_file msg @ '':'' @ show_int (lm_line msg))),
      (''function'', JStr (lm_function msg))] @ attributes_field msg"

text \<open>A diagnostic in JSON is read back as well, its attributes as an object inside, whatever the
  message and the values of the attributes hold; the keys, the file and the function are written
  as they are.\<close>

theorem json_message_readable:
  assumes "list_all verbatim ([lm_localDate msg, lm_localTime msg, lm_file msg, lm_function msg] @
      map fst (lm_attributes msg))"
    and "list_all printable (lm_message msg # map snd (lm_attributes msg))"
  shows "read_json (json_format msg) = Some (JObj (message_fields msg), [])"
proof -
  let ?as = "map (\<lambda>(k, v). (k, quoted (escapeJson v))) (lm_attributes msg)"
  let ?k = "if lm_attributes msg = [] then 0 else length ?as + 1"
  let ?ps = "[(''timestamp'', quoted (lm_localDate msg @ ''T'' @ lm_localTime msg)),
      (''level'', quoted (levelToString (lm_level msg))),
      (''message'', quoted (escapeJson (lm_message msg))),
      (''source'', quoted (lm_file msg @ '':'' @ show_int (lm_line msg))),
      (''function'', quoted (lm_function msg))] @
      (if lm_attributes msg = [] then [] else [(''attributes'', object_text ?as)])"
  have shape: "json_format msg = object_text ?ps"
    by (simp add: json_format_def object_text_def member_text_def case_prod_unfold comp_def)
  have weaker: "reads 0 p v \<Longrightarrow> reads d p v" for p v d by (simp add: reads_def)
  have "list_all2 (member_reads 0) ?as (map (\<lambda>(k, v). (k, JStr v)) (lm_attributes msg))"
    using assms by (auto simp: list_all2_map1 list_all2_map2 list_all_iff member_reads_def reads_string
        intro!: list.rel_refl_strong split: prod.splits)
  from reads_object [OF this]
  have inner: "lm_attributes msg \<noteq> [] \<Longrightarrow>
      reads (length ?as + 1) (object_text ?as) (JObj (map (\<lambda>(k, v). (k, JStr v)) (lm_attributes msg)))"
    by simp
  have "list_all2 (member_reads ?k) ?ps (message_fields msg)"
    using assms inner
    by (simp add: message_fields_def attributes_field_def member_reads_def code_def levelToString_verbatim
        show_int_verbatim weaker [OF reads_string] weaker [OF reads_verbatim])
  from reads_object [OF this] have "reads (?k + length ?ps + 1) (object_text ?ps) (JObj (message_fields msg))"
    by simp
  moreover have "?k + length ?ps + 1 < length (object_text ?ps)"
    using length_object [of ?ps] length_object [of ?as] by auto
  ultimately show ?thesis unfolding shape by (rule reads_json)
qed

text \<open>A control character that \<open>escapeJson\<close> does not know makes the line unreadable.\<close>

lemma json_control_unreadable:
  "\<not> printable s \<Longrightarrow> read_value (Suc n) (quoted (escapeJson s) @ r) = None"
  by (simp add: quoted_def read_str_escapeJson)

section \<open>ELF fields\<close>

lemma double_quotes_inj:
  "concat (map (\<lambda>c. if c = DQ then [DQ, DQ] else [c]) a) = concat (map (\<lambda>c. if c = DQ then [DQ, DQ] else [c]) b) \<longleftrightarrow> a = b"
proof (induction a arbitrary: b)
  case Nil
  show ?case by (cases b) auto
next
  case (Cons x a)
  then show ?case by (cases b) auto
qed

text \<open>The quoting of the extended log format loses nothing but the difference between an empty
  text and a lone dash.\<close>

theorem sanitize_exact: "sanitize a = sanitize b \<longleftrightarrow> a = b \<or> (a \<in> {[], ''-''} \<and> b \<in> {[], ''-''})"
proof -
  show ?thesis
    by (cases "a = []"; cases "b = []") (auto simp: sanitize_def double_quotes_inj)
qed


section \<open>Times\<close>

text \<open>\<open>struct tm\<close>, and what \<open>strftime\<close> prints for the conversions the formats use.\<close>

record tm =
  tm_sec :: int
  tm_min :: int
  tm_hour :: int
  tm_mday :: int
  tm_mon :: int
  tm_year :: int
  tm_wday :: int

definition two :: "int \<Rightarrow> string" where
  "two n = (if 0 \<le> n \<and> n < 10 then CHR ''0'' # show_int n else show_int n)"

definition name_at :: "string list \<Rightarrow> int \<Rightarrow> string" where
  "name_at ns i = (if 0 \<le> i \<and> nat i < length ns then ns ! nat i else ''?'')"

definition conversion :: "char \<Rightarrow> tm \<Rightarrow> string" where
  "conversion c t =
     (if c = CHR ''Y'' then show_int (tm_year t + 1900) else if c = CHR ''m'' then two (tm_mon t + 1)
      else if c = CHR ''d'' then two (tm_mday t) else if c = CHR ''H'' then two (tm_hour t)
      else if c = CHR ''M'' then two (tm_min t) else if c = CHR ''S'' then two (tm_sec t)
      else if c = CHR ''a'' then name_at [''Sun'', ''Mon'', ''Tue'', ''Wed'', ''Thu'', ''Fri'', ''Sat''] (tm_wday t)
      else if c = CHR ''b'' then name_at [''Jan'', ''Feb'', ''Mar'', ''Apr'', ''May'', ''Jun'', ''Jul'',
        ''Aug'', ''Sep'', ''Oct'', ''Nov'', ''Dec''] (tm_mon t)
      else [c])"

fun expand :: "string \<Rightarrow> tm \<Rightarrow> string" where
  "expand (c # d # f) t =
     (if c = CHR ''%'' then conversion d t @ expand f t else c # expand (d # f) t)"
| "expand f t = f"

text \<open>\<open>None\<close> is the answer 0: the text and its terminating null do not fit in the buffer.\<close>

definition strftime :: "nat \<Rightarrow> string \<Rightarrow> tm \<Rightarrow> string option" where
  "strftime n f t = (if length (expand f t) < n then Some (expand f t) else None)"

definition or_else :: "string option \<Rightarrow> string \<Rightarrow> string" where
  "or_else x d = (case x of Some s \<Rightarrow> s | None \<Rightarrow> d)"

definition getDate :: "tm \<Rightarrow> string" where
  "getDate t = or_else (strftime 11 ''%Y-%m-%d'' t) ''0000-00-00''"

definition getTime :: "tm \<Rightarrow> string" where
  "getTime t = or_else (strftime 9 ''%H:%M:%S'' t) ''00:00:00''"

definition getHeaderTimestamp :: "tm \<Rightarrow> string" where
  "getHeaderTimestamp t =
     or_else (strftime 64 ''%a, %d %b %Y %H:%M:%S GMT'' t) ''Thu, 01 Jan 1970 00:00:00 GMT''"

definition getIsoTimestamp :: "tm \<Rightarrow> string" where
  "getIsoTimestamp t = or_else (strftime 64 ''%Y-%m-%dT%H:%M:%SZ'' t) ''1970-01-01T00:00:00Z''"

definition getLocalTimestamp :: "tm \<Rightarrow> string" where
  "getLocalTimestamp t = or_else (strftime 64 ''%Y-%m-%dT%H:%M:%S'' t) ''1970-01-01T00:00:00''"

definition getUtcTimestamp :: "tm \<Rightarrow> string" where
  "getUtcTimestamp t = or_else (strftime 64 ''%Y-%m-%d %H:%M:%SZ'' t) ''1970-01-01 00:00:00Z''"

record TimeCache =
  tc_lastUpdateTime :: int
  tc_GmtTime :: string
  tc_GmtDate :: string
  tc_LocalTime :: string
  tc_LocalDate :: string
  tc_HeaderTimestamp :: string
  tc_LocalTimestamp :: string
  tc_UtcTimestamp :: string
  tc_IsoTimestamp :: string

definition new_TimeCache :: TimeCache where
  "new_TimeCache =
     \<lparr>tc_lastUpdateTime = 0, tc_GmtTime = [], tc_GmtDate = [], tc_LocalTime = [], tc_LocalDate = [],
      tc_HeaderTimestamp = [], tc_LocalTimestamp = [], tc_UtcTimestamp = [], tc_IsoTimestamp = []\<rparr>"

text \<open>Every getter calls \<open>update\<close> and returns its field; \<open>gmt\<close> and \<open>local\<close> are what \<open>gmtime\<close> and
  \<open>localtime\<close> answer for \<open>now\<close>.\<close>

definition update_gmt :: "tm option \<Rightarrow> TimeCache \<Rightarrow> TimeCache" where
  "update_gmt gmt c =
     (case gmt of
        None \<Rightarrow> c\<lparr>tc_GmtTime := ''00:00:00'', tc_GmtDate := ''1970-01-01'',
          tc_UtcTimestamp := ''1970-01-01 00:00:00Z'', tc_IsoTimestamp := ''1970-01-01T00:00:00Z'',
          tc_HeaderTimestamp := ''Thu, 01 Jan 1970 00:00:00 GMT''\<rparr>
      | Some t \<Rightarrow> c\<lparr>tc_GmtTime := getTime t, tc_GmtDate := getDate t,
          tc_UtcTimestamp := getUtcTimestamp t, tc_IsoTimestamp := getIsoTimestamp t,
          tc_HeaderTimestamp := getHeaderTimestamp t\<rparr>)"

definition update_local :: "tm option \<Rightarrow> TimeCache \<Rightarrow> TimeCache" where
  "update_local ltm c =
     (case ltm of
        None \<Rightarrow> c\<lparr>tc_LocalTime := ''00:00:00'', tc_LocalDate := ''1970-01-01'',
          tc_LocalTimestamp := ''1970-01-01 00:00:00''\<rparr>
      | Some t \<Rightarrow> c\<lparr>tc_LocalTime := getTime t, tc_LocalDate := getDate t,
          tc_LocalTimestamp := getLocalTimestamp t\<rparr>)"

definition time_update :: "int \<Rightarrow> tm option \<Rightarrow> tm option \<Rightarrow> TimeCache \<Rightarrow> TimeCache" where
  "time_update now gmt ltm c =
     (if now = tc_lastUpdateTime c then c
      else update_local ltm (update_gmt gmt (c\<lparr>tc_lastUpdateTime := now\<rparr>)))"

text \<open>What a cache holds that has just been filled at \<open>now\<close>.\<close>

definition filled :: "(int \<Rightarrow> tm option) \<Rightarrow> (int \<Rightarrow> tm option) \<Rightarrow> int \<Rightarrow> TimeCache" where
  "filled gm lt now = update_local (lt now) (update_gmt (gm now) (new_TimeCache\<lparr>tc_lastUpdateTime := now\<rparr>))"

lemma update_overwrites:
  "update_local l' (update_gmt g' ((update_local l (update_gmt g c))\<lparr>tc_lastUpdateTime := now\<rparr>)) =
   update_local l' (update_gmt g' (c\<lparr>tc_lastUpdateTime := now\<rparr>))"
  by (cases l; cases g; cases l'; cases g') (simp_all add: update_local_def update_gmt_def)

text \<open>The cache is invisible: after any calls at times other than 0, a getter returns what would
  be formatted afresh for the current second.\<close>

theorem time_cache_transparent:
  assumes "0 \<notin> set (ts @ [now])"
  shows "fold (\<lambda>t. time_update t (gm t) (lt t)) (ts @ [now]) new_TimeCache = filled gm lt now"
  using assms
proof (induction ts arbitrary: now rule: rev_induct)
  case Nil
  then show ?case by (simp add: time_update_def filled_def new_TimeCache_def)
next
  case (snoc t ts)
  have last: "tc_lastUpdateTime (filled gm lt t) = t"
    by (simp add: filled_def update_local_def update_gmt_def split: option.split)
  have "time_update now (gm now) (lt now) (filled gm lt t) = filled gm lt now"
    unfolding time_update_def last by (simp add: filled_def update_overwrites)
  with snoc show ?case by simp
qed


text \<open>A date has ten characters or is the fallback; years above 9999 do not fit in the buffer.\<close>

lemma getDate_bounded: "length (getDate t) \<le> 10"
  by (simp add: getDate_def or_else_def strftime_def split: option.split)

lemma isoTimestamp_verbatim: "verbatim (getIsoTimestamp t)"
proof -
  have "verbatim (two n)" for n using show_int_verbatim by (simp add: two_def code_def)
  then show ?thesis
    by (simp add: getIsoTimestamp_def or_else_def strftime_def conversion_def show_int_verbatim code_def)
qed

section \<open>Fields that are not quoted\<close>

text \<open>The path is written as it is: a bare line feed in it starts a new line of the log, whose text the
  client chooses.\<close>

lemma elf_line_forged:
  assumes "rq_path req = p @ LF # forged @ LF # q"
  shows "\<exists>a b. elf_access_line ctx req res = a @ LF # forged @ LF # b"
proof -
  let ?a = "al_utcTimestamp ctx @ '' '' @ or_dash (al_remote_addr ctx) @ '' '' @
     show_int (al_client_port ctx) @ '' '' @ or_dash (rq_method req) @ '' '' @ p"
  have "\<exists>b. elf_access_line ctx req res = ?a @ LF # forged @ LF # q @ b"
    using assms by (simp add: elf_access_line_def or_dash_def)
  then show ?thesis by metis
qed

section \<open>A request that is logged\<close>

definition quoted_request :: HttpRequest where
  "quoted_request =
     \<lparr>rq_maxBodySize = 0, rq_method = ''GET'', rq_path = ''/a'' @ [DQ, LF, BSL], rq_version = ''HTTP/1.1'',
      rq_headers = [(''user-agent'', [[DQ] @ '' x''])], rq_query = [(''k'', ''v'')], rq_body = []\<rparr>"

definition some_tm :: tm where
  "some_tm = \<lparr>tm_sec = 5, tm_min = 4, tm_hour = 3, tm_mday = 2, tm_mon = 0, tm_year = 125, tm_wday = 4\<rparr>"

definition quoted_context :: AccessLogContext where
  "quoted_context =
     \<lparr>al_utcTimestamp = getUtcTimestamp some_tm, al_isoTimestamp = getIsoTimestamp some_tm,
      al_request = Some quoted_request, al_response = Some new_HttpResponse,
      al_remote_addr = ''127.0.0.1'', al_client_port = 4242, al_session_id = []\<rparr>"

lemma lowered_names: "toLower ''User-Agent'' = ''user-agent''" "toLower ''Referer'' = ''referer''"
  by code_simp+

theorem json_access_readable_witness:
  "read_json (json_formatAccess quoted_context) =
     Some (JObj (access_fields quoted_context quoted_request new_HttpResponse), [])"
proof (rule json_access_readable)
  show "verbatim (al_isoTimestamp quoted_context)" by (simp add: quoted_context_def isoTimestamp_verbatim)
  show "list_all printable [al_remote_addr quoted_context, rq_method quoted_request, logged_uri quoted_request,
      rq_version quoted_request, rq_getHeader quoted_request ''Referer'',
      rq_getHeader quoted_request ''User-Agent'', al_session_id quoted_context]"
    by (simp add: quoted_context_def quoted_request_def printable_def code_def logged_uri_def query_string_def
        rq_getHeader_def last_value_def lowered_names)
qed (simp_all add: quoted_context_def)

definition quoted_message :: LogMessage where
  "quoted_message =
     \<lparr>lm_localDate = ''2025-01-02'', lm_localTime = ''03:04:05'', lm_level = ERROR,
      lm_message = [DQ, LF], lm_file = ''Server.cpp'', lm_line = 30, lm_function = ''run'',
      lm_attributes = [(''fd'', ''5''), (''path'', [BSL])]\<rparr>"

theorem json_message_readable_witness:
  "read_json (json_format quoted_message) = Some (JObj (message_fields quoted_message), [])"
  by (rule json_message_readable) (simp_all add: quoted_message_def printable_def code_def)

theorem time_cache_transparent_witness:
  "fold (\<lambda>t. time_update t (Some some_tm) None) ([7, 8] @ [8]) new_TimeCache =
   filled (\<lambda>_. Some some_tm) (\<lambda>_. None) 8"
  using time_cache_transparent [of "[7, 8]" 8 "\<lambda>_. Some some_tm" "\<lambda>_. None"] by simp

end
