(* ===== verification/Loggers.thy ===== *)
theory Loggers
  imports LogForms LineHead
begin

text \<open>
  Where log lines go: \<open>src/Lib/Logger/Sink\<close> (\<open>FileSink\<close>, \<open>ConsoleSink\<close>), the two loggers of
  \<open>src/Lib/Logger/ErrorLog/Logger.cpp\<close> and \<open>AccessLog/AccessLogger.cpp\<close>, and
  \<open>src/Server/Logging/Logging.cpp\<close>, which builds them from a configuration.

  The disk is a directory of names that point to inodes, and the contents of the inodes: an open
  stream keeps its inode when the name is renamed.  Which removals, renames and openings the system
  refuses is an argument.  Writing to an open stream succeeds.  The diagnostics that a failing
  rotation writes itself are dropped.  \<open>None\<close> is undefined behaviour.

  The facts: a rotation moves every generation of the file one place, loses the oldest only and
  touches no other file; a log and its backups always hold the last lines written, in order; the
  levels a logger is active at are those of the sinks added to it; a log file that cannot be
  opened makes the server delete its formatter twice.
\<close>

section \<open>The disk\<close>

record Disk =
  dk_names :: "string \<Rightarrow> nat option"
  dk_data :: "nat \<Rightarrow> string"
  dk_next :: nat

record Perms =
  pm_open :: "string \<Rightarrow> bool"
  pm_remove :: "string \<Rightarrow> bool"
  pm_rename :: "string \<Rightarrow> bool"

text \<open>Opening for appending creates the file when there is none.\<close>

definition open_append :: "Perms \<Rightarrow> string \<Rightarrow> Disk \<Rightarrow> nat option \<times> Disk" where
  "open_append pm path d =
     (if \<not> pm_open pm path then (None, d)
      else case dk_names d path of
        Some i \<Rightarrow> (Some i, d)
      | None \<Rightarrow> (Some (dk_next d),
          \<lparr>dk_names = (dk_names d)(path \<mapsto> dk_next d), dk_data = (dk_data d)(dk_next d := []),
           dk_next = dk_next d + 1\<rparr>))"

definition file_remove :: "Perms \<Rightarrow> string \<Rightarrow> Disk \<Rightarrow> Disk" where
  "file_remove pm path d = (if pm_remove pm path then d\<lparr>dk_names := (dk_names d)(path := None)\<rparr> else d)"

definition file_rename :: "Perms \<Rightarrow> string \<Rightarrow> string \<Rightarrow> Disk \<Rightarrow> Disk" where
  "file_rename pm old new d =
     (if pm_rename pm old then d\<lparr>dk_names := (dk_names d)(new := dk_names d old, old := None)\<rparr> else d)"

definition append_to :: "nat \<Rightarrow> string \<Rightarrow> Disk \<Rightarrow> Disk" where
  "append_to i s d = d\<lparr>dk_data := (dk_data d)(i := dk_data d i @ s)\<rparr>"

definition file_exists :: "string \<Rightarrow> Disk \<Rightarrow> bool" where
  "file_exists path d = (dk_names d path \<noteq> None)"

text \<open>The size \<open>stat\<close> reports for a name, and the contents under it.\<close>

definition contents :: "Disk \<Rightarrow> string \<Rightarrow> string option" where
  "contents d path = map_option (dk_data d) (dk_names d path)"

section \<open>FileSink\<close>

record FileSink =
  fs_dir :: string
  fs_fileName :: string
  fs_stream :: "nat option"
  fs_maxFileSize :: size_t
  fs_maxBackupFiles :: size_t
  fs_form :: LogForm

definition fs_path :: "FileSink \<Rightarrow> string" where
  "fs_path fs = fs_dir fs @ ''/'' @ fs_fileName fs"

definition backup :: "string \<Rightarrow> nat \<Rightarrow> string" where
  "backup base i = base @ ''.'' @ show_nat i"

text \<open>The constructor; \<open>None\<close> when it throws.\<close>

definition new_FileSink ::
  "Perms \<Rightarrow> string \<Rightarrow> string \<Rightarrow> LogForm \<Rightarrow> size_t \<Rightarrow> size_t \<Rightarrow> Disk \<Rightarrow> FileSink option \<times> Disk" where
  "new_FileSink pm logDir filename form maxFileSize maxBackupFiles d =
     (case open_append pm (logDir @ ''/'' @ filename) d of
        (None, d1) \<Rightarrow> (None, d1)
      | (Some i, d1) \<Rightarrow>
          (Some \<lparr>fs_dir = logDir, fs_fileName = filename, fs_stream = Some i,
             fs_maxFileSize = maxFileSize, fs_maxBackupFiles = maxBackupFiles, fs_form = form\<rparr>, d1))"

text \<open>The loop of \<open>rotate\<close>, from \<open>_maxBackupFiles - 1\<close> down to 1.\<close>

fun shift_backups :: "Perms \<Rightarrow> string \<Rightarrow> nat \<Rightarrow> Disk \<Rightarrow> Disk" where
  "shift_backups pm base 0 d = d"
| "shift_backups pm base (Suc i) d =
     shift_backups pm base i
       (let oldPath = backup base (Suc i); newPath = backup base (Suc i + 1) in
        if file_exists oldPath d then file_rename pm oldPath newPath d else d)"

definition remove_if_there :: "Perms \<Rightarrow> string \<Rightarrow> Disk \<Rightarrow> Disk" where
  "remove_if_there pm path d = (if file_exists path d then file_remove pm path d else d)"

definition rotate_files :: "Perms \<Rightarrow> string \<Rightarrow> size_t \<Rightarrow> Disk \<Rightarrow> Disk" where
  "rotate_files pm base maxBackupFiles d =
     (if maxBackupFiles = 0 then remove_if_there pm base d
      else
        (let d1 = remove_if_there pm (backup base (unat maxBackupFiles)) d;
             d2 = shift_backups pm base (unat (maxBackupFiles - 1)) d1
         in if file_exists base d2 then file_rename pm base (backup base 1) d2 else d2))"

text \<open>\<open>rotate\<close> throws when the file cannot be opened again; the stream is closed then.\<close>

definition sink_rotate :: "Perms \<Rightarrow> FileSink \<Rightarrow> Disk \<Rightarrow> exn option \<times> FileSink \<times> Disk" where
  "sink_rotate pm fs d =
     (case open_append pm (fs_path fs) (rotate_files pm (fs_path fs) (fs_maxBackupFiles fs) d) of
        (None, d1) \<Rightarrow> (Some Runtime_error, fs\<lparr>fs_stream := None\<rparr>, d1)
      | (Some i, d1) \<Rightarrow> (None, fs\<lparr>fs_stream := Some i\<rparr>, d1))"

text \<open>\<open>log\<close> and \<open>logAccess\<close> differ in the method of the form they call.\<close>

definition sink_write ::
  "Perms \<Rightarrow> (LogForm \<Rightarrow> string \<times> LogForm) \<Rightarrow> FileSink \<Rightarrow> Disk \<Rightarrow> exn option \<times> FileSink \<times> Disk" where
  "sink_write pm fmt fs d =
     (case fs_stream fs of
        None \<Rightarrow> (None, fs, d)
      | Some i \<Rightarrow>
          (case fmt (fs_form fs) of
             (line, form) \<Rightarrow>
               (let fs1 = fs\<lparr>fs_form := form\<rparr>; d1 = append_to i (line @ [LF]) d in
                case contents d1 (fs_path fs1) of
                  Some file \<Rightarrow>
                    if unat (fs_maxFileSize fs1) \<le> length file then sink_rotate pm fs1 d1
                    else (None, fs1, d1)
                | None \<Rightarrow> (None, fs1, d1))))"

definition file_log :: "Perms \<Rightarrow> LogMessage \<Rightarrow> FileSink \<Rightarrow> Disk \<Rightarrow> exn option \<times> FileSink \<times> Disk" where
  "file_log pm msg = sink_write pm (form_format msg)"

definition file_logAccess ::
  "Perms \<Rightarrow> string \<Rightarrow> AccessLogContext \<Rightarrow> FileSink \<Rightarrow> Disk \<Rightarrow> exn option \<times> FileSink \<times> Disk" where
  "file_logAccess pm timeStr ctx = sink_write pm (form_formatAccess timeStr ctx)"

section \<open>The generations of a log file\<close>

definition slot :: "string \<Rightarrow> nat \<Rightarrow> string" where
  "slot base i = (if i = 0 then base else backup base i)"

definition allowed :: "Perms \<Rightarrow> bool" where
  "allowed pm \<longleftrightarrow> pm_open pm = (\<lambda>_. True) \<and> pm_remove pm = (\<lambda>_. True) \<and> pm_rename pm = (\<lambda>_. True)"

text \<open>A disk on which two names never share an inode and the next inode is unused.\<close>

definition disk_ok :: "Disk \<Rightarrow> bool" where
  "disk_ok d \<longleftrightarrow> (\<forall>p i. dk_names d p = Some i \<longrightarrow> i < dk_next d) \<and>
     (\<forall>p q i. dk_names d p = Some i \<longrightarrow> dk_names d q = Some i \<longrightarrow> p = q)"

lemma show_nat_inj [simp]: "show_nat i = show_nat j \<longleftrightarrow> i = j"
  by (metis dec_val_show_nat)

lemma slot_inj [simp]: "slot base i = slot base j \<longleftrightarrow> i = j"
  by (auto simp: slot_def backup_def)

lemma slot_0: "slot base 0 = base"
  by (simp add: slot_def)

lemma backup_slot: "0 < i \<Longrightarrow> backup base i = slot base i"
  by (simp add: slot_def)

lemma remove_names [simp]: "allowed pm \<Longrightarrow> dk_names (remove_if_there pm path d) = (dk_names d)(path := None)"
  by (auto simp: remove_if_there_def file_remove_def file_exists_def allowed_def)

lemma rename_names:
  "allowed pm \<Longrightarrow> dk_names d new = None \<Longrightarrow> new \<noteq> old \<Longrightarrow>
   dk_names (if file_exists old d then file_rename pm old new d else d) = (dk_names d)(new := dk_names d old, old := None)"
  by (auto simp: file_rename_def file_exists_def allowed_def)

lemma rename_data [simp]:
  "dk_data (file_rename pm old new d) = dk_data d" "dk_next (file_rename pm old new d) = dk_next d"
  "dk_data (remove_if_there pm path d) = dk_data d" "dk_next (remove_if_there pm path d) = dk_next d"
  by (simp_all add: file_rename_def remove_if_there_def file_remove_def)

lemma shift_data [simp]:
  "dk_data (shift_backups pm base k d) = dk_data d" "dk_next (shift_backups pm base k d) = dk_next d"
  by (induction k arbitrary: d) (simp_all add: Let_def)

lemma rotate_data [simp]:
  "dk_data (rotate_files pm base n d) = dk_data d" "dk_next (rotate_files pm base n d) = dk_next d"
  by (simp_all add: rotate_files_def Let_def)

lemma shift_slot:
  assumes "allowed pm" "dk_names d (slot base (Suc k)) = None"
  shows "dk_names (shift_backups pm base k d) (slot base j) =
    (if j = 0 \<or> Suc k < j then dk_names d (slot base j)
     else if j = 1 then None else dk_names d (slot base (j - 1)))"
  using assms(2)
proof (induction k arbitrary: d)
  case 0
  then show ?case by (cases "j = 1") auto
next
  case (Suc k)
  let ?d = "if file_exists (backup base (Suc k)) d
    then file_rename pm (backup base (Suc k)) (backup base (Suc (Suc k))) d else d"
  have names: "dk_names ?d = (dk_names d)(slot base (Suc (Suc k)) := dk_names d (slot base (Suc k)),
      slot base (Suc k) := None)"
    unfolding backup_slot [OF zero_less_Suc] by (rule rename_names [OF assms(1) Suc.prems]) simp
  then have "dk_names ?d (slot base (Suc k)) = None" by simp
  from Suc.IH [OF this] names show ?case by (auto simp: Let_def)
qed

lemma shift_other:
  "\<forall>j. p \<noteq> slot base j \<Longrightarrow> dk_names (shift_backups pm base k d) p = dk_names d p"
  by (induction k arbitrary: d) (auto simp: Let_def file_rename_def backup_slot)

lemma rotate_slot:
  assumes "allowed pm"
  shows "dk_names (rotate_files pm base n d) (slot base j) =
    (if j = 0 then None else if unat n < j then dk_names d (slot base j) else dk_names d (slot base (j - 1)))"
proof (cases "n = 0")
  case True
  then show ?thesis using assms slot_inj [of base j 0] by (simp add: rotate_files_def slot_0 del: slot_inj)
next
  case False
  then obtain k where k: "unat n = Suc k" by (metis not0_implies_Suc unat_eq_zero)
  then have k': "unat (n - 1) = k" using False by (simp add: unat_minus_one)
  let ?d1 = "remove_if_there pm (slot base (Suc k)) d"
  let ?d2 = "shift_backups pm base k ?d1"
  have s: "dk_names ?d2 (slot base i) = (if i = 0 \<or> Suc k < i then dk_names ?d1 (slot base i)
     else if i = 1 then None else dk_names ?d1 (slot base (i - 1)))" for i
    by (rule shift_slot [OF assms]) (simp add: assms)
  have "rotate_files pm base n d =
      (if file_exists (slot base 0) ?d2 then file_rename pm (slot base 0) (slot base 1) ?d2 else ?d2)"
    using False k k' by (simp add: rotate_files_def Let_def backup_slot slot_0)
  moreover have "dk_names ?d2 (slot base 1) = None" using s [of 1] by simp
  ultimately have "dk_names (rotate_files pm base n d) =
      (dk_names ?d2)(slot base 1 := dk_names ?d2 (slot base 0), slot base 0 := None)"
    using rename_names [OF assms, of ?d2 "slot base 1" "slot base 0"] by simp
  then show ?thesis using s [of j] s [of 0] k assms by auto
qed

lemma rotate_other:
  assumes "allowed pm" "\<forall>j. p \<noteq> slot base j"
  shows "dk_names (rotate_files pm base n d) p = dk_names d p"
proof -
  have "p \<noteq> base" using assms(2)[rule_format, of 0] by (simp add: slot_0)
  moreover have "p \<noteq> backup base j" if "0 < j" for j
    using assms(2) that by (simp add: backup_slot)
  ultimately show ?thesis
    using shift_other [OF assms(2)] assms(1) by (simp add: rotate_files_def Let_def file_rename_def word_greater_zero_iff unat_gt_0)
qed


lemma disk_ok_remove: "disk_ok d \<Longrightarrow> disk_ok (remove_if_there pm path d)"
  by (auto simp: disk_ok_def remove_if_there_def file_remove_def split: if_splits)

lemma disk_ok_rename: "disk_ok d \<Longrightarrow> disk_ok (file_rename pm old new d)"
  unfolding disk_ok_def file_rename_def by (auto split: if_splits)

lemma disk_ok_shift: "disk_ok d \<Longrightarrow> disk_ok (shift_backups pm base k d)"
  by (induction k arbitrary: d) (simp_all add: Let_def disk_ok_rename)

lemma disk_ok_rotate: "disk_ok d \<Longrightarrow> disk_ok (rotate_files pm base n d)"
  by (simp add: rotate_files_def Let_def disk_ok_remove disk_ok_rename disk_ok_shift)

lemma disk_ok_open: "disk_ok d \<Longrightarrow> disk_ok (snd (open_append pm path d))"
  unfolding disk_ok_def open_append_def by (auto intro: less_SucI split: option.split if_splits)

definition synced :: "FileSink \<Rightarrow> Disk \<Rightarrow> bool" where
  "synced fs d \<longleftrightarrow> disk_ok d \<and> fs_stream fs \<noteq> None \<and> dk_names d (fs_path fs) = fs_stream fs"

definition generations :: "FileSink \<Rightarrow> Disk \<Rightarrow> string option list" where
  "generations fs d = map (\<lambda>i. contents d (slot (fs_path fs) i)) [0..<Suc (unat (fs_maxBackupFiles fs))]"

definition own_names :: "FileSink \<Rightarrow> string set" where
  "own_names fs = slot (fs_path fs) ` {0..unat (fs_maxBackupFiles fs)}"

lemma contents_data: "dk_data d = dk_data e \<Longrightarrow> dk_names d p = dk_names e q \<Longrightarrow> contents d p = contents e q"
  by (simp add: contents_def)

lemma generations_Cons:
  "generations fs d = contents d (fs_path fs) #
     map (\<lambda>i. contents d (slot (fs_path fs) (Suc i))) [0..<unat (fs_maxBackupFiles fs)]"
  by (simp add: generations_def map_upt_Suc slot_0 del: upt_Suc)

lemma generations_butlast:
  "butlast (generations fs d) = map (\<lambda>i. contents d (slot (fs_path fs) i)) [0..<unat (fs_maxBackupFiles fs)]"
  by (simp add: generations_def)

text \<open>A rotation is a shift of the generations of the file.  When the system allows its steps, the
  file is empty again and open, each backup takes the place of the next older one whether or not
  all of them are there, the oldest is gone, and no other file is touched.\<close>

theorem rotate_shifts:
  assumes "allowed pm" "disk_ok d"
  shows "\<exists>fs' d'. sink_rotate pm fs d = (None, fs', d') \<and> synced fs' d' \<and>
    generations fs' d' = Some [] # butlast (generations fs d) \<and>
    (\<forall>p. p \<notin> own_names fs \<longrightarrow> contents d' p = contents d p)"
proof -
  let ?base = "fs_path fs" and ?n = "fs_maxBackupFiles fs"
  define d1 where "d1 = rotate_files pm ?base ?n d"
  define d2 where "d2 = \<lparr>dk_names = (dk_names d1)(?base \<mapsto> dk_next d1), dk_data = (dk_data d1)(dk_next d1 := []),
           dk_next = dk_next d1 + 1\<rparr>"
  let ?fs = "fs\<lparr>fs_stream := Some (dk_next d1)\<rparr>"
  have slots: "dk_names d1 (slot ?base j) =
      (if j = 0 then None else if unat ?n < j then dk_names d (slot ?base j) else dk_names d (slot ?base (j - 1)))" for j
    unfolding d1_def by (rule rotate_slot [OF assms(1)])
  then have base: "dk_names d1 ?base = None" by (metis slot_0)
  have op: "open_append pm ?base d1 = (Some (dk_next d1), d2)"
    using assms(1) base by (simp add: open_append_def allowed_def d2_def)
  have ok1: "disk_ok d1" unfolding d1_def by (rule disk_ok_rotate [OF assms(2)])
  have ok2: "disk_ok d2" using disk_ok_open [OF ok1, of pm ?base] op by simp
  have same: "contents d2 p = contents d1 p" if "p \<noteq> ?base" for p
    using ok1 that by (cases "dk_names d1 p") (auto simp: contents_def d2_def disk_ok_def)
  have data: "dk_data d1 = dk_data d" by (simp add: d1_def)
  have later: "contents d2 (slot ?base (Suc i)) = contents d (slot ?base i)" if "i < unat ?n" for i
  proof -
    have "slot ?base (Suc i) \<noteq> ?base" using slot_inj [of ?base "Suc i" 0] by (simp add: slot_0)
    then show ?thesis using same slots [of "Suc i"] that contents_data [OF data] by auto
  qed
  have "fs_path ?fs = ?base" by (simp add: fs_path_def)
  moreover have "contents d2 ?base = Some []" by (simp add: contents_def d2_def)
  ultimately have "generations ?fs d2 = Some [] # butlast (generations fs d)"
    using later by (simp add: generations_Cons [of ?fs] generations_butlast)
  moreover have "contents d2 p = contents d p" if "p \<notin> own_names fs" for p
  proof -
    have p: "\<forall>j \<le> unat ?n. p \<noteq> slot ?base j" using that by (auto simp: own_names_def)
    then have "p \<noteq> ?base" using slot_0 by (metis zero_le)
    moreover have "dk_names d1 p = dk_names d p"
    proof (cases "\<exists>j. p = slot ?base j")
      case True
      then show ?thesis using p slots by (metis not_le_imp_less le0)
    next
      case False
      then show ?thesis unfolding d1_def using rotate_other [OF assms(1)] by blast
    qed
    ultimately show ?thesis using same contents_data [OF data] by simp
  qed
  moreover have "sink_rotate pm fs d = (None, ?fs, d2)"
    using op by (simp add: sink_rotate_def d1_def)
  moreover have "synced ?fs d2"
    using ok2 by (simp add: synced_def fs_path_def) (simp add: d2_def fs_path_def)
  ultimately show ?thesis by blast
qed


text \<open>All that the file and its backups hold, the oldest first.\<close>

definition history :: "FileSink \<Rightarrow> Disk \<Rightarrow> string" where
  "history fs d = concat (map (\<lambda>g. case g of Some s \<Rightarrow> s | None \<Rightarrow> []) (rev (generations fs d)))"

lemma history_butlast:
  "history fs d = (case last (generations fs d) of Some s \<Rightarrow> s | None \<Rightarrow> []) @
     concat (map (\<lambda>g. case g of Some s \<Rightarrow> s | None \<Rightarrow> []) (rev (butlast (generations fs d))))"
proof -
  have "generations fs d \<noteq> []" by (simp add: generations_Cons)
  then have "rev (generations fs d) = last (generations fs d) # rev (butlast (generations fs d))"
    by (cases "generations fs d" rule: rev_cases) simp_all
  then show ?thesis by (simp only: history_def list.map(2) concat.simps(2))
qed

lemma append_synced:
  assumes "synced fs d" "fs_stream fs = Some i"
  shows "synced fs (append_to i s d)"
    "contents (append_to i s d) (fs_path fs) = Some (dk_data d i @ s)"
    "p \<noteq> fs_path fs \<Longrightarrow> contents (append_to i s d) p = contents d p"
    "history fs (append_to i s d) = history fs d @ s"
proof -
  have n: "dk_names d (fs_path fs) = Some i" and ok: "disk_ok d" using assms by (auto simp: synced_def)
  show "synced fs (append_to i s d)" using assms by (simp add: synced_def append_to_def disk_ok_def)
  have g: "contents d (fs_path fs) = Some (dk_data d i)" using n by (simp add: contents_def)
  show g': "contents (append_to i s d) (fs_path fs) = Some (dk_data d i @ s)"
    using n by (simp add: contents_def append_to_def)
  have other: "contents (append_to i s d) p = contents d p" if "p \<noteq> fs_path fs" for p
    using n ok that by (cases "dk_names d p") (auto simp: contents_def append_to_def disk_ok_def)
  then show "p \<noteq> fs_path fs \<Longrightarrow> contents (append_to i s d) p = contents d p" .
  have "contents (append_to i s d) (slot (fs_path fs) (Suc k)) = contents d (slot (fs_path fs) (Suc k))" for k
    using other slot_inj [of "fs_path fs" "Suc k" 0] by (simp add: slot_0)
  then show "history fs (append_to i s d) = history fs d @ s"
    using g g' by (simp add: history_def generations_Cons)
qed



text \<open>A log of ten bytes with two backups, the first of them missing.\<close>

definition sample_sink :: FileSink where
  "sample_sink =
     \<lparr>fs_dir = ''l'', fs_fileName = ''a'', fs_stream = Some 0, fs_maxFileSize = 10,
      fs_maxBackupFiles = 2, fs_form = JsonForm\<rparr>"

definition sample_disk :: Disk where
  "sample_disk = \<lparr>dk_names = [''l/a'' \<mapsto> 0, ''l/a.2'' \<mapsto> 1], dk_data = (\<lambda>_. ''old'')(0 := ''12345''), dk_next = 2\<rparr>"

definition all_allowed :: Perms where
  "all_allowed = \<lparr>pm_open = \<lambda>_. True, pm_remove = \<lambda>_. True, pm_rename = \<lambda>_. True\<rparr>"

lemma sample_synced: "synced sample_sink sample_disk" "allowed all_allowed"
  by (auto simp: synced_def disk_ok_def sample_sink_def sample_disk_def fs_path_def allowed_def all_allowed_def
      split: if_splits)

theorem rotate_shifts_witness:
  "\<exists>fs' d'. sink_rotate all_allowed sample_sink sample_disk = (None, fs', d') \<and> synced fs' d' \<and>
    generations fs' d' = Some [] # butlast (generations sample_sink sample_disk) \<and>
    (\<forall>p. p \<notin> own_names sample_sink \<longrightarrow> contents d' p = contents sample_disk p)"
  using rotate_shifts [OF sample_synced(2), of sample_disk sample_sink] sample_synced(1)
  by (simp add: synced_def)


section \<open>The loggers\<close>

datatype LogSink = FileLog FileSink | ConsoleLog LogForm

text \<open>A logger owns its sinks; \<open>_sinksByLevel\<close> points to them by their position.\<close>

record Logger =
  lo_logDir :: string
  lo_sinksByLevel :: "LogLevel \<Rightarrow> nat list"
  lo_ownedSinks :: "LogSink list"
  lo_activeLevelsMask :: "32 word"

record AccessLogger =
  ac_logDir :: string
  ac_sinks :: "LogSink list"

text \<open>What logging changes outside: the disk, and what went to the standard output.\<close>

record LogWorld =
  lw_disk :: Disk
  lw_out :: string

fun level_no :: "LogLevel \<Rightarrow> nat" where
  "level_no DEBUG = 0"
| "level_no INFO = 1"
| "level_no WARNING = 2"
| "level_no ERROR = 3"
| "level_no FATAL = 4"

definition all_levels :: "LogLevel list" where
  "all_levels = [DEBUG, INFO, WARNING, ERROR, FATAL]"

definition start_dir :: "(string \<Rightarrow> bool) \<Rightarrow> string" where
  "start_dir is_dir = (if is_dir ''./logs/'' then ''./logs/'' else ''./'')"

definition new_Logger :: "(string \<Rightarrow> bool) \<Rightarrow> Logger" where
  "new_Logger is_dir =
     \<lparr>lo_logDir = start_dir is_dir, lo_sinksByLevel = (\<lambda>_. []), lo_ownedSinks = [],
      lo_activeLevelsMask = 0\<rparr>"

definition new_AccessLogger :: "(string \<Rightarrow> bool) \<Rightarrow> AccessLogger" where
  "new_AccessLogger is_dir = \<lparr>ac_logDir = start_dir is_dir, ac_sinks = []\<rparr>"

text \<open>\<open>setLogDir\<close> keeps the directory it has when the new one is not a directory.\<close>

definition lo_setLogDir :: "(string \<Rightarrow> bool) \<Rightarrow> string \<Rightarrow> Logger \<Rightarrow> Logger" where
  "lo_setLogDir is_dir dir lo = (if is_dir dir then lo\<lparr>lo_logDir := dir\<rparr> else lo)"

definition ac_setLogDir :: "(string \<Rightarrow> bool) \<Rightarrow> string \<Rightarrow> AccessLogger \<Rightarrow> AccessLogger" where
  "ac_setLogDir is_dir dir al = (if is_dir dir then al\<lparr>ac_logDir := dir\<rparr> else al)"

definition updateActiveLevelsMask :: "Logger \<Rightarrow> Logger" where
  "updateActiveLevelsMask lo =
     lo\<lparr>lo_activeLevelsMask :=
       fold (\<lambda>l m. if lo_sinksByLevel lo l \<noteq> [] then or m (push_bit (level_no l) 1) else m) all_levels 0\<rparr>"

definition push_sink :: "nat \<Rightarrow> LogLevel \<Rightarrow> Logger \<Rightarrow> Logger" where
  "push_sink k l lo = lo\<lparr>lo_sinksByLevel := (lo_sinksByLevel lo)(l := lo_sinksByLevel lo l @ [k])\<rparr>"

definition lo_addSink :: "LogLevel \<Rightarrow> LogFilterMode \<Rightarrow> LogSink \<Rightarrow> Logger \<Rightarrow> Logger" where
  "lo_addSink level mode sink lo =
     (let k = length (lo_ownedSinks lo);
          lo1 = lo\<lparr>lo_ownedSinks := lo_ownedSinks lo @ [sink]\<rparr>;
          lo2 = (if mode = GREATER_OR_EQUAL
                 then fold (push_sink k) (drop (level_no level) all_levels) lo1
                 else push_sink k level lo1)
      in updateActiveLevelsMask lo2)"

definition isLogLevelActive :: "LogLevel \<Rightarrow> Logger \<Rightarrow> bool" where
  "isLogLevelActive level lo = (and (drop_bit (level_no level) (lo_activeLevelsMask lo)) 1 \<noteq> 0)"

text \<open>
  \<open>setSinkFile\<close>: when the constructor of \<open>FileSink\<close> throws, the base class has already deleted the
  form, and the handler deletes it again.
\<close>

definition lo_setSinkFile ::
  "Perms \<Rightarrow> string \<Rightarrow> string \<Rightarrow> LogFormat \<Rightarrow> LogLevel \<Rightarrow> LogFilterMode \<Rightarrow> size_t \<Rightarrow> size_t \<Rightarrow>
     Logger \<Rightarrow> LogWorld \<Rightarrow> (Logger \<times> LogWorld) option" where
  "lo_setSinkFile pm logDir filename eFormat level mode maxFileSize maxBackupFiles lo w =
     (case new_FileSink pm logDir filename (new_form eFormat) maxFileSize maxBackupFiles (lw_disk w) of
        (None, _) \<Rightarrow> None
      | (Some fs, d) \<Rightarrow> Some (lo_addSink level mode (FileLog fs) lo, w\<lparr>lw_disk := d\<rparr>))"

definition lo_setSinkFile_here ::
  "Perms \<Rightarrow> string \<Rightarrow> LogFormat \<Rightarrow> LogLevel \<Rightarrow> LogFilterMode \<Rightarrow> size_t \<Rightarrow> size_t \<Rightarrow>
     Logger \<Rightarrow> LogWorld \<Rightarrow> (Logger \<times> LogWorld) option" where
  "lo_setSinkFile_here pm filename eFormat level mode maxFileSize maxBackupFiles lo w =
     (case new_FileSink pm (lo_logDir lo) filename (new_form eFormat) maxFileSize maxBackupFiles (lw_disk w) of
        (None, _) \<Rightarrow> None
      | (Some fs, d) \<Rightarrow> Some (lo_addSink level mode (FileLog fs) lo, w\<lparr>lw_disk := d\<rparr>))"

definition lo_setSinkConsole :: "LogFormat \<Rightarrow> LogLevel \<Rightarrow> LogFilterMode \<Rightarrow> Logger \<Rightarrow> Logger" where
  "lo_setSinkConsole eFormat level mode lo = lo_addSink level mode (ConsoleLog (new_form eFormat)) lo"

definition ac_addSink :: "LogSink \<Rightarrow> AccessLogger \<Rightarrow> AccessLogger" where
  "ac_addSink sink al = al\<lparr>ac_sinks := ac_sinks al @ [sink]\<rparr>"

definition ac_setSinkFile ::
  "Perms \<Rightarrow> string \<Rightarrow> string \<Rightarrow> LogFormat \<Rightarrow> size_t \<Rightarrow> size_t \<Rightarrow> AccessLogger \<Rightarrow> LogWorld \<Rightarrow>
     (AccessLogger \<times> LogWorld) option" where
  "ac_setSinkFile pm logDir filename eFormat maxFileSize maxBackupFiles al w =
     (case new_FileSink pm logDir filename (new_form eFormat) maxFileSize maxBackupFiles (lw_disk w) of
        (None, _) \<Rightarrow> None
      | (Some fs, d) \<Rightarrow> Some (ac_addSink (FileLog fs) al, w\<lparr>lw_disk := d\<rparr>))"

definition ac_setSinkFile_here ::
  "Perms \<Rightarrow> string \<Rightarrow> LogFormat \<Rightarrow> size_t \<Rightarrow> size_t \<Rightarrow> AccessLogger \<Rightarrow> LogWorld \<Rightarrow>
     (AccessLogger \<times> LogWorld) option" where
  "ac_setSinkFile_here pm filename eFormat maxFileSize maxBackupFiles al w =
     (case new_FileSink pm (ac_logDir al) filename (new_form eFormat) maxFileSize maxBackupFiles (lw_disk w) of
        (None, _) \<Rightarrow> None
      | (Some fs, d) \<Rightarrow> Some (ac_addSink (FileLog fs) al, w\<lparr>lw_disk := d\<rparr>))"

definition ac_setSinkConsole :: "LogFormat \<Rightarrow> AccessLogger \<Rightarrow> AccessLogger" where
  "ac_setSinkConsole eFormat al = ac_addSink (ConsoleLog (new_form eFormat)) al"

text \<open>One sink writes one line; a failing one is reported and does not stop the others.\<close>

fun sink_log :: "Perms \<Rightarrow> LogMessage \<Rightarrow> LogSink \<Rightarrow> LogWorld \<Rightarrow> LogSink \<times> LogWorld" where
  "sink_log pm msg (FileLog fs) w =
     (case file_log pm msg fs (lw_disk w) of (_, fs', d) \<Rightarrow> (FileLog fs', w\<lparr>lw_disk := d\<rparr>))"
| "sink_log pm msg (ConsoleLog form) w =
     (case form_format msg form of (s, form') \<Rightarrow> (ConsoleLog form', w\<lparr>lw_out := lw_out w @ s @ [LF]\<rparr>))"

fun sink_logAccess ::
  "Perms \<Rightarrow> string \<Rightarrow> AccessLogContext \<Rightarrow> LogSink \<Rightarrow> LogWorld \<Rightarrow> LogSink \<times> LogWorld" where
  "sink_logAccess pm timeStr ctx (FileLog fs) w =
     (case file_logAccess pm timeStr ctx fs (lw_disk w) of (_, fs', d) \<Rightarrow> (FileLog fs', w\<lparr>lw_disk := d\<rparr>))"
| "sink_logAccess pm timeStr ctx (ConsoleLog form) w =
     (case form_formatAccess timeStr ctx form of
        (s, form') \<Rightarrow> (ConsoleLog form', w\<lparr>lw_out := lw_out w @ s @ [LF]\<rparr>))"

fun log_sinks :: "Perms \<Rightarrow> LogMessage \<Rightarrow> nat list \<Rightarrow> LogSink list \<Rightarrow> LogWorld \<Rightarrow> LogSink list \<times> LogWorld" where
  "log_sinks pm msg [] owned w = (owned, w)"
| "log_sinks pm msg (k # ks) owned w =
     (case sink_log pm msg (owned ! k) w of (sink, w') \<Rightarrow> log_sinks pm msg ks (owned[k := sink]) w')"

definition lo_log :: "Perms \<Rightarrow> LogMessage \<Rightarrow> Logger \<Rightarrow> LogWorld \<Rightarrow> Logger \<times> LogWorld" where
  "lo_log pm msg lo w =
     (case log_sinks pm msg (lo_sinksByLevel lo (lm_level msg)) (lo_ownedSinks lo) w of
        (owned, w') \<Rightarrow> (lo\<lparr>lo_ownedSinks := owned\<rparr>, w'))"

fun ac_log_sinks ::
  "Perms \<Rightarrow> string \<Rightarrow> AccessLogContext \<Rightarrow> LogSink list \<Rightarrow> LogWorld \<Rightarrow> LogSink list \<times> LogWorld" where
  "ac_log_sinks pm timeStr ctx [] w = ([], w)"
| "ac_log_sinks pm timeStr ctx (s # ss) w =
     (case sink_logAccess pm timeStr ctx s w of
        (s', w') \<Rightarrow> (case ac_log_sinks pm timeStr ctx ss w' of (ss', w'') \<Rightarrow> (s' # ss', w'')))"

definition ac_log :: "Perms \<Rightarrow> string \<Rightarrow> AccessLogContext \<Rightarrow> AccessLogger \<Rightarrow> LogWorld \<Rightarrow> AccessLogger \<times> LogWorld" where
  "ac_log pm timeStr ctx al w =
     (case ac_log_sinks pm timeStr ctx (ac_sinks al) w of (ss, w') \<Rightarrow> (al\<lparr>ac_sinks := ss\<rparr>, w'))"

definition ac_log_request ::
  "Perms \<Rightarrow> TimeCache \<Rightarrow> HttpRequest \<Rightarrow> HttpResponse \<Rightarrow> string \<Rightarrow> int \<Rightarrow> string \<Rightarrow> AccessLogger \<Rightarrow>
     LogWorld \<Rightarrow> AccessLogger \<times> LogWorld" where
  "ac_log_request pm tc req res remote_addr client_port session_id al w =
     ac_log pm (tc_UtcTimestamp tc)
       \<lparr>al_utcTimestamp = tc_UtcTimestamp tc, al_isoTimestamp = tc_IsoTimestamp tc,
        al_request = Some req, al_response = Some res, al_remote_addr = remote_addr,
        al_client_port = client_port, al_session_id = session_id\<rparr> al w"

text \<open>The statement \<open>LOG(level) << ...\<close>: a message is built only for an active level and is logged
  when its builder is destroyed.\<close>

definition new_message :: "TimeCache \<Rightarrow> LogLevel \<Rightarrow> string \<Rightarrow> int \<Rightarrow> string \<Rightarrow> LogMessage" where
  "new_message tc level file line func =
     \<lparr>lm_localDate = tc_LocalDate tc, lm_localTime = tc_LocalTime tc, lm_level = level, lm_message = [],
      lm_file = file, lm_line = line, lm_function = func, lm_attributes = []\<rparr>"

definition put_attr :: "string \<Rightarrow> string \<Rightarrow> LogMessage \<Rightarrow> LogMessage" where
  "put_attr key v msg = msg\<lparr>lm_attributes := om_set key v (lm_attributes msg)\<rparr>"

definition LOG ::
  "Perms \<Rightarrow> LogLevel \<Rightarrow> (LogMessage \<Rightarrow> LogMessage) \<Rightarrow> string \<Rightarrow> LogMessage \<Rightarrow> Logger \<Rightarrow> LogWorld \<Rightarrow> Logger \<times> LogWorld" where
  "LOG pm level attrs ss msg lo w =
     (if isLogLevelActive level lo then lo_log pm ((attrs msg)\<lparr>lm_message := ss\<rparr>) lo w else (lo, w))"

section \<open>Building the loggers from a configuration\<close>

definition isAccessLoggingDisabled :: "AccessLog list \<Rightarrow> bool" where
  "isAccessLoggingDisabled logs = list_ex lg_isDisable logs"

definition isErrorLoggingDisabled :: "ErrorLog list \<Rightarrow> bool" where
  "isErrorLoggingDisabled logs = list_ex lg_isDisable logs"

fun setup_access :: "Perms \<Rightarrow> AccessLog list \<Rightarrow> AccessLogger \<Rightarrow> LogWorld \<Rightarrow> (AccessLogger \<times> LogWorld) option" where
  "setup_access pm [] al w = Some (al, w)"
| "setup_access pm (g # gs) al w =
     (if lg_sink g = File then
        (case ac_setSinkFile pm (lg_logDir g) (lg_filename g) (lg_format g) (lg_maxFileSize g)
                (lg_maxBackupFiles g) al w of
           None \<Rightarrow> None | Some (al', w') \<Rightarrow> setup_access pm gs al' w')
      else setup_access pm gs (ac_setSinkConsole (lg_format g) al) w)"

fun setup_error :: "Perms \<Rightarrow> ErrorLog list \<Rightarrow> Logger \<Rightarrow> LogWorld \<Rightarrow> (Logger \<times> LogWorld) option" where
  "setup_error pm [] lo w = Some (lo, w)"
| "setup_error pm (g # gs) lo w =
     (if lg_sink g = File then
        (case lo_setSinkFile pm (lg_logDir g) (lg_filename g) (lg_format g) (el_level g) (el_filterMode g)
                (lg_maxFileSize g) (lg_maxBackupFiles g) lo w of
           None \<Rightarrow> None | Some (lo', w') \<Rightarrow> setup_error pm gs lo' w')
      else setup_error pm gs (lo_setSinkConsole (lg_format g) (el_level g) (el_filterMode g) lo) w)"

definition setupLoggers ::
  "Perms \<Rightarrow> Config \<Rightarrow> AccessLogger \<Rightarrow> Logger \<Rightarrow> LogWorld \<Rightarrow> (AccessLogger \<times> Logger \<times> LogWorld) option" where
  "setupLoggers pm config al lo w =
     (case if isAccessLoggingDisabled (cfg_accessLogs config) then Some (al, w)
           else setup_access pm (cfg_accessLogs config) al w of
        None \<Rightarrow> None
      | Some (al1, w1) \<Rightarrow>
          (case if isErrorLoggingDisabled (cfg_errorLogs config) then Some (lo, w1)
                else setup_error pm (cfg_errorLogs config) lo w1 of
             None \<Rightarrow> None | Some (lo1, w2) \<Rightarrow> Some (al1, lo1, w2)))"

section \<open>Levels\<close>

definition wanted :: "LogLevel \<Rightarrow> LogLevel \<times> LogFilterMode \<times> LogSink \<Rightarrow> bool" where
  "wanted l a = (case a of (level, mode, _) \<Rightarrow>
     if mode = GREATER_OR_EQUAL then level_no level \<le> level_no l else l = level)"

definition add_sinks :: "(LogLevel \<times> LogFilterMode \<times> LogSink) list \<Rightarrow> Logger \<Rightarrow> Logger" where
  "add_sinks adds = fold (\<lambda>(level, mode, sink). lo_addSink level mode sink) adds"

lemma and_drop_bit_one: "(and (drop_bit n w) 1 \<noteq> (0 :: 32 word)) = bit w n"
  by (simp add: and_one_eq bit_iff_odd_drop_bit odd_iff_mod_2_eq_one)

lemma mask_update: "isLogLevelActive l (updateActiveLevelsMask lo) \<longleftrightarrow> lo_sinksByLevel lo l \<noteq> []"
  unfolding isLogLevelActive_def and_drop_bit_one
  by (cases l) (simp_all add: updateActiveLevelsMask_def all_levels_def bit_or_iff bit_push_bit_iff bit_1_iff)

lemma push_sink_other [simp]:
  "lo_ownedSinks (push_sink k l lo) = lo_ownedSinks lo"
  "lo_ownedSinks (fold (push_sink k) ls lo) = lo_ownedSinks lo"
  "lo_ownedSinks (updateActiveLevelsMask lo) = lo_ownedSinks lo"
  "lo_sinksByLevel (updateActiveLevelsMask lo) = lo_sinksByLevel lo"
  by (simp_all add: push_sink_def updateActiveLevelsMask_def)
    (induction ls arbitrary: lo; simp add: push_sink_def)

lemma push_all:
  "distinct ls \<Longrightarrow> lo_sinksByLevel (fold (push_sink k) ls lo) l =
     lo_sinksByLevel lo l @ (if l \<in> set ls then [k] else [])"
  by (induction ls arbitrary: lo) (auto simp: push_sink_def)

lemma levels_from: "l \<in> set (drop (level_no level) all_levels) \<longleftrightarrow> level_no level \<le> level_no l"
  by (cases level; cases l) (simp_all add: all_levels_def)

lemma addSink_byLevel:
  "lo_sinksByLevel (lo_addSink level mode sink lo) l =
     lo_sinksByLevel lo l @ (if wanted l (level, mode, sink) then [length (lo_ownedSinks lo)] else [])"
  "lo_ownedSinks (lo_addSink level mode sink lo) = lo_ownedSinks lo @ [sink]"
proof -
  have "distinct (drop (level_no level) all_levels)" by (simp add: all_levels_def distinct_drop)
  then show "lo_sinksByLevel (lo_addSink level mode sink lo) l =
     lo_sinksByLevel lo l @ (if wanted l (level, mode, sink) then [length (lo_ownedSinks lo)] else [])"
    by (simp add: lo_addSink_def Let_def push_all levels_from wanted_def) (simp add: push_sink_def)
  show "lo_ownedSinks (lo_addSink level mode sink lo) = lo_ownedSinks lo @ [sink]"
    by (simp add: lo_addSink_def Let_def)
qed


text \<open>A log file that cannot be opened: the form is deleted twice while the exception passes.\<close>

lemma unopenable_log_undefined:
  assumes "\<not> pm_open pm (lg_logDir g @ ''/'' @ lg_filename g)" "lg_sink g = File"
  shows "setup_access pm (g # gs) al w = None"
  using assms by (simp add: ac_setSinkFile_def new_FileSink_def open_append_def)

text \<open>A logger without sinks builds no message: logging is off until the configuration is read.\<close>

lemma silent_logger: "LOG pm level attrs ss msg (new_Logger is_dir) w = (new_Logger is_dir, w)"
  by (simp add: LOG_def isLogLevelActive_def new_Logger_def)


text \<open>A request line may hold a bare line feed: only CR LF ends it.  With \<open>elf_line_forged\<close> the client
  writes a line of its own into the access log.\<close>

lemma line_feed_in_path:
  "parse_line req (''GET /'' @ LF # ''forged'' @ LF # '' HTTP/1.1'') =
     Inr (req\<lparr>rq_method := ''GET'', rq_version := ''HTTP/1.1'', rq_path := ''/'' @ LF # ''forged'' @ [LF]\<rparr>, None)"
  by (simp add: parse_line_def find_char_def substr_def)

section \<open>The address that is printed for a client\<close>

text \<open>\<open>makeClientIp\<close> of \<open>src/Server/Server.cpp\<close>: the four bytes in dotted form, cut to the buffer; a
  buffer of \<open>INET_ADDRSTRLEN\<close> is 16, which is enough.\<close>

definition makeClientIp :: "nat \<Rightarrow> 8 word \<Rightarrow> 8 word \<Rightarrow> 8 word \<Rightarrow> 8 word \<Rightarrow> string" where
  "makeClientIp n a b c d =
     take (n - 1) (show_nat (unat a) @ ''.'' @ show_nat (unat b) @ ''.'' @ show_nat (unat c) @ ''.'' @
       show_nat (unat d))"

lemma length_show_nat_1: "n < 10 \<Longrightarrow> length (show_nat n) = 1"
  by (simp add: show_nat.simps [of n])

lemma length_show_nat_step: "length (show_nat n) \<le> Suc (length (show_nat (n div 10)))"
  by (subst show_nat.simps) simp

lemma show_nat_byte: "length (show_nat (unat (b :: 8 word))) \<le> 3"
proof -
  have "unat b < 256" using unsigned_less [of b] by simp
  then have "length (show_nat (unat b div 10 div 10)) = 1" by (intro length_show_nat_1) simp
  then show ?thesis
    using length_show_nat_step [of "unat b"] length_show_nat_step [of "unat b div 10"] by simp
qed

lemma client_ip_not_cut:
  "makeClientIp 16 a b c d =
     show_nat (unat a) @ ''.'' @ show_nat (unat b) @ ''.'' @ show_nat (unat c) @ ''.'' @ show_nat (unat d)"
  using show_nat_byte [of a] show_nat_byte [of b] show_nat_byte [of c] show_nat_byte [of d]
  by (simp add: makeClientIp_def)

end
