(* ===== verification/Program.thy ===== *)
theory Program
  imports Startup ConfigParse
begin

text \<open>
  \<open>src/main.cpp\<close> and \<open>src/Lib/Message/Help.cpp\<close>: from the arguments of the process to a server that
  runs, and to the exit status.  The turns of the server are an argument, as they are in
  \<open>ServerLoop\<close>; each is made with the imported configurations as the virtual servers.
\<close>

section \<open>What is printed\<close>

definition SOFTWARE_NAME :: string where "SOFTWARE_NAME = ''Webserv/42''"

definition VERSION :: string where "VERSION = ''0.9''"

text \<open>\<open>Fatal\<close> is the line with \<open>what()\<close> of the exception, whose text the model does not have.\<close>

datatype printed = Cout string | Cerr string | Fatal exn

definition endl :: string where "endl = [LF]"

definition printUsage :: "string \<Rightarrow> printed list" where
  "printUsage progName = [Cerr (''Usage: '' @ progName @ '' [Configuration file]'' @ endl)]"

definition printVersion :: "string \<Rightarrow> printed list" where
  "printVersion version = [Cout (SOFTWARE_NAME @ '' version '' @ version @ endl)]"

definition printHelp :: "string \<Rightarrow> printed list" where
  "printHelp progName =
     [Cout (SOFTWARE_NAME @ '' - A simple HTTP Server program.'' @ endl), Cout endl] @ printUsage progName @
     [Cout endl, Cout (''Options:'' @ endl), Cout (''  -h, --help       Show this help message and exit.'' @ endl),
      Cout (''  -v, --version    Show program's version number and exit.'' @ endl)]"

section \<open>The process\<close>

text \<open>A process that has ended has its status, what it printed, and the server as its destructor left
  it, where there was one.\<close>

datatype process = Ended int "printed list" "Server option" | Serving Server

definition with_vhosts :: "Config list \<Rightarrow> (Env \<times> Turn) list \<Rightarrow> (Env \<times> Turn) list" where
  "with_vhosts configs = map (\<lambda>(env, t). (env\<lparr>en_vhosts := configs\<rparr>, t))"

definition failed_with :: "exn \<Rightarrow> Server option \<Rightarrow> process" where
  "failed_with e sv = Ended 1 [Fatal e] sv"

record Machine =
  mc_read :: "string \<Rightarrow> string option"
  mc_numeric_host :: "string \<Rightarrow> bool"
  mc_opens :: "ListenKey \<Rightarrow> open_outcome"
  mc_sessions :: SessionManager
  mc_random :: Random

definition serve :: "Machine \<Rightarrow> (Env \<times> Turn) list \<Rightarrow> string \<Rightarrow> process option" where
  "serve mc ts configFile =
     (case import_configs (mc_read mc) (mc_numeric_host mc) configFile of
        None \<Rightarrow> None
      | Some (Inl e) \<Rightarrow> Some (failed_with e None)
      | Some (Inr configs) \<Rightarrow>
          (case new_Server configs (mc_opens mc) (mc_sessions mc) (mc_random mc) of
             Inl e \<Rightarrow> Some (failed_with e None)
           | Inr sv \<Rightarrow>
               (case run_turns (with_vhosts configs ts) sv of
                  None \<Rightarrow> None
                | Some (Some e, sv1) \<Rightarrow> Some (failed_with e (Some (end_Server sv1)))
                | Some (None, sv1) \<Rightarrow> Some (Serving sv1))))"

definition webserv :: "Machine \<Rightarrow> (Env \<times> Turn) list \<Rightarrow> string list \<Rightarrow> process option" where
  "webserv mc ts argv =
     (case argv of
        [] \<Rightarrow> None
      | [progName] \<Rightarrow> serve mc ts ''config/default.yaml''
      | [progName, arg] \<Rightarrow>
          (if arg = ''-h'' \<or> arg = ''--help'' then Some (Ended 0 (printHelp progName) None)
           else if arg = ''-v'' \<or> arg = ''--version'' then Some (Ended 0 (printVersion VERSION) None)
           else serve mc ts arg)
      | progName # _ \<Rightarrow> Some (Ended 1 (printUsage progName) None))"

text \<open>The exit status is 0 only for a question about the program itself; a server that ends, or never
  starts, ends the process with status 1 and its exception.\<close>

theorem exit_status:
  assumes "webserv mc ts (progName # args) = Some (Ended status out sv)"
  shows "(status = 0 \<longleftrightarrow> length args = 1 \<and> hd args \<in> {''-h'', ''--help'', ''-v'', ''--version''}) \<and>
    (status \<noteq> 0 \<longrightarrow> status = 1 \<and> (out = printUsage progName \<or> (\<exists>e. out = [Fatal e])))"
proof -
  have serve: "st = 1 \<and> (\<exists>e. o' = [Fatal e])" if "serve mc ts path = Some (Ended st o' s')" for path st o' s'
    using that by (auto simp: serve_def failed_with_def split: option.splits sum.splits prod.splits)
  show ?thesis
  proof (cases args)
    case Nil
    then show ?thesis using assms serve by (fastforce simp: webserv_def)
  next
    case (Cons arg rest)
    then show ?thesis using assms serve [of arg status out sv]
      by (cases rest) (auto simp: webserv_def split: if_splits)
  qed
qed

end
