(* ===== verification/Conformance.thy ===== *)
theory Conformance
  imports Base64 PathLib RequestParser SessionMgr
begin

text \<open>
  The unit tests of the repository (the \<open>test\<close> directories under \<open>src\<close>), evaluated on the model: what
  they expect of the code holds of the definitions.
\<close>

section \<open>Texts\<close>

text \<open>\<open>Lib/Base64/test/Base64Test.cpp\<close>.\<close>

lemma test_base64:
  "list_all (\<lambda>(input, expected). encode input = expected \<and> decode expected = input)
     [([], []), (''f'', ''Zg==''), (''fo'', ''Zm8=''), (''foo'', ''Zm9v''), (''foob'', ''Zm9vYg==''),
      (''fooba'', ''Zm9vYmE=''), (''foobar'', ''Zm9vYmFy''), (''Man'', ''TWFu''),
      (''Hello, World!'', ''SGVsbG8sIFdvcmxkIQ==''),
      (''Base64 encode/decode test.'', ''QmFzZTY0IGVuY29kZS9kZWNvZGUgdGVzdC4='')]"
  by code_simp

text \<open>\<open>Lib/Path/test/main.cpp\<close>.\<close>

lemma test_normalize:
  "list_all (\<lambda>(path, expected). normalize path = expected)
     [(''/a/b/c'', ''/a/b/c''), (''/a/b/../c'', ''/a/c''), (''/a/./b/c/'', ''/a/b/c''), (''//a//b'', ''/a/b''),
      (''/'', ''/''), (''.'', ''.''), (''..'', ''..''), (''/..'', ''/''), (''/a/../../b'', ''/b''), (''a/../b'', ''b''),
      ([], ''.''), (''a/b/../../..'', ''..''), (''../../a'', ''../../a''), (''/a/b/..'', ''/a''), (''a/b/../..'', ''.''),
      (''/a/./b/.././../cpop'', ''/cpop''), (''////a////b'', ''/a/b''), (''a/..'', ''.''), (''../'', ''..''),
      (''./../a'', ''../a''), (''./'', ''.'')]"
  by code_simp

text \<open>\<open>Http/Mime/test/MimeTypeTest.cpp\<close>: the known extensions and the edge cases.\<close>

lemma test_mime:
  "list_all (\<lambda>(name, expected). getMimeType name = expected)
     [(''file.html'', ''text/html''), (''file.css'', ''text/css''), (''file.js'', ''application/javascript''),
      (''file.json'', ''application/json''), (''file.xml'', ''application/xml''), (''file.pdf'', ''application/pdf''),
      (''file.zip'', ''application/zip''), (''file.txt'', ''text/plain''), (''file.jpeg'', ''image/jpeg''),
      (''file.jpg'', ''image/jpeg''), (''file.png'', ''image/png''), (''file.gif'', ''image/gif''),
      (''file.bmp'', ''image/bmp''), (''file.ico'', ''image/x-icon''), (''file.svg'', ''image/svg+xml''),
      (''file.mp3'', ''audio/mpeg''), (''file.mp4'', ''video/mp4''), (''file.webm'', ''video/webm''),
      (''file.wav'', ''audio/wav''), (''file.ttf'', ''font/ttf''), (''file.otf'', ''font/otf''),
      (''file.woff'', ''font/woff''), (''file.woff2'', ''font/woff2''), (''file.eot'', ''application/vnd.ms-fontobject''),
      ([], ''application/octet-stream''), (''.'', ''application/octet-stream''), (''.HTML'', ''text/html''),
      (''.Js'', ''application/javascript''), (''.UNKNOWNEXT'', ''application/octet-stream'')]"
  by code_simp

text \<open>\<open>Middleware/SubPipeline/Session/test/parse_cookie_field_test.cpp\<close>.\<close>

lemma test_cookies:
  "list_all (\<lambda>(cookie, expected). parseCookieField cookie = expected)
     [(''a=b'', [(''a'', ''b'')]),
      ('' foo=bar ; baz = qux ;z=1 '', [(''baz'', ''qux''), (''foo'', ''bar''), (''z'', ''1'')]),
      (''empty=;novalue'', [(''empty'', []), (''novalue'', [])]),
      (''k='' @ [DQ] @ ''v1;v2'' @ [DQ] @ ''; x=y'', [(''k'', ''v1;v2''), (''x'', ''y'')]),
      (''q='' @ [DQ] @ ''say'' @ [BSL, DQ] @ ''hi'' @ [BSL, DQ, DQ], [(''q'', ''say'' @ [DQ] @ ''hi'' @ [DQ])]),
      (''b=foo'' @ [BSL], [(''b'', ''foo'' @ [BSL])]),
      ('' a = 1 ; b= '' @ [DQ] @ '' two '' @ [DQ] @ '' ; c =3 '', [(''a'', ''1''), (''b'', '' two ''), (''c'', ''3'')]),
      ('';;a=1;;b=2;;'', [(''a'', ''1''), (''b'', ''2'')]),
      (''p=path'' @ [BSL] @ ''to'' @ [BSL] @ ''file'', [(''p'', ''pathtofile'')]),
      (''s='' @ [DQ] @ ''a'' @ [BSL] @ '';b'' @ [DQ] @ ''; t=u'', [(''s'', ''a;b''), (''t'', ''u'')])]"
  by code_simp

section \<open>The head of a request\<close>

text \<open>\<open>Http/Parser/test/RequestLineParserTest.cpp\<close>: the error code, the method, the path, the version and the query.\<close>

definition line_result :: "string \<Rightarrow> (int option \<times> string \<times> string \<times> string \<times> (string, string) omap) option" where
  "line_result line =
     (case parse_line (new_HttpRequest two_locations) line of
        Inl e \<Rightarrow> None
      | Inr (req, err) \<Rightarrow> Some (err, rq_method req, rq_path req, rq_version req, rq_query req))"

lemma test_request_line:
  "line_result ''GET /index.html HTTP/1.1'' = Some (None, ''GET'', ''/index.html'', ''HTTP/1.1'', []) \<and>
   line_result ''POST /api?x=1&y=2 HTTP/1.0'' =
     Some (None, ''POST'', ''/api'', ''HTTP/1.0'', [(''x'', ''1''), (''y'', ''2'')]) \<and>
   map_option fst (line_result []) = Some (Some 400) \<and>
   map_option fst (line_result ''GET /index.html'') = Some (Some 400) \<and>
   map_option fst (line_result ''GET /index.html HTTP/2.0'') = Some (Some 505) \<and>
   line_result ''GET /path?key HTTP/1.1'' = Some (None, ''GET'', ''/path'', ''HTTP/1.1'', [(''key'', [])]) \<and>
   line_result ''GET /path?key= HTTP/1.1'' = Some (None, ''GET'', ''/path'', ''HTTP/1.1'', [(''key'', [])]) \<and>
   line_result ''GET /path?key=1&key=2 HTTP/1.1'' = Some (None, ''GET'', ''/path'', ''HTTP/1.1'', [(''key'', ''2'')])"
  by code_simp

text \<open>\<open>Http/Parser/test/RequestHeaderParserTest.cpp\<close>.\<close>

definition head_result :: "string \<Rightarrow> headers \<times> int option" where
  "head_result block = map_prod rq_headers id (parse_head (new_HttpRequest two_locations) block)"

lemma test_request_head:
  "head_result (''Host: example.com'' @ crlf @ ''Content-Type: text/plain'' @ crlf @ ''X-Test: 123'' @ crlf) =
     ([(''content-type'', [''text/plain'']), (''host'', [''example.com'']), (''x-test'', [''123''])], None) \<and>
   head_result (''  Foo-Bar '' @ [TAB] @ '' :  value '' @ [TAB] @ '' '' @ crlf) = ([(''foo-bar'', [''value''])], None) \<and>
   snd (head_result (''X-Dup: one'' @ crlf @ ''X-Dup: two'' @ crlf)) = Some 400 \<and>
   snd (head_result (''InvalidHeaderWithoutColon'' @ crlf)) = Some 400 \<and>
   head_result (''X-Empty: '' @ crlf) = ([(''x-empty'', [[]])], None)"
  by code_simp

section \<open>The body of a request\<close>

text \<open>
  \<open>Http/Parser/test/RequestBodyParserTest.cpp\<close>: the result, the error code and the body so far.  Its chunked
  body is an instance of the theorem of \<open>BodyChunks\<close> on encoded bodies.
\<close>

definition with_header :: "string \<Rightarrow> string \<Rightarrow> HttpRequest" where
  "with_header k v = (rq_addHeader k v (new_HttpRequest two_locations))\<lparr>rq_maxBodySize := 100\<rparr>"

lemma test_body_init:
  "snd (init_body (with_header ''Content-Length'' ''0'') 0 (reset_body 0)) = 0 \<and>
   snd (init_body (rq_addHeader ''Content-Length'' ''5'' (with_header ''Transfer-Encoding'' ''chunked'')) 0 (reset_body 0)) = 400 \<and>
   snd (init_body (with_header ''Transfer-Encoding'' ''gzip'') 0 (reset_body 0)) = 501"
  by code_simp

definition body_result :: "scan \<Rightarrow> (ParseResult \<times> int \<times> string \<times> string) option" where
  "body_result s =
     (case parse_body (\<lambda>_. 0) 0 s of
        Stop r e (rest, bp, req) \<Rightarrow> Some (r, e, rest, rq_body req) | _ \<Rightarrow> None)"

lemma test_body_identity:
  "body_result ([], reset_body 0, with_header ''Content-Length'' ''0'') = Some (PARSE_COMPLETE, 0, [], []) \<and>
   body_result (''abc'', reset_body 0, with_header ''Content-Length'' ''5'') = Some (PARSE_INCOMPLETE, 0, [], ''abc'') \<and>
   body_result (''abcde'', reset_body 0, with_header ''Content-Length'' ''5'') = Some (PARSE_COMPLETE, 0, [], ''abcde'')"
  by code_simp

end
