(* ===== verification/Spec2Isabelle.thy ===== *)
theory Spec2Isabelle
  imports Prelude StringOps Base64 PathLib URI Config HttpCore LineHead BodyParser BodyChunks
    RequestParser Resolver Tokens SessionMgr Handlers VHost Context Cgi CgiRun CgiChild Pipeline
    Timeouts Events Bootstrap Listeners Connection SplitReads Serving ServerLoop Descriptors ServerInv Startup ServerFacts CgiServed
    Survival Hazards Yaml ConfigBuild ConfigParse ConfigFacts LogForms Loggers Program Conformance
begin

text \<open>
  A model of the web server under \<open>src/\<close> (C++98, \<open>src/src\<close>), and what makes it correct.

  \<^bold>\<open>The program.\<close>  \<open>main\<close> reads a YAML file into one \<open>Config\<close> per virtual server and runs a
  \<open>Server\<close>: one thread around \<open>epoll\<close>.  A turn of its loop waits for events, lets the objects that
  are registered for a descriptor handle them (a new connection, a client that can be read or
  written, a pipe of a script), and then closes the connections whose deadline has come.  The bytes
  of a client are collected in the context of its connection; after each read the whole chain of
  middlewares runs over the context: parse the request line, the headers, choose the virtual
  server, check the limits, parse the body, redirect, set the connection header, route by location,
  and turn error codes into error pages.  The route of a location runs a session, a script or a
  handler for files.  The answer is built into the send buffer and written when the socket can take it.

  \<^bold>\<open>Theories, in the order of their dependencies.\<close>

  \<^item> \<open>Prelude\<close>: exceptions, results, characters, positions in strings, \<open>std::map\<close> as an ordered
    association list, with the locale that states the laws of a map and its interpretation.
  \<^item> \<open>StringOps\<close>, \<open>Base64\<close>, \<open>PathLib\<close>, \<open>URI\<close>, \<open>Tokens\<close>: \<open>src/Lib/StringOps\<close>, \<open>Base64\<close>, \<open>Path\<close>,
    \<open>src/Http/URI\<close> and \<open>src/Lib/Token\<close>.  Conversions are exact on the texts that fit in 64 bits,
    encoders are inverted by their decoders, normalisation leaves no dot components, draws from the
    random source stay in their range and cannot fail while the kernel gives bytes.
  \<^item> \<open>Config\<close>, \<open>Yaml\<close>, \<open>ConfigBuild\<close>, \<open>ConfigParse\<close>, \<open>ConfigFacts\<close>: \<open>src/Config\<close> and
    \<open>src/Lib/MyYAML\<close>, from the text of the file to the configurations.  Trees and configurations
    are well typed whatever the file holds; some checks of the source have no effect.
  \<^item> \<open>HttpCore\<close>, \<open>LineHead\<close>, \<open>BodyParser\<close>, \<open>BodyChunks\<close>, \<open>RequestParser\<close>: \<open>src/Http/Core\<close>,
    \<open>Builder\<close>, \<open>Mime\<close> and \<open>Parser\<close>.  The header store is a locale that requests and responses
    interpret.  The parsers are functions on the buffer that return the state they leave; the body
    reader does not depend on how the bytes were split into reads.
  \<^item> \<open>Resolver\<close>, \<open>Handlers\<close>: \<open>src/Http/Resolver\<close> and \<open>src/Handler\<close>.  What they do to the file
    system is a list of effects; the file system they ask is the record \<open>OS\<close>.
  \<^item> \<open>SessionMgr\<close>, \<open>VHost\<close>, \<open>Context\<close>: \<open>src/Session\<close>, \<open>src/Server/VHost\<close> and the context of a
    connection in \<open>src/Middleware/Core\<close>.
  \<^item> \<open>Cgi\<close>, \<open>CgiRun\<close>, \<open>CgiChild\<close>: \<open>src/Cgi\<close>: the environment and the output of a script, the
    worker and the table of workers as state machines in the parent, and the child up to \<open>execve\<close>.
  \<^item> \<open>Pipeline\<close>: \<open>src/Middleware\<close>.  A middleware is a function of its continuation; the locale
    \<open>chain_contract\<close> states what a property of all middlewares gives for a chain, and is
    interpreted for the properties of the routes and of the main chain.
  \<^item> \<open>Timeouts\<close>, \<open>Events\<close>, \<open>Bootstrap\<close>, \<open>Listeners\<close>, \<open>Connection\<close>, \<open>ServerLoop\<close>, \<open>Startup\<close>:
    \<open>src/Lib/Timeout\<close>, \<open>src/Server\<close> and \<open>src/Socket\<close>.  The state of the server is one record;
    a step of the loop is a function of it and of what the system answered.
  \<^item> \<open>SplitReads\<close>, \<open>Serving\<close>: the parts put together for one connection.  However its bytes are cut into
    reads, the pipeline gives a request the same result; a kept connection answers requests for files
    one after another, each with its file.
  \<^item> \<open>Descriptors\<close>, \<open>ServerInv\<close>, \<open>ServerFacts\<close>: the invariant of the server, that every micro step of
    the loop keeps, and what follows for whole turns.
  \<^item> \<open>Survival\<close>: which exceptions can leave the loop; \<open>Hazards\<close>: where destroyed objects are used.
  \<^item> \<open>Program\<close>: \<open>src/main.cpp\<close> and the texts of \<open>src/Lib/Message/Help.cpp\<close>, with the exit status.
  \<^item> \<open>LogForms\<close>, \<open>Loggers\<close>: \<open>src/Lib/Logger\<close>, \<open>src/Lib/Time\<close> and \<open>src/Server/Logging\<close>: the two
    formats of a log line, sinks with rotation on a disk of names and inodes, and the two loggers.
  \<^item> \<open>CgiServed\<close>: the same for a script, from its start to its answer: its output in any reads, the
  end of its process at any moment, and the one answer its client is sent.
  \<^item> \<open>Conformance\<close>: what the unit tests of the repository expect, evaluated on the model.

  This theory holds the properties that span the components: what is imported from a file is what
  the server needs in order not to be stopped by what it is asked, and to route as the configuration
  says.

  \<^bold>\<open>Conventions.\<close>  A \<open>std::string\<close> is a list of bytes; \<open>size_t\<close> values that the source computes with
  are 64-bit words and wrap around; lengths of strings are natural numbers; \<open>time_t\<close> is an integer.
  A C++ exception is the left case of a sum, and an operation that changes an object in place
  before it throws returns the object as well.  Output parameters are returned.  A pointer to a session
  is its key, to a client the address \<open>cn_addr\<close>, which is never reused, to a virtual server its
  index; \<open>sv_dangling\<close> is set where the source uses a client after destroying it.  The result
  \<open>None\<close> of a function is a call that does not return; in \<open>Yaml\<close> and \<open>Loggers\<close> it is undefined behaviour.

  \<^bold>\<open>What the system answers\<close> is an argument: the clock, the fields of \<open>OS\<close> (\<open>stat\<close>, \<open>realpath\<close>,
  \<open>open\<close>, \<open>access\<close>), the answers of \<open>read\<close>, \<open>write\<close>, \<open>recv\<close>, \<open>send\<close>, \<open>accept\<close>, \<open>fork\<close> and \<open>waitpid\<close> in
  the records \<open>Env\<close>, \<open>Io\<close> and \<open>Turn\<close>, the outcome of opening a listening socket (\<open>opens\<close>), the text
  of the configuration file (\<open>read\<close>), whether \<open>getaddrinfo\<close> takes an interface (\<open>numeric_host\<close>), the
  random bytes.  Where a theorem assumes something of them it says so: \<open>calm_turns\<close> that the kernel
  hands out descriptors that are not open and that an accepted one is not recorded by a worker that
  runs, \<open>steady\<close> that the random source does not fail.  The last section of \<open>ServerFacts\<close> shows what happens
  without the second half of \<open>calm_turns\<close>.

  \<^bold>\<open>Bounds.\<close>  Choosing a virtual server restarts the main chain, so \<open>main_handle\<close> has fuel;
  a theorem of \<open>Pipeline\<close> shows that two is enough, because the chosen server chooses itself.  The other
  loops are structural, or \<open>function\<close>s with a measure, or \<open>partial_function\<close>s where the source may
  loop for ever (a draw that is always rejected).  The reader of JSON in \<open>LogForms\<close> is bounded by
  the length of its input.  A list of turns is as long as one likes.

  \<^bold>\<open>Not modelled.\<close>  Diagnostics that the components write to the log in passing (what a log call
  does is in \<open>Loggers\<close>), so that the server and the loggers are two models; what is printed to
  decorate the terminal (\<open>Art\<close>, colours, a YAML tree); the socket options of a listening socket,
  which are one outcome; destructors that only free memory; getters that are fields of a record;
  the test programs.
\<close>

section \<open>From the configuration file to the answer\<close>

lemma imported_keyed:
  assumes "import_configs read numeric_host configFile = Some (Inr configs)" "c \<in> set configs"
  shows "well_keyed c" "has_default c"
proof -
  have ok: "config_ok numeric_host c" using imported_ok [OF assms(1)] assms(2) by (simp add: list_all_iff)
  then show "has_default c" by (simp add: config_ok_def has_default_def)
  from ok show "well_keyed c" by (auto simp: config_ok_def well_keyed_def location_ok_def)
qed



text \<open>Once a request has been read, not even that: with the imported configurations as virtual servers,
  no exception leaves the pipeline, whatever the request holds, whatever virtual server and location
  it is for, and whatever the file system and the scripts do.\<close>

lemma imported_never_throws:
  assumes "import_configs read numeric_host configFile = Some (Inr (en_vhosts env))"
    and "complete_ctx s" "cx_conf (fst s) \<in> set (en_vhosts env)"
    and "cl_activeVhost (cx_ownerClient (fst s)) < length (en_vhosts env)" "steady (wo_random (snd s))"
  shows "main_handle k env conf s \<noteq> Some (Some e, s')"
proof (rule answering_never_throws)
  show "sound_servers env" using imported_keyed(2) [OF assms(1)] by (simp add: sound_servers_def)
  show "able True env s" using imported_keyed(2) [OF assms(1,3)] assms(2,4,5) by (simp add: able_def serving_def)
qed

text \<open>C14: a server that was configured from a file never limits a request by one location and serves it
  by another: for every path that starts with a slash, the chain that the router runs is the one
  built for the location that the look-up of limits and handlers gives.\<close>

theorem imported_router_agrees:
  assumes "import_configs read numeric_host configFile = Some (Inr configs)" "conf \<in> set configs"
    and "prefix ''/'' path"
  shows "\<exists>loc. getLocation conf path = Inr loc \<and> best_route (build_routes conf) path = Some (route_chain loc)"
  using router_agrees [OF imported_keyed(1) [OF assms(1,2)] _ assms(3)] imported_keyed(2) [OF assms(1,2)]
  by (simp add: has_default_def)

theorem imported_router_agrees_witness:
  "\<exists>loc. getLocation small_config ''/a'' = Inr loc \<and> best_route (build_routes small_config) ''/a'' = Some (route_chain loc)"
  by (rule imported_router_agrees [OF small_import]) simp_all

end
